(* ===== verification/Prelude.thy ===== *)
theory Prelude
  imports Main "HOL-Library.Word" "HOL-Library.List_Lexorder"
begin

text \<open>
  Shared vocabulary of the development: Python strings as lists of code points, bytes objects
  as lists of 8-bit words, the exceptions of the program as one datatype, results as sums
  (\<open>Inl\<close> the exception, \<open>Inr\<close> the value), the dynamically typed values that travel through
  JSON, and the two locales most components interpret: \<open>codec\<close> (an encoder with a decoder
  that undoes it) and \<open>guarded_machine\<close> (a fallible step function with an invariant).
\<close>

section \<open>Collections of facts\<close>

named_theorems result_simps \<open>rewrite rules for the result combinators\<close>
named_theorems codec_simps \<open>decoder applied to encoder\<close>
named_theorems inv_intros \<open>invariant preservation, one rule per operation\<close>

section \<open>Strings and bytes\<close>

text \<open>
  A Python \<^verbatim>\<open>str\<close> is a sequence of Unicode code points (lone surrogates included), a
  \<^verbatim>\<open>bytes\<close> object a sequence of octets. Comparing two strings compares code points
  lexicographically, which is the order \<open>HOL-Library.List_Lexorder\<close> puts on lists.
\<close>

type_synonym pystr = "nat list"
type_synonym byte = "8 word"
type_synonym bytes = "byte list"

definition lit :: "string \<Rightarrow> pystr" where
  "lit s = map of_char s"

lemma lit_simps [simp]:
  "lit [] = []"
  "lit (c # cs) = of_char c # lit cs"
  by (simp_all add: lit_def)

lemma lit_append: "lit (a @ b) = lit a @ lit b"
  by (simp add: lit_def)

lemma length_lit [simp]: "length (lit s) = length s"
  by (simp add: lit_def)

lemma lit_inj: "lit a = lit b \<longleftrightarrow> a = b"
proof -
  have "inj (of_char :: char \<Rightarrow> nat)" by (rule inj_onI) simp
  then show ?thesis by (simp add: lit_def inj_map_eq_map)
qed

text \<open>The octet with a given value (reduced modulo 256).\<close>

definition byte_of :: "nat \<Rightarrow> byte" where
  "byte_of n = word_of_nat n"

lemma unat_byte_of_nat [simp]: "n < 256 \<Longrightarrow> unat (byte_of n) = n"
  by (simp add: byte_of_def unat_of_nat)

lemma byte_of_unat [simp]: "byte_of (unat b) = b"
  by (simp add: byte_of_def)

lemma unat_byte_less [simp]: "unat (b :: byte) < 256"
  using unsigned_less [of b] by simp

lemma byte_eq_iff_unat: "(a :: byte) = b \<longleftrightarrow> unat a = unat b"
  by (simp add: word_unat_eq_iff)

section \<open>Exceptions and results\<close>

text \<open>
  The machine-readable \<^verbatim>\<open>reason\<close> of \<^verbatim>\<open>EvidenceValidationError\<close>
  (\<^verbatim>\<open>pqc_evidence/models.py\<close>). Message texts are not modelled, except where the program
  stores them.
\<close>

datatype reason =
    malformed_evidence
  | oversized_evidence
  | unsupported_algorithm
  | unsupported_format_version

datatype exn =
    CanonicalizationError
  | EvidenceValidationError reason
  | KeyRegistryError
  | StateStoreError
  | StateCorruptionError
  | StateLockError
  | EvidenceStoreError
  | TransactionAborted
  | EvidenceStateDivergence
  | SignerError
  | BackendError
  | BackendUnavailableError
  | VerifierError
  | CollectorError
  | JSONDecodeError
  | UnicodeError
  | ValueError
  | TypeError
  | KeyError
  | IndexError
  | AttributeError
  | OverflowError
  | OSError
  | RuntimeError
  | BadZipFile
  | ZlibError
  | ArchiveError pystr
  | UnsupportedCaptureError
  | PcapTraversalError
  | PcapNotFoundError
  | ArgumentTypeError
  | ConfigError
  | ValidationError
  | HTTPException nat
  | Fault pystr

type_synonym 'a res = "exn + 'a"

text \<open>\<^verbatim>\<open>isinstance(e, BackendError)\<close>: the class and its subclass.\<close>

abbreviation is_backend_error :: "exn \<Rightarrow> bool" where
  "is_backend_error e \<equiv> e = BackendError \<or> e = BackendUnavailableError"

definition rbind :: "'a res \<Rightarrow> ('a \<Rightarrow> 'b res) \<Rightarrow> 'b res" where
  "rbind r f = (case r of Inl e \<Rightarrow> Inl e | Inr x \<Rightarrow> f x)"

text \<open>\<open>require c e k\<close>: raise \<open>e\<close> unless \<open>c\<close> holds, else go on with \<open>k\<close>.\<close>

definition require :: "bool \<Rightarrow> exn \<Rightarrow> 'a res \<Rightarrow> 'a res" where
  "require c e k = (if c then k else Inl e)"

lemma rbind_simps [simp, result_simps]:
  "rbind (Inl e) f = Inl e"
  "rbind (Inr x) f = f x"
  by (simp_all add: rbind_def)

lemma rbind_Inr_iff [result_simps]:
  "rbind r f = Inr y \<longleftrightarrow> (\<exists>x. r = Inr x \<and> f x = Inr y)"
  by (cases r) simp_all

lemma rbind_Inl_iff [result_simps]:
  "rbind r f = Inl e \<longleftrightarrow> r = Inl e \<or> (\<exists>x. r = Inr x \<and> f x = Inl e)"
  by (cases r) simp_all

lemma rbind_cong:
  "\<lbrakk>r = r'; \<And>x. r' = Inr x \<Longrightarrow> f x = g x\<rbrakk> \<Longrightarrow> rbind r f = rbind r' g"
  by (cases r') simp_all

lemma require_simps [simp, result_simps]:
  "require True e k = k"
  "require False e k = Inl e"
  by (simp_all add: require_def)

lemma require_Inr_iff [result_simps]: "require c e k = Inr y \<longleftrightarrow> c \<and> k = Inr y"
  by (simp add: require_def)

lemma require_Inl_iff [result_simps]:
  "require c e k = Inl x \<longleftrightarrow> (\<not> c \<and> x = e) \<or> (c \<and> k = Inl x)"
  by (auto simp: require_def)

definition is_ok :: "'a res \<Rightarrow> bool" where
  "is_ok r = (case r of Inl _ \<Rightarrow> False | Inr _ \<Rightarrow> True)"

lemma is_ok_simps [simp]: "\<not> is_ok (Inl e)" "is_ok (Inr x)"
  by (simp_all add: is_ok_def)

lemma is_ok_iff: "is_ok r \<longleftrightarrow> (\<exists>x. r = Inr x)"
  by (cases r) simp_all

section \<open>Dynamically typed values\<close>

text \<open>
  What the program passes around as \<^verbatim>\<open>Any\<close>. A float is kept as the text that denotes it
  (the program never computes with one), with NaN and the infinities apart; \<open>PyObj\<close> is any
  object of a type that JSON does not know, carried with its \<^verbatim>\<open>str()\<close>. A dict is the list
  of its items in insertion order; a key is a string or something else.
\<close>

datatype pyfloat = FNan | FInf bool | FFin pystr

datatype pykey = KStr pystr | KOther pystr

datatype pyval =
    PyNone
  | PyBool bool
  | PyInt int
  | PyFloat pyfloat
  | PyStr pystr
  | PyBytes bytes
  | PyList "pyval list"
  | PyTuple "pyval list"
  | PyDict "(pykey \<times> pyval) list"
  | PyObj pystr

type_synonym pydict = "(pykey \<times> pyval) list"

definition dict_get :: "pydict \<Rightarrow> pystr \<Rightarrow> pyval option" where
  "dict_get d k = map_of d (KStr k)"

definition dict_keys :: "pydict \<Rightarrow> pykey list" where
  "dict_keys d = map fst d"

definition dict_has :: "pydict \<Rightarrow> pystr \<Rightarrow> bool" where
  "dict_has d k = (KStr k \<in> set (dict_keys d))"

text \<open>\<^verbatim>\<open>d[k]\<close>: a missing key raises \<^verbatim>\<open>KeyError\<close>.\<close>

definition dict_item :: "pydict \<Rightarrow> pystr \<Rightarrow> pyval res" where
  "dict_item d k = (case dict_get d k of None \<Rightarrow> Inl KeyError | Some v \<Rightarrow> Inr v)"

lemma dict_get_simps [simp]:
  "dict_get [] k = None"
  "dict_get ((KStr k', v) # d) k = (if k' = k then Some v else dict_get d k)"
  "dict_get ((KOther t, v) # d) k = dict_get d k"
  by (simp_all add: dict_get_def)

lemma dict_has_iff: "dict_has d k \<longleftrightarrow> dict_get d k \<noteq> None"
  by (auto simp: dict_has_def dict_get_def dict_keys_def map_of_eq_None_iff)

lemma dict_item_has: "dict_has d k \<Longrightarrow> \<exists>v. dict_item d k = Inr v"
  by (auto simp: dict_has_iff dict_item_def split: option.splits)

definition is_str :: "pyval \<Rightarrow> bool" where
  "is_str v = (case v of PyStr _ \<Rightarrow> True | _ \<Rightarrow> False)"

definition is_dict :: "pyval \<Rightarrow> bool" where
  "is_dict v = (case v of PyDict _ \<Rightarrow> True | _ \<Rightarrow> False)"

text \<open>\<^verbatim>\<open>isinstance(v, int) and not isinstance(v, bool)\<close>.\<close>

definition is_int :: "pyval \<Rightarrow> bool" where
  "is_int v = (case v of PyInt _ \<Rightarrow> True | _ \<Rightarrow> False)"

lemma is_type_simps [simp]:
  "is_str v \<longleftrightarrow> (\<exists>s. v = PyStr s)"
  "is_dict v \<longleftrightarrow> (\<exists>d. v = PyDict d)"
  "is_int v \<longleftrightarrow> (\<exists>i. v = PyInt i)"
  by (auto simp: is_str_def is_dict_def is_int_def split: pyval.splits)

text \<open>
  A case distinction that raises in all branches but one succeeds only through that one; as
  rewrite rules, these replace case splitting under an existential quantifier.
\<close>

lemma case_Inr_iff:
  "(case x of None \<Rightarrow> Inl e | Some y \<Rightarrow> f y) = Inr z \<longleftrightarrow> (\<exists>y. x = Some y \<and> f y = Inr z)"
  "(case r of Inl a \<Rightarrow> Inl (g a) | Inr y \<Rightarrow> h y) = Inr z \<longleftrightarrow> (\<exists>y. r = Inr y \<and> h y = Inr z)"
  "(case v of PyDict d \<Rightarrow> fd d | _ \<Rightarrow> Inl e) = Inr z \<longleftrightarrow> (\<exists>d. v = PyDict d \<and> fd d = Inr z)"
  "(case v of PyStr t \<Rightarrow> fs t | _ \<Rightarrow> Inl e) = Inr z \<longleftrightarrow> (\<exists>t. v = PyStr t \<and> fs t = Inr z)"
  "(case v of PyList l \<Rightarrow> fl l | _ \<Rightarrow> Inl e) = Inr z \<longleftrightarrow> (\<exists>l. v = PyList l \<and> fl l = Inr z)"
  "(case v of PyInt i \<Rightarrow> fi i | _ \<Rightarrow> Inl e) = Inr z \<longleftrightarrow> (\<exists>i. v = PyInt i \<and> fi i = Inr z)"
  by (auto split: option.splits sum.splits pyval.splits)

lemmas res_iff = rbind_Inr_iff require_Inr_iff case_Inr_iff

section \<open>Generic list facts\<close>

lemma takeWhile_append_stop:
  "\<lbrakk>\<forall>x\<in>set xs. P x; ys = [] \<or> \<not> P (hd ys)\<rbrakk> \<Longrightarrow> takeWhile P (xs @ ys) = xs"
  by (induction xs) (cases ys; simp)+

lemma dropWhile_append_stop:
  "\<lbrakk>\<forall>x\<in>set xs. P x; ys = [] \<or> \<not> P (hd ys)\<rbrakk> \<Longrightarrow> dropWhile P (xs @ ys) = ys"
  by (induction xs) (cases ys; simp)+

lemma length_dropWhile_less: "length (dropWhile P xs) \<le> length xs"
  by (induction xs) auto

section \<open>Insertion-ordered dictionaries\<close>

text \<open>
  A Python dict with keys of one type, as the list of its items: \<open>map_of\<close> is the lookup,
  \<open>adict_set\<close> the assignment (an existing key keeps its position), \<open>adict_del\<close> the deletion.
\<close>

fun adict_set :: "('k \<times> 'v) list \<Rightarrow> 'k \<Rightarrow> 'v \<Rightarrow> ('k \<times> 'v) list" where
  "adict_set [] k v = [(k, v)]"
| "adict_set ((k', v') # d) k v = (if k' = k then (k, v) # d else (k', v') # adict_set d k v)"

definition adict_del :: "('k \<times> 'v) list \<Rightarrow> 'k \<Rightarrow> ('k \<times> 'v) list" where
  "adict_del d k = filter (\<lambda>kv. fst kv \<noteq> k) d"

lemma map_of_adict_set [simp]: "map_of (adict_set d k v) = (map_of d)(k \<mapsto> v)"
  by (induction d k v rule: adict_set.induct) auto

lemma map_of_adict_del [simp]: "map_of (adict_del d k) x = (if x = k then None else map_of d x)"
  by (induction d) (auto simp: adict_del_def)

lemma adict_set_keys: "fst ` set (adict_set d k v) = insert k (fst ` set d)"
  by (induction d k v rule: adict_set.induct) (simp_all add: insert_commute)

lemma adict_set_distinct [simp]:
  "distinct (map fst (adict_set d k v)) \<longleftrightarrow> distinct (map fst d)"
  by (induction d k v rule: adict_set.induct) (auto simp: adict_set_keys)

lemma adict_set_fresh: "k \<notin> fst ` set d \<Longrightarrow> adict_set d k v = d @ [(k, v)]"
  by (induction d k v rule: adict_set.induct) auto

lemma adict_del_distinct: "distinct (map fst d) \<Longrightarrow> distinct (map fst (adict_del d k))"
  by (simp add: adict_del_def distinct_map_filter)

lemma adict_set_length:
  "length (adict_set d k v) = (if k \<in> fst ` set d then length d else Suc (length d))"
  by (induction d k v rule: adict_set.induct) auto

section \<open>Interfaces\<close>

text \<open>
  A codec: \<open>enc\<close> may refuse a value, \<open>dec\<close> may refuse a text, and a text that \<open>enc\<close>
  produced decodes to the value in its normal form. Everything that is signed, hashed or
  written to a file goes through such a pair, so injectivity (two values with one encoding
  have one normal form) is proved once here.
\<close>

locale codec =
  fixes enc :: "'a \<Rightarrow> 'b res"
    and dec :: "'b \<Rightarrow> 'a res"
    and dom :: "'a \<Rightarrow> bool"
    and norm :: "'a \<Rightarrow> 'a"
  assumes dec_enc: "\<lbrakk>dom x; enc x = Inr t\<rbrakk> \<Longrightarrow> dec t = Inr (norm x)"
begin

lemma enc_inj:
  assumes "dom x" "dom y" "enc x = Inr t" "enc y = Inr t"
  shows "norm x = norm y"
  using dec_enc [OF assms(1,3)] dec_enc [OF assms(2,4)] by simp

lemma enc_distinct:
  assumes "dom x" "dom y" "norm x \<noteq> norm y" "enc x = Inr t"
  shows "enc y \<noteq> Inr t"
  using enc_inj [OF assms(1,2,4)] assms(3) by blast

end

text \<open>A codec that never refuses a value of its domain.\<close>

locale total_codec = codec +
  assumes enc_total: "dom x \<Longrightarrow> \<exists>t. enc x = Inr t"
begin

lemma round_trip: "dom x \<Longrightarrow> rbind (enc x) dec = Inr (norm x)"
  using enc_total dec_enc by fastforce

lemma enc_eq_iff:
  assumes "dom x" "dom y" "\<And>z. dom z \<Longrightarrow> enc (norm z) = enc z"
  shows "enc x = enc y \<longleftrightarrow> norm x = norm y"
  using assms enc_total [OF assms(1)] enc_inj [OF assms(1,2)] by metis

end

text \<open>
  A machine that answers every input and may change its state whether the answer is a result
  or an exception: Python code that raises keeps what it had changed before. Every step on a
  legal input keeps the invariant, so every run does, whatever the callers do with the answers.
\<close>

locale guarded_machine =
  fixes step :: "'s \<Rightarrow> 'i \<Rightarrow> 'o \<times> 's"
    and inv :: "'s \<Rightarrow> bool"
    and legal :: "'i \<Rightarrow> bool"
  assumes step_inv: "\<lbrakk>inv s; legal i\<rbrakk> \<Longrightarrow> inv (snd (step s i))"
begin

fun run :: "'s \<Rightarrow> 'i list \<Rightarrow> 's" where
  "run s [] = s"
| "run s (i # is) = run (snd (step s i)) is"

lemma run_inv: "\<lbrakk>inv s; list_all legal is\<rbrakk> \<Longrightarrow> inv (run s is)"
  by (induction "is" arbitrary: s) (auto dest: step_inv)

lemma run_foldl: "run s is = foldl (\<lambda>s i. snd (step s i)) s is"
  by (induction "is" arbitrary: s) simp_all

lemma foldl_inv: "\<lbrakk>inv s; list_all legal is\<rbrakk> \<Longrightarrow> inv (foldl (\<lambda>s i. snd (step s i)) s is)"
  using run_inv by (simp add: run_foldl)

lemma run_append: "run s (is @ js) = run (run s is) js"
  by (induction "is" arbitrary: s) auto

end

text \<open>A machine with a quantity that no step lowers.\<close>

locale monotone_machine = guarded_machine +
  fixes rank :: "'a \<Rightarrow> int"
  assumes rank_step: "\<lbrakk>inv s; legal i\<rbrakk> \<Longrightarrow> rank s \<le> rank (snd (step s i))"
begin

lemma run_rank: "\<lbrakk>inv s; list_all legal is\<rbrakk> \<Longrightarrow> rank s \<le> rank (run s is)"
proof (induction "is" arbitrary: s)
  case (Cons i "is")
  have "rank s \<le> rank (snd (step s i))" using Cons.prems by (auto intro: rank_step)
  also have "\<dots> \<le> rank (run (snd (step s i)) is)" using Cons step_inv by auto
  finally show ?case by simp
qed simp

lemma foldl_rank: "\<lbrakk>inv s; list_all legal is\<rbrakk> \<Longrightarrow> rank s \<le> rank (foldl (\<lambda>s i. snd (step s i)) s is)"
  using run_rank by (simp add: run_foldl)

end

end
