(* ===== verification/PyText.thy ===== *)
theory PyText
  imports Prelude
begin

text \<open>
  The text codecs of Python's standard library that the program relies on, as executable
  functions: UTF-8 (strict, and with \<^verbatim>\<open>errors="replace"\<close>), decimal integers, base64 with
  \<^verbatim>\<open>validate=True\<close>, and \<^verbatim>\<open>str.strip\<close>. Base64 follows the documented grammar:
  groups of four, the padding completes the last group and nothing follows it. Each encoder is an interpretation of \<open>total_codec\<close>.
\<close>

section \<open>UTF-8\<close>

text \<open>A code point that has a UTF-8 form: not a surrogate, at most \<^verbatim>\<open>0x10FFFF\<close>.\<close>

definition scalar :: "nat \<Rightarrow> bool" where
  "scalar c \<longleftrightarrow> c < 0xD800 \<or> (0xDFFF < c \<and> c < 0x110000)"

definition utf8_char :: "nat \<Rightarrow> bytes" where
  "utf8_char c = map byte_of
     (if c < 128 then [c]
      else if c < 2048 then [192 + c div 64, 128 + c mod 64]
      else if c < 65536 then [224 + c div 4096, 128 + c div 64 mod 64, 128 + c mod 64]
      else [240 + c div 262144, 128 + c div 4096 mod 64, 128 + c div 64 mod 64, 128 + c mod 64])"

definition utf8_encode :: "pystr \<Rightarrow> bytes res" where
  "utf8_encode s = (if list_all scalar s then Inr (concat (map utf8_char s)) else Inl UnicodeError)"

definition between :: "nat \<Rightarrow> nat \<Rightarrow> byte \<Rightarrow> bool" where
  "between lo hi b \<longleftrightarrow> lo \<le> unat b \<and> unat b \<le> hi"

abbreviation cont :: "byte \<Rightarrow> bool" where
  "cont \<equiv> between 128 191"

text \<open>
  One step of the decoder: the code point that starts here, or \<open>None\<close> for an ill-formed
  sequence; the second component is the input after the sequence (after its longest
  well-formed prefix when it is ill-formed).
\<close>

definition utf8_next :: "byte \<Rightarrow> bytes \<Rightarrow> nat option \<times> bytes" where
  "utf8_next b r =
     (let n = unat b in
      if n < 128 then (Some n, r)
      else if 194 \<le> n \<and> n \<le> 223 then
        (case r of
           c # r1 \<Rightarrow> if cont c then (Some ((n - 192) * 64 + (unat c - 128)), r1) else (None, r)
         | [] \<Rightarrow> (None, []))
      else if 224 \<le> n \<and> n \<le> 239 then
        (case r of
           c # r1 \<Rightarrow>
             if between (if n = 224 then 160 else 128) (if n = 237 then 159 else 191) c then
               (case r1 of
                  d # r2 \<Rightarrow>
                    if cont d
                    then (Some ((n - 224) * 4096 + (unat c - 128) * 64 + (unat d - 128)), r2)
                    else (None, r1)
                | [] \<Rightarrow> (None, []))
             else (None, r)
         | [] \<Rightarrow> (None, []))
      else if 240 \<le> n \<and> n \<le> 244 then
        (case r of
           c # r1 \<Rightarrow>
             if between (if n = 240 then 144 else 128) (if n = 244 then 143 else 191) c then
               (case r1 of
                  d # r2 \<Rightarrow>
                    if cont d then
                      (case r2 of
                         e # r3 \<Rightarrow>
                           if cont e
                           then (Some ((n - 240) * 262144 + (unat c - 128) * 4096
                                       + (unat d - 128) * 64 + (unat e - 128)), r3)
                           else (None, r2)
                       | [] \<Rightarrow> (None, []))
                    else (None, r1)
                | [] \<Rightarrow> (None, []))
             else (None, r)
         | [] \<Rightarrow> (None, []))
      else (None, r))"

lemma utf8_next_length: "length (snd (utf8_next b r)) \<le> length r"
  by (auto simp: utf8_next_def Let_def split: list.splits)

function utf8_decode :: "bytes \<Rightarrow> pystr res" where
  "utf8_decode [] = Inr []"
| "utf8_decode (b # r) =
     (case fst (utf8_next b r) of
        None \<Rightarrow> Inl UnicodeError
      | Some c \<Rightarrow> rbind (utf8_decode (snd (utf8_next b r))) (\<lambda>s. Inr (c # s)))"
  by pat_completeness auto
termination
  by (relation "measure length") (auto simp: le_imp_less_Suc utf8_next_length)

text \<open>\<^verbatim>\<open>bytes.decode("utf-8", errors="replace")\<close>: each ill-formed sequence is U+FFFD.\<close>

function utf8_decode_replace :: "bytes \<Rightarrow> pystr" where
  "utf8_decode_replace [] = []"
| "utf8_decode_replace (b # r) =
     (case fst (utf8_next b r) of None \<Rightarrow> 0xFFFD | Some c \<Rightarrow> c)
       # utf8_decode_replace (snd (utf8_next b r))"
  by pat_completeness auto
termination
  by (relation "measure length") (auto simp: le_imp_less_Suc utf8_next_length)

lemma utf8_next_seq:
  shows "n < 128 \<Longrightarrow> utf8_next (byte_of n) r = (Some n, r)"
    and "\<lbrakk>2 \<le> a; a < 32; d < 64\<rbrakk> \<Longrightarrow>
         utf8_next (byte_of (192 + a)) (byte_of (128 + d) # r) = (Some (a * 64 + d), r)"
    and "\<lbrakk>a < 16; d < 64; e < 64; a = 0 \<longrightarrow> 32 \<le> d; a = 13 \<longrightarrow> d \<le> 31\<rbrakk> \<Longrightarrow>
         utf8_next (byte_of (224 + a)) (byte_of (128 + d) # byte_of (128 + e) # r)
         = (Some (a * 4096 + d * 64 + e), r)"
    and "\<lbrakk>a < 5; d < 64; e < 64; f < 64; a = 0 \<longrightarrow> 16 \<le> d; a = 4 \<longrightarrow> d \<le> 15\<rbrakk> \<Longrightarrow>
         utf8_next (byte_of (240 + a))
           (byte_of (128 + d) # byte_of (128 + e) # byte_of (128 + f) # r)
         = (Some (a * 262144 + d * 4096 + e * 64 + f), r)"
  by (auto simp: utf8_next_def between_def Let_def)

lemma utf8_next_char:
  assumes "scalar c"
  shows "\<exists>b bs. utf8_char c = b # bs \<and> utf8_next b (bs @ r) = (Some c, r)"
proof -
  have c: "c < 0x110000" "\<not> (0xD800 \<le> c \<and> c \<le> 0xDFFF)"
    using assms by (auto simp: scalar_def)
  let ?d = "c mod 64" and ?e = "c div 64 mod 64" and ?f = "c div 4096 mod 64"
  have low: "c div 64 * 64 + ?d = c" "c div 64 = c div 4096 * 64 + ?e"
    "c div 4096 = c div 262144 * 64 + ?f" "?d < 64" "?e < 64" "?f < 64"
    using div_mult2_eq [of c 64 64] div_mult2_eq [of c 4096 64] by simp_all
  consider "c < 128" | "128 \<le> c" "c < 2048" | "2048 \<le> c" "c < 65536" | "65536 \<le> c"
    by linarith
  then show ?thesis
  proof cases
    case 1
    then show ?thesis by (simp add: utf8_char_def utf8_next_seq(1))
  next
    case 2
    then have "2 \<le> c div 64" "c div 64 < 32" by linarith+
    from utf8_next_seq(2) [OF this low(4)] low(1) show ?thesis using 2
      by (simp add: utf8_char_def)
  next
    case 3
    then have "c div 4096 < 16" "c div 4096 = 0 \<longrightarrow> 32 \<le> ?e" "c div 4096 = 13 \<longrightarrow> ?e \<le> 31"
      using low(1,2,4) c by linarith+
    moreover have "c div 4096 * 4096 + ?e * 64 + ?d = c" using low(1,2) by linarith
    ultimately show ?thesis using 3 utf8_next_seq(3) [OF _ low(5,4)] by (simp add: utf8_char_def)
  next
    case 4
    then have "c div 262144 < 5" "c div 262144 = 0 \<longrightarrow> 16 \<le> ?f" "c div 262144 = 4 \<longrightarrow> ?f \<le> 15"
      using low c by linarith+
    moreover have "c div 262144 * 262144 + ?f * 4096 + ?e * 64 + ?d = c"
      using low(1,2,3) by linarith
    ultimately show ?thesis using 4 utf8_next_seq(4) [OF _ low(6,5,4)] by (simp add: utf8_char_def)
  qed
qed

lemma utf8_decode_append:
  "list_all scalar s \<Longrightarrow>
   utf8_decode (concat (map utf8_char s) @ r) = rbind (utf8_decode r) (\<lambda>t. Inr (s @ t))"
proof (induction s)
  case Nil
  then show ?case by (cases "utf8_decode r") simp_all
next
  case (Cons c s)
  then obtain b bs where "utf8_char c = b # bs"
    "utf8_next b (bs @ concat (map utf8_char s) @ r) = (Some c, concat (map utf8_char s) @ r)"
    using utf8_next_char [of c "concat (map utf8_char s) @ r"] by auto
  with Cons show ?case by (cases "utf8_decode r") simp_all
qed

lemma utf8_replace_append:
  "list_all scalar s \<Longrightarrow>
   utf8_decode_replace (concat (map utf8_char s) @ r) = s @ utf8_decode_replace r"
proof (induction s)
  case Nil
  then show ?case by simp
next
  case (Cons c s)
  then obtain b bs where "utf8_char c = b # bs"
    "utf8_next b (bs @ concat (map utf8_char s) @ r) = (Some c, concat (map utf8_char s) @ r)"
    using utf8_next_char [of c "concat (map utf8_char s) @ r"] by auto
  with Cons show ?case by simp
qed

lemma utf8_encode_Inr: "utf8_encode s = Inr bs \<longleftrightarrow> list_all scalar s \<and> bs = concat (map utf8_char s)"
  by (auto simp: utf8_encode_def)

lemma utf8_encode_append:
  "\<lbrakk>utf8_encode s = Inr a; utf8_encode t = Inr b\<rbrakk> \<Longrightarrow> utf8_encode (s @ t) = Inr (a @ b)"
  by (auto simp: utf8_encode_Inr)

interpretation utf8: total_codec utf8_encode utf8_decode "list_all scalar" id
proof unfold_locales
  fix x t assume "list_all scalar x" "utf8_encode x = Inr t"
  then show "utf8_decode t = Inr (id x)"
    using utf8_decode_append [of x "[]"] by (simp add: utf8_encode_Inr)
qed (auto simp: utf8_encode_def)

lemmas [codec_simps] = utf8.dec_enc

lemma utf8_encode_length: "utf8_encode s = Inr bs \<Longrightarrow> length s \<le> length bs"
proof -
  have "length s \<le> length (concat (map utf8_char s))"
  proof (induction s)
    case (Cons a s)
    have "1 \<le> length (utf8_char a)" by (simp add: utf8_char_def)
    with Cons.IH show ?case
      unfolding list.map concat.simps length_append list.size by linarith
  qed simp
  then show "utf8_encode s = Inr bs \<Longrightarrow> ?thesis" by (simp add: utf8_encode_Inr)
qed

section \<open>Decimal integers\<close>

definition is_digit :: "nat \<Rightarrow> bool" where
  "is_digit c \<longleftrightarrow> 48 \<le> c \<and> c \<le> 57"

fun dec_nat :: "nat \<Rightarrow> pystr" where
  "dec_nat n = (if n < 10 then [48 + n] else dec_nat (n div 10) @ [48 + n mod 10])"

declare dec_nat.simps [simp del]

text \<open>\<^verbatim>\<open>str(i)\<close> for an integer.\<close>

definition dec_int :: "int \<Rightarrow> pystr" where
  "dec_int i = (if i < 0 then 45 # dec_nat (nat (- i)) else dec_nat (nat i))"

definition digits_val :: "pystr \<Rightarrow> nat" where
  "digits_val ds = foldl (\<lambda>a d. 10 * a + (d - 48)) 0 ds"

lemma digits_val_snoc: "digits_val (ds @ [d]) = 10 * digits_val ds + (d - 48)"
  by (simp add: digits_val_def)

lemma digits_val_dec_nat [simp, codec_simps]: "digits_val (dec_nat n) = n"
proof (induction n rule: dec_nat.induct)
  case (1 n)
  show ?case
  proof (cases "n < 10")
    case True
    then show ?thesis by (simp add: dec_nat.simps [of n] digits_val_def)
  next
    case False
    with 1 show ?thesis by (simp add: dec_nat.simps [of n] digits_val_snoc)
  qed
qed

lemma dec_nat_digits: "\<forall>d\<in>set (dec_nat n). is_digit d"
proof (induction n rule: dec_nat.induct)
  case (1 n)
  then show ?case by (auto simp: dec_nat.simps [of n] is_digit_def)
qed

lemma dec_nat_hd: "\<exists>d ds. dec_nat n = d # ds \<and> is_digit d \<and> (d = 48 \<longrightarrow> n = 0 \<and> ds = [])"
proof (induction n rule: dec_nat.induct)
  case (1 n)
  show ?case
  proof (cases "n < 10")
    case True
    then show ?thesis by (simp add: dec_nat.simps [of n] is_digit_def)
  next
    case False
    then obtain d ds where "dec_nat (n div 10) = d # ds" "is_digit d" "d = 48 \<longrightarrow> n div 10 = 0"
      using 1 by blast
    with False show ?thesis by (auto simp: dec_nat.simps [of n])
  qed
qed

lemma dec_nat_length: "\<lbrakk>n < 10 ^ k; 0 < k\<rbrakk> \<Longrightarrow> length (dec_nat n) \<le> k"
proof (induction n arbitrary: k rule: dec_nat.induct)
  case (1 n)
  show ?case
  proof (cases "n < 10")
    case True
    with 1 show ?thesis by (simp add: dec_nat.simps [of n])
  next
    case False
    then obtain j where j: "k = Suc j" "0 < j" using 1 by (cases k; cases "k - 1") auto
    with 1 have "n div 10 < 10 ^ j" by (simp add: less_mult_imp_div_less mult.commute)
    with 1(1) [OF False _ j(2)] False j(1) show ?thesis by (simp add: dec_nat.simps [of n])
  qed
qed

section \<open>Whitespace\<close>

text \<open>The code points \<^verbatim>\<open>str.strip()\<close> removes (\<^verbatim>\<open>str.isspace\<close>).\<close>

definition py_space :: "nat \<Rightarrow> bool" where
  "py_space c \<longleftrightarrow> (9 \<le> c \<and> c \<le> 13) \<or> (28 \<le> c \<and> c \<le> 32) \<or> c = 133 \<or> c = 160 \<or> c = 5760
     \<or> (8192 \<le> c \<and> c \<le> 8202) \<or> c = 8232 \<or> c = 8233 \<or> c = 8239 \<or> c = 8287 \<or> c = 12288"

definition strip :: "pystr \<Rightarrow> pystr" where
  "strip s = rev (dropWhile py_space (rev (dropWhile py_space s)))"

lemma strip_id:
  assumes "s = [] \<or> (\<not> py_space (hd s) \<and> \<not> py_space (last s))"
  shows "strip s = s"
proof (cases s)
  case (Cons c cs)
  with assms have "dropWhile py_space s = s" by simp
  moreover have "dropWhile py_space (rev s) = rev s"
    using assms by (auto simp: hd_rev dropWhile_eq_self_iff)
  ultimately show ?thesis by (simp add: strip_def)
qed (simp add: strip_def)

lemma strip_snoc_space: "py_space c \<Longrightarrow> strip (s @ [c]) = strip s"
proof (cases "\<forall>x\<in>set s. py_space x")
  case True
  moreover assume "py_space c"
  ultimately show ?thesis
    by (simp add: strip_def dropWhile_append1 dropWhile_eq_Nil_conv [THEN iffD2])
next
  case False
  moreover assume "py_space c"
  ultimately show ?thesis
    by (auto simp: strip_def dropWhile_append1)
qed

section \<open>Base64\<close>

definition b64_char :: "nat \<Rightarrow> nat" where
  "b64_char v = (if v < 26 then 65 + v else if v < 52 then 97 + (v - 26)
                 else if v < 62 then 48 + (v - 52) else if v = 62 then 43 else 47)"

definition b64_val :: "nat \<Rightarrow> nat option" where
  "b64_val c = (if 65 \<le> c \<and> c \<le> 90 then Some (c - 65)
                else if 97 \<le> c \<and> c \<le> 122 then Some (c - 97 + 26)
                else if 48 \<le> c \<and> c \<le> 57 then Some (c - 48 + 52)
                else if c = 43 then Some 62 else if c = 47 then Some 63 else None)"

lemma b64_val_char [simp]: "v < 64 \<Longrightarrow> b64_val (b64_char v) = Some v"
  by (auto simp: b64_val_def b64_char_def)

lemma b64_val_less: "b64_val c = Some v \<Longrightarrow> v < 64"
  by (auto simp: b64_val_def split: if_splits)

lemma b64_char_neq_pad [simp]: "b64_char v \<noteq> 61"
  by (auto simp: b64_char_def)

text \<open>\<^verbatim>\<open>base64.b64encode(b).decode("ascii")\<close>.\<close>

fun b64encode :: "bytes \<Rightarrow> pystr" where
  "b64encode [] = []"
| "b64encode [a] = [b64_char (unat a div 4), b64_char (unat a mod 4 * 16), 61, 61]"
| "b64encode [a, b] =
     [b64_char (unat a div 4), b64_char (unat a mod 4 * 16 + unat b div 16),
      b64_char (unat b mod 16 * 4), 61]"
| "b64encode (a # b # c # r) =
     b64_char (unat a div 4) # b64_char (unat a mod 4 * 16 + unat b div 16)
     # b64_char (unat b mod 16 * 4 + unat c div 64) # b64_char (unat c mod 64) # b64encode r"

text \<open>
  \<^verbatim>\<open>base64.b64decode(s, validate=True)\<close>: groups of four alphabet characters, the last one
  padded. The unused low bits of a padded group are dropped, not checked.
\<close>

fun b64decode :: "pystr \<Rightarrow> bytes res" where
  "b64decode [] = Inr []"
| "b64decode (p # q # r # s # t) =
     (case (b64_val p, b64_val q, b64_val r, b64_val s) of
        (Some v, Some w, Some x, Some y) \<Rightarrow>
          rbind (b64decode t) (\<lambda>bs. Inr
            (byte_of (v * 4 + w div 16) # byte_of (w mod 16 * 16 + x div 4)
             # byte_of (x mod 4 * 64 + y) # bs))
      | (Some v, Some w, Some x, None) \<Rightarrow>
          (if s = 61 \<and> t = []
           then Inr [byte_of (v * 4 + w div 16), byte_of (w mod 16 * 16 + x div 4)]
           else Inl ValueError)
      | (Some v, Some w, None, None) \<Rightarrow>
          (if r = 61 \<and> s = 61 \<and> t = [] then Inr [byte_of (v * 4 + w div 16)]
           else Inl ValueError)
      | _ \<Rightarrow> Inl ValueError)"
| "b64decode _ = Inl ValueError"

lemma b64_pad_val [simp]: "b64_val 61 = None"
  by (simp add: b64_val_def)

lemma byte_join:
  fixes a :: byte
  shows "byte_of (unat a div 4 * 4 + unat a mod 4) = a"
    and "byte_of (unat a div 16 * 16 + unat a mod 16) = a"
    and "byte_of (unat a div 64 * 64 + unat a mod 64) = a"
  by simp_all

lemma unpack:
  fixes x y m :: nat
  assumes "x < m"
  shows "(y * m + x) div m = y" and "(y * m + x) mod m = x"
  using assms by simp_all

lemma byte_parts:
  fixes a b :: byte
  shows "unat a div 4 < 64" "unat a mod 4 * 16 < 64" "unat a mod 4 * 16 + unat b div 16 < 64"
    "unat a mod 16 * 4 < 64" "unat a mod 16 * 4 + unat b div 64 < 64" "unat a mod 64 < 64"
    "unat b div 16 < 16" "unat b div 64 < 4"
  using unat_byte_less [of a] unat_byte_less [of b] by linarith+

lemma b64decode_encode: "b64decode (b64encode bs) = Inr bs"
  by (induction bs rule: b64encode.induct)
    (simp_all add: byte_parts unpack byte_join)

interpretation b64: total_codec "\<lambda>b. Inr (b64encode b)" b64decode "\<lambda>_. True" id
  by unfold_locales (auto simp: b64decode_encode)

lemmas [codec_simps] = b64decode_encode

lemma b64encode_Nil_iff [simp]: "b64encode bs = [] \<longleftrightarrow> bs = []"
  by (cases bs rule: b64encode.cases) simp_all

section \<open>Reading text files\<close>

text \<open>
  Text mode: \<^verbatim>\<open>\r\n\<close> and \<^verbatim>\<open>\r\<close> become \<^verbatim>\<open>\n\<close> (universal newlines), and
  iterating the file yields the lines with their newline.
\<close>

fun universal_newlines :: "pystr \<Rightarrow> pystr" where
  "universal_newlines [] = []"
| "universal_newlines [c] = [if c = 13 then 10 else c]"
| "universal_newlines (c # d # r) =
     (if c = 13 then (if d = 10 then 10 # universal_newlines r else 10 # universal_newlines (d # r))
      else c # universal_newlines (d # r))"

fun split_lines :: "pystr \<Rightarrow> pystr list" where
  "split_lines [] = []"
| "split_lines (c # r) =
     (if c = 10 then [10] # split_lines r
      else (case split_lines r of [] \<Rightarrow> [[c]] | l # ls \<Rightarrow> (c # l) # ls))"

definition text_lines :: "pystr \<Rightarrow> pystr list" where
  "text_lines s = split_lines (universal_newlines s)"

lemma universal_newlines_id: "13 \<notin> set s \<Longrightarrow> universal_newlines s = s"
  by (induction s rule: universal_newlines.induct) auto

lemma split_lines_append:
  "10 \<notin> set l \<Longrightarrow> split_lines (l @ 10 # r) = (l @ [10]) # split_lines r"
  by (induction l) auto

lemma text_lines_concat:
  assumes "\<forall>l\<in>set ls. 10 \<notin> set l \<and> 13 \<notin> set l"
  shows "text_lines (concat (map (\<lambda>l. l @ [10]) ls)) = map (\<lambda>l. l @ [10]) ls"
proof -
  have "13 \<notin> set (concat (map (\<lambda>l. l @ [10]) ls))" using assms by auto
  moreover have "split_lines (concat (map (\<lambda>l. l @ [10]) ls)) = map (\<lambda>l. l @ [10]) ls"
    using assms by (induction ls) (auto simp: split_lines_append)
  ultimately show ?thesis by (simp add: text_lines_def universal_newlines_id)
qed

end
