(* ===== verification/PyJson.thy ===== *)
theory PyJson
  imports PyText
begin

text \<open>
  Python's \<^verbatim>\<open>json\<close> module as the program uses it: \<^verbatim>\<open>json.dumps\<close> on one line in the
  styles the program asks for (\<open>json_style\<close>), and \<^verbatim>\<open>json.loads\<close> with its
  \<^verbatim>\<open>object_pairs_hook\<close> and \<^verbatim>\<open>parse_constant\<close> hooks. The main result is that a text
  written by \<open>dumps\<close> is read back by \<open>loads\<close> as the same document in its normal form
  (\<open>canon\<close>: tuples as lists, object keys in the order of the style). The interpreter's limit
  of 4300 digits on the conversion between \<^verbatim>\<open>int\<close> and \<^verbatim>\<open>str\<close> is modelled (it is a
  \<^verbatim>\<open>ValueError\<close> in both directions); its recursion limit is not.
\<close>

section \<open>Writing\<close>

record json_style =
  sort_keys :: bool
  item_sep :: pystr
  key_sep :: pystr
  ensure_ascii :: bool
  allow_nan :: bool

text \<open>\<^verbatim>\<open>ensure_ascii=False, allow_nan=False, sort_keys=True, separators=(",", ":")\<close>.\<close>

definition canonical_style :: json_style where
  "canonical_style = \<lparr>sort_keys = True, item_sep = lit '','', key_sep = lit '':'',
                      ensure_ascii = False, allow_nan = False\<rparr>"

definition hex_digit :: "nat \<Rightarrow> nat" where
  "hex_digit v = (if v < 10 then 48 + v else 87 + v)"

definition hex4 :: "nat \<Rightarrow> pystr" where
  "hex4 n = [hex_digit (n div 4096 mod 16), hex_digit (n div 256 mod 16),
             hex_digit (n div 16 mod 16), hex_digit (n mod 16)]"

definition u_escape :: "nat \<Rightarrow> pystr" where
  "u_escape n = 92 # 117 # hex4 n"

definition esc_char :: "bool \<Rightarrow> nat \<Rightarrow> pystr" where
  "esc_char ascii c =
     (if c = 34 then [92, 34] else if c = 92 then [92, 92]
      else if c = 10 then [92, 110] else if c = 13 then [92, 114]
      else if c = 9 then [92, 116] else if c = 12 then [92, 102]
      else if c = 8 then [92, 98]
      else if c < 32 then u_escape c
      else if ascii \<and> 126 < c then
        (if c < 0x10000 then u_escape c
         else u_escape (0xD800 + (c - 0x10000) div 1024) @ u_escape (0xDC00 + (c - 0x10000) mod 1024))
      else [c])"

definition quote :: "bool \<Rightarrow> pystr \<Rightarrow> pystr" where
  "quote ascii s = 34 # concat (map (esc_char ascii) s) @ [34]"

fun join :: "pystr \<Rightarrow> pystr list \<Rightarrow> pystr" where
  "join sep [] = []"
| "join sep [t] = t"
| "join sep (t # ts) = t @ sep @ join sep ts"

lemma set_join: "set (join sep ts) \<subseteq> set sep \<union> (\<Union>t\<in>set ts. set t)"
  by (induction sep ts rule: join.induct) auto

definition dump_float :: "json_style \<Rightarrow> pyfloat \<Rightarrow> pystr res" where
  "dump_float st f =
     (case f of
        FFin t \<Rightarrow> Inr t
      | FNan \<Rightarrow> require (allow_nan st) ValueError (Inr (lit ''NaN''))
      | FInf neg \<Rightarrow> require (allow_nan st) ValueError
                      (Inr (lit (if neg then ''-Infinity'' else ''Infinity''))))"

definition member_text :: "json_style \<Rightarrow> pystr \<times> pystr \<Rightarrow> pystr" where
  "member_text st kt = quote (ensure_ascii st) (fst kt) @ key_sep st @ snd kt"

definition order_items :: "json_style \<Rightarrow> ('k::linorder \<times> 'v) list \<Rightarrow> ('k \<times> 'v) list" where
  "order_items st ts = (if sort_keys st then sort_key fst ts else ts)"

text \<open>
  \<^verbatim>\<open>json.dumps\<close>. An object of a type JSON does not know, or a dict with a key that is not a
  string, is a \<^verbatim>\<open>TypeError\<close>; an integer of more than 4300 digits a \<^verbatim>\<open>ValueError\<close>.
\<close>

definition MAX_STR_DIGITS :: nat where
  "MAX_STR_DIGITS = 4300"

definition int_digits_ok :: "int \<Rightarrow> bool" where
  "int_digits_ok i \<longleftrightarrow> length (dec_nat (nat \<bar>i\<bar>)) \<le> MAX_STR_DIGITS"

fun dumps :: "json_style \<Rightarrow> pyval \<Rightarrow> pystr res"
  and dumps_list :: "json_style \<Rightarrow> pyval list \<Rightarrow> pystr list res"
  and dumps_items :: "json_style \<Rightarrow> pydict \<Rightarrow> (pystr \<times> pystr) list res"
where
  "dumps st PyNone = Inr (lit ''null'')"
| "dumps st (PyBool b) = Inr (lit (if b then ''true'' else ''false''))"
| "dumps st (PyInt i) = require (int_digits_ok i) ValueError (Inr (dec_int i))"
| "dumps st (PyFloat f) = dump_float st f"
| "dumps st (PyStr s) = Inr (quote (ensure_ascii st) s)"
| "dumps st (PyList xs) =
     rbind (dumps_list st xs) (\<lambda>ts. Inr (91 # join (item_sep st) ts @ [93]))"
| "dumps st (PyTuple xs) =
     rbind (dumps_list st xs) (\<lambda>ts. Inr (91 # join (item_sep st) ts @ [93]))"
| "dumps st (PyDict d) =
     rbind (dumps_items st d)
       (\<lambda>ts. Inr (123 # join (item_sep st) (map (member_text st) (order_items st ts)) @ [125]))"
| "dumps st (PyBytes b) = Inl TypeError"
| "dumps st (PyObj t) = Inl TypeError"
| "dumps_list st [] = Inr []"
| "dumps_list st (x # xs) =
     rbind (dumps st x) (\<lambda>t. rbind (dumps_list st xs) (\<lambda>ts. Inr (t # ts)))"
| "dumps_items st [] = Inr []"
| "dumps_items st ((KStr k, v) # d) =
     rbind (dumps st v) (\<lambda>t. rbind (dumps_items st d) (\<lambda>ts. Inr ((k, t) # ts)))"
| "dumps_items st ((KOther k, v) # d) = Inl TypeError"

section \<open>Reading\<close>

definition jws :: "nat \<Rightarrow> bool" where
  "jws c \<longleftrightarrow> c = 32 \<or> c = 9 \<or> c = 10 \<or> c = 13"

definition skip_ws :: "pystr \<Rightarrow> pystr" where
  "skip_ws s = dropWhile jws s"

definition hex_val :: "nat \<Rightarrow> nat option" where
  "hex_val c = (if 48 \<le> c \<and> c \<le> 57 then Some (c - 48)
                else if 97 \<le> c \<and> c \<le> 102 then Some (c - 87)
                else if 65 \<le> c \<and> c \<le> 70 then Some (c - 55) else None)"

fun scan_u4 :: "pystr \<Rightarrow> nat option" where
  "scan_u4 (a # b # c # d # r) =
     (case (hex_val a, hex_val b, hex_val c, hex_val d) of
        (Some w, Some x, Some y, Some z) \<Rightarrow> Some (w * 4096 + x * 256 + y * 16 + z)
      | _ \<Rightarrow> None)"
| "scan_u4 _ = None"

definition unescape :: "nat \<Rightarrow> nat option" where
  "unescape e = (if e = 34 \<or> e = 92 \<or> e = 47 then Some e
                 else if e = 98 then Some 8 else if e = 102 then Some 12
                 else if e = 110 then Some 10 else if e = 114 then Some 13
                 else if e = 116 then Some 9 else None)"

definition push :: "nat \<Rightarrow> (pystr \<times> pystr) option \<Rightarrow> (pystr \<times> pystr) option" where
  "push c r = map_option (\<lambda>(s, rest). (c # s, rest)) r"

text \<open>
  The second half of a surrogate pair: \<open>\u\<close> and four hex digits of a low surrogate.
\<close>

definition low_half :: "pystr \<Rightarrow> nat option" where
  "low_half r =
     (case r of
        a # b # r' \<Rightarrow>
          (if a = 92 \<and> b = 117 then
             (case scan_u4 r' of
                Some w \<Rightarrow> if 0xDC00 \<le> w \<and> w \<le> 0xDFFF then Some w else None
              | None \<Rightarrow> None)
           else None)
      | _ \<Rightarrow> None)"

text \<open>A string literal after its opening quote: the decoded text and the rest of the input.\<close>

function scan_string :: "pystr \<Rightarrow> (pystr \<times> pystr) option" where
  "scan_string [] = None"
| "scan_string (c # cs) =
     (if c = 34 then Some ([], cs)
      else if c = 92 then
        (case cs of
           [] \<Rightarrow> None
         | e # r \<Rightarrow>
             if e = 117 then
               (case scan_u4 r of
                  None \<Rightarrow> None
                | Some u \<Rightarrow>
                    if 0xD800 \<le> u \<and> u \<le> 0xDBFF then
                      (case low_half (drop 4 r) of
                         Some w \<Rightarrow>
                           push (0x10000 + (u - 0xD800) * 1024 + (w - 0xDC00))
                             (scan_string (drop 10 r))
                       | None \<Rightarrow> push u (scan_string (drop 4 r)))
                    else push u (scan_string (drop 4 r)))
             else (case unescape e of None \<Rightarrow> None | Some x \<Rightarrow> push x (scan_string r)))
      else if c < 32 then None
      else push c (scan_string cs))"
  by pat_completeness auto
termination
  by (relation "measure length") auto

definition frac_part :: "pystr \<Rightarrow> pystr" where
  "frac_part s =
     (case s of
        c # d # r \<Rightarrow> if c = 46 \<and> is_digit d then c # takeWhile is_digit (d # r) else []
      | _ \<Rightarrow> [])"

definition exp_part :: "pystr \<Rightarrow> pystr" where
  "exp_part s =
     (case s of
        [] \<Rightarrow> []
      | c # r \<Rightarrow>
          if c = 101 \<or> c = 69 then
            (let sg = (case r of x # _ \<Rightarrow> if x = 43 \<or> x = 45 then [x] else [] | [] \<Rightarrow> []);
                 ds = takeWhile is_digit (drop (length sg) r)
             in if ds = [] then [] else c # sg @ ds)
          else [])"

definition int_part :: "pystr \<Rightarrow> pystr" where
  "int_part s = (if take 1 s = [48] then [48] else takeWhile is_digit s)"

text \<open>A number after its optional minus sign.\<close>

definition scan_unsigned :: "bool \<Rightarrow> pystr \<Rightarrow> (pyval \<times> pystr) option" where
  "scan_unsigned neg s =
     (let ip = int_part s;
          r1 = drop (length ip) s;
          fp = frac_part r1;
          r2 = drop (length fp) r1;
          ep = exp_part r2
      in if ip = [] then None
         else if fp = [] \<and> ep = []
         then Some (PyInt (if neg then - int (digits_val ip) else int (digits_val ip)), r1)
         else Some (PyFloat (FFin ((if neg then [45] else []) @ ip @ fp @ ep)),
                    drop (length ep) r2))"

definition scan_number :: "pystr \<Rightarrow> (pyval \<times> pystr) option" where
  "scan_number s = (if take 1 s = [45] then scan_unsigned True (tl s) else scan_unsigned False s)"

definition strip_prefix :: "pystr \<Rightarrow> pystr \<Rightarrow> pystr option" where
  "strip_prefix p s = (if take (length p) s = p then Some (drop (length p) s) else None)"

text \<open>The words that stand for a value: the JSON constants and Python's extensions.\<close>

definition scan_word :: "(pystr \<Rightarrow> pyval res) \<Rightarrow> pystr \<Rightarrow> (pyval res \<times> pystr) option" where
  "scan_word pconst s =
     (case strip_prefix (lit ''null'') s of Some r \<Rightarrow> Some (Inr PyNone, r) | None \<Rightarrow>
      (case strip_prefix (lit ''true'') s of Some r \<Rightarrow> Some (Inr (PyBool True), r) | None \<Rightarrow>
      (case strip_prefix (lit ''false'') s of Some r \<Rightarrow> Some (Inr (PyBool False), r) | None \<Rightarrow>
      (case strip_prefix (lit ''NaN'') s of Some r \<Rightarrow> Some (pconst (lit ''NaN''), r) | None \<Rightarrow>
      (case strip_prefix (lit ''Infinity'') s of
         Some r \<Rightarrow> Some (pconst (lit ''Infinity''), r) | None \<Rightarrow>
      (case strip_prefix (lit ''-Infinity'') s of
         Some r \<Rightarrow> Some (pconst (lit ''-Infinity''), r) | None \<Rightarrow> None))))))"

definition int_limit :: "pyval \<Rightarrow> unit res" where
  "int_limit v = (case v of PyInt i \<Rightarrow> require (int_digits_ok i) ValueError (Inr ()) | _ \<Rightarrow> Inr ())"

text \<open>
  The scanner. The fuel bounds the number of nested calls; \<open>scan_fuel\<close> below shows that
  \<open>2 * length s + 1\<close> units are enough for any input \<open>s\<close>.
\<close>

fun scan_value ::
    "((pystr \<times> pyval) list \<Rightarrow> pyval res) \<Rightarrow> (pystr \<Rightarrow> pyval res) \<Rightarrow> nat \<Rightarrow> pystr
     \<Rightarrow> (pyval \<times> pystr) res"
  and scan_elems ::
    "((pystr \<times> pyval) list \<Rightarrow> pyval res) \<Rightarrow> (pystr \<Rightarrow> pyval res) \<Rightarrow> nat \<Rightarrow> pystr
     \<Rightarrow> (pyval list \<times> pystr) res"
  and scan_members ::
    "((pystr \<times> pyval) list \<Rightarrow> pyval res) \<Rightarrow> (pystr \<Rightarrow> pyval res) \<Rightarrow> nat \<Rightarrow> pystr
     \<Rightarrow> ((pystr \<times> pyval) list \<times> pystr) res"
where
  "scan_value hook pconst 0 s = Inl JSONDecodeError"
| "scan_value hook pconst (Suc n) s =
     (case s of
        [] \<Rightarrow> Inl JSONDecodeError
      | c # cs \<Rightarrow>
          if c = 34 then
            (case scan_string cs of
               None \<Rightarrow> Inl JSONDecodeError | Some (t, r) \<Rightarrow> Inr (PyStr t, r))
          else if c = 123 then
            (if take 1 (skip_ws cs) = [125]
             then rbind (hook []) (\<lambda>v. Inr (v, drop 1 (skip_ws cs)))
             else rbind (scan_members hook pconst n (skip_ws cs))
                    (\<lambda>(kvs, r). rbind (hook kvs) (\<lambda>v. Inr (v, r))))
          else if c = 91 then
            (if take 1 (skip_ws cs) = [93] then Inr (PyList [], drop 1 (skip_ws cs))
             else rbind (scan_elems hook pconst n (skip_ws cs)) (\<lambda>(vs, r). Inr (PyList vs, r)))
          else
            (case scan_word pconst s of
               Some (v, r) \<Rightarrow> rbind v (\<lambda>x. Inr (x, r))
             | None \<Rightarrow>
                 (case scan_number s of
                    None \<Rightarrow> Inl JSONDecodeError
                  | Some (v, r) \<Rightarrow> rbind (int_limit v) (\<lambda>_. Inr (v, r)))))"
| "scan_elems hook pconst 0 s = Inl JSONDecodeError"
| "scan_elems hook pconst (Suc n) s =
     rbind (scan_value hook pconst n s) (\<lambda>(v, r).
       case skip_ws r of
         [] \<Rightarrow> Inl JSONDecodeError
       | d # r' \<Rightarrow>
           if d = 44 then
             rbind (scan_elems hook pconst n (skip_ws r')) (\<lambda>(vs, r2). Inr (v # vs, r2))
           else if d = 93 then Inr ([v], r')
           else Inl JSONDecodeError)"
| "scan_members hook pconst 0 s = Inl JSONDecodeError"
| "scan_members hook pconst (Suc n) s =
     (case s of
        [] \<Rightarrow> Inl JSONDecodeError
      | c # cs \<Rightarrow>
          if c \<noteq> 34 then Inl JSONDecodeError
          else
            (case scan_string cs of
               None \<Rightarrow> Inl JSONDecodeError
             | Some (k, r) \<Rightarrow>
                 if take 1 (skip_ws r) \<noteq> [58] then Inl JSONDecodeError
                 else
                   rbind (scan_value hook pconst n (skip_ws (drop 1 (skip_ws r)))) (\<lambda>(v, r2).
                     case skip_ws r2 of
                       [] \<Rightarrow> Inl JSONDecodeError
                     | d # r' \<Rightarrow>
                         if d = 44 then
                           rbind (scan_members hook pconst n (skip_ws r'))
                             (\<lambda>(kvs, r3). Inr ((k, v) # kvs, r3))
                         else if d = 125 then Inr ([(k, v)], r')
                         else Inl JSONDecodeError)))"

definition loads ::
  "((pystr \<times> pyval) list \<Rightarrow> pyval res) \<Rightarrow> (pystr \<Rightarrow> pyval res) \<Rightarrow> pystr \<Rightarrow> pyval res"
where
  "loads hook pconst s =
     (if take 1 s = [0xFEFF] then Inl JSONDecodeError
      else
        rbind (scan_value hook pconst (2 * length s + 1) (skip_ws s)) (\<lambda>(v, r).
          if skip_ws r = [] then Inr v else Inl JSONDecodeError))"

text \<open>
  The default \<^verbatim>\<open>dict(pairs)\<close>: a repeated key keeps its first position and its last value.
\<close>

fun dict_set :: "pydict \<Rightarrow> pykey \<Rightarrow> pyval \<Rightarrow> pydict" where
  "dict_set [] k v = [(k, v)]"
| "dict_set ((k', v') # d) k v = (if k' = k then (k, v) # d else (k', v') # dict_set d k v)"

definition dict_of_pairs :: "(pystr \<times> pyval) list \<Rightarrow> pyval res" where
  "dict_of_pairs kvs = Inr (PyDict (foldl (\<lambda>d (k, v). dict_set d (KStr k) v) [] kvs))"

definition python_constant :: "pystr \<Rightarrow> pyval res" where
  "python_constant name =
     Inr (PyFloat (if name = lit ''NaN'' then FNan else FInf (name = lit ''-Infinity'')))"

text \<open>Plain \<^verbatim>\<open>json.loads(text)\<close>.\<close>

definition json_loads :: "pystr \<Rightarrow> pyval res" where
  "json_loads = loads dict_of_pairs python_constant"

section \<open>Strings are read back as they were written\<close>

lemma hex_val_digit [simp]: "v < 16 \<Longrightarrow> hex_val (hex_digit v) = Some v"
  by (auto simp: hex_val_def hex_digit_def)

lemma scan_u4_hex4:
  assumes "n < 65536"
  shows "scan_u4 (hex4 n @ t) = Some n"
proof -
  have "n div 4096 mod 16 * 4096 + n div 256 mod 16 * 256 + n div 16 mod 16 * 16 + n mod 16 = n"
  proof -
    have "n div 256 = n div 4096 * 16 + n div 256 mod 16" "n div 16 = n div 256 * 16 + n div 16 mod 16"
      using div_mult2_eq [of n 256 16] div_mult2_eq [of n 16 16] by simp_all
    moreover have "n = n div 16 * 16 + n mod 16" "n div 4096 mod 16 = n div 4096"
      using assms by simp_all
    ultimately show ?thesis by linarith
  qed
  then show ?thesis by (simp add: hex4_def del: mod_mult_self1 mod_mult_self2 mod_less)
qed

lemma length_hex4 [simp]: "length (hex4 n) = 4"
  by (simp add: hex4_def)

lemma push_simps [simp]: "push c None = None" "push c (Some (s, r)) = Some (c # s, r)"
  by (simp_all add: push_def)

declare scan_string.simps [simp del]

lemma scan_string_close: "scan_string (34 # r) = Some ([], r)"
  by (simp add: scan_string.simps)

lemma scan_string_u:
  assumes "n < 65536" "n < 0xD800 \<or> 0xDFFF < n"
  shows "scan_string (u_escape n @ t) = push n (scan_string t)"
  using assms by (auto simp: u_escape_def scan_string.simps(2) scan_u4_hex4)

lemma scan_string_surrogates:
  assumes "0xD800 \<le> h" "h \<le> 0xDBFF" "0xDC00 \<le> l" "l \<le> 0xDFFF"
  shows "scan_string (u_escape h @ u_escape l @ t)
         = push (0x10000 + (h - 0xD800) * 1024 + (l - 0xDC00)) (scan_string t)"
proof -
  have "low_half (u_escape l @ t) = Some l"
    using assms by (simp add: low_half_def u_escape_def scan_u4_hex4)
  moreover have "drop 10 (hex4 h @ u_escape l @ t) = t"
    by (simp add: u_escape_def)
  ultimately show ?thesis
    using assms by (simp add: u_escape_def [of h] scan_string.simps(2) scan_u4_hex4)
qed

lemma scan_string_pair:
  assumes "0x10000 \<le> c" "c < 0x110000"
  shows "scan_string (u_escape (0xD800 + (c - 0x10000) div 1024)
           @ u_escape (0xDC00 + (c - 0x10000) mod 1024) @ t) = push c (scan_string t)"
proof -
  have "(c - 0x10000) div 1024 \<le> 1023" "(c - 0x10000) mod 1024 \<le> 1023"
    using assms by linarith+
  moreover have "0x10000 + (c - 0x10000) div 1024 * 1024 + (c - 0x10000) mod 1024 = c"
    using assms by simp
  ultimately show ?thesis
    by (subst scan_string_surrogates) simp_all
qed

lemma scan_string_esc:
  assumes "scalar c"
  shows "scan_string (esc_char a c @ t) = push c (scan_string t)"
proof -
  have "scan_string (92 # e # t) = push x (scan_string t)" if "unescape e = Some x" for e x
    using that by (auto simp: scan_string.simps(2) unescape_def)
  moreover have "scan_string (c # t) = push c (scan_string t)" if "32 \<le> c" "c \<noteq> 34" "c \<noteq> 92"
    using that by (simp add: scan_string.simps(2))
  ultimately show ?thesis
    using assms scan_string_u [of c t] scan_string_pair [of c t]
    by (auto simp: esc_char_def unescape_def scalar_def)
qed

lemma scan_string_quote:
  "list_all scalar s \<Longrightarrow> scan_string (concat (map (esc_char a) s) @ 34 # r) = Some (s, r)"
  by (induction s) (simp_all add: scan_string_close scan_string_esc)

section \<open>Integers are read back as they were written\<close>

definition num_stop :: "pystr \<Rightarrow> bool" where
  "num_stop r \<longleftrightarrow> r = [] \<or> (\<not> is_digit (hd r) \<and> hd r \<noteq> 46 \<and> hd r \<noteq> 101 \<and> hd r \<noteq> 69)"

lemma num_stop_parts: "num_stop r \<Longrightarrow> frac_part r = [] \<and> exp_part r = []"
  by (auto simp: num_stop_def frac_part_def exp_part_def split: list.splits)

lemma int_part_dec:
  assumes "num_stop r"
  shows "int_part (dec_nat n @ r) = dec_nat n"
proof -
  obtain d ds where d: "dec_nat n = d # ds" "is_digit d" "d = 48 \<longrightarrow> n = 0 \<and> ds = []"
    using dec_nat_hd by blast
  have "takeWhile is_digit (dec_nat n @ r) = dec_nat n"
    using assms dec_nat_digits by (intro takeWhile_append_stop) (auto simp: num_stop_def)
  with d show ?thesis by (auto simp: int_part_def)
qed

lemma scan_unsigned_dec:
  assumes "num_stop r"
  shows "scan_unsigned neg (dec_nat n @ r) = Some (PyInt (if neg then - int n else int n), r)"
proof -
  have "dec_nat n \<noteq> []" using dec_nat_hd [of n] by auto
  then show ?thesis
    using num_stop_parts [OF assms] by (simp add: scan_unsigned_def int_part_dec [OF assms])
qed

lemma scan_number_int:
  assumes "num_stop r"
  shows "scan_number (dec_int i @ r) = Some (PyInt i, r)"
proof (cases "i < 0")
  case True
  then show ?thesis by (simp add: dec_int_def scan_number_def scan_unsigned_dec [OF assms])
next
  case False
  obtain d ds where "dec_nat (nat i) = d # ds" "is_digit d" using dec_nat_hd by blast
  then have "take 1 (dec_nat (nat i) @ r) \<noteq> [45]" by (auto simp: is_digit_def)
  with False show ?thesis by (simp add: dec_int_def scan_number_def scan_unsigned_dec [OF assms])
qed

lemma strip_prefix_simps [simp]:
  "strip_prefix [] s = Some s"
  "strip_prefix (c # p) [] = None"
  "strip_prefix (c # p) (d # s) = (if c = d then strip_prefix p s else None)"
  by (auto simp: strip_prefix_def)

lemma scan_word_digit:
  assumes "is_digit d"
  shows "scan_word pconst (d # s) = None" and "scan_word pconst (45 # d # s) = None"
proof -
  have "d \<noteq> 110" "d \<noteq> 116" "d \<noteq> 102" "d \<noteq> 78" "d \<noteq> 73" "d \<noteq> 45"
    using assms by (simp_all add: is_digit_def)
  then show "scan_word pconst (d # s) = None" and "scan_word pconst (45 # d # s) = None"
    by (simp_all add: scan_word_def eq_commute [of _ d])
qed

lemma scan_word_int: "scan_word pconst (dec_int i @ r) = None"
proof (cases "i < 0")
  case True
  obtain d ds where "dec_nat (nat (- i)) = d # ds" "is_digit d" using dec_nat_hd by blast
  with True show ?thesis by (simp add: dec_int_def scan_word_digit(2))
next
  case False
  obtain d ds where "dec_nat (nat i) = d # ds" "is_digit d" using dec_nat_hd by blast
  with False show ?thesis by (simp add: dec_int_def scan_word_digit(1))
qed

section \<open>Documents are read back in normal form\<close>

fun key_str :: "pykey \<Rightarrow> pystr" where
  "key_str (KStr k) = k"
| "key_str (KOther k) = k"

definition order_dict :: "json_style \<Rightarrow> pydict \<Rightarrow> pydict" where
  "order_dict st d = (if sort_keys st then sort_key (\<lambda>kv. key_str (fst kv)) d else d)"

fun canon :: "json_style \<Rightarrow> pyval \<Rightarrow> pyval"
  and canon_list :: "json_style \<Rightarrow> pyval list \<Rightarrow> pyval list"
  and canon_items :: "json_style \<Rightarrow> pydict \<Rightarrow> pydict"
where
  "canon st (PyList xs) = PyList (canon_list st xs)"
| "canon st (PyTuple xs) = PyList (canon_list st xs)"
| "canon st (PyDict d) = PyDict (order_dict st (canon_items st d))"
| "canon st v = v"
| "canon_list st [] = []"
| "canon_list st (x # xs) = canon st x # canon_list st xs"
| "canon_items st [] = []"
| "canon_items st ((k, v) # d) = (k, canon st v) # canon_items st d"

text \<open>
  The values that survive a round trip: no floats or foreign objects, strings and keys with a
  UTF-8 form, and (as in every Python dict) no repeated key.
\<close>

fun json_ok :: "pyval \<Rightarrow> bool"
  and json_ok_list :: "pyval list \<Rightarrow> bool"
  and json_ok_items :: "pydict \<Rightarrow> bool"
where
  "json_ok PyNone = True"
| "json_ok (PyBool b) = True"
| "json_ok (PyInt i) = True"
| "json_ok (PyFloat f) = False"
| "json_ok (PyStr s) = list_all scalar s"
| "json_ok (PyBytes b) = False"
| "json_ok (PyList xs) = json_ok_list xs"
| "json_ok (PyTuple xs) = json_ok_list xs"
| "json_ok (PyDict d) = (json_ok_items d \<and> distinct (map fst d))"
| "json_ok (PyObj t) = False"
| "json_ok_list [] = True"
| "json_ok_list (x # xs) = (json_ok x \<and> json_ok_list xs)"
| "json_ok_items [] = True"
| "json_ok_items ((KStr k, v) # d) = (list_all scalar k \<and> json_ok v \<and> json_ok_items d)"
| "json_ok_items ((KOther k, v) # d) = False"

text \<open>Separators that \<open>loads\<close> skips, and a hook that builds a dict from distinct keys.\<close>

definition style_ok :: "json_style \<Rightarrow> bool" where
  "style_ok st \<longleftrightarrow> (\<exists>w. item_sep st = 44 # w \<and> list_all jws w) \<and> (\<exists>w. key_sep st = 58 # w \<and> list_all jws w)"

definition hook_ok :: "((pystr \<times> pyval) list \<Rightarrow> pyval res) \<Rightarrow> bool" where
  "hook_ok hook \<longleftrightarrow> (\<forall>kvs. distinct (map fst kvs) \<longrightarrow>
     hook kvs = Inr (PyDict (map (\<lambda>(k, v). (KStr k, v)) kvs)))"

lemma canonical_style_ok [simp]: "style_ok canonical_style"
  by (simp add: style_ok_def canonical_style_def)

lemma dict_set_fresh: "k \<notin> fst ` set d \<Longrightarrow> dict_set d k v = d @ [(k, v)]"
  by (induction d) auto

lemma foldl_dict_set:
  "distinct (map fst kvs) \<Longrightarrow> (\<forall>k\<in>fst ` set kvs. KStr k \<notin> fst ` set d) \<Longrightarrow>
   foldl (\<lambda>d (k, v). dict_set d (KStr k) v) d kvs = d @ map (\<lambda>(k, v). (KStr k, v)) kvs"
proof (induction kvs arbitrary: d)
  case (Cons kv kvs)
  obtain k v where kv: "kv = (k, v)" by (cases kv)
  have "\<forall>k'\<in>fst ` set kvs. KStr k' \<notin> fst ` set (d @ [(KStr k, v)])"
    using Cons.prems kv by auto
  with Cons.IH [of "d @ [(KStr k, v)]"] Cons.prems kv show ?case
    by (simp add: dict_set_fresh)
qed simp

lemma dict_of_pairs_ok: "hook_ok dict_of_pairs"
  by (simp add: hook_ok_def dict_of_pairs_def foldl_dict_set)

definition starts :: "pystr \<Rightarrow> bool" where
  "starts t \<longleftrightarrow> (\<exists>c cs. t = c # cs \<and> \<not> jws c \<and> c \<noteq> 93 \<and> c \<noteq> 125 \<and> c \<noteq> 0xFEFF)"

lemma starts_bracket: "starts (91 # t)" "starts (123 # t)"
  by (simp_all add: starts_def jws_def)

lemma starts_append: "starts t \<Longrightarrow> starts (t @ r)"
  by (auto simp: starts_def)

lemma starts_join: "ts \<noteq> [] \<Longrightarrow> starts (hd ts) \<Longrightarrow> starts (join sep ts)"
  by (cases "(sep, ts)" rule: join.cases) (auto intro: starts_append)

lemma skip_ws_starts: "starts t \<Longrightarrow> list_all jws w \<Longrightarrow> skip_ws (w @ t @ r) = t @ r"
  unfolding skip_ws_def list_all_iff by (intro dropWhile_append_stop) (auto simp: starts_def)

lemma skip_ws_sep: "\<not> jws c \<Longrightarrow> skip_ws (c # r) = c # r"
  by (simp add: skip_ws_def)

lemma jws_marks [simp]: "\<not> jws 44" "\<not> jws 58" "\<not> jws 93" "\<not> jws 125" "\<not> jws 34"
  "\<not> jws 91" "\<not> jws 123"
  by (simp_all add: jws_def)

lemma num_stop_marks [simp]:
  "num_stop []" "num_stop (44 # r)" "num_stop (93 # r)" "num_stop (125 # r)"
  by (simp_all add: num_stop_def is_digit_def)

lemma num_stop_ws: "\<lbrakk>list_all jws z; num_stop r\<rbrakk> \<Longrightarrow> num_stop (z @ r)"
  by (cases z) (auto simp: num_stop_def jws_def is_digit_def)

definition scans ::
  "((pystr \<times> pyval) list \<Rightarrow> pyval res) \<Rightarrow> (pystr \<Rightarrow> pyval res) \<Rightarrow> pystr \<Rightarrow> pyval \<Rightarrow> bool"
where
  "scans hook pconst t v \<longleftrightarrow>
     (\<forall>n r. num_stop r \<longrightarrow> 2 * length t < n \<longrightarrow> scan_value hook pconst n (t @ r) = Inr (v, r))"

lemma scansD:
  "\<lbrakk>scans hook pconst t v; num_stop r; 2 * length t < n\<rbrakk>
   \<Longrightarrow> scan_value hook pconst n (t @ r) = Inr (v, r)"
  by (simp add: scans_def)

lemma scan_elems_join:
  assumes "list_all jws w" "list_all jws z"
  shows "\<lbrakk>list_all2 (scans hook pconst) ts vs; list_all starts ts; ts \<noteq> [];
          2 * length (join (44 # w) ts) + 1 < n\<rbrakk> \<Longrightarrow>
     scan_elems hook pconst n (join (44 # w) ts @ z @ 93 # r) = Inr (vs, r)"
proof (induction ts arbitrary: vs n)
  case (Cons t ts)
  then obtain v us m where vs: "vs = v # us" "n = Suc m" "scans hook pconst t v"
      "list_all2 (scans hook pconst) ts us"
    by (cases n) (auto simp: list_all2_Cons1)
  have pad: "skip_ws (z @ 93 # r) = 93 # r" "num_stop (z @ 93 # r)"
    using assms(2) by (simp_all add: skip_ws_def list_all_iff num_stop_ws)
  show ?case
  proof (cases ts)
    case Nil
    then have "scan_value hook pconst m (t @ z @ 93 # r) = Inr (v, z @ 93 # r)"
      using vs pad Cons.prems by (intro scansD) auto
    with Nil vs pad show ?thesis by (simp add: skip_ws_sep)
  next
    case (Cons t' ts')
    let ?j = "join (44 # w) ts"
    have len: "2 * length t < m" "2 * length ?j + 1 < m"
      using Cons.prems(4) vs(2) Cons by auto
    have "scan_value hook pconst m (t @ 44 # w @ ?j @ z @ 93 # r) = Inr (v, 44 # w @ ?j @ z @ 93 # r)"
      using vs(3) len by (intro scansD) auto
    moreover have "starts ?j" using Cons Cons.prems(2) by (intro starts_join) auto
    then have "skip_ws (w @ ?j @ z @ 93 # r) = ?j @ z @ 93 # r"
      using assms(1) by (rule skip_ws_starts)
    moreover have "scan_elems hook pconst m (?j @ z @ 93 # r) = Inr (us, r)"
      using Cons.prems vs(4) len(2) Cons by (intro Cons.IH) auto
    ultimately show ?thesis using Cons vs by (simp add: skip_ws_sep)
  qed
qed simp

lemma member_text_scan:
  assumes "key_sep st = 58 # w" "list_all jws w" "list_all scalar k" "starts t"
  shows "\<exists>cs r1. member_text st (k, t) @ r = 34 # cs \<and> scan_string cs = Some (k, 58 # r1)
           \<and> skip_ws r1 = t @ r"
  using assms scan_string_quote [of k "ensure_ascii st" "58 # w @ t @ r"]
    skip_ws_starts [OF assms(4,2), of r]
  by (simp add: member_text_def quote_def)

lemma starts_member: "starts (member_text st kt)"
  by (simp add: starts_def member_text_def quote_def)

lemma scan_members_join:
  assumes "list_all jws w" "key_sep st = 58 # u" "list_all jws u" "list_all jws z"
  shows "\<lbrakk>\<forall>(k, t, v)\<in>set es. list_all scalar k \<and> scans hook pconst t v \<and> starts t; es \<noteq> [];
          2 * length (join (44 # w) (map (\<lambda>(k, t, v). member_text st (k, t)) es)) + 1 < n\<rbrakk> \<Longrightarrow>
     scan_members hook pconst n
       (join (44 # w) (map (\<lambda>(k, t, v). member_text st (k, t)) es) @ z @ 125 # r)
     = Inr (map (\<lambda>(k, t, v). (k, v)) es, r)"
proof (induction es arbitrary: n)
  case (Cons e es)
  obtain k t v where e: "e = (k, t, v)" by (cases e)
  let ?M = "\<lambda>(k, t, v :: pyval). member_text st (k, t)"
  have ok: "list_all scalar k" "scans hook pconst t v" "starts t"
    using Cons.prems(1) e by auto
  obtain m where n: "n = Suc m" using Cons.prems(3) by (cases n) auto
  have lt: "length t < length (member_text st (k, t))"
    by (simp add: member_text_def quote_def)
  have z: "skip_ws (z @ 125 # r) = 125 # r" "num_stop (z @ 125 # r)"
    using assms(4) by (simp_all add: skip_ws_def list_all_iff num_stop_ws)
  note first = member_text_scan [OF assms(2,3) ok(1,3)]
  show ?case
  proof (cases es)
    case Nil
    have "scan_value hook pconst m (t @ z @ 125 # r) = Inr (v, z @ 125 # r)"
      using ok(2) z(2) lt Nil Cons.prems(3) n e by (intro scansD) auto
    with first [of "z @ 125 # r"] Nil n e z(1) show ?thesis by (auto simp: skip_ws_sep)
  next
    case (Cons e' es')
    let ?j = "join (44 # w) (map ?M es)"
    have len: "2 * length t < m" "2 * length ?j + 1 < m"
      using Cons.prems(3) n Cons lt e by auto
    have "scan_value hook pconst m (t @ 44 # w @ ?j @ z @ 125 # r)
          = Inr (v, 44 # w @ ?j @ z @ 125 # r)"
      using ok(2) len by (intro scansD) auto
    moreover have "starts ?j" using Cons
      by (intro starts_join) (auto simp: starts_member split: prod.split)
    then have "skip_ws (w @ ?j @ z @ 125 # r) = ?j @ z @ 125 # r"
      using assms(1) by (rule skip_ws_starts)
    moreover have "scan_members hook pconst m (?j @ z @ 125 # r) = Inr (map (\<lambda>(k, t, v). (k, v)) es, r)"
      using Cons.prems(1) len(2) Cons by (intro Cons.IH) auto
    ultimately show ?thesis
      using first [of "44 # w @ ?j @ z @ 125 # r"] Cons n e by (auto simp: skip_ws_sep)
  qed
qed simp

text \<open>Sorting by key commutes with any map that keeps the key.\<close>

lemma map_insort_key:
  "map g (insort_key (\<lambda>x. f (g x)) x xs) = insort_key f (g x) (map g xs)"
  by (induction xs) auto

lemma map_sort_key: "map g (sort_key (\<lambda>x. f (g x)) xs) = sort_key f (map g xs)"
  by (induction xs) (auto simp: map_insort_key)

definition entries_ok ::
  "((pystr \<times> pyval) list \<Rightarrow> pyval res) \<Rightarrow> (pystr \<Rightarrow> pyval res) \<Rightarrow> (pystr \<times> pystr \<times> pyval) list \<Rightarrow> bool"
where
  "entries_ok hook pconst es \<longleftrightarrow>
     (\<forall>(k, t, v)\<in>set es. list_all scalar k \<and> scans hook pconst t v \<and> starts t)"

definition order_entries :: "json_style \<Rightarrow> (pystr \<times> pystr \<times> pyval) list \<Rightarrow> (pystr \<times> pystr \<times> pyval) list"
where
  "order_entries st es = (if sort_keys st then sort_key fst es else es)"

lemma order_entries_simps:
  "entries_ok hook pconst (order_entries st es) = entries_ok hook pconst es"
  "order_entries st es = [] \<longleftrightarrow> es = []"
  "map (\<lambda>(k, t, v). (k, t)) (order_entries st es) = order_items st (map (\<lambda>(k, t, v). (k, t)) es)"
  "map (\<lambda>(k, t, v). (KStr k, v)) (order_entries st es)
     = order_dict st (map (\<lambda>(k, t, v). (KStr k, v)) es)"
  "distinct (map fst (order_entries st es)) = distinct (map fst es)"
proof -
  show "entries_ok hook pconst (order_entries st es) = entries_ok hook pconst es"
    by (simp add: entries_ok_def order_entries_def)
  show "order_entries st es = [] \<longleftrightarrow> es = []"
    using length_sort [of fst es] by (auto simp: order_entries_def simp flip: length_0_conv)
  show "map (\<lambda>(k, t, v). (k, t)) (order_entries st es) = order_items st (map (\<lambda>(k, t, v). (k, t)) es)"
    using map_sort_key [of "\<lambda>(k, t, v). (k, t)" fst es]
    by (simp add: order_entries_def order_items_def case_prod_unfold)
  show "map (\<lambda>(k, t, v). (KStr k, v)) (order_entries st es)
     = order_dict st (map (\<lambda>(k, t, v). (KStr k, v)) es)"
    using map_sort_key [of "\<lambda>(k, t, v). (KStr k, v)" "\<lambda>kv. key_str (fst kv)" es]
    by (simp add: order_entries_def order_dict_def case_prod_unfold)
  show "distinct (map fst (order_entries st es)) = distinct (map fst es)"
    by (simp add: order_entries_def distinct_map)
qed

lemma blank_then: "\<lbrakk>list_all jws p; \<not> jws c\<rbrakk> \<Longrightarrow> skip_ws (p @ c # r) = c # r"
  by (simp add: skip_ws_def list_all_iff)

text \<open>Arrays and objects, with blanks \<open>p\<close> after the opening bracket and \<open>z\<close> before the closing one.\<close>

lemma scans_list:
  assumes "list_all jws w" "list_all jws p" "list_all jws z"
    and "list_all2 (scans hook pconst) ts vs" "list_all starts ts"
  shows "scans hook pconst (91 # p @ join (44 # w) ts @ z @ [93]) (PyList vs)"
proof -
  let ?j = "join (44 # w) ts"
  have "scan_value hook pconst n (91 # p @ ?j @ z @ 93 # r) = Inr (PyList vs, r)"
    if n: "2 * length (91 # p @ ?j @ z @ [93]) < n" for n r
  proof (cases "ts = []")
    case True
    have "skip_ws ((p @ z) @ 93 # r) = 93 # r" using assms(2,3) by (intro blank_then) (simp_all add: jws_def)
    with True assms(4) n show ?thesis by (cases n) auto
  next
    case False
    obtain m where m: "n = Suc m" "2 * length ?j + 1 < m" using n by (cases n) auto
    have st: "starts ?j" using False assms(5) by (intro starts_join) (cases ts, auto)+
    then have "skip_ws (p @ ?j @ z @ 93 # r) = ?j @ z @ 93 # r" "take 1 (?j @ z @ 93 # r) \<noteq> [93]"
      using skip_ws_starts [OF st assms(2)] by (auto simp: starts_def)
    then show ?thesis
      using scan_elems_join [OF assms(1,3,4,5) False m(2), of r] m(1) by simp
  qed
  then show ?thesis by (auto simp: scans_def)
qed

lemma scans_dict:
  assumes "list_all jws w" "key_sep st = 58 # u" "list_all jws u" "list_all jws p" "list_all jws z"
    and "hook_ok hook" "entries_ok hook pconst es" "distinct (map fst es)"
  shows "scans hook pconst
     (123 # p @ join (44 # w) (map (member_text st) (order_items st (map (\<lambda>(k, t, v). (k, t)) es))) @ z @ [125])
     (PyDict (order_dict st (map (\<lambda>(k, t, v). (KStr k, v)) es)))"
proof -
  let ?o = "order_entries st es"
  let ?j = "join (44 # w) (map (\<lambda>(k, t, v). member_text st (k, t)) ?o)"
  have ok: "\<forall>(k, t, v)\<in>set ?o. list_all scalar k \<and> scans hook pconst t v \<and> starts t"
    using assms(7) order_entries_simps(1) [of hook pconst st es] unfolding entries_ok_def by simp
  have hook: "hook (map (\<lambda>(k, t, v). (k, v)) ?o) = Inr (PyDict (map (\<lambda>(k, t, v). (KStr k, v)) ?o))"
  proof -
    have "map fst (map (\<lambda>(k, t, v). (k, v)) ?o) = map fst ?o" by (simp add: case_prod_unfold)
    then have "distinct (map fst (map (\<lambda>(k, t, v). (k, v)) ?o))"
      using assms(8) by (simp only: order_entries_simps(5))
    then show ?thesis
      using assms(6) unfolding hook_ok_def by (simp add: case_prod_unfold comp_def)
  qed
  have "scan_value hook pconst n (123 # p @ ?j @ z @ 125 # r) = Inr (PyDict (map (\<lambda>(k, t, v). (KStr k, v)) ?o), r)"
    if n: "2 * length (123 # p @ ?j @ z @ [125]) < n" for n r
  proof (cases "?o = []")
    case True
    have "skip_ws ((p @ z) @ 125 # r) = 125 # r" using assms(4,5) by (intro blank_then) (simp_all add: jws_def)
    with True hook n show ?thesis by (cases n) auto
  next
    case False
    obtain m where m: "n = Suc m" "2 * length ?j + 1 < m" using n by (cases n) auto
    have st: "starts ?j" using False
      by (intro starts_join) (auto simp: hd_map starts_member split: prod.split)
    then have "skip_ws (p @ ?j @ z @ 125 # r) = ?j @ z @ 125 # r" "take 1 (?j @ z @ 125 # r) \<noteq> [125]"
      using skip_ws_starts [OF st assms(4)] by (auto simp: starts_def)
    then show ?thesis
      using scan_members_join [OF assms(1,2,3,5) ok False m(2), of r] m(1) hook by simp
  qed
  moreover have "map (\<lambda>(k, t, v). member_text st (k, t)) ?o
                 = map (member_text st) (order_items st (map (\<lambda>(k, t, v). (k, t)) es))"
    unfolding order_entries_simps(3) [symmetric] by (simp add: case_prod_unfold)
  ultimately show ?thesis
    unfolding scans_def by (simp flip: order_entries_simps(4))
qed

lemma entries_distinct:
  assumes "map (\<lambda>e. KStr (fst e)) es = map fst d" "distinct (map fst d)"
  shows "distinct (map fst es)"
proof -
  have "map KStr (map fst es) = map fst d" using assms(1) by (simp add: comp_def)
  with assms(2) show ?thesis by (metis distinct_map)
qed

lemma dumps_scans:
  assumes "style_ok st" "hook_ok hook"
  shows "\<lbrakk>dumps st v = Inr t; json_ok v\<rbrakk> \<Longrightarrow> scans hook pconst t (canon st v) \<and> starts t"
    and "\<lbrakk>dumps_list st xs = Inr ts; json_ok_list xs\<rbrakk> \<Longrightarrow>
           list_all2 (scans hook pconst) ts (canon_list st xs) \<and> list_all starts ts"
    and "\<lbrakk>dumps_items st d = Inr us; json_ok_items d\<rbrakk> \<Longrightarrow>
           \<exists>es. entries_ok hook pconst es \<and> map (\<lambda>(k, t, v). (k, t)) es = us
              \<and> map (\<lambda>(k, t, v). (KStr k, v)) es = canon_items st d
              \<and> map (\<lambda>e. KStr (fst e)) es = map fst d"
  using assms
proof (induction st v and st xs and st d arbitrary: t and ts and us
    rule: dumps_dumps_list_dumps_items.induct)
  case (1 st)
  have "scan_value hook pconst n (lit ''null'' @ r) = Inr (PyNone, r)" if "0 < n" for n r
    using that by (cases n) (auto simp: scan_word_def)
  with 1 show ?case by (auto simp: scans_def starts_def jws_def)
next
  case (2 st b)
  have "scan_value hook pconst n (lit (if b then ''true'' else ''false'') @ r) = Inr (PyBool b, r)"
    if "0 < n" for n r
    using that by (cases n) (auto simp: scan_word_def)
  with 2 show ?case by (auto simp: scans_def starts_def jws_def)
next
  case (3 st i)
  have "\<exists>c cs. dec_int i = c # cs \<and> (is_digit c \<or> c = 45)"
    using dec_nat_hd [of "nat i"] by (auto simp: dec_int_def)
  then obtain c cs where c: "dec_int i = c # cs" "is_digit c \<or> c = 45" by blast
  have "scan_value hook pconst n (dec_int i @ r) = Inr (PyInt i, r)" if "num_stop r" "0 < n" for n r
  proof -
    have "int_limit (PyInt i) = Inr ()" using 3 by (simp add: int_limit_def require_Inr_iff)
    with c that scan_word_int [of pconst i r] scan_number_int [OF that(1), of i]
    show ?thesis by (cases n) (auto simp: is_digit_def)
  qed
  moreover have "starts (dec_int i)" using c by (auto simp: starts_def jws_def is_digit_def)
  ultimately show ?case using 3 by (auto simp: scans_def require_Inr_iff)
next
  case (4 st f)
  then show ?case by simp
next
  case (5 st s)
  then have "scan_value hook pconst n (quote (ensure_ascii st) s @ r) = Inr (PyStr s, r)"
    if "0 < n" for n r
    using that by (cases n) (auto simp: quote_def scan_string_quote)
  with 5 show ?case by (auto simp: scans_def starts_def quote_def jws_def)
next
  case (6 st xs)
  then show ?case by (auto simp: rbind_Inr_iff starts_bracket style_ok_def intro!: scans_list [of _ "[]" "[]", simplified])
next
  case (7 st xs)
  then show ?case by (auto simp: rbind_Inr_iff starts_bracket style_ok_def intro!: scans_list [of _ "[]" "[]", simplified])
next
  case (8 st d)
  then obtain us where us: "dumps_items st d = Inr us"
      "t = 123 # join (item_sep st) (map (member_text st) (order_items st us)) @ [125]"
    by (auto simp: rbind_Inr_iff)
  with 8 obtain es where es: "entries_ok hook pconst es" "map (\<lambda>(k, t, v). (k, t)) es = us"
      "map (\<lambda>(k, t, v). (KStr k, v)) es = canon_items st d"
      "map (\<lambda>e. KStr (fst e)) es = map fst d"
    by (metis json_ok.simps(9))
  have dist: "distinct (map fst es)" using entries_distinct [OF es(4)] 8 by simp
  obtain w u where w: "item_sep st = 44 # w" "list_all jws w" "key_sep st = 58 # u" "list_all jws u"
    using 8(4) by (auto simp: style_ok_def)
  from scans_dict [OF w(2-4), of "[]" "[]", OF _ _ 8(5) es(1) dist] es(2,3) us(2) w(1) show ?case
    by (simp add: starts_def)
next
  case (12 st x xs)
  then show ?case by (auto simp: rbind_Inr_iff)
next
  case (14 st k v d)
  then obtain t us' where t: "dumps st v = Inr t" "dumps_items st d = Inr us'" "us = (k, t) # us'"
    by (auto simp: rbind_Inr_iff)
  from 14 t(1) have v: "scans hook pconst t (canon st v)" "starts t" by simp_all
  from 14 t obtain es where "entries_ok hook pconst es" "map (\<lambda>(k, t, v). (k, t)) es = us'"
      "map (\<lambda>(k, t, v). (KStr k, v)) es = canon_items st d"
      "map (\<lambda>e. KStr (fst e)) es = map fst d"
    by auto
  with 14 t v show ?case
    by (intro exI [of _ "(k, t, canon st v) # es"]) (auto simp: entries_ok_def)
qed (auto simp: entries_ok_def)

lemma scans_loads:
  assumes "scans hook pconst t v" "starts t" "list_all jws w"
  shows "loads hook pconst (t @ w) = Inr v"
proof -
  have "num_stop w" using assms(3) by (cases w) (auto simp: num_stop_def jws_def is_digit_def)
  then have "scan_value hook pconst (2 * length (t @ w) + 1) (t @ w) = Inr (v, w)"
    using assms(1) by (intro scansD) simp_all
  moreover have "skip_ws (t @ w) = t @ w" "take 1 (t @ w) \<noteq> [0xFEFF]"
    using skip_ws_starts [OF assms(2), of "[]" w] assms(2) by (auto simp: starts_def)
  moreover have "skip_ws w = []" using assms(3) by (auto simp: skip_ws_def list_all_iff)
  ultimately show ?thesis by (simp add: loads_def)
qed

theorem loads_dumps:
  assumes "style_ok st" "hook_ok hook" "json_ok v" "dumps st v = Inr t"
  shows "loads hook pconst t = Inr (canon st v)"
  using scans_loads [of hook pconst t "canon st v" "[]"] dumps_scans(1) [OF assms(1,2,4,3)] by simp

section \<open>The fuel of the scanner is enough\<close>

lemma scan_u4_length: "scan_u4 r = Some u \<Longrightarrow> 4 \<le> length r"
  by (cases r rule: scan_u4.cases) auto

lemma scan_string_step:
  assumes "c \<noteq> 34" "scan_string (c # cs) \<noteq> None"
  shows "\<exists>x i. scan_string (c # cs) = push x (scan_string (drop i cs))"
proof (cases "c = 92")
  case True
  with assms obtain e r where cs: "cs = e # r"
    by (auto simp: scan_string.simps(2) split: list.splits)
  show ?thesis
  proof (cases "e = 117")
    case u: True
    with assms True cs obtain u where u4: "scan_u4 r = Some u"
      by (auto simp: scan_string.simps(2) split: option.splits)
    show ?thesis
    proof (cases "(0xD800 \<le> u \<and> u \<le> 0xDBFF) \<and> low_half (drop 4 r) \<noteq> None")
      case pair: True
      then obtain w where "low_half (drop 4 r) = Some w" by blast
      with True cs u u4 pair
      have "scan_string (c # cs)
            = push (0x10000 + (u - 0xD800) * 1024 + (w - 0xDC00)) (scan_string (drop 11 cs))"
        by (simp add: scan_string.simps(2))
      then show ?thesis by blast
    next
      case single: False
      with True cs u u4 have "scan_string (c # cs) = push u (scan_string (drop 5 cs))"
        by (auto simp: scan_string.simps(2))
      then show ?thesis by blast
    qed
  next
    case no_u: False
    have "scan_string (c # cs) = (case unescape e of None \<Rightarrow> None | Some x \<Rightarrow> push x (scan_string r))"
      unfolding scan_string.simps(2) [of c] using True cs no_u by simp
    with assms obtain x where "unescape e = Some x" by (auto split: option.splits)
    with True cs no_u have "scan_string (c # cs) = push x (scan_string (drop 1 cs))"
      by (simp add: scan_string.simps(2))
    then show ?thesis by blast
  qed
next
  case False
  with assms have "scan_string (c # cs) = push c (scan_string (drop 0 cs))"
    by (auto simp: scan_string.simps(2) split: if_splits)
  then show ?thesis by blast
qed

lemma scan_string_length: "scan_string s = Some (t, r) \<Longrightarrow> length r < length s"
proof (induction "length s" arbitrary: s t r rule: less_induct)
  case less
  then obtain c cs where s: "s = c # cs" by (cases s) (auto simp: scan_string.simps)
  show ?case
  proof (cases "c = 34")
    case True
    with less.prems s show ?thesis by (simp add: scan_string_close)
  next
    case False
    with less.prems s obtain x i where "scan_string s = push x (scan_string (drop i cs))"
      using scan_string_step [of c cs] by auto
    with less.prems obtain t' where "scan_string (drop i cs) = Some (t', r)"
      by (auto simp: push_def)
    with less.hyps [of "drop i cs" t' r] s have "length r < length (drop i cs)" by simp
    then show ?thesis using s by simp
  qed
qed

lemma skip_ws_length: "length (skip_ws s) \<le> length s"
  by (simp add: skip_ws_def length_dropWhile_less)

lemma skip_ws_Cons_length: "skip_ws s = c # r \<Longrightarrow> length r < length s"
  using skip_ws_length [of s] by simp

lemma scan_number_length: "scan_number s = Some (v, r) \<Longrightarrow> length r < length s"
proof -
  have u: "scan_unsigned neg s = Some (v, r) \<Longrightarrow> length r < length s" for neg s
  proof -
    have "int_part s \<noteq> [] \<Longrightarrow> s \<noteq> []" by (auto simp: int_part_def)
    then show "scan_unsigned neg s = Some (v, r) \<Longrightarrow> length r < length s"
      by (auto simp: scan_unsigned_def Let_def split: if_splits)
  qed
  assume "scan_number s = Some (v, r)"
  then show ?thesis
    using u [of True "tl s"] u [of False s]
    by (cases s) (auto simp: scan_number_def split: if_splits)
qed

lemma strip_prefix_length: "strip_prefix (c # p) s = Some r \<Longrightarrow> length r < length s"
  by (cases s) (auto simp: strip_prefix_def split: if_splits)

lemma scan_word_length: "scan_word pconst s = Some (v, r) \<Longrightarrow> length r < length s"
  unfolding scan_word_def lit_simps
  by (auto dest: strip_prefix_length split: option.splits simp del: strip_prefix_simps)

lemma scan_length:
  shows "scan_value hook pconst n s = Inr (v, r) \<Longrightarrow> length r < length s"
    and "scan_elems hook pconst n s = Inr (vs, r) \<Longrightarrow> length r < length s"
    and "scan_members hook pconst n s = Inr (kvs, r) \<Longrightarrow> length r < length s"
proof (induction n arbitrary: s v r vs kvs)
  case (Suc n)
  {
    case 1
    then obtain c cs where s: "s = c # cs" by (cases s) auto
    show ?case
    proof (cases "c = 34 \<or> c = 123 \<or> c = 91")
      case True
      with 1 s Suc.IH(2,3) show ?thesis
        using skip_ws_length [of cs]
        by (fastforce simp: rbind_Inr_iff split: option.splits if_splits dest: scan_string_length)
    next
      case False
      with 1 s show ?thesis
        by (auto simp: rbind_Inr_iff split: option.splits
            dest: scan_word_length scan_number_length)
    qed
  next
    case 2
    then obtain v1 r1 where v1: "scan_value hook pconst n s = Inr (v1, r1)"
      by (auto simp: rbind_Inr_iff)
    with 2 obtain d r' where d: "scan_value hook pconst n s = Inr (v1, r1)" "skip_ws r1 = d # r'"
        "d = 44 \<longrightarrow> (\<exists>vs'. scan_elems hook pconst n (skip_ws r') = Inr (vs', r))" "d \<noteq> 44 \<longrightarrow> r = r'"
      by (cases "skip_ws r1") (auto simp: rbind_Inr_iff split: if_splits)
    have "length r1 < length s" using Suc.IH(1) d(1) .
    moreover have "length r < length r1"
      using skip_ws_Cons_length [OF d(2)] Suc.IH(2) [of "skip_ws r'"] skip_ws_length [of r'] d(3,4)
      by (cases "d = 44") fastforce+
    ultimately show ?case by simp
  next
    case 3
    then obtain cs where cs: "s = 34 # cs" by (cases s) (auto split: if_splits)
    with 3 obtain k r1 where k: "scan_string cs = Some (k, r1)"
      by (cases "scan_string cs") auto
    with 3 cs obtain v1 r2 where s: "s = 34 # cs" "scan_string cs = Some (k, r1)"
        "scan_value hook pconst n (skip_ws (drop 1 (skip_ws r1))) = Inr (v1, r2)"
      by (auto simp: rbind_Inr_iff split: if_splits)
    have "length r1 < length cs" using s(2) by (rule scan_string_length)
    moreover have "length r2 < length (skip_ws (drop 1 (skip_ws r1)))" using Suc.IH(1) s(3) .
    moreover have "length (skip_ws (drop 1 (skip_ws r1))) \<le> length r1"
      using skip_ws_length [of "drop 1 (skip_ws r1)"] skip_ws_length [of r1] by simp
    moreover have "length r < length r2"
    proof -
      from 3 s obtain d r' where d: "skip_ws r2 = d # r'"
        "d = 44 \<longrightarrow> (\<exists>kvs'. scan_members hook pconst n (skip_ws r') = Inr (kvs', r))" "d \<noteq> 44 \<longrightarrow> r = r'"
        by (cases "skip_ws r2") (auto simp: rbind_Inr_iff split: if_splits)
      then show ?thesis
        using skip_ws_Cons_length [OF d(1)] Suc.IH(3) [of "skip_ws r'"] skip_ws_length [of r']
        by (cases "d = 44") fastforce+
    qed
    ultimately show ?case using s(1) by simp
  }
qed simp_all

text \<open>
  Any fuel above twice the length of the input gives the same answer: running out of fuel
  never turns a document the scanner accepts into an error.
\<close>

lemma scan_fuel:
  shows "\<lbrakk>2 * length s < n; 2 * length s < m\<rbrakk> \<Longrightarrow>
           scan_value hook pconst n s = scan_value hook pconst m s"
    and "\<lbrakk>2 * length s + 1 < n; 2 * length s + 1 < m\<rbrakk> \<Longrightarrow>
           scan_elems hook pconst n s = scan_elems hook pconst m s"
    and "\<lbrakk>2 * length s + 1 < n; 2 * length s + 1 < m\<rbrakk> \<Longrightarrow>
           scan_members hook pconst n s = scan_members hook pconst m s"
proof (induction n arbitrary: s m)
  case (Suc n)
  {
    case 1
    then obtain k where m: "m = Suc k" by (cases m) auto
    show ?case
    proof (cases s)
      case (Cons c cs)
      have "2 * length (skip_ws cs) + 1 < n" "2 * length (skip_ws cs) + 1 < k"
        using 1 m Cons skip_ws_length [of cs] by auto
      then have "scan_members hook pconst n (skip_ws cs) = scan_members hook pconst k (skip_ws cs)"
        "scan_elems hook pconst n (skip_ws cs) = scan_elems hook pconst k (skip_ws cs)"
        using Suc.IH(2,3) by blast+
      with Cons m show ?thesis by simp
    qed (simp add: m)
  next
    case 2
    then obtain k where m: "m = Suc k" by (cases m) auto
    have v: "scan_value hook pconst n s = scan_value hook pconst k s"
      using 2 m by (intro Suc.IH(1)) auto
    have e: "scan_elems hook pconst n (skip_ws r') = scan_elems hook pconst k (skip_ws r')"
      if "scan_value hook pconst k s = Inr (v, r)" "skip_ws r = d # r'" for v r d r'
      using scan_length(1) [OF that(1)] skip_ws_Cons_length [OF that(2)] skip_ws_length [of r'] 2 m
      by (intro Suc.IH(2)) auto
    show ?case unfolding m scan_elems.simps
      by (rule rbind_cong [OF v]) (auto split: list.split simp: e)
  next
    case 3
    then obtain k where m: "m = Suc k" by (cases m) auto
    have len: "length (skip_ws (drop 1 (skip_ws r))) \<le> length r" for r
      using skip_ws_length [of "drop 1 (skip_ws r)"] skip_ws_length [of r] by simp
    have v: "scan_value hook pconst n (skip_ws (drop 1 (skip_ws r)))
             = scan_value hook pconst k (skip_ws (drop 1 (skip_ws r)))"
      if "s = c # cs" "scan_string cs = Some (t, r)" for c cs t r
      using scan_string_length [OF that(2)] that(1) len [of r] 3 m by (intro Suc.IH(1)) auto
    have e: "scan_members hook pconst n (skip_ws r') = scan_members hook pconst k (skip_ws r')"
      if "s = c # cs" "scan_string cs = Some (t, r)"
        "scan_value hook pconst k (skip_ws (drop 1 (skip_ws r))) = Inr (v, r2)" "skip_ws r2 = d # r'"
      for c cs t r v r2 d r'
      using scan_string_length [OF that(2)] that(1) len [of r] scan_length(1) [OF that(3)]
        skip_ws_Cons_length [OF that(4)] skip_ws_length [of r'] 3 m
      by (intro Suc.IH(3)) auto
    show ?case unfolding m scan_members.simps
      by (auto split: list.split option.split simp: v [simplified] e [simplified]
          intro!: rbind_cong)
  }
qed simp_all

section \<open>What loads can return\<close>

fun json_doc :: "pyval \<Rightarrow> bool"
  and json_doc_list :: "pyval list \<Rightarrow> bool"
  and json_doc_items :: "pydict \<Rightarrow> bool"
where
  "json_doc PyNone = True"
| "json_doc (PyBool b) = True"
| "json_doc (PyInt i) = int_digits_ok i"
| "json_doc (PyFloat f) = True"
| "json_doc (PyStr s) = True"
| "json_doc (PyBytes b) = False"
| "json_doc (PyList xs) = json_doc_list xs"
| "json_doc (PyTuple xs) = False"
| "json_doc (PyDict d) = (json_doc_items d \<and> distinct (map fst d))"
| "json_doc (PyObj t) = False"
| "json_doc_list [] = True"
| "json_doc_list (x # xs) = (json_doc x \<and> json_doc_list xs)"
| "json_doc_items [] = True"
| "json_doc_items ((KStr k, v) # d) = (json_doc v \<and> json_doc_items d)"
| "json_doc_items ((KOther k, v) # d) = False"

definition hook_doc :: "((pystr \<times> pyval) list \<Rightarrow> pyval res) \<Rightarrow> bool" where
  "hook_doc hook \<longleftrightarrow> (\<forall>kvs v. list_all (\<lambda>kv. json_doc (snd kv)) kvs \<longrightarrow> hook kvs = Inr v \<longrightarrow> json_doc v)"

definition const_doc :: "(pystr \<Rightarrow> pyval res) \<Rightarrow> bool" where
  "const_doc pconst \<longleftrightarrow> (\<forall>t v. pconst t = Inr v \<longrightarrow> json_doc v)"

lemma json_doc_items_keys:
  "json_doc_items d \<longleftrightarrow> (\<forall>kv\<in>set d. (\<exists>s. fst kv = KStr s) \<and> json_doc (snd kv))"
proof (induction d)
  case (Cons kv d)
  obtain k v where "kv = (k, v)" by (cases kv)
  with Cons show ?case by (cases k) auto
qed simp

lemma dict_set_keys: "fst ` set (dict_set d k v) = insert k (fst ` set d)"
  by (induction d k v rule: dict_set.induct) (simp_all add: insert_commute)

lemma dict_set_doc:
  "\<lbrakk>json_doc_items d; distinct (map fst d); json_doc v\<rbrakk> \<Longrightarrow>
   json_doc_items (dict_set d (KStr k) v) \<and> distinct (map fst (dict_set d (KStr k) v))"
proof (induction d)
  case (Cons kv d)
  obtain k' v' where "kv = (k', v')" by (cases kv)
  with Cons show ?case by (cases k') (auto simp: dict_set_keys)
qed simp

lemma dict_of_pairs_doc: "hook_doc dict_of_pairs"
proof -
  have "\<lbrakk>list_all (\<lambda>kv. json_doc (snd kv)) kvs; json_doc_items d; distinct (map fst d)\<rbrakk> \<Longrightarrow>
    json_doc (PyDict (foldl (\<lambda>d (k, v). dict_set d (KStr k) v) d kvs))" for kvs d
    by (induction kvs arbitrary: d) (auto simp: dict_set_doc)
  then show ?thesis by (auto simp: hook_doc_def dict_of_pairs_def)
qed

lemma python_constant_doc: "const_doc python_constant"
  by (auto simp: const_doc_def python_constant_def)

lemma scan_word_doc: "\<lbrakk>const_doc pconst; scan_word pconst s = Some (Inr v, r)\<rbrakk> \<Longrightarrow> json_doc v"
  by (auto simp: scan_word_def const_doc_def split: option.splits)

lemma scan_number_doc:
  "\<lbrakk>scan_number s = Some (v, r); int_limit v = Inr u\<rbrakk> \<Longrightarrow> json_doc v"
  by (auto simp: scan_number_def scan_unsigned_def int_limit_def Let_def require_Inr_iff
      split: if_splits)

lemma scan_doc:
  assumes "hook_doc hook" "const_doc pconst"
  shows "scan_value hook pconst n s = Inr (v, r) \<Longrightarrow> json_doc v"
    and "scan_elems hook pconst n s = Inr (vs, r) \<Longrightarrow> json_doc_list vs"
    and "scan_members hook pconst n s = Inr (kvs, r) \<Longrightarrow> list_all (\<lambda>kv. json_doc (snd kv)) kvs"
proof (induction n arbitrary: s v r vs kvs)
  case (Suc n)
  {
    case 1
    then obtain c cs where s: "s = c # cs" by (cases s) auto
    have h: "hook kvs = Inr v \<Longrightarrow> list_all (\<lambda>kv. json_doc (snd kv)) kvs \<Longrightarrow> json_doc v" for kvs v
      using assms(1) by (auto simp: hook_doc_def)
    show ?case
    proof (cases "c = 34 \<or> c = 123 \<or> c = 91")
      case True
      with 1 s show ?thesis
        by (auto simp: rbind_Inr_iff split: option.splits if_splits
            dest: Suc.IH(2,3) intro: h)
    next
      case False
      with 1 s show ?thesis
        by (auto simp: rbind_Inr_iff split: option.splits
            dest: scan_word_doc [OF assms(2)] scan_number_doc)
    qed
  next
    case 2
    then obtain v1 r1 where v1: "scan_value hook pconst n s = Inr (v1, r1)"
      by (auto simp: rbind_Inr_iff)
    with 2 show ?case
      by (cases "skip_ws r1") (auto simp: rbind_Inr_iff split: if_splits dest: Suc.IH(1,2))
  next
    case 3
    then obtain cs where cs: "s = 34 # cs" by (cases s) (auto split: if_splits)
    with 3 obtain k r1 where k: "scan_string cs = Some (k, r1)"
      by (cases "scan_string cs") auto
    with 3 cs obtain v1 r2 where v1:
        "scan_value hook pconst n (skip_ws (drop 1 (skip_ws r1))) = Inr (v1, r2)"
      by (auto simp: rbind_Inr_iff split: if_splits)
    with 3 cs k show ?case
      by (cases "skip_ws r2") (auto simp: rbind_Inr_iff split: if_splits dest: Suc.IH(1,3))
  }
qed simp_all

lemma loads_doc:
  "\<lbrakk>hook_doc hook; const_doc pconst; loads hook pconst s = Inr v\<rbrakk> \<Longrightarrow> json_doc v"
  by (auto simp: loads_def rbind_Inr_iff simp del: scan_value.simps split: if_splits dest: scan_doc(1))

text \<open>A failure is a syntax error, the digit limit, or what a hook raised.\<close>

definition load_failure ::
  "((pystr \<times> pyval) list \<Rightarrow> pyval res) \<Rightarrow> (pystr \<Rightarrow> pyval res) \<Rightarrow> exn \<Rightarrow> bool"
where
  "load_failure hook pconst e \<longleftrightarrow>
     e = JSONDecodeError \<or> e = ValueError \<or> (\<exists>kvs. hook kvs = Inl e) \<or> (\<exists>t. pconst t = Inl e)"

lemma scan_word_failure:
  "scan_word pconst s = Some (Inl e, r) \<Longrightarrow> load_failure hook pconst e"
  by (auto simp: scan_word_def load_failure_def split: option.splits)

lemma int_limit_failure: "int_limit v = Inl e \<Longrightarrow> e = ValueError"
  by (auto simp: int_limit_def require_Inl_iff split: pyval.splits)

lemma scan_failure:
  shows "scan_value hook pconst n s = Inl e \<Longrightarrow> load_failure hook pconst e"
    and "scan_elems hook pconst n s = Inl e \<Longrightarrow> load_failure hook pconst e"
    and "scan_members hook pconst n s = Inl e \<Longrightarrow> load_failure hook pconst e"
proof (induction n arbitrary: s)
  case 0
  {
    case 1
    then show ?case by (simp add: load_failure_def)
  next
    case 2
    then show ?case by (simp add: load_failure_def)
  next
    case 3
    then show ?case by (simp add: load_failure_def)
  }
next
  case (Suc n)
  have j: "load_failure hook pconst JSONDecodeError" by (simp add: load_failure_def)
  have h: "hook kvs = Inl e \<Longrightarrow> load_failure hook pconst e" for kvs e by (auto simp: load_failure_def)
  {
    case 1
    show ?case
    proof (cases s)
      case (Cons c cs)
      show ?thesis
      proof (cases "c = 34 \<or> c = 123 \<or> c = 91")
        case True
        with 1 Cons show ?thesis
          by (auto simp: rbind_Inl_iff j split: option.splits if_splits intro: Suc.IH(2,3) h)
      next
        case False
        with 1 Cons show ?thesis
          by (auto simp: rbind_Inl_iff j split: option.splits
              dest: scan_word_failure int_limit_failure) (auto simp: load_failure_def dest: int_limit_failure)
      qed
    qed (use 1 j in simp)
  next
    case 2
    show ?case
    proof (cases "scan_value hook pconst n s")
      case (Inl e')
      with 2 show ?thesis using Suc.IH(1) by simp
    next
      case (Inr vr)
      with 2 show ?thesis
        by (cases vr; cases "skip_ws (snd vr)")
          (auto simp: rbind_Inl_iff j split: if_splits dest: Suc.IH(2))
    qed
  next
    case 3
    show ?case
    proof (cases "\<exists>cs k r. s = 34 # cs \<and> scan_string cs = Some (k, r) \<and> take 1 (skip_ws r) = [58]")
      case False
      with 3 j show ?thesis by (cases s) (auto split: if_splits option.splits)
    next
      case True
      then obtain cs k r where s: "s = 34 # cs" "scan_string cs = Some (k, r)"
        "take 1 (skip_ws r) = [58]" by blast
      show ?thesis
      proof (cases "scan_value hook pconst n (skip_ws (drop 1 (skip_ws r)))")
        case (Inl e')
        with 3 s show ?thesis using Suc.IH(1) by simp
      next
        case (Inr vr)
        with 3 s show ?thesis
          by (cases vr; cases "skip_ws (snd vr)")
            (auto simp: rbind_Inl_iff j split: if_splits dest: Suc.IH(3))
      qed
    qed
  }
qed

lemma loads_failure: "loads hook pconst s = Inl e \<Longrightarrow> load_failure hook pconst e"
  by (auto simp: loads_def rbind_Inl_iff simp del: scan_value.simps split: if_splits
      dest: scan_failure(1)) (simp_all add: load_failure_def)

section \<open>A more liberal reader\<close>

text \<open>What a reader with stricter hooks accepts, a more liberal one reads to the same value.\<close>

lemma scan_mono:
  assumes h: "\<And>kvs v. hook kvs = Inr v \<Longrightarrow> hook' kvs = Inr v"
    and c: "\<And>t v. pconst t = Inr v \<Longrightarrow> pconst' t = Inr v"
  shows "scan_value hook pconst n s = Inr x \<Longrightarrow> scan_value hook' pconst' n s = Inr x"
    and "scan_elems hook pconst n s = Inr y \<Longrightarrow> scan_elems hook' pconst' n s = Inr y"
    and "scan_members hook pconst n s = Inr z \<Longrightarrow> scan_members hook' pconst' n s = Inr z"
proof (induction n arbitrary: s x y z)
  case 0
  {case 1 then show ?case by simp next case 2 then show ?case by simp next case 3 then show ?case by simp}
next
  case (Suc n)
  note IH = Suc.IH
  {
    case 1
    have w: "scan_word pconst s = Some (Inr v, r) \<Longrightarrow> scan_word pconst' s = Some (Inr v, r)" for s v r
      using c by (auto simp: scan_word_def split: option.splits)
    have w0: "scan_word pconst s = None \<longleftrightarrow> scan_word pconst' s = None" for s
      by (auto simp: scan_word_def split: option.splits)
    obtain a as where s: "s = a # as" using 1 by (cases s) auto
    consider "a = 34" | "a = 123" | "a = 91" | "a \<noteq> 34" "a \<noteq> 123" "a \<noteq> 91" by blast
    then show ?case
    proof cases
      case 2
      with 1 s h IH(3) show ?thesis by (auto simp: rbind_Inr_iff split: if_splits)
    next
      case 3
      with 1 s IH(2) show ?thesis by (auto simp: rbind_Inr_iff split: if_splits)
    next
      case 4
      with 1 s have "(case scan_word pconst s of Some (v, r) \<Rightarrow> rbind v (\<lambda>x. Inr (x, r))
          | None \<Rightarrow> (case scan_number s of None \<Rightarrow> Inl JSONDecodeError
              | Some (v, r) \<Rightarrow> rbind (int_limit v) (\<lambda>_. Inr (v, r)))) = Inr x" unfolding s by simp
      then have "(case scan_word pconst' s of Some (v, r) \<Rightarrow> rbind v (\<lambda>x. Inr (x, r))
          | None \<Rightarrow> (case scan_number s of None \<Rightarrow> Inl JSONDecodeError
              | Some (v, r) \<Rightarrow> rbind (int_limit v) (\<lambda>_. Inr (v, r)))) = Inr x"
        using w [of s] w0 [of s] by (cases "scan_word pconst s") (auto simp: rbind_Inr_iff)
      with 4 show ?thesis unfolding s by simp
    qed (use 1 s in \<open>auto split: option.splits\<close>)
  next
    case 2
    then obtain v r where vr: "scan_value hook pconst n s = Inr (v, r)" by (auto simp: rbind_Inr_iff)
    with 2 IH(1) [OF vr] IH(2) show ?case
      by (cases "skip_ws r") (auto simp: rbind_Inr_iff split: if_splits)
  next
    case 3
    then obtain as k r where s: "s = 34 # as" "scan_string as = Some (k, r)"
      by (auto split: list.splits if_splits option.splits)
    with 3 obtain v r2 where vr: "scan_value hook pconst n (skip_ws (drop 1 (skip_ws r))) = Inr (v, r2)"
      by (auto simp: rbind_Inr_iff split: if_splits)
    with 3 s IH(1) [OF vr] IH(3) show ?case
      by (cases "skip_ws r2") (auto simp: rbind_Inr_iff split: if_splits)
  }
qed


lemma loads_mono:
  assumes "\<And>kvs v. hook kvs = Inr v \<Longrightarrow> hook' kvs = Inr v" "\<And>t v. pconst t = Inr v \<Longrightarrow> pconst' t = Inr v"
    and "loads hook pconst s = Inr v"
  shows "loads hook' pconst' s = Inr v"
proof -
  obtain r where r: "take 1 s \<noteq> [0xFEFF]" "scan_value hook pconst (2 * length s + 1) (skip_ws s) = Inr (v, r)" "skip_ws r = []"
    using assms(3) unfolding loads_def by (cases "scan_value hook pconst (2 * length s + 1) (skip_ws s)")
      (auto split: if_splits)
  have "scan_value hook' pconst' (2 * length s + 1) (skip_ws s) = Inr (v, r)"
    using scan_mono(1) [OF assms(1,2) r(2)] .
  with r(1,3) show ?thesis by (simp only: loads_def rbind_simps if_False prod.case if_True simp_thms)
qed

text \<open>\<^verbatim>\<open>json.dumps\<close> and \<^verbatim>\<open>json.loads\<close> in the canonical style, as a codec.\<close>

interpretation json: codec "dumps canonical_style" json_loads json_ok "canon canonical_style"
  by unfold_locales
    (auto simp: json_loads_def intro: loads_dumps [OF _ dict_of_pairs_ok])

end
