(* ===== verification/Timestamp.thy ===== *)
theory Timestamp
  imports PyText
begin

text \<open>
  \<^verbatim>\<open>normalize_timestamp\<close> of \<^verbatim>\<open>pqc_evidence/canonicalizer.py\<close> and the part of
  \<^verbatim>\<open>datetime\<close> it uses. \<open>fromisoformat\<close> follows the grammar documented for it,
  \<^verbatim>\<open>YYYY-MM-DD[*HH[:MM[:SS[.fff[fff]]]][+HH:MM[:SS[.ffffff]]]]\<close>; offsets are in
  microseconds. \<^verbatim>\<open>strftime("%Y")\<close> does not pad the year, as on the Linux targets of the
  program. Shown: a normalised timestamp is a fixed point, so the signer stores exactly the
  text it hashed; and which inputs make the function raise.
\<close>

record datetime =
  dt_year :: nat
  dt_month :: nat
  dt_day :: nat
  dt_us :: nat  \<comment> \<open>microseconds since midnight\<close>
  dt_offset :: "int option"  \<comment> \<open>UTC offset in microseconds, \<open>None\<close> when naive\<close>

definition day_us :: nat where
  "day_us = 86400000000"

definition leap :: "nat \<Rightarrow> bool" where
  "leap y \<longleftrightarrow> 4 dvd y \<and> (\<not> 100 dvd y \<or> 400 dvd y)"

definition days_in_month :: "nat \<Rightarrow> nat \<Rightarrow> nat" where
  "days_in_month y m =
     (if m = 2 then (if leap y then 29 else 28)
      else if m = 4 \<or> m = 6 \<or> m = 9 \<or> m = 11 then 30 else 31)"

definition valid_date :: "nat \<Rightarrow> nat \<Rightarrow> nat \<Rightarrow> bool" where
  "valid_date y m d \<longleftrightarrow>
     1 \<le> y \<and> y \<le> 9999 \<and> 1 \<le> m \<and> m \<le> 12 \<and> 1 \<le> d \<and> d \<le> days_in_month y m"

definition num_field :: "nat \<Rightarrow> nat \<Rightarrow> pystr \<Rightarrow> nat option" where
  "num_field i k s =
     (let f = take k (drop i s)
      in if length f = k \<and> list_all is_digit f then Some (digits_val f) else None)"

definition parse_date :: "pystr \<Rightarrow> (nat \<times> nat \<times> nat) option" where
  "parse_date s =
     (if take 1 (drop 4 s) = [45] \<and> take 1 (drop 7 s) = [45] then
        (case (num_field 0 4 s, num_field 5 2 s, num_field 8 2 s) of
           (Some y, Some m, Some d) \<Rightarrow> if valid_date y m d then Some (y, m, d) else None
         | _ \<Rightarrow> None)
      else None)"

text \<open>\<^verbatim>\<open>HH[:MM[:SS[.fff[fff]]]]\<close>, all of \<open>s\<close>: hours, minutes, seconds, microseconds.\<close>

definition parse_clock :: "pystr \<Rightarrow> (nat \<times> nat \<times> nat \<times> nat) option" where
  "parse_clock s =
     (let n = length s;
          seps = (5 \<le> n \<longrightarrow> take 1 (drop 2 s) = [58]) \<and> (8 \<le> n \<longrightarrow> take 1 (drop 5 s) = [58])
                 \<and> (12 \<le> n \<longrightarrow> take 1 (drop 8 s) = [46])
      in if (n = 2 \<or> n = 5 \<or> n = 8 \<or> n = 12 \<or> n = 15) \<and> seps then
           (case (num_field 0 2 s,
                  if 5 \<le> n then num_field 3 2 s else Some 0,
                  if 8 \<le> n then num_field 6 2 s else Some 0,
                  if n = 15 then num_field 9 6 s
                  else if n = 12 then map_option (\<lambda>f. f * 1000) (num_field 9 3 s) else Some 0) of
              (Some h, Some m, Some sec, Some us) \<Rightarrow> Some (h, m, sec, us)
            | _ \<Rightarrow> None)
         else None)"

definition clock_us :: "nat \<times> nat \<times> nat \<times> nat \<Rightarrow> nat" where
  "clock_us c = (case c of (h, m, sec, us) \<Rightarrow> ((h * 60 + m) * 60 + sec) * 1000000 + us)"

definition valid_clock :: "nat \<times> nat \<times> nat \<times> nat \<Rightarrow> bool" where
  "valid_clock c \<longleftrightarrow> (case c of (h, m, sec, us) \<Rightarrow> h < 24 \<and> m < 60 \<and> sec < 60 \<and> us < 1000000)"

definition is_sign :: "nat \<Rightarrow> bool" where
  "is_sign c \<longleftrightarrow> c = 43 \<or> c = 45"

text \<open>The offset part: empty, or a sign and \<^verbatim>\<open>HH:MM[:SS[.ffffff]]\<close> below 24 hours.\<close>

definition parse_offset :: "pystr \<Rightarrow> int option option" where
  "parse_offset z =
     (case z of
        [] \<Rightarrow> Some None
      | c # r \<Rightarrow>
          if length z = 6 \<or> length z = 9 \<or> length z = 16 then
            (case parse_clock r of
               None \<Rightarrow> None
             | Some k \<Rightarrow>
                 if clock_us k < day_us
                 then Some (Some (if c = 45 then - int (clock_us k) else int (clock_us k)))
                 else None)
          else None)"

definition fromisoformat :: "pystr \<Rightarrow> datetime option" where
  "fromisoformat s =
     (case parse_date s of
        None \<Rightarrow> None
      | Some (y, m, d) \<Rightarrow>
          if length s = 10 then
            Some \<lparr>dt_year = y, dt_month = m, dt_day = d, dt_us = 0, dt_offset = None\<rparr>
          else
            (let t = drop 11 s in
             case (parse_clock (takeWhile (\<lambda>c. \<not> is_sign c) t),
                   parse_offset (dropWhile (\<lambda>c. \<not> is_sign c) t)) of
               (Some k, Some z) \<Rightarrow>
                 if valid_clock k
                 then Some \<lparr>dt_year = y, dt_month = m, dt_day = d, dt_us = clock_us k, dt_offset = z\<rparr>
                 else None
             | _ \<Rightarrow> None))"

definition prev_day :: "nat \<times> nat \<times> nat \<Rightarrow> (nat \<times> nat \<times> nat) option" where
  "prev_day ymd =
     (case ymd of (y, m, d) \<Rightarrow>
        if 1 < d then Some (y, m, d - 1)
        else if 1 < m then Some (y, m - 1, days_in_month y (m - 1))
        else if 1 < y then Some (y - 1, 12, 31) else None)"

definition next_day :: "nat \<times> nat \<times> nat \<Rightarrow> (nat \<times> nat \<times> nat) option" where
  "next_day ymd =
     (case ymd of (y, m, d) \<Rightarrow>
        if d < days_in_month y m then Some (y, m, d + 1)
        else if m < 12 then Some (y, m + 1, 1)
        else if y < 9999 then Some (y + 1, 1, 1) else None)"

text \<open>
  \<^verbatim>\<open>astimezone(timezone.utc)\<close> of an aware datetime: subtract the offset. The result is the
  day before, the same day or the day after; outside years 1 to 9999 it raises
  \<^verbatim>\<open>OverflowError\<close>.
\<close>

definition to_utc :: "datetime \<Rightarrow> int \<Rightarrow> datetime res" where
  "to_utc d off =
     (let t = int (dt_us d) - off;
          ymd = (dt_year d, dt_month d, dt_day d)
      in case (if t < 0 then prev_day ymd else if int day_us \<le> t then next_day ymd else Some ymd) of
           None \<Rightarrow> Inl OverflowError
         | Some (y, m, dd) \<Rightarrow>
             Inr \<lparr>dt_year = y, dt_month = m, dt_day = dd, dt_us = nat (t mod int day_us),
                  dt_offset = Some 0\<rparr>)"

definition pad2 :: "nat \<Rightarrow> pystr" where
  "pad2 n = [48 + n div 10 mod 10, 48 + n mod 10]"

definition pad6 :: "nat \<Rightarrow> pystr" where
  "pad6 n = [48 + n div 100000 mod 10, 48 + n div 10000 mod 10, 48 + n div 1000 mod 10,
             48 + n div 100 mod 10, 48 + n div 10 mod 10, 48 + n mod 10]"

text \<open>\<^verbatim>\<open>strftime("%Y-%m-%dT%H:%M:%S.%f") + "Z"\<close>.\<close>

definition strftime_utc :: "datetime \<Rightarrow> pystr" where
  "strftime_utc d =
     dec_nat (dt_year d) @ [45] @ pad2 (dt_month d) @ [45] @ pad2 (dt_day d) @ [84]
     @ pad2 (dt_us d div 3600000000) @ [58] @ pad2 (dt_us d div 60000000 mod 60) @ [58]
     @ pad2 (dt_us d div 1000000 mod 60) @ [46] @ pad6 (dt_us d mod 1000000) @ [90]"

definition zulu_candidate :: "pystr \<Rightarrow> pystr" where
  "zulu_candidate text =
     (if text \<noteq> [] \<and> (last text = 90 \<or> last text = 122) then butlast text @ lit ''+00:00'' else text)"

definition normalize_timestamp :: "pyval \<Rightarrow> pystr res" where
  "normalize_timestamp v =
     (case v of
        PyStr ts \<Rightarrow>
          if ts = [] then Inl CanonicalizationError
          else
            (case fromisoformat (zulu_candidate (strip ts)) of
               None \<Rightarrow> Inl CanonicalizationError
             | Some d \<Rightarrow>
                 (case dt_offset d of
                    None \<Rightarrow> Inl CanonicalizationError
                  | Some off \<Rightarrow> rbind (to_utc d off) (\<lambda>u. Inr (strftime_utc u))))
      | _ \<Rightarrow> Inl CanonicalizationError)"

section \<open>Calendar facts\<close>

definition valid_dt :: "datetime \<Rightarrow> bool" where
  "valid_dt d \<longleftrightarrow> valid_date (dt_year d) (dt_month d) (dt_day d) \<and> dt_us d < day_us"

lemma days_in_month_pos: "28 \<le> days_in_month y m" "days_in_month y m \<le> 31"
  by (auto simp: days_in_month_def)

lemma december [simp]: "days_in_month y 12 = 31"
  by (simp add: days_in_month_def)

lemma prev_day_valid:
  assumes "valid_date y m d" "prev_day (y, m, d) = Some (y', m', d')"
  shows "valid_date y' m' d'"
  using assms days_in_month_pos [of y "m - 1"]
  by (auto simp: valid_date_def prev_day_def split: if_splits)

lemma next_day_valid:
  assumes "valid_date y m d" "next_day (y, m, d) = Some (y', m', d')"
  shows "valid_date y' m' d'"
  using assms days_in_month_pos [of y "m + 1"] days_in_month_pos [of "y + 1" 1]
  by (auto simp: valid_date_def next_day_def split: if_splits)

lemma clock_us_less: "valid_clock k \<Longrightarrow> clock_us k < day_us"
  by (cases k) (simp add: valid_clock_def clock_us_def day_us_def)

lemma fromisoformat_valid: "fromisoformat s = Some d \<Longrightarrow> valid_dt d"
  by (auto simp: fromisoformat_def valid_dt_def parse_date_def Let_def clock_us_less
      split: if_splits option.splits) (simp add: day_us_def)

lemma to_utc_valid:
  assumes "valid_dt d" "to_utc d off = Inr u"
  shows "valid_dt u \<and> dt_offset u = Some 0"
proof -
  let ?t = "int (dt_us d) - off" and ?ymd = "(dt_year d, dt_month d, dt_day d)"
  have us: "nat (?t mod int day_us) < day_us"
    using pos_mod_bound [of "int day_us" ?t] pos_mod_sign [of "int day_us" ?t]
    by (simp add: day_us_def nat_less_iff)
  obtain y m dd where
    sh: "(if ?t < 0 then prev_day ?ymd else if int day_us \<le> ?t then next_day ?ymd else Some ?ymd)
         = Some (y, m, dd)"
    and u: "u = \<lparr>dt_year = y, dt_month = m, dt_day = dd, dt_us = nat (?t mod int day_us),
                 dt_offset = Some 0\<rparr>"
    using assms(2) unfolding to_utc_def Let_def by (auto split: option.splits)
  have d: "valid_date (dt_year d) (dt_month d) (dt_day d)" using assms(1) by (simp add: valid_dt_def)
  consider "prev_day ?ymd = Some (y, m, dd)" | "next_day ?ymd = Some (y, m, dd)"
    | "?ymd = (y, m, dd)"
    using sh by (metis option.inject)
  then have "valid_date y m dd"
    by cases (use d prev_day_valid next_day_valid in blast, use d next_day_valid in blast, use d in simp)
  with us u show ?thesis by (simp add: valid_dt_def)
qed

lemma to_utc_zero: "valid_dt d \<Longrightarrow> to_utc d 0 = Inr (d\<lparr>dt_offset := Some 0\<rparr>)"
  by (simp add: to_utc_def valid_dt_def Let_def)

section \<open>A normalised timestamp is a fixed point\<close>

lemma is_digit_pad: "is_digit (48 + n mod 10)"
  by (auto simp: is_digit_def)

lemma horner6:
  fixes n :: nat
  shows "\<lbrakk>n = q1 * 10 + d0; q1 = q2 * 10 + d1; q2 = q3 * 10 + d2; q3 = q4 * 10 + d3;
    q4 = q5 * 10 + d4\<rbrakk> \<Longrightarrow>
    10 * (10 * (10 * (10 * (10 * q5 + d4) + d3) + d2) + d1) + d0 = n"
  by simp

lemma pad_eqs:
  "n < 100 \<Longrightarrow> digits_val (pad2 n) = n"
  "n < 1000000 \<Longrightarrow> digits_val (pad6 n) = n"
proof -
  assume "n < 100"
  then have "10 * (n div 10 mod 10) + n mod 10 = n" by simp
  then show "digits_val (pad2 n) = n" by (simp add: pad2_def digits_val_def)
next
  assume n: "n < 1000000"
  have q: "n = n div 10 * 10 + n mod 10" "n div 10 = n div 100 * 10 + n div 10 mod 10"
    "n div 100 = n div 1000 * 10 + n div 100 mod 10"
    "n div 1000 = n div 10000 * 10 + n div 1000 mod 10"
    "n div 10000 = n div 100000 * 10 + n div 10000 mod 10"
    using div_mult2_eq [of n 10 10] div_mult2_eq [of n 100 10] div_mult2_eq [of n 1000 10]
      div_mult2_eq [of n 10000 10] by simp_all
  have "n div 100000 mod 10 = n div 100000" using n by simp
  with horner6 [OF q] have "10 * (10 * (10 * (10 * (10 * (n div 100000 mod 10) + n div 10000 mod 10)
      + n div 1000 mod 10) + n div 100 mod 10) + n div 10 mod 10) + n mod 10 = n"
    by (simp only:)
  then show "digits_val (pad6 n) = n"
    unfolding pad6_def digits_val_def foldl.simps by (simp only: diff_add_inverse mult_0_right add_0)
qed

lemma dec_nat_year:
  assumes "1000 \<le> y" "y \<le> 9999"
  shows "\<exists>a b c d. dec_nat y = [a, b, c, d]"
proof -
  have "\<not> y < 10" "\<not> y div 10 < 10" "\<not> y div 10 div 10 < 10" "y div 10 div 10 div 10 < 10"
    using assms by simp_all
  then show ?thesis
    by (simp add: dec_nat.simps [of y] dec_nat.simps [of "y div 10"]
        dec_nat.simps [of "y div 10 div 10"] dec_nat.simps [of "y div 10 div 10 div 10"])
qed

lemma strftime_year_length:
  assumes "valid_dt u" "length (strftime_utc u) = 27"
  shows "1000 \<le> dt_year u"
proof (rule ccontr)
  assume "\<not> 1000 \<le> dt_year u"
  then have "dt_year u div 10 div 10 < 10" by simp
  then have "length (dec_nat (dt_year u)) \<le> 3"
    by (simp add: dec_nat.simps [of "dt_year u"] dec_nat.simps [of "dt_year u div 10"]
        dec_nat.simps [of "dt_year u div 10 div 10"])
  with assms(2) show False by (simp add: strftime_utc_def pad2_def pad6_def)
qed

lemma length_pad [simp]: "length (pad2 n) = 2" "length (pad6 n) = 6"
  by (simp_all add: pad2_def pad6_def)

lemma digits_pad [simp]: "list_all is_digit (pad2 n)" "list_all is_digit (pad6 n)"
  unfolding pad2_def pad6_def by (simp_all only: list.pred_inject is_digit_pad simp_thms)

lemma num_field_pad:
  "\<lbrakk>take 2 (drop i s) = pad2 n; n < 100\<rbrakk> \<Longrightarrow> num_field i 2 s = Some n"
  "\<lbrakk>take 6 (drop i s) = pad6 f; f < 1000000\<rbrakk> \<Longrightarrow> num_field i 6 s = Some f"
  by (simp_all add: num_field_def pad_eqs Let_def)

definition clock_text :: "nat \<Rightarrow> nat \<Rightarrow> nat \<Rightarrow> nat \<Rightarrow> pystr" where
  "clock_text h m sec us = pad2 h @ [58] @ pad2 m @ [58] @ pad2 sec @ [46] @ pad6 us"

lemma parse_clock_text:
  assumes "h < 100" "m < 100" "sec < 100" "us < 1000000"
  shows "parse_clock (clock_text h m sec us) = Some (h, m, sec, us)"
proof -
  let ?s = "clock_text h m sec us"
  have "num_field 0 2 ?s = Some h" "num_field 3 2 ?s = Some m" "num_field 6 2 ?s = Some sec"
    "num_field 9 6 ?s = Some us"
    using assms by (auto intro!: num_field_pad simp: clock_text_def)
  moreover have "length ?s = 15" "take 1 (drop 2 ?s) = [58]" "take 1 (drop 5 ?s) = [58]"
    "take 1 (drop 8 ?s) = [46]"
    by (simp_all add: clock_text_def)
  ultimately show ?thesis by (simp add: parse_clock_def)
qed

lemma clock_text_no_sign: "\<forall>c\<in>set (clock_text h m sec us). \<not> is_sign c"
  by (auto simp: clock_text_def pad2_def pad6_def is_sign_def)

lemma parse_date_text:
  assumes "1000 \<le> y" "valid_date y m d"
  shows "parse_date (dec_nat y @ [45] @ pad2 m @ [45] @ pad2 d @ r) = Some (y, m, d)"
proof -
  have len: "length (dec_nat y) = 4"
    using assms dec_nat_year [of y] by (auto simp: valid_date_def)
  have lim: "m < 100" "d < 100"
    using assms(2) days_in_month_pos(2) [of y m] by (auto simp: valid_date_def)
  let ?s = "dec_nat y @ [45] @ pad2 m @ [45] @ pad2 d @ r"
  have "num_field 0 4 ?s = Some y"
    using len dec_nat_digits by (simp add: num_field_def list_all_iff)
  moreover have "num_field 5 2 ?s = Some m" "num_field 8 2 ?s = Some d"
    using lim by (auto intro!: num_field_pad simp: len)
  ultimately show ?thesis using assms(2) by (simp add: parse_date_def len)
qed

lemma horner_clock:
  fixes n :: nat
  shows "\<lbrakk>n = q1 * 1000000 + f; q1 = q2 * 60 + sec; q2 = q3 * 60 + m\<rbrakk> \<Longrightarrow>
    ((q3 * 60 + m) * 60 + sec) * 1000000 + f = n"
  by simp

lemma us_split:
  assumes "us < day_us"
  shows "us div 3600000000 < 24" "us div 60000000 mod 60 < 60" "us div 1000000 mod 60 < 60"
    "us mod 1000000 < 1000000"
    "clock_us (us div 3600000000, us div 60000000 mod 60, us div 1000000 mod 60, us mod 1000000) = us"
proof -
  show "us div 3600000000 < 24" using assms unfolding day_us_def by simp
  have "us div 60000000 = us div 3600000000 * 60 + us div 60000000 mod 60"
    "us div 1000000 = us div 60000000 * 60 + us div 1000000 mod 60"
    using div_mult2_eq [of us 60000000 60] div_mult2_eq [of us 1000000 60] by simp_all
  moreover have "us = us div 1000000 * 1000000 + us mod 1000000" by simp
  ultimately show "clock_us (us div 3600000000, us div 60000000 mod 60, us div 1000000 mod 60,
      us mod 1000000) = us"
    unfolding clock_us_def prod.case by (intro horner_clock)
qed simp_all

lemma fromisoformat_strftime:
  assumes "valid_dt u" "1000 \<le> dt_year u"
  shows "fromisoformat (zulu_candidate (strftime_utc u)) = Some (u\<lparr>dt_offset := Some 0\<rparr>)"
proof -
  let ?us = "dt_us u"
  let ?k = "(?us div 3600000000, ?us div 60000000 mod 60, ?us div 1000000 mod 60, ?us mod 1000000)"
  let ?c = "clock_text (?us div 3600000000) (?us div 60000000 mod 60) (?us div 1000000 mod 60)
              (?us mod 1000000)"
  let ?d = "dec_nat (dt_year u) @ [45] @ pad2 (dt_month u) @ [45] @ pad2 (dt_day u)"
  have us: "?us < day_us" using assms(1) by (simp add: valid_dt_def)
  have s: "strftime_utc u = ?d @ [84] @ ?c @ [90]"
    by (simp add: strftime_utc_def clock_text_def)
  have z: "zulu_candidate (strftime_utc u) = ?d @ [84] @ ?c @ lit ''+00:00''"
    unfolding s zulu_candidate_def by (simp add: butlast_append)
  have date: "parse_date (?d @ r) = Some (dt_year u, dt_month u, dt_day u)" for r
    using parse_date_text [of "dt_year u" "dt_month u" "dt_day u" r] assms
    by (simp add: valid_dt_def)
  have len: "length ?d = 10"
    using dec_nat_year [of "dt_year u"] assms by (auto simp: valid_dt_def valid_date_def)
  have t: "drop 11 (?d @ [84] @ ?c @ lit ''+00:00'') = ?c @ lit ''+00:00''"
    using len by simp
  have parts: "takeWhile (\<lambda>c. \<not> is_sign c) (?c @ lit ''+00:00'') = ?c"
    "dropWhile (\<lambda>c. \<not> is_sign c) (?c @ lit ''+00:00'') = lit ''+00:00''"
    using clock_text_no_sign
    by (auto intro!: takeWhile_append_stop dropWhile_append_stop simp: is_sign_def)
  have off: "parse_offset (lit ''+00:00'') = Some (Some 0)"
    by (simp add: parse_offset_def parse_clock_def num_field_def digits_val_def is_digit_def
        clock_us_def day_us_def)
  have clock: "parse_clock ?c = Some ?k" "valid_clock ?k" "clock_us ?k = ?us"
    using us_split [OF us] parse_clock_text [of "?us div 3600000000" "?us div 60000000 mod 60"
        "?us div 1000000 mod 60" "?us mod 1000000"]
    by (auto simp: valid_clock_def)
  show ?thesis
    unfolding z fromisoformat_def date t Let_def
    using len parts off clock by simp
qed

lemma strftime_strip:
  assumes "strftime_utc u = s"
  shows "s \<noteq> [] \<and> strip s = s"
proof -
  obtain d ds where "dec_nat (dt_year u) = d # ds" "is_digit d" using dec_nat_hd by blast
  then have "s \<noteq> []" "hd s = d" "last s = 90"
    using assms by (auto simp: strftime_utc_def)
  moreover have "\<not> py_space d" "\<not> py_space 90"
    using \<open>is_digit d\<close> by (auto simp: is_digit_def py_space_def)
  ultimately show ?thesis by (simp add: strip_id)
qed

lemma normalize_fixpoint:
  assumes "normalize_timestamp v = Inr u" "length u = 27"
  shows "normalize_timestamp (PyStr u) = Inr u"
proof -
  obtain d w off where w: "fromisoformat (zulu_candidate (strip d)) = Some w"
      "dt_offset w = Some off" "rbind (to_utc w off) (\<lambda>u. Inr (strftime_utc u)) = Inr u"
    using assms(1)
    by (auto simp: normalize_timestamp_def split: pyval.splits if_splits option.splits)
  then obtain x where x: "to_utc w off = Inr x" "u = strftime_utc x"
    by (auto simp: rbind_Inr_iff)
  have v: "valid_dt x" "dt_offset x = Some 0"
    using to_utc_valid [OF fromisoformat_valid [OF w(1)] x(1)] by auto
  then have "1000 \<le> dt_year x" using strftime_year_length assms(2) x(2) by blast
  then have "fromisoformat (zulu_candidate u) = Some x"
    using fromisoformat_strftime [OF v(1)] v(2) x(2) by simp
  moreover have "to_utc x 0 = Inr x" using to_utc_zero [OF v(1)] v(2) by simp
  ultimately show ?thesis
    using strftime_strip [of x u] x(2) v(2) by (simp add: normalize_timestamp_def)
qed

text \<open>The facts that evaluate a concrete timestamp.\<close>

lemmas time_eval = normalize_timestamp_def strip_def py_space_def zulu_candidate_def
  fromisoformat_def parse_date_def num_field_def parse_clock_def parse_offset_def valid_date_def
  valid_clock_def clock_us_def is_sign_def is_digit_def digits_val_def days_in_month_def leap_def
  to_utc_def day_us_def strftime_utc_def pad2_def pad6_def dec_nat.simps

end
