(* ===== verification/Canonicalizer.thy ===== *)
theory Canonicalizer
  imports PyJson Timestamp "HOL-Library.Multiset"
begin

text \<open>
  \<^verbatim>\<open>pqc_evidence/canonicalizer.py\<close>: the check that a value has a canonical JSON form
  (\<open>check\<close>, \<open>check_canonicalizable\<close>) and the bytes that are hashed and signed
  (\<open>canonical_bytes\<close>). Shown: after the check only an integer beyond the interpreter's digit
  limit can still fail, two values have the same bytes exactly when they are the same document, and the bytes read
  back as that document.
\<close>

definition MAX_DEPTH :: nat where
  "MAX_DEPTH = 32"

definition MAX_STRING_LENGTH :: nat where
  "MAX_STRING_LENGTH = 1000000"

definition surrogate :: "nat \<Rightarrow> bool" where
  "surrogate c \<longleftrightarrow> 0xD800 \<le> c \<and> c \<le> 0xDFFF"

definition check_string :: "pystr \<Rightarrow> unit res" where
  "check_string s =
     require (length s \<le> MAX_STRING_LENGTH) CanonicalizationError
       (require (list_all (\<lambda>c. \<not> surrogate c) s) CanonicalizationError
         (case utf8_encode s of Inl _ \<Rightarrow> Inl CanonicalizationError | Inr _ \<Rightarrow> Inr ()))"

text \<open>
  \<^verbatim>\<open>_check(value, depth, path)\<close>: the path only serves the message. A dict is checked item
  by item, the key before the value.
\<close>

fun check :: "nat \<Rightarrow> pyval \<Rightarrow> unit res"
  and check_list :: "nat \<Rightarrow> pyval list \<Rightarrow> unit res"
  and check_items :: "nat \<Rightarrow> pydict \<Rightarrow> unit res"
where
  "check depth v =
     require (depth \<le> MAX_DEPTH) CanonicalizationError
       (case v of
          PyNone \<Rightarrow> Inr ()
        | PyBool _ \<Rightarrow> Inr ()
        | PyInt _ \<Rightarrow> Inr ()
        | PyFloat _ \<Rightarrow> Inl CanonicalizationError
        | PyStr s \<Rightarrow> check_string s
        | PyDict d \<Rightarrow> check_items (depth + 1) d
        | PyList xs \<Rightarrow> check_list (depth + 1) xs
        | PyTuple xs \<Rightarrow> check_list (depth + 1) xs
        | PyBytes _ \<Rightarrow> Inl CanonicalizationError
        | PyObj _ \<Rightarrow> Inl CanonicalizationError)"
| "check_list depth [] = Inr ()"
| "check_list depth (x # xs) = rbind (check depth x) (\<lambda>_. check_list depth xs)"
| "check_items depth [] = Inr ()"
| "check_items depth ((k, v) # d) =
     (case k of
        KOther _ \<Rightarrow> Inl CanonicalizationError
      | KStr s \<Rightarrow>
          rbind (check_string s) (\<lambda>_. rbind (check depth v) (\<lambda>_. check_items depth d)))"

declare check.simps [simp del]

definition check_canonicalizable :: "pyval \<Rightarrow> unit res" where
  "check_canonicalizable v = check 0 v"

definition canonical_string :: "pyval \<Rightarrow> pystr res" where
  "canonical_string v =
     rbind (check_canonicalizable v) (\<lambda>_.
       case dumps canonical_style v of Inl _ \<Rightarrow> Inl CanonicalizationError | Inr t \<Rightarrow> Inr t)"

definition canonical_bytes :: "pyval \<Rightarrow> bytes res" where
  "canonical_bytes v =
     rbind (canonical_string v) (\<lambda>t.
       case utf8_encode t of Inl _ \<Rightarrow> Inl CanonicalizationError | Inr b \<Rightarrow> Inr b)"

section \<open>The check\<close>

lemma check_string_ok [simp]:
  "check_string s = Inr () \<longleftrightarrow> length s \<le> MAX_STRING_LENGTH \<and> list_all scalar s"
  by (auto simp: check_string_def require_def utf8_encode_def surrogate_def scalar_def list_all_iff
      split: if_splits)

lemma check_string_err: "check_string s = Inl e \<Longrightarrow> e = CanonicalizationError"
  by (auto simp: check_string_def require_def split: if_splits sum.splits)

lemma check_err:
  shows "check n v = Inl e \<Longrightarrow> e = CanonicalizationError"
    and "check_list n xs = Inl e \<Longrightarrow> e = CanonicalizationError"
    and "check_items n d = Inl e \<Longrightarrow> e = CanonicalizationError"
proof (induction n v and n xs and n d rule: check_check_list_check_items.induct)
  case (1 depth v)
  then show ?case
    by (cases v) (auto simp: check.simps [of depth] require_def check_string_err split: if_splits)
qed (auto simp: rbind_Inl_iff check_string_err split: pykey.splits)

lemma check_list_ok: "check_list n xs = Inr () \<longleftrightarrow> (\<forall>x\<in>set xs. check n x = Inr ())"
  by (induction xs) (auto simp: rbind_Inr_iff)

lemma check_items_ok:
  "check_items n d = Inr () \<longleftrightarrow>
   (\<forall>kv\<in>set d. (\<exists>s. fst kv = KStr s \<and> check_string s = Inr ()) \<and> check n (snd kv) = Inr ())"
  by (induction d) (auto simp del: check_string_ok simp: rbind_Inr_iff split: pykey.splits)

text \<open>The dict invariant of Python: no key occurs twice, at any level.\<close>

fun dicts_ok :: "pyval \<Rightarrow> bool"
  and dicts_ok_list :: "pyval list \<Rightarrow> bool"
  and dicts_ok_items :: "pydict \<Rightarrow> bool"
where
  "dicts_ok (PyList xs) = dicts_ok_list xs"
| "dicts_ok (PyTuple xs) = dicts_ok_list xs"
| "dicts_ok (PyDict d) = (distinct (map fst d) \<and> dicts_ok_items d)"
| "dicts_ok v = True"
| "dicts_ok_list [] = True"
| "dicts_ok_list (x # xs) = (dicts_ok x \<and> dicts_ok_list xs)"
| "dicts_ok_items [] = True"
| "dicts_ok_items ((k, v) # d) = (dicts_ok v \<and> dicts_ok_items d)"

lemma check_json_ok:
  shows "\<lbrakk>check n v = Inr (); dicts_ok v\<rbrakk> \<Longrightarrow> json_ok v"
    and "\<lbrakk>check_list n xs = Inr (); dicts_ok_list xs\<rbrakk> \<Longrightarrow> json_ok_list xs"
    and "\<lbrakk>check_items n d = Inr (); dicts_ok_items d\<rbrakk> \<Longrightarrow> json_ok_items d"
proof (induction n v and n xs and n d rule: check_check_list_check_items.induct)
  case (1 depth v)
  then show ?case
    by (cases v) (auto simp: check.simps [of depth] require_def split: if_splits)
qed (auto simp: rbind_Inr_iff split: pykey.splits)

section \<open>What can fail after the check\<close>

text \<open>The integers of a document are within the interpreter's digit limit.\<close>

fun ints_ok :: "pyval \<Rightarrow> bool"
  and ints_ok_list :: "pyval list \<Rightarrow> bool"
  and ints_ok_items :: "pydict \<Rightarrow> bool"
where
  "ints_ok (PyInt i) = int_digits_ok i"
| "ints_ok (PyList xs) = ints_ok_list xs"
| "ints_ok (PyTuple xs) = ints_ok_list xs"
| "ints_ok (PyDict d) = ints_ok_items d"
| "ints_ok v = True"
| "ints_ok_list [] = True"
| "ints_ok_list (x # xs) = (ints_ok x \<and> ints_ok_list xs)"
| "ints_ok_items [] = True"
| "ints_ok_items ((k, v) # d) = (ints_ok v \<and> ints_ok_items d)"

lemma json_doc_ok:
  shows "json_doc v \<Longrightarrow> ints_ok v \<and> dicts_ok v"
    and "json_doc_list xs \<Longrightarrow> ints_ok_list xs \<and> dicts_ok_list xs"
    and "json_doc_items d \<Longrightarrow> ints_ok_items d \<and> dicts_ok_items d"
  by (induction v and xs and d rule: json_doc_json_doc_list_json_doc_items.induct) simp_all

lemma check_dumps:
  shows "check n v = Inr () \<Longrightarrow> (\<exists>t. dumps st v = Inr t) = ints_ok v"
    and "check_list n xs = Inr () \<Longrightarrow> (\<exists>ts. dumps_list st xs = Inr ts) = ints_ok_list xs"
    and "check_items n d = Inr () \<Longrightarrow> (\<exists>ts. dumps_items st d = Inr ts) = ints_ok_items d"
proof (induction n v and n xs and n d rule: check_check_list_check_items.induct)
  case (1 depth v)
  then show ?case
    by (cases v) (auto simp: check.simps [of depth] require_def rbind_Inr_iff split: if_splits)
qed (auto simp: rbind_Inr_iff split: pykey.splits)

lemma dumps_ints:
  shows "dumps st v = Inr t \<Longrightarrow> ints_ok v"
    and "dumps_list st xs = Inr ts \<Longrightarrow> ints_ok_list xs"
    and "dumps_items st d = Inr us \<Longrightarrow> ints_ok_items d"
  by (induction st v and st xs and st d arbitrary: t and ts and us
      rule: dumps_dumps_list_dumps_items.induct)
    (auto simp: rbind_Inr_iff require_Inr_iff)

lemma scalar_ascii [simp]: "c < 0xD800 \<Longrightarrow> scalar c"
  by (simp add: scalar_def)

lemma list_all_concat_map: "list_all P (concat (map f xs)) \<longleftrightarrow> (\<forall>x\<in>set xs. list_all P (f x))"
  by (induction xs) auto

lemma hex4_scalar: "list_all scalar (hex4 n)"
  by (auto simp: hex4_def hex_digit_def)

lemma esc_char_scalar: "scalar c \<Longrightarrow> list_all scalar (esc_char a c)"
  using hex4_scalar by (auto simp: esc_char_def u_escape_def scalar_def)

lemma quote_scalar: "list_all scalar s \<Longrightarrow> list_all scalar (quote a s)"
  by (auto simp: quote_def list_all_concat_map esc_char_scalar list_all_iff [of scalar s])

lemma dec_int_scalar: "list_all scalar (dec_int i)"
proof -
  have "\<forall>d\<in>set (dec_nat n). scalar d" for n using dec_nat_digits [of n] by (auto simp: is_digit_def)
  then show ?thesis by (simp add: dec_int_def list_all_iff)
qed

lemma join_scalar: "list_all scalar sep \<Longrightarrow> (\<forall>t\<in>set ts. list_all scalar t) \<Longrightarrow> list_all scalar (join sep ts)"
  by (induction sep ts rule: join.induct) auto

lemma set_order_items [simp]: "set (order_items st ts) = set ts"
  by (simp add: order_items_def)

lemma dumps_scalar:
  shows "\<lbrakk>check n v = Inr (); dumps canonical_style v = Inr t\<rbrakk> \<Longrightarrow> list_all scalar t"
    and "\<lbrakk>check_list n xs = Inr (); dumps_list canonical_style xs = Inr ts\<rbrakk> \<Longrightarrow>
           \<forall>t\<in>set ts. list_all scalar t"
    and "\<lbrakk>check_items n d = Inr (); dumps_items canonical_style d = Inr us\<rbrakk> \<Longrightarrow>
           \<forall>(k, t)\<in>set us. list_all scalar k \<and> list_all scalar t"
proof (induction n v and n xs and n d arbitrary: t and ts and us
    rule: check_check_list_check_items.induct)
  case (1 depth v)
  have sep: "list_all scalar (item_sep canonical_style)" "list_all scalar (key_sep canonical_style)"
    by (simp_all add: canonical_style_def scalar_def)
  have br: "scalar 91" "scalar 93" "scalar 123" "scalar 125" by (simp_all add: scalar_def)
  show ?case
  proof (cases v)
    case (PyBool b)
    with 1 show ?thesis by (cases b) auto
  next
    case (PyDict d)
    with 1 obtain us where us: "dumps_items canonical_style d = Inr us"
      "t = 123 # join (item_sep canonical_style)
             (map (member_text canonical_style) (order_items canonical_style us)) @ [125]"
      "\<forall>(k, t)\<in>set us. list_all scalar k \<and> list_all scalar t"
      by (auto simp: check.simps [of depth] require_def rbind_Inr_iff split: if_splits)
    then have "\<forall>t\<in>set (map (member_text canonical_style) (order_items canonical_style us)).
        list_all scalar t"
      by (auto simp: member_text_def quote_scalar sep)
    with us br sep show ?thesis by (simp add: join_scalar)
  qed (use 1 sep br in \<open>auto simp: check.simps [of depth] require_def rbind_Inr_iff quote_scalar
        dec_int_scalar join_scalar split: if_splits\<close>)
qed (fastforce simp: rbind_Inr_iff split: pykey.splits)+

text \<open>A canonical text is one line: it has no control characters.\<close>

lemma quote_printable: "\<forall>c\<in>set (quote a s). 32 \<le> c"
proof -
  have "\<forall>d\<in>set (hex4 n). 32 \<le> d" for n by (simp add: hex4_def hex_digit_def)
  then have "\<forall>d\<in>set (esc_char a c). 32 \<le> d" for c
    by (auto simp: esc_char_def u_escape_def)
  then show ?thesis by (auto simp: quote_def)
qed

lemma join_all: "\<lbrakk>\<forall>c\<in>set sep. P c; \<forall>t\<in>set ts. \<forall>c\<in>set t. P c\<rbrakk> \<Longrightarrow> \<forall>c\<in>set (join sep ts). P c"
  by (induction sep ts rule: join.induct) auto

lemma dumps_printable:
  shows "\<lbrakk>check n v = Inr (); dumps canonical_style v = Inr t\<rbrakk> \<Longrightarrow> \<forall>c\<in>set t. 32 \<le> c"
    and "\<lbrakk>check_list n xs = Inr (); dumps_list canonical_style xs = Inr ts\<rbrakk> \<Longrightarrow>
           \<forall>t\<in>set ts. \<forall>c\<in>set t. 32 \<le> c"
    and "\<lbrakk>check_items n d = Inr (); dumps_items canonical_style d = Inr us\<rbrakk> \<Longrightarrow>
           \<forall>u\<in>set us. \<forall>c\<in>set (snd u). 32 \<le> c"
proof (induction n v and n xs and n d arbitrary: t and ts and us
    rule: check_check_list_check_items.induct)
  case (1 depth v)
  have sep: "set (item_sep canonical_style) = {44}" "set (key_sep canonical_style) = {58}"
    by (simp_all add: canonical_style_def)
  have "is_digit c \<Longrightarrow> 32 \<le> c" for c by (simp add: is_digit_def)
  then have int: "\<forall>c\<in>set (dec_int i). 32 \<le> c" for i
    using dec_nat_digits [of "nat i"] dec_nat_digits [of "nat (- i)"] by (auto simp: dec_int_def)
  show ?case
  proof (cases v)
    case (PyDict d)
    with 1 obtain us where us: "t = 123 # join (item_sep canonical_style)
             (map (member_text canonical_style) (order_items canonical_style us)) @ [125]"
      "\<forall>u\<in>set us. \<forall>c\<in>set (snd u). 32 \<le> c"
      by (auto simp: check.simps [of depth] require_def rbind_Inr_iff split: if_splits)
    have "\<forall>c\<in>set (member_text canonical_style u). 32 \<le> c" if "u \<in> set us" for u
      using us(2) that quote_printable [of _ "fst u"] sep(2) by (auto simp: member_text_def)
    then have "\<forall>c\<in>set (join (item_sep canonical_style) (map (member_text canonical_style) (order_items canonical_style us))). 32 \<le> c"
      by (intro join_all) (auto simp: sep(1) order_items_def)
    then show ?thesis using us(1) by simp
  next
    case (PyList xs)
    with 1 obtain ts where "t = 91 # join (item_sep canonical_style) ts @ [93]"
      "\<forall>t\<in>set ts. \<forall>c\<in>set t. 32 \<le> c"
      by (auto simp: check.simps [of depth] require_def rbind_Inr_iff split: if_splits)
    with join_all [of "item_sep canonical_style" "(\<le>) 32" ts] sep(1) show ?thesis by simp
  next
    case (PyTuple xs)
    with 1 obtain ts where "t = 91 # join (item_sep canonical_style) ts @ [93]"
      "\<forall>t\<in>set ts. \<forall>c\<in>set t. 32 \<le> c"
      by (auto simp: check.simps [of depth] require_def rbind_Inr_iff split: if_splits)
    with join_all [of "item_sep canonical_style" "(\<le>) 32" ts] sep(1) show ?thesis by simp
  qed (use 1 int quote_printable in \<open>auto simp: check.simps [of depth] require_def split: if_splits\<close>)
qed (fastforce simp: rbind_Inr_iff split: pykey.splits)+

lemma canonical_bytes_cases:
  "canonical_bytes v =
     (case check 0 v of
        Inl e \<Rightarrow> Inl CanonicalizationError
      | Inr _ \<Rightarrow>
          (case dumps canonical_style v of
             Inr t \<Rightarrow> Inr (concat (map utf8_char t))
           | Inl e \<Rightarrow> Inl CanonicalizationError))"
proof (cases "check 0 v")
  case (Inl e)
  then show ?thesis
    by (simp add: canonical_bytes_def canonical_string_def check_canonicalizable_def check_err(1) [OF Inl])
next
  case (Inr u)
  then have "check 0 v = Inr ()" by simp
  moreover from this have "dumps canonical_style v = Inr t \<Longrightarrow> list_all scalar t" for t
    by (rule dumps_scalar(1))
  ultimately show ?thesis
    by (auto simp: canonical_bytes_def canonical_string_def check_canonicalizable_def utf8_encode_def
        split: sum.splits)
qed

lemma canonical_bytes_fails:
  assumes "\<not> (check 0 v = Inr () \<and> ints_ok v)"
  shows "canonical_bytes v = Inl CanonicalizationError"
proof (cases "check 0 v")
  case (Inr u)
  with assms have "\<nexists>t. dumps canonical_style v = Inr t" using check_dumps(1) [of 0 v] by auto
  with Inr show ?thesis by (auto simp: canonical_bytes_cases split: sum.splits)
qed (simp add: canonical_bytes_cases)

lemma canonical_bytes_Inr:
  "canonical_bytes v = Inr b \<longleftrightarrow>
   check 0 v = Inr () \<and> (\<exists>t. dumps canonical_style v = Inr t \<and> utf8_encode t = Inr b)"
  using dumps_scalar(1) [of 0 v]
  by (auto simp: canonical_bytes_cases utf8_encode_def split: sum.splits)

lemma canonical_string_Inr:
  "canonical_string v = Inr t \<longleftrightarrow> check 0 v = Inr () \<and> dumps canonical_style v = Inr t"
  by (auto simp: canonical_string_def check_canonicalizable_def rbind_Inr_iff split: sum.splits)

section \<open>One document, one byte string\<close>

abbreviation canon_form :: "pyval \<Rightarrow> pyval" where
  "canon_form \<equiv> canon canonical_style"

lemma canon_list_map: "canon_list st xs = map (canon st) xs"
  by (induction xs) simp_all

lemma canon_items_map: "canon_items st d = map (\<lambda>kv. (fst kv, canon st (snd kv))) d"
  by (induction d) auto

lemma dumps_list_map: "dumps_list st xs = Inr ts \<longleftrightarrow> map (dumps st) xs = map Inr ts"
  by (induction xs arbitrary: ts) (auto simp: rbind_Inr_iff Cons_eq_map_conv)

lemma dumps_items_entries:
  "dumps_items st d = Inr us \<longleftrightarrow>
   (\<exists>es. d = map (\<lambda>e. (KStr (fst e), fst (snd e))) es \<and> us = map (\<lambda>e. (fst e, snd (snd e))) es
      \<and> (\<forall>e\<in>set es. dumps st (fst (snd e)) = Inr (snd (snd e))))"
proof (induction d arbitrary: us)
  case (Cons kv d)
  obtain k v where kv: "kv = (k, v)" by (cases kv)
  show ?case
  proof (cases k)
    case (KStr s)
    show ?thesis (is "?l = ?r")
    proof
      assume ?l
      then obtain t us' where t: "dumps st v = Inr t" "dumps_items st d = Inr us'" "us = (s, t) # us'"
        using kv KStr by (auto simp: rbind_Inr_iff)
      then obtain es where "d = map (\<lambda>e. (KStr (fst e), fst (snd e))) es"
        "us' = map (\<lambda>e. (fst e, snd (snd e))) es"
        "\<forall>e\<in>set es. dumps st (fst (snd e)) = Inr (snd (snd e))"
        using Cons.IH by blast
      with t kv KStr show ?r by (intro exI [of _ "(s, v, t) # es"]) simp
    next
      assume ?r
      then obtain es where es: "kv # d = map (\<lambda>e. (KStr (fst e), fst (snd e))) es"
        "us = map (\<lambda>e. (fst e, snd (snd e))) es"
        "\<forall>e\<in>set es. dumps st (fst (snd e)) = Inr (snd (snd e))" by (elim exE conjE) (rule that)
      then obtain e es' where e: "es = e # es'" by (cases es) auto
      have "dumps_items st d = Inr (map (\<lambda>e. (fst e, snd (snd e))) es')"
        unfolding Cons.IH by (rule exI [of _ es']) (use es e in simp)
      with es e kv KStr show ?l by simp
    qed
  qed (use kv in \<open>auto simp: Cons_eq_map_conv\<close>)
qed auto

lemma order_items_idem: "order_items st (order_items st us) = order_items st us"
  by (simp add: order_items_def sort_key_id_if_sorted)

lemma dumps_items_order:
  assumes "dumps_items st d = Inr us" "\<And>kv t. kv \<in> set d \<Longrightarrow> dumps st (snd kv) = Inr t \<Longrightarrow>
    dumps st (canon st (snd kv)) = Inr t"
  shows "dumps_items st (order_dict st (canon_items st d)) = Inr (order_items st us)"
proof -
  obtain es where es: "d = map (\<lambda>e. (KStr (fst e), fst (snd e))) es"
      "us = map (\<lambda>e. (fst e, snd (snd e))) es"
      "\<forall>e\<in>set es. dumps st (fst (snd e)) = Inr (snd (snd e))"
    using assms(1) dumps_items_entries by blast
  let ?o = "if sort_keys st then sort_key fst es else es"
  let ?es = "map (\<lambda>e. (fst e, canon st (fst (snd e)), snd (snd e))) ?o"
  have "order_dict st (canon_items st d) = map (\<lambda>e. (KStr (fst e), fst (snd e))) ?es"
    using map_sort_key [of "\<lambda>e. (KStr (fst e), canon st (fst (snd e)))" "\<lambda>kv. key_str (fst kv)" es]
    by (simp add: order_dict_def canon_items_map es(1) comp_def)
  moreover have "order_items st us = map (\<lambda>e. (fst e, snd (snd e))) ?es"
    using map_sort_key [of "\<lambda>e. (fst e, snd (snd e))" fst es]
    by (simp add: order_items_def es(2) comp_def)
  moreover have "\<forall>e\<in>set ?es. dumps st (fst (snd e)) = Inr (snd (snd e))"
  proof
    fix e assume "e \<in> set ?es"
    then obtain e0 where "e0 \<in> set es" "e = (fst e0, canon st (fst (snd e0)), snd (snd e0))"
      by (auto split: if_splits)
    with assms(2) [of "(KStr (fst e0), fst (snd e0))" "snd (snd e0)"] es(1,3)
    show "dumps st (fst (snd e)) = Inr (snd (snd e))" by force
  qed
  ultimately show ?thesis unfolding dumps_items_entries by blast
qed

lemma dumps_canon:
  shows "dumps st v = Inr t \<Longrightarrow> dumps st (canon st v) = Inr t"
    and "dumps_list st xs = Inr ts \<Longrightarrow> dumps_list st (canon_list st xs) = Inr ts"
    and "dumps_items st d = Inr us \<Longrightarrow>
           (\<forall>kv\<in>set d. \<forall>t. dumps st (snd kv) = Inr t \<longrightarrow> dumps st (canon st (snd kv)) = Inr t)"
proof (induction st v and st xs and st d arbitrary: t and ts and us
    rule: dumps_dumps_list_dumps_items.induct)
  case (8 st d)
  then obtain us where us: "dumps_items st d = Inr us" by (auto simp: rbind_Inr_iff)
  then have "dumps_items st (order_dict st (canon_items st d)) = Inr (order_items st us)"
    using 8(1) by (intro dumps_items_order) blast+
  with us 8(2) show ?case by (simp add: order_items_idem)
qed (auto simp: rbind_Inr_iff)

lemma set_order_dict [simp]: "set (order_dict st d) = set d"
  by (simp add: order_dict_def)

lemma check_canon:
  shows "check n v = Inr () \<Longrightarrow> check n (canon st v) = Inr ()"
    and "check_list n xs = Inr () \<Longrightarrow> check_list n (canon_list st xs) = Inr ()"
    and "check_items n d = Inr () \<Longrightarrow> check_items n (canon_items st d) = Inr ()"
proof (induction n v and n xs and n d rule: check_check_list_check_items.induct)
  case (1 depth v)
  show ?case
  proof (cases v)
    case (PyDict d)
    with 1 have "check_items (depth + 1) (canon_items st d) = Inr ()" "depth \<le> MAX_DEPTH"
      by (auto simp: check.simps [of depth] require_def split: if_splits)
    with PyDict show ?thesis by (simp add: check.simps [of depth] check_items_ok)
  qed (use 1 in \<open>auto simp: check.simps [of depth] require_def split: if_splits\<close>)
qed (auto simp: rbind_Inr_iff split: pykey.splits)

lemma order_dict_keys: "distinct (map fst (order_dict st d)) = distinct (map fst d)"
  by (simp add: order_dict_def distinct_map distinct_sort)

lemma dicts_ok_items_all: "dicts_ok_items d \<longleftrightarrow> (\<forall>kv\<in>set d. dicts_ok (snd kv))"
  by (induction d) auto

lemma dicts_ok_canon:
  shows "dicts_ok v \<Longrightarrow> dicts_ok (canon st v)"
    and "dicts_ok_list xs \<Longrightarrow> dicts_ok_list (canon_list st xs)"
    and "dicts_ok_items d \<Longrightarrow> dicts_ok_items (canon_items st d)"
proof (induction v and xs and d rule: dicts_ok_dicts_ok_list_dicts_ok_items.induct)
  case (3 d)
  then have "dicts_ok_items (canon_items st d)" "distinct (map fst d)" by simp_all
  moreover have "map fst (canon_items st d) = map fst d" by (simp add: canon_items_map)
  ultimately show ?case by (simp add: order_dict_keys dicts_ok_items_all)
qed simp_all

lemma canonical_bytes_canon:
  "canonical_bytes v = Inr b \<Longrightarrow> canonical_bytes (canon_form v) = Inr b"
  by (auto simp: canonical_bytes_Inr check_canon(1) dumps_canon(1))

lemma canonical_bytes_loads:
  assumes "hook_ok hook" "dicts_ok v" "canonical_bytes v = Inr b"
  shows "rbind (utf8_decode b) (loads hook pc) = Inr (canon_form v)"
proof -
  obtain t where t: "check 0 v = Inr ()" "dumps canonical_style v = Inr t" "utf8_encode t = Inr b"
    using assms(3) by (auto simp: canonical_bytes_Inr)
  then have "json_ok v" using check_json_ok(1) assms(2) by blast
  then have "loads hook pc t = Inr (canon_form v)"
    using loads_dumps [OF canonical_style_ok assms(1)] t(2) by blast
  moreover have "utf8_decode b = Inr t" using utf8.dec_enc t(3) utf8_encode_Inr by fastforce
  ultimately show ?thesis by simp
qed

text \<open>The order in which a dict was built does not show in its canonical bytes.\<close>

lemma dumps_items_set:
  "dumps_items st d = Inr us \<Longrightarrow>
   set us = {(k, t). \<exists>v. (KStr k, v) \<in> set d \<and> dumps st v = Inr t} \<and>
   map (KStr \<circ> fst) us = map fst d"
proof (induction d arbitrary: us)
  case (Cons kv d)
  obtain k v where kv: "kv = (k, v)" by (cases kv)
  with Cons.prems obtain s t us' where s: "k = KStr s" "dumps st v = Inr t"
      "dumps_items st d = Inr us'" "us = (s, t) # us'"
    by (cases k) (auto simp: rbind_Inr_iff)
  with Cons.IH [OF s(3)] kv show ?case by auto
qed simp

lemma sort_key_set_eq:
  fixes us vs :: "('k::linorder \<times> 'v) list"
  assumes "distinct (map fst us)" "distinct (map fst vs)" "set us = set vs"
  shows "sort_key fst us = sort_key fst vs"
proof (rule sort_key_inj_key_eq)
  show "mset us = mset (sort_key fst vs)"
    using assms by (simp add: set_eq_iff_mset_eq_distinct distinct_map)
  show "inj_on fst (set us)" using assms(1) by (simp add: distinct_map)
  show "sorted (map fst (sort_key fst vs))" by simp
qed

lemma canonical_bytes_perm:
  assumes "distinct (map fst d)" "distinct (map fst d')" "set d = set d'"
  shows "canonical_bytes (PyDict d) = canonical_bytes (PyDict d')"
proof -
  have chk: "check 0 (PyDict d) = Inr () \<longleftrightarrow> check 0 (PyDict d') = Inr ()"
    using assms(3) by (simp add: check.simps [of 0] check_items_ok MAX_DEPTH_def)
  have "dumps canonical_style (PyDict d) = dumps canonical_style (PyDict d')"
    if c: "check 0 (PyDict d) = Inr ()" and t: "dumps canonical_style (PyDict d) = Inr t"
      and t': "dumps canonical_style (PyDict d') = Inr t'" for t t'
  proof -
    obtain us us' where us: "dumps_items canonical_style d = Inr us"
        "dumps_items canonical_style d' = Inr us'"
      using t t' by (auto simp: rbind_Inr_iff)
    note s = dumps_items_set [OF us(1)] dumps_items_set [OF us(2)]
    have dst: "distinct (map fst us)" if "map (KStr \<circ> fst) us = map fst d" "distinct (map fst d)"
      for us :: "(pystr \<times> pystr) list" and d :: pydict
      using that by (metis distinct_map map_map)
    have "sort_key fst us = sort_key fst us'"
    proof (rule sort_key_set_eq)
      show "distinct (map fst us)" using s(1) assms(1) by (intro dst) blast+
      show "distinct (map fst us')" using s(2) assms(2) by (intro dst) blast+
      show "set us = set us'" using s assms(3) by simp
    qed
    then show ?thesis using us by (simp add: order_items_def canonical_style_def)
  qed
  note same = this
  have ints: "ints_ok (PyDict d) \<longleftrightarrow> ints_ok (PyDict d')"
  proof -
    have "ints_ok_items d \<longleftrightarrow> (\<forall>kv\<in>set d. ints_ok (snd kv))" for d by (induction d) auto
    then show ?thesis using assms(3) by simp
  qed
  show ?thesis
  proof (cases "check 0 (PyDict d) = Inr () \<and> ints_ok (PyDict d)")
    case True
    with chk ints have "check 0 (PyDict d') = Inr ()" "ints_ok (PyDict d')" by simp_all
    with True obtain t t' where t: "dumps canonical_style (PyDict d) = Inr t"
        "dumps canonical_style (PyDict d') = Inr t'"
      using check_dumps(1) by blast
    with same [OF _ t] True chk show ?thesis by (simp add: canonical_bytes_cases del: dumps.simps)
  next
    case False
    then have "canonical_bytes (PyDict d) = Inl CanonicalizationError"
      by (rule canonical_bytes_fails)
    moreover have "canonical_bytes (PyDict d') = Inl CanonicalizationError"
      using False chk ints by (intro canonical_bytes_fails) simp
    ultimately show ?thesis by simp
  qed
qed

text \<open>The canonical bytes as a codec; its decoder is the decode-then-parse of the readers.\<close>

interpretation canonical: total_codec canonical_bytes "\<lambda>b. rbind (utf8_decode b) json_loads"
  "\<lambda>v. dicts_ok v \<and> check_canonicalizable v = Inr () \<and> ints_ok v" canon_form
proof unfold_locales
  fix v b assume "dicts_ok v \<and> check_canonicalizable v = Inr () \<and> ints_ok v" "canonical_bytes v = Inr b"
  then show "rbind (utf8_decode b) json_loads = Inr (canon_form v)"
    unfolding json_loads_def using canonical_bytes_loads [OF dict_of_pairs_ok] by blast
next
  fix v assume "dicts_ok v \<and> check_canonicalizable v = Inr () \<and> ints_ok v"
  then have c: "check 0 v = Inr ()" "ints_ok v" by (simp_all add: check_canonicalizable_def)
  then obtain t where "dumps canonical_style v = Inr t" using check_dumps(1) by blast
  with c show "\<exists>b. canonical_bytes v = Inr b" by (auto simp: canonical_bytes_cases)
qed

section \<open>A bound on the size\<close>

fun json_bound :: "pyval \<Rightarrow> nat"
  and json_bound_list :: "pyval list \<Rightarrow> nat"
  and json_bound_items :: "pydict \<Rightarrow> nat"
where
  "json_bound (PyInt i) = length (dec_int i)"
| "json_bound (PyStr s) = 6 * length s + 2"
| "json_bound (PyList xs) = json_bound_list xs + 2"
| "json_bound (PyTuple xs) = json_bound_list xs + 2"
| "json_bound (PyDict d) = json_bound_items d + 2"
| "json_bound v = 5"
| "json_bound_list [] = 0"
| "json_bound_list (x # xs) = json_bound x + 1 + json_bound_list xs"
| "json_bound_items [] = 0"
| "json_bound_items ((k, v) # d) = 6 * length (key_str k) + 4 + json_bound v + json_bound_items d"

lemma quote_length: "length (quote False s) \<le> 6 * length s + 2"
proof -
  have "length (esc_char False c) \<le> 6" for c by (auto simp: esc_char_def u_escape_def hex4_def)
  then have "length (concat (map (esc_char False) s)) \<le> 6 * length s"
    by (induction s) (auto intro: add_mono)
  then show ?thesis by (simp add: quote_def)
qed

lemma join_length: "length (join sep ts) \<le> sum_list (map (\<lambda>t. length t + length sep) ts)"
  by (induction sep ts rule: join.induct) auto

lemma sum_list_sort_key: "sum_list (map (f :: _ \<Rightarrow> nat) (sort_key g xs)) = sum_list (map f xs)"
  by (metis mset_map mset_sort sum_mset_sum_list)

lemma dumps_length:
  shows "\<lbrakk>check n v = Inr (); dumps canonical_style v = Inr t\<rbrakk> \<Longrightarrow> length t \<le> json_bound v"
    and "\<lbrakk>check_list n xs = Inr (); dumps_list canonical_style xs = Inr ts\<rbrakk> \<Longrightarrow>
           sum_list (map (\<lambda>t. length t + 1) ts) \<le> json_bound_list xs"
    and "\<lbrakk>check_items n d = Inr (); dumps_items canonical_style d = Inr us\<rbrakk> \<Longrightarrow>
           sum_list (map (\<lambda>u. length (member_text canonical_style u) + 1) us) \<le> json_bound_items d"
proof (induction n v and n xs and n d arbitrary: t and ts and us
    rule: check_check_list_check_items.induct)
  case (1 depth v)
  have sep: "length (item_sep canonical_style) = 1" "\<not> ensure_ascii canonical_style"
    by (simp_all add: canonical_style_def)
  note j = join_length [of "item_sep canonical_style", unfolded sep]
  show ?case
  proof (cases v)
    case (PyDict d)
    with 1 obtain us where us: "dumps_items canonical_style d = Inr us"
      "t = 123 # join (item_sep canonical_style)
             (map (member_text canonical_style) (order_items canonical_style us)) @ [125]"
      "sum_list (map (\<lambda>u. length (member_text canonical_style u) + 1) us) \<le> json_bound_items d"
      by (auto simp: check.simps [of depth] require_def rbind_Inr_iff split: if_splits)
    moreover have "sum_list (map (\<lambda>u. length (member_text canonical_style u) + 1) (order_items canonical_style us))
        = sum_list (map (\<lambda>u. length (member_text canonical_style u) + 1) us)"
      unfolding order_items_def by (simp only: sum_list_sort_key split: if_split) simp
    ultimately show ?thesis
      using PyDict j [of "map (member_text canonical_style) (order_items canonical_style us)"]
      by (simp add: comp_def)
  next
    case (PyList xs)
    with 1 obtain ts where "dumps_list canonical_style xs = Inr ts"
      "t = 91 # join (item_sep canonical_style) ts @ [93]"
      "sum_list (map (\<lambda>t. length t + 1) ts) \<le> json_bound_list xs"
      by (auto simp: check.simps [of depth] require_def rbind_Inr_iff split: if_splits)
    with PyList j [of ts] show ?thesis by simp
  next
    case (PyTuple xs)
    with 1 obtain ts where "dumps_list canonical_style xs = Inr ts"
      "t = 91 # join (item_sep canonical_style) ts @ [93]"
      "sum_list (map (\<lambda>t. length t + 1) ts) \<le> json_bound_list xs"
      by (auto simp: check.simps [of depth] require_def rbind_Inr_iff split: if_splits)
    with PyTuple j [of ts] show ?thesis by simp
  next
    case (PyStr s)
    with 1 sep quote_length [of s] show ?thesis by auto
  qed (use 1 in \<open>auto simp: check.simps [of depth] require_def split: if_splits\<close>)
next
  case (3 depth x xs)
  then show ?case by (fastforce simp: rbind_Inr_iff)
next
  case (5 depth k v d)
  then obtain s t us' where s: "k = KStr s" "check depth v = Inr ()" "check_items depth d = Inr ()"
      "check_string s = Inr ()"
      "dumps canonical_style v = Inr t" "dumps_items canonical_style d = Inr us'" "us = (s, t) # us'"
    by (cases k) (auto simp: rbind_Inr_iff simp del: check_string_ok)
  have "length t \<le> json_bound v" using 5(1) s by blast
  moreover have "sum_list (map (\<lambda>u. length (member_text canonical_style u) + 1) us') \<le> json_bound_items d"
    using 5(2) s by blast
  moreover have "length (member_text canonical_style (s, t)) \<le> 6 * length s + 3 + length t"
    using quote_length [of s] by (simp add: member_text_def canonical_style_def)
  ultimately show ?case using s(1,7) by simp
qed simp_all

lemma utf8_length: "length (concat (map utf8_char t)) \<le> 4 * length t"
proof -
  have "length (utf8_char c) \<le> 4" for c by (simp add: utf8_char_def)
  then show ?thesis by (induction t) (auto intro: add_mono)
qed

lemma canonical_bytes_bound:
  assumes "check 0 v = Inr ()" "ints_ok v"
  shows "\<exists>b. canonical_bytes v = Inr b \<and> length b \<le> 4 * json_bound v"
proof -
  obtain t where t: "dumps canonical_style v = Inr t" using check_dumps(1) assms by blast
  moreover have "length (concat (map utf8_char t)) \<le> 4 * json_bound v"
    using utf8_length [of t] dumps_length(1) [OF assms(1) t] by linarith
  ultimately show ?thesis using assms(1) by (simp add: canonical_bytes_cases)
qed

text \<open>The facts that evaluate the check on a concrete document.\<close>

lemma check_string_Inr: "\<lbrakk>length s \<le> MAX_STRING_LENGTH; list_all scalar s\<rbrakk> \<Longrightarrow> check_string s = Inr ()"
  by simp

lemmas check_eval = check_canonicalizable_def check.simps MAX_DEPTH_def check_string_Inr
  MAX_STRING_LENGTH_def int_digits_ok_def MAX_STR_DIGITS_def dec_nat.simps

text \<open>Equal bytes mean equal fields, each in its normal form.\<close>

lemma canonical_bytes_fields:
  assumes "dicts_ok (PyDict d)" "dicts_ok (PyDict d')"
    and "canonical_bytes (PyDict d) = Inr b" "canonical_bytes (PyDict d') = Inr b"
  shows "dict_get (canon_items canonical_style d) k = dict_get (canon_items canonical_style d') k"
proof -
  have ok: "dicts_ok v \<and> check_canonicalizable v = Inr () \<and> ints_ok v"
    if "canonical_bytes v = Inr b" "dicts_ok v" for v
    using that dumps_ints(1) by (auto simp: canonical_bytes_Inr check_canonicalizable_def)
  have "canon_form (PyDict d) = canon_form (PyDict d')"
    using canonical.enc_inj ok assms by blast
  then have "set (canon_items canonical_style d) = set (canon_items canonical_style d')"
    by (metis canon.simps(3) pyval.inject(8) set_order_dict)
  moreover have "distinct (map fst (canon_items canonical_style d))"
      "distinct (map fst (canon_items canonical_style d'))"
    using assms(1,2) by (simp_all add: canon_items_map comp_def case_prod_unfold)
  ultimately have "map_of (canon_items canonical_style d) = map_of (canon_items canonical_style d')"
    by (simp add: map_of_inject_set)
  then show ?thesis by (simp add: dict_get_def)
qed

section \<open>Properties\<close>

text \<open>
  \<^bold>\<open>C11\<close>. The canonical form is faithful: two JSON documents that pass the check have the same
  canonical bytes if and only if they are the same document (same value up to the order of
  object keys and the tuple/list distinction, which JSON does not have). So a signature over
  the bytes is a signature over exactly one document, whatever order its keys were built in.
\<close>

theorem canonical_bytes_injective:
  assumes "dicts_ok v" "dicts_ok w"
    and "check_canonicalizable v = Inr ()" "check_canonicalizable w = Inr ()"
    and "ints_ok v" "ints_ok w"
  shows "canonical_bytes v = canonical_bytes w \<longleftrightarrow> canon_form v = canon_form w"
proof (rule canonical.enc_eq_iff)
  fix z assume z: "dicts_ok z \<and> check_canonicalizable z = Inr () \<and> ints_ok z"
  from canonical.enc_total [OF z] obtain b where b: "canonical_bytes z = Inr b" by blast
  from canonical_bytes_canon [OF b] b show "canonical_bytes (canon_form z) = canonical_bytes z"
    by simp
qed (use assms in auto)

theorem canonical_bytes_injective_witness:
  "canonical_bytes (PyDict [(KStr (lit ''a''), PyInt 1), (KStr (lit ''b''), PyTuple [])])
   = canonical_bytes (PyDict [(KStr (lit ''b''), PyList []), (KStr (lit ''a''), PyInt 1)])"
proof -
  have k: "check_string [97] = Inr ()" "check_string [98] = Inr ()"
    by (simp_all add: MAX_STRING_LENGTH_def)
  show ?thesis
    by (subst canonical_bytes_injective)
      (simp_all add: check_canonicalizable_def check.simps k MAX_DEPTH_def
        order_dict_def canonical_style_def int_digits_ok_def
        MAX_STR_DIGITS_def dec_nat.simps)
qed

text \<open>
  \<^bold>\<open>C12\<close>. \<^verbatim>\<open>canonical_bytes\<close> fails only with \<^verbatim>\<open>CanonicalizationError\<close>, and
  exactly when the check refuses the value or an integer in it has more than 4300 decimal
  digits; otherwise it returns the UTF-8 encoding of the canonical text. So the handler of
  \<^verbatim>\<open>canonical_string\<close> that the source marks as guarded by the check is reachable, and
  the handler of the final encode is not.
\<close>

theorem canonical_bytes_total:
  "(if check_canonicalizable v = Inr () \<and> ints_ok v
    then \<exists>t b. dumps canonical_style v = Inr t \<and> canonical_string v = Inr t
               \<and> utf8_encode t = Inr b \<and> canonical_bytes v = Inr b
    else canonical_bytes v = Inl CanonicalizationError)"
proof (cases "check 0 v = Inr () \<and> ints_ok v")
  case True
  then obtain t where t: "dumps canonical_style v = Inr t" using check_dumps(1) by blast
  have "list_all scalar t" using dumps_scalar(1) True t by blast
  with True t show ?thesis
    by (simp add: check_canonicalizable_def canonical_string_Inr canonical_bytes_cases
        utf8_encode_def)
next
  case False
  then show ?thesis using canonical_bytes_fails [OF False] by (simp add: check_canonicalizable_def)
qed

end
