(* ===== verification/Models.thy ===== *)
theory Models
  imports Canonicalizer
begin

text \<open>
  \<^verbatim>\<open>pqc_evidence/models.py\<close>: the signed-event envelope as the record \<open>SignedEvent\<close>, the
  field validators, \<open>build_unsigned\<close> (the signing path) and \<open>parse_signed_event\<close> /
  \<open>parse_signed_event_json\<close> (untrusted input). Message texts are dropped; the
  \<^verbatim>\<open>reason\<close> of a validation error is kept. Shown: what the parsers accept is well formed
  and carries exactly the fields of the record, which exceptions can leave them, and that a
  well-formed envelope survives being written as a line and parsed again.
\<close>

definition SUPPORTED_FORMAT_VERSIONS :: "pystr list" where
  "SUPPORTED_FORMAT_VERSIONS = [lit ''1.0'']"

definition SUPPORTED_SIGNATURE_ALGORITHMS :: "pystr list" where
  "SUPPORTED_SIGNATURE_ALGORITHMS = [lit ''ML-DSA-44'', lit ''ML-DSA-65'', lit ''ML-DSA-87'']"

definition SUPPORTED_HASH_ALGORITHMS :: "pystr list" where
  "SUPPORTED_HASH_ALGORITHMS = [lit ''SHA3-256'']"

definition MAX_EVIDENCE_BYTES :: nat where
  "MAX_EVIDENCE_BYTES = 262144"

definition MAX_EVENT_BYTES :: nat where
  "MAX_EVENT_BYTES = 65536"

definition MAX_EVENT_DEPTH :: nat where
  "MAX_EVENT_DEPTH = 16"

definition MAX_NODE_ID_LENGTH :: nat where
  "MAX_NODE_ID_LENGTH = 128"

definition ENVELOPE_FIELDS :: "pystr list" where
  "ENVELOPE_FIELDS = map lit
     [''format_version'', ''node_id'', ''sequence'', ''timestamp'', ''previous_event_hash'',
      ''event_hash'', ''event'', ''signature_algorithm'', ''hash_algorithm'', ''key_id'',
      ''signature'']"

section \<open>Field validators\<close>

text \<open>
  A compiled pattern \<^verbatim>\<open>^...$\<close> under \<^verbatim>\<open>match\<close>: the \<^verbatim>\<open>$\<close> also matches before
  one newline at the end of the string, so the pattern's body is what is left without it.
\<close>

definition dollar_core :: "pystr \<Rightarrow> pystr" where
  "dollar_core s = (if s \<noteq> [] \<and> last s = 10 then butlast s else s)"

definition id_alnum :: "nat \<Rightarrow> bool" where
  "id_alnum c \<longleftrightarrow> 65 \<le> c \<and> c \<le> 90 \<or> 97 \<le> c \<and> c \<le> 122 \<or> 48 \<le> c \<and> c \<le> 57"

definition id_char :: "nat \<Rightarrow> bool" where
  "id_char c \<longleftrightarrow> id_alnum c \<or> c \<in> {46, 95, 58, 45}"

definition ID_PATTERN :: "pystr \<Rightarrow> bool" where
  "ID_PATTERN s = (case dollar_core s of
       [] \<Rightarrow> False
     | c # cs \<Rightarrow> id_alnum c \<and> list_all id_char cs \<and> length cs \<le> 127)"

definition hex_lower :: "nat \<Rightarrow> bool" where
  "hex_lower c \<longleftrightarrow> 48 \<le> c \<and> c \<le> 57 \<or> 97 \<le> c \<and> c \<le> 102"

definition SHA3_256_HEX :: "pystr \<Rightarrow> bool" where
  "SHA3_256_HEX s \<longleftrightarrow> length (dollar_core s) = 64 \<and> list_all hex_lower (dollar_core s)"

abbreviation malformed :: exn where
  "malformed \<equiv> EvidenceValidationError malformed_evidence"

abbreviation oversized :: exn where
  "oversized \<equiv> EvidenceValidationError oversized_evidence"

definition validate_identifier :: "pyval \<Rightarrow> pystr res" where
  "validate_identifier v =
     (case v of
        PyStr s \<Rightarrow>
          require (s \<noteq> []) malformed
            (require (length s \<le> MAX_NODE_ID_LENGTH) malformed
              (require (ID_PATTERN s) malformed (Inr s)))
      | _ \<Rightarrow> Inl malformed)"

definition validate_hash :: "pyval \<Rightarrow> pystr res" where
  "validate_hash v =
     (case v of PyStr s \<Rightarrow> require (SHA3_256_HEX s) malformed (Inr s) | _ \<Rightarrow> Inl malformed)"

definition validate_sequence :: "pyval \<Rightarrow> int res" where
  "validate_sequence v =
     (case v of
        PyInt i \<Rightarrow> require (i \<ge> 1) malformed (require (i \<le> 2 ^ 63 - 1) malformed (Inr i))
      | _ \<Rightarrow> Inl malformed)"

text \<open>\<^verbatim>\<open>max(..., default=level)\<close>.\<close>

definition max_default :: "nat \<Rightarrow> nat list \<Rightarrow> nat" where
  "max_default level ns = (case ns of [] \<Rightarrow> level | m # ms \<Rightarrow> fold max ms m)"

fun depth :: "nat \<Rightarrow> pyval \<Rightarrow> nat"
  and depth_list :: "nat \<Rightarrow> pyval list \<Rightarrow> nat list"
  and depth_items :: "nat \<Rightarrow> pydict \<Rightarrow> nat list"
where
  "depth level (PyDict d) = max_default level (depth_items (level + 1) d)"
| "depth level (PyList xs) = max_default level (depth_list (level + 1) xs)"
| "depth level (PyTuple xs) = max_default level (depth_list (level + 1) xs)"
| "depth level v = level"
| "depth_list level [] = []"
| "depth_list level (x # xs) = depth level x # depth_list level xs"
| "depth_items level [] = []"
| "depth_items level ((k, v) # d) = depth level v # depth_items level d"

text \<open>
  The encoding happens outside the \<^verbatim>\<open>try\<close>, so what it raises leaves unchanged.
\<close>

definition validate_event :: "pyval \<Rightarrow> pydict res" where
  "validate_event v =
     (case v of
        PyDict d \<Rightarrow>
          (case check_canonicalizable v of
             Inl _ \<Rightarrow> Inl malformed
           | Inr _ \<Rightarrow>
               rbind (canonical_bytes v) (\<lambda>encoded.
                 require (length encoded \<le> MAX_EVENT_BYTES) oversized
                   (require (depth 1 v \<le> MAX_EVENT_DEPTH) malformed (Inr d))))
      | _ \<Rightarrow> Inl malformed)"

definition validate_signature :: "pyval \<Rightarrow> bytes res" where
  "validate_signature v =
     (case v of
        PyStr s \<Rightarrow>
          require (s \<noteq> []) malformed
            (case b64decode s of
               Inl _ \<Rightarrow> Inl malformed
             | Inr raw \<Rightarrow> require (raw \<noteq> []) malformed (Inr raw))
      | _ \<Rightarrow> Inl malformed)"

section \<open>The envelope\<close>

record SignedEvent =
  format_version :: pystr
  node_id :: pystr
  sequence :: int
  timestamp :: pystr
  previous_event_hash :: pystr
  event_hash :: pystr
  event :: pydict
  signature_algorithm :: pystr
  hash_algorithm :: pystr
  key_id :: pystr
  signature :: pystr
  signature_bytes :: bytes

definition to_dict :: "SignedEvent \<Rightarrow> bool \<Rightarrow> pydict" where
  "to_dict e include_signature =
     [(KStr (lit ''format_version''), PyStr (format_version e)),
      (KStr (lit ''node_id''), PyStr (node_id e)),
      (KStr (lit ''sequence''), PyInt (sequence e)),
      (KStr (lit ''timestamp''), PyStr (timestamp e)),
      (KStr (lit ''previous_event_hash''), PyStr (previous_event_hash e)),
      (KStr (lit ''event_hash''), PyStr (event_hash e)),
      (KStr (lit ''event''), PyDict (event e)),
      (KStr (lit ''signature_algorithm''), PyStr (signature_algorithm e)),
      (KStr (lit ''hash_algorithm''), PyStr (hash_algorithm e)),
      (KStr (lit ''key_id''), PyStr (key_id e))]
     @ (if include_signature then [(KStr (lit ''signature''), PyStr (signature e))] else [])"

definition to_json_line :: "SignedEvent \<Rightarrow> pystr res" where
  "to_json_line e = rbind (canonical_bytes (PyDict (to_dict e True))) utf8_decode"

definition HASH_EXCLUDED :: "pykey list" where
  "HASH_EXCLUDED = [KStr (lit ''event_hash''), KStr (lit ''signature'')]"

definition SIGNATURE_EXCLUDED :: "pykey list" where
  "SIGNATURE_EXCLUDED = [KStr (lit ''signature'')]"

definition hash_payload :: "SignedEvent \<Rightarrow> bytes res" where
  "hash_payload e =
     canonical_bytes (PyDict (filter (\<lambda>(k, v). k \<notin> set HASH_EXCLUDED) (to_dict e True)))"

definition signing_payload :: "SignedEvent \<Rightarrow> bytes res" where
  "signing_payload e =
     canonical_bytes (PyDict (filter (\<lambda>(k, v). k \<notin> set SIGNATURE_EXCLUDED) (to_dict e True)))"

definition with_signature :: "SignedEvent \<Rightarrow> pystr \<Rightarrow> bytes \<Rightarrow> SignedEvent" where
  "with_signature e signature_b64 signature_raw =
     e\<lparr>signature := signature_b64, signature_bytes := signature_raw\<rparr>"

definition with_event_hash :: "SignedEvent \<Rightarrow> pystr \<Rightarrow> SignedEvent" where
  "with_event_hash e h = e\<lparr>event_hash := h\<rparr>"

text \<open>
  \<^verbatim>\<open>normalize_timestamp\<close> under the handler both constructors put around it: only a
  \<^verbatim>\<open>CanonicalizationError\<close> is translated.
\<close>

definition checked_timestamp :: "pyval \<Rightarrow> pystr res" where
  "checked_timestamp v =
     (case normalize_timestamp v of
        Inl e \<Rightarrow> Inl (if e = CanonicalizationError then malformed else e)
      | Inr t \<Rightarrow> Inr t)"

definition build_unsigned ::
  "pyval \<Rightarrow> pyval \<Rightarrow> pyval \<Rightarrow> pyval \<Rightarrow> pyval \<Rightarrow> pyval \<Rightarrow> pystr \<Rightarrow> pystr \<Rightarrow> pystr
   \<Rightarrow> SignedEvent res"
where
  "build_unsigned nid sq ts ph ev kid salg halg fv =
     require (fv \<in> set SUPPORTED_FORMAT_VERSIONS) (EvidenceValidationError unsupported_format_version)
     (require (salg \<in> set SUPPORTED_SIGNATURE_ALGORITHMS) (EvidenceValidationError unsupported_algorithm)
     (require (halg \<in> set SUPPORTED_HASH_ALGORITHMS) (EvidenceValidationError unsupported_algorithm)
     (rbind (checked_timestamp ts) (\<lambda>normalized.
      rbind (validate_identifier nid) (\<lambda>nid'.
      rbind (validate_sequence sq) (\<lambda>sq'.
      rbind (validate_hash ph) (\<lambda>ph'.
      rbind (validate_event ev) (\<lambda>ev'.
      rbind (validate_identifier kid) (\<lambda>kid'.
        Inr \<lparr>format_version = fv, node_id = nid', sequence = sq', timestamp = normalized,
             previous_event_hash = ph', event_hash = replicate 64 48, event = ev',
             signature_algorithm = salg, hash_algorithm = halg, key_id = kid',
             signature = [], signature_bytes = []\<rparr>)))))))))"

section \<open>Parsing untrusted records\<close>

definition parse_signed_event_size_guard :: "pydict \<Rightarrow> nat \<Rightarrow> pydict res" where
  "parse_signed_event_size_guard data max_bytes =
     rbind (dict_item data (lit ''event'')) (\<lambda>v.
     rbind (validate_event v) (\<lambda>ev.
       (case canonical_bytes (PyDict data) of
          Inl e \<Rightarrow> Inl (if e = CanonicalizationError \<or> e = UnicodeError then malformed else e)
        | Inr encoded \<Rightarrow> require (length encoded \<le> max_bytes) oversized (Inr ev))))"

text \<open>A string field that must be one of the supported values.\<close>

definition supported_field :: "pydict \<Rightarrow> pystr \<Rightarrow> pystr list \<Rightarrow> reason \<Rightarrow> pystr res" where
  "supported_field data k supported r =
     rbind (dict_item data k) (\<lambda>v.
       (case v of
          PyStr s \<Rightarrow> require (s \<in> set supported) (EvidenceValidationError r) (Inr s)
        | _ \<Rightarrow> Inl malformed))"

text \<open>
  The message of the unknown-field check sorts the unknown keys whether or not the check
  fails; sorting strings together with keys of another type is a \<^verbatim>\<open>TypeError\<close> (keys that
  are not strings are taken to be comparable among themselves).
\<close>

definition unsortable :: "pykey list \<Rightarrow> bool" where
  "unsortable ks \<longleftrightarrow>
     list_ex (\<lambda>k. case k of KStr _ \<Rightarrow> True | KOther _ \<Rightarrow> False) ks \<and>
     list_ex (\<lambda>k. case k of KStr _ \<Rightarrow> False | KOther _ \<Rightarrow> True) ks"

definition parse_signed_event :: "pyval \<Rightarrow> nat \<Rightarrow> bool \<Rightarrow> SignedEvent res" where
  "parse_signed_event v max_bytes require_signature =
     (case v of
        PyDict data \<Rightarrow>
          (let unknown = filter (\<lambda>k. k \<notin> KStr ` set ENVELOPE_FIELDS) (dict_keys data);
               required = filter (\<lambda>f. require_signature \<or> f \<noteq> lit ''signature'') ENVELOPE_FIELDS
           in
             require (\<not> unsortable unknown) TypeError
             (require (unknown = []) malformed
             (require (list_all (dict_has data) required) malformed
             (rbind (supported_field data (lit ''format_version'') SUPPORTED_FORMAT_VERSIONS
                       unsupported_format_version) (\<lambda>fv.
              rbind (supported_field data (lit ''signature_algorithm'')
                       SUPPORTED_SIGNATURE_ALGORITHMS unsupported_algorithm) (\<lambda>salg.
              rbind (supported_field data (lit ''hash_algorithm'') SUPPORTED_HASH_ALGORITHMS
                       unsupported_algorithm) (\<lambda>halg.
              rbind (dict_item data (lit ''timestamp'')) (\<lambda>ts.
              rbind (checked_timestamp ts) (\<lambda>normalized.
              require (ts = PyStr normalized) malformed
             (let sig = (case dict_get data (lit ''signature'') of None \<Rightarrow> PyStr [] | Some s \<Rightarrow> s) in
              rbind (if require_signature then validate_signature sig else Inr []) (\<lambda>sigb.
              rbind (parse_signed_event_size_guard data max_bytes) (\<lambda>ev.
              rbind (rbind (dict_item data (lit ''node_id'')) validate_identifier) (\<lambda>nid.
              rbind (rbind (dict_item data (lit ''sequence'')) validate_sequence) (\<lambda>sq.
              rbind (rbind (dict_item data (lit ''previous_event_hash'')) validate_hash) (\<lambda>ph.
              rbind (rbind (dict_item data (lit ''event_hash'')) validate_hash) (\<lambda>eh.
              rbind (rbind (dict_item data (lit ''key_id'')) validate_identifier) (\<lambda>kid.
                Inr \<lparr>format_version = fv, node_id = nid, sequence = sq, timestamp = normalized,
                     previous_event_hash = ph, event_hash = eh, event = ev,
                     signature_algorithm = salg, hash_algorithm = halg, key_id = kid,
                     signature = (case sig of PyStr s \<Rightarrow> s | _ \<Rightarrow> []),
                     signature_bytes = sigb\<rparr>)))))))))))))))))
      | _ \<Rightarrow> Inl malformed)"

definition reject_duplicate_keys :: "(pystr \<times> pyval) list \<Rightarrow> pyval res" where
  "reject_duplicate_keys pairs =
     require (distinct (map fst pairs)) malformed
       (Inr (PyDict (map (\<lambda>(k, v). (KStr k, v)) pairs)))"

definition no_constants :: "pystr \<Rightarrow> pyval res" where
  "no_constants name = Inl malformed"

definition parse_signed_event_json :: "pyval \<Rightarrow> nat \<Rightarrow> bool \<Rightarrow> SignedEvent res" where
  "parse_signed_event_json text max_bytes require_signature =
     rbind
       (case text of
          PyBytes raw \<Rightarrow> Inr raw
        | PyStr s \<Rightarrow> (case utf8_encode s of Inl _ \<Rightarrow> Inl malformed | Inr raw \<Rightarrow> Inr raw)
        | _ \<Rightarrow> Inl malformed) (\<lambda>raw.
     require (length raw \<le> max_bytes) oversized
       (case utf8_decode raw of
          Inl _ \<Rightarrow> Inl malformed
        | Inr decoded \<Rightarrow>
            (case loads reject_duplicate_keys no_constants decoded of
               Inl e \<Rightarrow> Inl (if e = JSONDecodeError \<or> e = ValueError then malformed else e)
             | Inr data \<Rightarrow> parse_signed_event data max_bytes require_signature)))"

section \<open>The validators\<close>

lemma validate_identifier_Inr:
  "validate_identifier v = Inr s \<longleftrightarrow> v = PyStr s \<and> validate_identifier (PyStr s) = Inr s"
  by (cases v) (auto simp: validate_identifier_def require_Inr_iff)

lemma validate_hash_Inr: "validate_hash v = Inr s \<longleftrightarrow> v = PyStr s \<and> SHA3_256_HEX s"
  by (cases v) (auto simp: validate_hash_def require_Inr_iff)

lemma validate_sequence_Inr:
  "validate_sequence v = Inr i \<longleftrightarrow> v = PyInt i \<and> 1 \<le> i \<and> i \<le> 2 ^ 63 - 1"
  by (cases v) (auto simp: validate_sequence_def require_Inr_iff)

lemma validate_event_Inr:
  "validate_event v = Inr d \<longleftrightarrow>
   v = PyDict d \<and> (\<exists>b. canonical_bytes (PyDict d) = Inr b \<and> length b \<le> MAX_EVENT_BYTES)
   \<and> depth 1 (PyDict d) \<le> MAX_EVENT_DEPTH"
  by (cases v) (auto simp: validate_event_def require_Inr_iff rbind_Inr_iff check_canonicalizable_def
      canonical_bytes_Inr split: sum.splits)

lemma checked_timestamp_Inr: "checked_timestamp v = Inr t \<longleftrightarrow> normalize_timestamp v = Inr t"
  by (auto simp: checked_timestamp_def split: sum.splits)

lemmas validator_simps =
  validate_hash_Inr validate_sequence_Inr validate_event_Inr checked_timestamp_Inr

text \<open>The exceptions of each validator.\<close>

definition validation_error :: "exn \<Rightarrow> bool" where
  "validation_error e = (case e of EvidenceValidationError _ \<Rightarrow> True | _ \<Rightarrow> False)"

lemma validation_error_simps [simp]: "validation_error (EvidenceValidationError r)"
  by (simp add: validation_error_def)

lemma normalize_timestamp_err:
  "normalize_timestamp v = Inl e \<Longrightarrow> e = CanonicalizationError \<or> e = OverflowError"
  by (auto simp: normalize_timestamp_def rbind_Inl_iff to_utc_def Let_def
      split: pyval.splits if_splits option.splits)

lemma checked_timestamp_err:
  "checked_timestamp v = Inl e \<Longrightarrow> validation_error e \<or> e = OverflowError"
  by (auto simp: checked_timestamp_def dest: normalize_timestamp_err split: sum.splits if_splits)

lemma canonical_bytes_err: "canonical_bytes v = Inl e \<Longrightarrow> e = CanonicalizationError"
  by (auto simp: canonical_bytes_cases split: sum.splits)

lemma validate_identifier_err: "validate_identifier v = Inl e \<Longrightarrow> validation_error e"
  by (auto simp: validate_identifier_def require_Inl_iff split: pyval.splits)

lemma validate_hash_err: "validate_hash v = Inl e \<Longrightarrow> validation_error e"
  by (auto simp: validate_hash_def require_Inl_iff split: pyval.splits)

lemma validate_sequence_err: "validate_sequence v = Inl e \<Longrightarrow> validation_error e"
  by (auto simp: validate_sequence_def require_Inl_iff split: pyval.splits)

lemma validate_signature_err: "validate_signature v = Inl e \<Longrightarrow> validation_error e"
  by (auto simp: validate_signature_def require_Inl_iff split: pyval.splits sum.splits)

lemma validate_event_err:
  "validate_event v = Inl e \<Longrightarrow>
   validation_error e \<or> e = CanonicalizationError \<and> check_canonicalizable v = Inr () \<and> \<not> ints_ok v"
proof (cases v)
  case (PyDict d)
  assume e: "validate_event v = Inl e"
  have "canonical_bytes v \<noteq> Inl x" if "check_canonicalizable v = Inr ()" "ints_ok v" for x
    using that canonical.enc_total check_dumps(1) [of 0 v canonical_style] dumps_scalar(1) [of 0 v]
    by (auto simp: canonical_bytes_cases check_canonicalizable_def split: sum.splits)
  with e PyDict show ?thesis
    by (auto simp: validate_event_def rbind_Inl_iff require_Inl_iff dest: canonical_bytes_err
        split: sum.splits)
qed (auto simp: validate_event_def)

lemmas validator_errs =
  validate_identifier_err validate_hash_err validate_sequence_err validate_signature_err
  checked_timestamp_err

lemma supported_field_Inr:
  "supported_field data k supported r = Inr s \<longleftrightarrow> dict_get data k = Some (PyStr s) \<and> s \<in> set supported"
  by (auto simp: supported_field_def dict_item_def rbind_Inr_iff require_Inr_iff
      split: option.splits pyval.splits)

lemma supported_field_err:
  "\<lbrakk>supported_field data k supported r = Inl e; dict_has data k\<rbrakk> \<Longrightarrow> validation_error e"
  by (auto simp: supported_field_def dict_item_def rbind_Inl_iff require_Inl_iff dict_has_iff
      split: option.splits pyval.splits)

section \<open>What the parser accepts\<close>

text \<open>A well-formed signed envelope of at most \<open>mb\<close> bytes.\<close>

definition wf_signed :: "nat \<Rightarrow> SignedEvent \<Rightarrow> bool" where
  "wf_signed mb e \<longleftrightarrow>
     format_version e \<in> set SUPPORTED_FORMAT_VERSIONS \<and>
     signature_algorithm e \<in> set SUPPORTED_SIGNATURE_ALGORITHMS \<and>
     hash_algorithm e \<in> set SUPPORTED_HASH_ALGORITHMS \<and>
     normalize_timestamp (PyStr (timestamp e)) = Inr (timestamp e) \<and>
     validate_signature (PyStr (signature e)) = Inr (signature_bytes e) \<and>
     validate_event (PyDict (event e)) = Inr (event e) \<and>
     (\<exists>b. canonical_bytes (PyDict (to_dict e True)) = Inr b \<and> length b \<le> mb) \<and>
     validate_identifier (PyStr (node_id e)) = Inr (node_id e) \<and>
     1 \<le> sequence e \<and> sequence e \<le> 2 ^ 63 - 1 \<and>
     SHA3_256_HEX (previous_event_hash e) \<and> SHA3_256_HEX (event_hash e) \<and>
     validate_identifier (PyStr (key_id e)) = Inr (key_id e)"

definition same_fields :: "pydict \<Rightarrow> SignedEvent \<Rightarrow> bool" where
  "same_fields data e \<longleftrightarrow> set data = set (to_dict e True)"

lemma to_dict_keys: "map fst (to_dict e True) = map KStr ENVELOPE_FIELDS"
  by (simp add: to_dict_def ENVELOPE_FIELDS_def)

lemma ENVELOPE_FIELDS_distinct: "distinct ENVELOPE_FIELDS"
  by (simp add: ENVELOPE_FIELDS_def)

lemma to_dict_distinct: "distinct (map fst (to_dict e True))"
  unfolding to_dict_keys using ENVELOPE_FIELDS_distinct by (simp add: distinct_map inj_on_def)

lemma canonical_bytes_same_fields:
  "\<lbrakk>distinct (map fst data); same_fields data e\<rbrakk> \<Longrightarrow>
   canonical_bytes (PyDict data) = canonical_bytes (PyDict (to_dict e True))"
  unfolding same_fields_def by (rule canonical_bytes_perm) (simp_all add: to_dict_distinct)

lemma dict_get_set: "distinct (map fst d) \<Longrightarrow> dict_get d k = Some v \<longleftrightarrow> (KStr k, v) \<in> set d"
  by (simp add: dict_get_def)

lemma same_fields_get:
  assumes "distinct (map fst data)"
  shows "same_fields data e \<longleftrightarrow> set (dict_keys data) = KStr ` set ENVELOPE_FIELDS
    \<and> (\<forall>k\<in>set ENVELOPE_FIELDS. dict_get data k = dict_get (to_dict e True) k)"
    (is "_ \<longleftrightarrow> ?r")
proof
  assume s: "same_fields data e"
  then have "set (dict_keys data) = fst ` set (to_dict e True)"
    by (simp add: same_fields_def dict_keys_def)
  also have "\<dots> = KStr ` set ENVELOPE_FIELDS" using to_dict_keys [of e] by (metis list.set_map)
  finally have "set (dict_keys data) = KStr ` set ENVELOPE_FIELDS" .
  moreover have "map_of data = map_of (to_dict e True)"
    using s assms to_dict_distinct unfolding same_fields_def by (simp add: map_of_inject_set)
  ultimately show ?r by (simp add: dict_get_def)
next
  assume r: ?r
  have k: "fst ` set data = KStr ` set ENVELOPE_FIELDS" using r by (simp add: dict_keys_def)
  have k': "fst ` set (to_dict e True) = KStr ` set ENVELOPE_FIELDS"
    using to_dict_keys [of e] by (metis list.set_map)
  have "map_of data x = map_of (to_dict e True) x" for x
  proof (cases "x \<in> KStr ` set ENVELOPE_FIELDS")
    case True
    with r show ?thesis by (auto simp: dict_get_def)
  next
    case False
    with k k' show ?thesis by (metis map_of_eq_None_iff)
  qed
  then have "map_of data = map_of (to_dict e True)" by blast
  then show "same_fields data e"
    using assms to_dict_distinct unfolding same_fields_def by (simp add: map_of_inject_set)
qed

lemma dict_has_all:
  "list_all (dict_has data) ENVELOPE_FIELDS \<longleftrightarrow> KStr ` set ENVELOPE_FIELDS \<subseteq> set (dict_keys data)"
  by (auto simp: list_all_iff dict_has_def)

lemma dict_item_Inr: "dict_item d k = Inr v \<longleftrightarrow> dict_get d k = Some v"
  by (simp add: dict_item_def split: option.splits)

text \<open>
  Acceptance in one statement: on a Python dict the parser returns \<open>e\<close> exactly when \<open>e\<close> is
  well formed and the dict holds exactly the fields of \<open>e\<close>.
\<close>

lemma fields_get:
  "\<lbrakk>distinct (map fst data); same_fields data e\<rbrakk> \<Longrightarrow>
   \<forall>k\<in>set ENVELOPE_FIELDS. dict_get data k = dict_get (to_dict e True) k"
  by (simp add: same_fields_get)

lemma parse_accepts:
  assumes "distinct (map fst data)" "same_fields data e" "wf_signed mb e"
  shows "parse_signed_event (PyDict data) mb True = Inr e"
proof -
  have keys: "filter (\<lambda>k. k \<notin> KStr ` set ENVELOPE_FIELDS) (dict_keys data) = []"
    "list_all (dict_has data) ENVELOPE_FIELDS"
    using assms(2) same_fields_get [OF assms(1)] by (auto simp: dict_has_all filter_empty_conv)
  have get: "dict_get data k = dict_get (to_dict e True) k" if "k \<in> set ENVELOPE_FIELDS" for k
    using fields_get [OF assms(1,2)] that by blast
  have g: "dict_get data (lit ''format_version'') = Some (PyStr (format_version e))"
    "dict_get data (lit ''node_id'') = Some (PyStr (node_id e))"
    "dict_get data (lit ''sequence'') = Some (PyInt (sequence e))"
    "dict_get data (lit ''timestamp'') = Some (PyStr (timestamp e))"
    "dict_get data (lit ''previous_event_hash'') = Some (PyStr (previous_event_hash e))"
    "dict_get data (lit ''event_hash'') = Some (PyStr (event_hash e))"
    "dict_get data (lit ''event'') = Some (PyDict (event e))"
    "dict_get data (lit ''signature_algorithm'') = Some (PyStr (signature_algorithm e))"
    "dict_get data (lit ''hash_algorithm'') = Some (PyStr (hash_algorithm e))"
    "dict_get data (lit ''key_id'') = Some (PyStr (key_id e))"
    "dict_get data (lit ''signature'') = Some (PyStr (signature e))"
    by (subst get; simp add: ENVELOPE_FIELDS_def to_dict_def)+
  have i: "dict_item data k = Inr v" if "dict_get data k = Some v" for k v
    using that by (simp add: dict_item_Inr)
  note items = g [THEN i]
  have all: "filter (\<lambda>f. True \<or> f \<noteq> lit ''signature'') ENVELOPE_FIELDS = ENVELOPE_FIELDS" by simp
  have sup: "supported_field data (lit ''format_version'') SUPPORTED_FORMAT_VERSIONS r
      = Inr (format_version e)"
    "supported_field data (lit ''signature_algorithm'') SUPPORTED_SIGNATURE_ALGORITHMS r
      = Inr (signature_algorithm e)"
    "supported_field data (lit ''hash_algorithm'') SUPPORTED_HASH_ALGORITHMS r
      = Inr (hash_algorithm e)" for r
    using g assms(3) by (simp_all only: supported_field_Inr wf_signed_def simp_thms)
  obtain b where b: "canonical_bytes (PyDict data) = Inr b" "length b \<le> mb"
    using canonical_bytes_same_fields [OF assms(1,2)] assms(3) by (auto simp: wf_signed_def)
  have guard: "parse_signed_event_size_guard data mb = Inr (event e)"
    using b assms(3) by (simp add: parse_signed_event_size_guard_def items(7) wf_signed_def del: lit_simps)
  have v: "validate_sequence (PyInt (sequence e)) = Inr (sequence e)"
    "validate_hash (PyStr (previous_event_hash e)) = Inr (previous_event_hash e)"
    "validate_hash (PyStr (event_hash e)) = Inr (event_hash e)"
    "validate_identifier (PyStr (node_id e)) = Inr (node_id e)"
    "validate_identifier (PyStr (key_id e)) = Inr (key_id e)"
    "validate_signature (PyStr (signature e)) = Inr (signature_bytes e)"
    "checked_timestamp (PyStr (timestamp e)) = Inr (timestamp e)"
    using assms(3)
    by (auto simp: wf_signed_def validate_sequence_Inr validate_hash_Inr checked_timestamp_Inr)
  show ?thesis
    unfolding parse_signed_event_def pyval.case Let_def keys(1) sup items g(11) option.case all
    using keys(2) by (simp add: unsortable_def v guard)
qed

lemma parse_steps:
  assumes "parse_signed_event (PyDict data) mb True = Inr e"
  obtains fv nid sq ts ph eh ev salg halg kid sigb sigv nidv sqv phv ehv kidv where
    "filter (\<lambda>k. k \<notin> KStr ` set ENVELOPE_FIELDS) (dict_keys data) = []"
    "list_all (dict_has data) ENVELOPE_FIELDS"
    "supported_field data (lit ''format_version'') SUPPORTED_FORMAT_VERSIONS
       unsupported_format_version = Inr fv"
    "supported_field data (lit ''signature_algorithm'') SUPPORTED_SIGNATURE_ALGORITHMS
       unsupported_algorithm = Inr salg"
    "supported_field data (lit ''hash_algorithm'') SUPPORTED_HASH_ALGORITHMS
       unsupported_algorithm = Inr halg"
    "dict_get data (lit ''timestamp'') = Some (PyStr ts)" "checked_timestamp (PyStr ts) = Inr ts"
    "sigv = (case dict_get data (lit ''signature'') of None \<Rightarrow> PyStr [] | Some s \<Rightarrow> s)"
    "validate_signature sigv = Inr sigb"
    "parse_signed_event_size_guard data mb = Inr ev"
    "dict_get data (lit ''node_id'') = Some nidv" "validate_identifier nidv = Inr nid"
    "dict_get data (lit ''sequence'') = Some sqv" "validate_sequence sqv = Inr sq"
    "dict_get data (lit ''previous_event_hash'') = Some phv" "validate_hash phv = Inr ph"
    "dict_get data (lit ''event_hash'') = Some ehv" "validate_hash ehv = Inr eh"
    "dict_get data (lit ''key_id'') = Some kidv" "validate_identifier kidv = Inr kid"
    "e = \<lparr>format_version = fv, node_id = nid, sequence = sq, timestamp = ts,
      previous_event_hash = ph, event_hash = eh, event = ev, signature_algorithm = salg,
      hash_algorithm = halg, key_id = kid, signature = (case sigv of PyStr s \<Rightarrow> s | _ \<Rightarrow> []),
      signature_bytes = sigb\<rparr>"
  using assms unfolding parse_signed_event_def pyval.case Let_def
  by (clarsimp simp: require_Inr_iff rbind_Inr_iff dict_item_Inr simp del: lit_simps)

lemma validate_signature_Inr:
  "validate_signature v = Inr b \<Longrightarrow> \<exists>s. v = PyStr s \<and> s \<noteq> [] \<and> b64decode s = Inr b \<and> b \<noteq> []"
  by (cases v) (auto simp: validate_signature_def require_Inr_iff split: sum.splits)

lemma size_guard_Inr:
  "parse_signed_event_size_guard data mb = Inr ev \<longleftrightarrow>
   dict_get data (lit ''event'') = Some (PyDict ev) \<and> validate_event (PyDict ev) = Inr ev \<and>
   (\<exists>b. canonical_bytes (PyDict data) = Inr b \<and> length b \<le> mb)"
  by (cases "canonical_bytes (PyDict data)")
    (auto simp: parse_signed_event_size_guard_def rbind_Inr_iff dict_item_Inr require_Inr_iff
      validate_event_Inr simp del: lit_simps)

lemma parse_reads:
  assumes "distinct (map fst data)" "parse_signed_event (PyDict data) mb True = Inr e"
  shows "same_fields data e \<and> wf_signed mb e"
  using assms(2)
proof (cases rule: parse_steps)
  case (1 fv nid sq ts ph eh ev salg halg kid sigb sigv nidv sqv phv ehv kidv)
  note sup = 1(3-5) [unfolded supported_field_Inr]
  note guard = 1(10) [unfolded size_guard_Inr]
  have ids: "nidv = PyStr nid" "kidv = PyStr kid" "validate_identifier (PyStr nid) = Inr nid"
    "validate_identifier (PyStr kid) = Inr kid"
    using 1(12,20) validate_identifier_Inr by blast+
  have vals: "sqv = PyInt sq" "1 \<le> sq" "sq \<le> 2 ^ 63 - 1" "phv = PyStr ph" "ehv = PyStr eh"
    "SHA3_256_HEX ph" "SHA3_256_HEX eh" "normalize_timestamp (PyStr ts) = Inr ts"
    using 1(7,14,16,18) by (auto simp: validate_sequence_Inr validate_hash_Inr checked_timestamp_Inr)
  have "dict_has data (lit ''signature'')"
    using 1(2) by (simp add: ENVELOPE_FIELDS_def)
  then obtain sig where sig: "dict_get data (lit ''signature'') = Some (PyStr sig)" "sigv = PyStr sig"
    using 1(8) validate_signature_Inr [OF 1(9)] by (auto simp: dict_has_iff simp del: lit_simps)
  note f = 1(6,11,13,15,17,19) [unfolded ids vals] sig(1) guard [THEN conjunct1] sup [THEN conjunct1]
  have e: "e = \<lparr>format_version = fv, node_id = nid, sequence = sq, timestamp = ts,
      previous_event_hash = ph, event_hash = eh, event = ev, signature_algorithm = salg,
      hash_algorithm = halg, key_id = kid, signature = sig, signature_bytes = sigb\<rparr>"
    using 1(21) sig(2) by simp
  have "\<forall>k\<in>set ENVELOPE_FIELDS. dict_get data k = dict_get (to_dict e True) k"
    using f by (simp add: ENVELOPE_FIELDS_def to_dict_def e)
  then have same: "same_fields data e"
    unfolding same_fields_get [OF assms(1)]
    using 1(1,2) by (auto simp: dict_has_all filter_empty_conv)
  have "wf_signed mb e"
    unfolding wf_signed_def
    using sup guard ids vals 1(9) sig(2) canonical_bytes_same_fields [OF assms(1) same] e by simp
  with same show ?thesis by blast
qed

lemma parse_signed_event_iff:
  assumes "distinct (map fst data)"
  shows "parse_signed_event (PyDict data) mb True = Inr e \<longleftrightarrow> same_fields data e \<and> wf_signed mb e"
  using parse_accepts [OF assms] parse_reads [OF assms] by blast

section \<open>Parsing text\<close>

lemma reject_duplicate_keys_ok: "hook_ok reject_duplicate_keys"
  by (simp add: hook_ok_def reject_duplicate_keys_def)

lemma reject_duplicate_keys_doc: "hook_doc reject_duplicate_keys"
proof -
  have "json_doc_items (map (\<lambda>(k, v). (KStr k, v)) kvs)"
    if "list_all (\<lambda>kv. json_doc (snd kv)) kvs" for kvs
    using that by (induction kvs) auto
  moreover have "distinct (map fst (map (\<lambda>(k, v). (KStr k, v)) kvs))" if "distinct (map fst kvs)"
    for kvs :: "(pystr \<times> pyval) list"
    using that by (induction kvs) (auto simp: image_iff)
  ultimately show ?thesis
    by (auto simp: hook_doc_def reject_duplicate_keys_def require_Inr_iff)
qed

lemma no_constants_doc: "const_doc no_constants"
  by (simp add: const_doc_def no_constants_def)

lemma evidence_loads_doc:
  "loads reject_duplicate_keys no_constants s = Inr v \<Longrightarrow> json_doc v"
  using loads_doc reject_duplicate_keys_doc no_constants_doc by blast

lemma json_doc_dict: "json_doc (PyDict d) \<Longrightarrow> distinct (map fst d) \<and> dicts_ok (PyDict d) \<and> ints_ok (PyDict d)"
  using json_doc_ok(1) [of "PyDict d"] by simp

lemma parse_json_bytes_iff:
  "parse_signed_event_json (PyBytes raw) mb True = Inr e \<longleftrightarrow>
   length raw \<le> mb \<and>
   (\<exists>s data. utf8_decode raw = Inr s \<and> loads reject_duplicate_keys no_constants s = Inr (PyDict data)
      \<and> same_fields data e \<and> wf_signed mb e)"
proof -
  have "parse_signed_event v mb True = Inr e \<longleftrightarrow>
      (\<exists>data. v = PyDict data \<and> same_fields data e \<and> wf_signed mb e)"
    if "json_doc v" for v
    using that json_doc_dict parse_signed_event_iff
    by (cases v) (auto simp: parse_signed_event_def)
  then show ?thesis
    using evidence_loads_doc
    by (auto simp: parse_signed_event_json_def require_Inr_iff split: sum.splits if_splits)
qed

lemma parse_json_str:
  "utf8_encode s = Inr raw \<Longrightarrow>
   parse_signed_event_json (PyStr s) mb rs = parse_signed_event_json (PyBytes raw) mb rs"
  by (simp add: parse_signed_event_json_def)

lemma evidence_loads_json:
  assumes "loads reject_duplicate_keys no_constants s = Inr v"
  shows "json_loads s = Inr v"
  unfolding json_loads_def
proof (rule loads_mono [OF _ _ assms])
  show "dict_of_pairs kvs = Inr w" if "reject_duplicate_keys kvs = Inr w" for kvs w
    using that dict_of_pairs_ok unfolding hook_ok_def reject_duplicate_keys_def by (auto simp: require_Inr_iff case_prod_unfold)
qed (simp add: no_constants_def)

section \<open>Exceptions of the parser\<close>

lemma json_keys_sortable: "json_doc (PyDict d) \<Longrightarrow> \<not> unsortable (filter P (dict_keys d))"
proof -
  assume "json_doc (PyDict d)"
  then have "\<forall>k\<in>set (dict_keys d). \<exists>s. k = KStr s" by (auto simp: json_doc_items_keys dict_keys_def)
  then show ?thesis by (auto simp: unsortable_def list_ex_iff split: pykey.splits)
qed

lemma item_err:
  "\<lbrakk>rbind (dict_item data k) f = Inl e; dict_has data k; \<And>v. f v = Inl e \<Longrightarrow> validation_error e\<rbrakk>
   \<Longrightarrow> validation_error e"
  by (auto simp: rbind_Inl_iff dict_item_def dict_has_iff split: option.splits)

lemma size_guard_err:
  assumes "parse_signed_event_size_guard data mb = Inl e" "dict_has data (lit ''event'')"
    and "ints_ok (PyDict data)"
  shows "validation_error e"
proof -
  obtain v where v: "dict_get data (lit ''event'') = Some v"
    using assms(2) by (auto simp: dict_has_iff)
  have "ints_ok_items d \<Longrightarrow> map_of d k = Some v \<Longrightarrow> ints_ok v" for d k
    by (induction d) (auto split: if_splits)
  then have "ints_ok v" using v assms(3) by (auto simp: dict_get_def)
  then have "validate_event v = Inl e' \<Longrightarrow> validation_error e'" for e'
    using validate_event_err by blast
  then show ?thesis
    using assms(1) v
    by (cases "canonical_bytes (PyDict data)")
      (auto simp: parse_signed_event_size_guard_def dict_item_def rbind_Inl_iff require_Inl_iff
        simp del: lit_simps dest: canonical_bytes_err)
qed

lemma parse_doc_err:
  assumes "json_doc (PyDict data)" "parse_signed_event (PyDict data) mb rs = Inl e"
  shows "validation_error e \<or> e = OverflowError"
proof (cases "list_all (dict_has data) (filter (\<lambda>f. rs \<or> f \<noteq> lit ''signature'') ENVELOPE_FIELDS)")
  case False
  then show ?thesis
    using assms(2) json_keys_sortable [OF assms(1)]
    by (auto simp: parse_signed_event_def Let_def require_Inl_iff simp del: lit_simps)
next
  case True
  have has: "dict_has data (lit k)"
    if "lit k \<in> set ENVELOPE_FIELDS" "lit k \<noteq> lit ''signature''" for k
    using True that by (auto simp: list_all_iff)
  have h: "dict_has data (lit ''format_version'')" "dict_has data (lit ''node_id'')"
    "dict_has data (lit ''sequence'')" "dict_has data (lit ''timestamp'')"
    "dict_has data (lit ''previous_event_hash'')" "dict_has data (lit ''event_hash'')"
    "dict_has data (lit ''event'')" "dict_has data (lit ''signature_algorithm'')"
    "dict_has data (lit ''hash_algorithm'')" "dict_has data (lit ''key_id'')"
    by (rule has; simp add: ENVELOPE_FIELDS_def)+
  have items: "dict_item data k \<noteq> Inl x" if "dict_has data k" for k x
    using dict_item_has [OF that] by auto
  have guard: "parse_signed_event_size_guard data mb = Inl x \<Longrightarrow> validation_error x" for x
    using size_guard_err h(7) json_doc_dict [OF assms(1)] by blast
  note errs = validator_errs guard supported_field_err [OF _ h(1)]
    supported_field_err [OF _ h(8)] supported_field_err [OF _ h(9)]
  show ?thesis
    using assms(2) json_keys_sortable [OF assms(1)]
    unfolding parse_signed_event_def pyval.case Let_def
    by (auto simp: require_Inl_iff rbind_Inl_iff h [THEN items] simp del: lit_simps
        dest: errs split: if_splits)
qed

text \<open>
  \<^bold>\<open>C14\<close>. Whatever text or bytes it is given, \<^verbatim>\<open>parse_signed_event_json\<close> either returns
  an envelope or raises \<^verbatim>\<open>EvidenceValidationError\<close>, with one exception: the
  \<^verbatim>\<open>OverflowError\<close> of a timestamp whose UTC form lies outside years 1 to 9999.
\<close>

theorem parse_signed_event_json_errors:
  "case parse_signed_event_json text mb rs of
     Inl e \<Rightarrow> validation_error e \<or> e = OverflowError
   | Inr _ \<Rightarrow> True"
proof -
  have "validation_error e \<or> e = OverflowError"
    if "parse_signed_event v mb rs = Inl e" "json_doc v" for v e
    using that parse_doc_err by (cases v) (auto simp: parse_signed_event_def)
  moreover have "validation_error e"
    if "loads reject_duplicate_keys no_constants s = Inl e" "e \<noteq> JSONDecodeError" "e \<noteq> ValueError"
    for s e
    using loads_failure [OF that(1)] that(2,3)
    by (auto simp: load_failure_def reject_duplicate_keys_def no_constants_def require_Inl_iff)
  ultimately have raw: "validation_error e \<or> e = OverflowError"
    if "parse_signed_event_json (PyBytes raw) mb rs = Inl e" for raw e
    using that evidence_loads_doc
    by (cases "utf8_decode raw"; cases "loads reject_duplicate_keys no_constants (projr (utf8_decode raw))")
      (auto simp: parse_signed_event_json_def require_Inl_iff split: if_splits, blast)
  have str: "validation_error e \<or> e = OverflowError"
    if "parse_signed_event_json (PyStr s) mb rs = Inl e" for s e
  proof (cases "utf8_encode s")
    case (Inl x)
    with that show ?thesis by (auto simp: parse_signed_event_json_def)
  next
    case (Inr b)
    with that raw show ?thesis by (simp add: parse_json_str)
  qed
  show ?thesis
    using raw str
    by (cases "text"; cases "parse_signed_event_json text mb rs")
      (auto simp: parse_signed_event_json_def)
qed

section \<open>Writing a record and reading it back\<close>

text \<open>The envelope with its event in canonical form: what a reader of the line gets.\<close>

definition canon_event :: "SignedEvent \<Rightarrow> SignedEvent" where
  "canon_event e = e\<lparr>event := order_dict canonical_style (canon_items canonical_style (event e))\<rparr>"

lemma canon_event_simps [simp]:
  "format_version (canon_event e) = format_version e" "node_id (canon_event e) = node_id e"
  "sequence (canon_event e) = sequence e" "timestamp (canon_event e) = timestamp e"
  "previous_event_hash (canon_event e) = previous_event_hash e"
  "event_hash (canon_event e) = event_hash e"
  "signature_algorithm (canon_event e) = signature_algorithm e"
  "hash_algorithm (canon_event e) = hash_algorithm e" "key_id (canon_event e) = key_id e"
  "signature (canon_event e) = signature e" "signature_bytes (canon_event e) = signature_bytes e"
  by (simp_all add: canon_event_def)

lemma canon_event_dict: "PyDict (event (canon_event e)) = canon_form (PyDict (event e))"
  by (simp add: canon_event_def)

lemma canon_items_to_dict:
  "canon_items canonical_style (to_dict e sg) = to_dict (canon_event e) sg"
  by (simp add: to_dict_def canon_event_def)

lemma max_default_set: "max_default l ns = (if ns = [] then l else Max (set ns))"
proof (cases ns)
  case (Cons m ms)
  have "fold max ms m = Max (set (m # ms))" by (simp only: Max.set_eq_fold)
  with Cons show ?thesis by (simp add: max_default_def)
qed (simp add: max_default_def)

lemma depth_items_map: "depth_items l d = map (\<lambda>kv. depth l (snd kv)) d"
  by (induction d) auto

lemma order_dict_Nil [simp]: "order_dict st d = [] \<longleftrightarrow> d = []"
  by (metis set_empty set_order_dict)

lemma depth_canon:
  shows "depth l (canon st v) = depth l v"
    and "depth_list l (canon_list st xs) = depth_list l xs"
    and "depth_items l (canon_items st d) = depth_items l d"
proof (induction l v and l xs and l d rule: depth_depth_list_depth_items.induct)
  case (1 l d)
  have "set (depth_items (l + 1) (order_dict st d')) = set (depth_items (l + 1) d')"
    "depth_items (l + 1) (order_dict st d') = [] \<longleftrightarrow> depth_items (l + 1) d' = []" for d'
    by (simp_all add: depth_items_map)
  with 1 show ?case by (simp add: max_default_set)
qed simp_all

lemma canonical_payload:
  assumes "canonical_bytes (PyDict (filter (\<lambda>(k, v). P k) (to_dict e True))) = Inr b"
  shows "canonical_bytes (PyDict (filter (\<lambda>(k, v). P k) (to_dict (canon_event e) True))) = Inr b"
proof -
  let ?d = "filter (\<lambda>(k, v). P k) (to_dict (canon_event e) True)"
  have dist: "distinct (map fst ?d)"
    using to_dict_distinct by (simp add: distinct_map_filter)
  have "canon_items st (filter (\<lambda>(k, v). P k) d) = filter (\<lambda>(k, v). P k) (canon_items st d)" for st d
    by (induction d) auto
  then have "canon_form (PyDict (filter (\<lambda>(k, v). P k) (to_dict e True)))
      = PyDict (order_dict canonical_style ?d)"
    by (simp add: canon_items_to_dict)
  with canonical_bytes_canon [OF assms]
  have "canonical_bytes (PyDict (order_dict canonical_style ?d)) = Inr b" by simp
  moreover have "canonical_bytes (PyDict ?d) = canonical_bytes (PyDict (order_dict canonical_style ?d))"
    using dist by (intro canonical_bytes_perm) (simp_all add: order_dict_keys)
  ultimately show ?thesis by simp
qed

lemma payload_canon_event:
  "hash_payload e = Inr b \<Longrightarrow> hash_payload (canon_event e) = Inr b"
  "signing_payload e = Inr b \<Longrightarrow> signing_payload (canon_event e) = Inr b"
  "canonical_bytes (PyDict (to_dict e True)) = Inr b \<Longrightarrow>
   canonical_bytes (PyDict (to_dict (canon_event e) True)) = Inr b"
  unfolding hash_payload_def signing_payload_def
  using canonical_payload [of "\<lambda>k. k \<notin> set HASH_EXCLUDED"]
    canonical_payload [of "\<lambda>k. k \<notin> set SIGNATURE_EXCLUDED"] canonical_payload [of "\<lambda>k. True"]
  by simp_all

lemma wf_canon_event: "wf_signed mb e \<Longrightarrow> wf_signed mb (canon_event e)"
proof -
  assume w: "wf_signed mb e"
  then obtain b where b: "canonical_bytes (PyDict (to_dict e True)) = Inr b" "length b \<le> mb"
    by (auto simp: wf_signed_def)
  have "validate_event (PyDict (event (canon_event e))) = Inr (event (canon_event e))"
    using w canonical_bytes_canon [of "PyDict (event e)"] depth_canon(1) [of 1 _ "PyDict (event e)"]
    by (auto simp: wf_signed_def validate_event_Inr canon_event_def)
  with w b payload_canon_event(3) show ?thesis by (auto simp: wf_signed_def)
qed

lemma line_parses:
  assumes "wf_signed mb e" "dicts_ok (PyDict (event e))"
    "canonical_bytes (PyDict (to_dict e True)) = Inr b"
  shows "parse_signed_event_json (PyBytes b) mb True = Inr (canon_event e)"
proof -
  have "dicts_ok (PyDict (to_dict e True))"
    using assms(2) to_dict_distinct [of e] by (simp add: dicts_ok_items_all to_dict_def)
  then have "rbind (utf8_decode b) (loads reject_duplicate_keys no_constants)
      = Inr (PyDict (order_dict canonical_style (to_dict (canon_event e) True)))"
    using canonical_bytes_loads [OF reject_duplicate_keys_ok _ assms(3)] canon_items_to_dict by simp
  moreover have "same_fields (order_dict canonical_style (to_dict (canon_event e) True)) (canon_event e)"
    by (simp add: same_fields_def)
  ultimately show ?thesis
    using wf_canon_event [OF assms(1)] assms(1,3)
    by (auto simp: parse_json_bytes_iff rbind_Inr_iff wf_signed_def)
qed

text \<open>
  The line of an envelope: one line of text without control characters, from a brace to a
  brace, so that reading the log line by line and stripping gives it back.
\<close>

lemma json_line_shape:
  assumes "canonical_bytes (PyDict (to_dict e True)) = Inr b"
  shows "\<exists>line. to_json_line e = Inr line \<and> utf8_encode line = Inr b \<and> (\<forall>c\<in>set line. 32 \<le> c)
    \<and> line \<noteq> [] \<and> hd line = 123 \<and> last line = 125"
proof -
  obtain t where t: "check 0 (PyDict (to_dict e True)) = Inr ()"
      "dumps canonical_style (PyDict (to_dict e True)) = Inr t" "utf8_encode t = Inr b"
    using assms by (auto simp: canonical_bytes_Inr)
  have "utf8_decode b = Inr t" using utf8.dec_enc t(3) utf8_encode_Inr by fastforce
  moreover have "\<forall>c\<in>set t. 32 \<le> c" using dumps_printable(1) t(1,2) by blast
  moreover have "t \<noteq> [] \<and> hd t = 123 \<and> last t = 125" using t(2) by (auto simp: rbind_Inr_iff)
  ultimately show ?thesis using assms t(3) by (simp add: to_json_line_def)
qed

lemma strip_line: "\<lbrakk>line \<noteq> []; hd line = 123; last line = 125\<rbrakk> \<Longrightarrow> strip line = line \<and> strip (line @ [10]) = line"
  by (simp add: strip_id strip_snoc_space py_space_def)

section \<open>A concrete envelope\<close>

definition sample_event :: SignedEvent where
  "sample_event =
     \<lparr>format_version = lit ''1.0'', node_id = lit ''plc-1'', sequence = 1,
      timestamp = lit ''2026-08-05T18:15:00.000000Z'',
      previous_event_hash = replicate 64 97, event_hash = replicate 64 97,
      event = [(KStr (lit ''type''), PyStr (lit ''scan'')), (KStr (lit ''count''), PyInt 3)],
      signature_algorithm = lit ''ML-DSA-65'', hash_algorithm = lit ''SHA3-256'',
      key_id = lit ''k1'', signature = lit ''QUJD'', signature_bytes = [65, 66, 67]\<rparr>"

lemmas field_eval = SUPPORTED_FORMAT_VERSIONS_def SUPPORTED_SIGNATURE_ALGORITHMS_def
  SUPPORTED_HASH_ALGORITHMS_def validate_identifier_def ID_PATTERN_def dollar_core_def id_alnum_def
  id_char_def MAX_NODE_ID_LENGTH_def SHA3_256_HEX_def hex_lower_def validate_signature_def
  b64_val_def byte_of_def

lemma sample_timestamp: "normalize_timestamp (PyStr (timestamp sample_event)) = Inr (timestamp sample_event)"
  by (simp add: sample_event_def time_eval)

lemma sample_dict:
  "check 0 (PyDict (to_dict sample_event True)) = Inr ()" "ints_ok (PyDict (to_dict sample_event True))"
  "check 0 (PyDict (event sample_event)) = Inr ()" "ints_ok (PyDict (event sample_event))"
  by (simp_all add: to_dict_def sample_event_def check_eval list_all_iff)

lemma sample_wf: "wf_signed MAX_EVIDENCE_BYTES sample_event"
proof -
  have "json_bound (PyDict (to_dict sample_event True)) \<le> 4000"
    "json_bound (PyDict (event sample_event)) \<le> 4000"
    by (simp_all add: sample_event_def to_dict_def dec_int_def dec_nat.simps)
  then have b:
    "\<exists>b. canonical_bytes (PyDict (to_dict sample_event True)) = Inr b \<and> length b \<le> MAX_EVIDENCE_BYTES"
    "\<exists>b. canonical_bytes (PyDict (event sample_event)) = Inr b \<and> length b \<le> MAX_EVENT_BYTES"
    using canonical_bytes_bound [OF sample_dict(1,2)] canonical_bytes_bound [OF sample_dict(3,4)]
    by (auto simp: MAX_EVIDENCE_BYTES_def MAX_EVENT_BYTES_def)
  have "depth 1 (PyDict (event sample_event)) \<le> MAX_EVENT_DEPTH"
    by (simp add: sample_event_def max_default_def MAX_EVENT_DEPTH_def)
  with b have "validate_event (PyDict (event sample_event)) = Inr (event sample_event)"
    unfolding validate_event_Inr by blast
  with b sample_timestamp show ?thesis
    unfolding wf_signed_def by (simp add: sample_event_def field_eval list_all_iff)
qed

text \<open>
  \<^bold>\<open>C13\<close>. A well-formed envelope survives the log: \<^verbatim>\<open>to_json_line\<close> succeeds on it, the
  line is valid UTF-8, and parsing the line gives the same envelope (its event with the keys in
  canonical order), which has the same hash and signing payloads.
\<close>

theorem signed_event_roundtrip:
  assumes "wf_signed mb e" "dicts_ok (PyDict (event e))"
  shows "\<exists>line raw. to_json_line e = Inr line \<and> utf8_encode line = Inr raw
    \<and> parse_signed_event_json (PyStr line) mb True = Inr (canon_event e)
    \<and> to_json_line (canon_event e) = Inr line"
proof -
  obtain b where b: "canonical_bytes (PyDict (to_dict e True)) = Inr b"
    using assms(1) by (auto simp: wf_signed_def)
  then obtain t where t: "utf8_encode t = Inr b" by (auto simp: canonical_bytes_Inr)
  then have d: "utf8_decode b = Inr t" using utf8.dec_enc utf8_encode_Inr by fastforce
  have "to_json_line (canon_event e) = Inr t"
    using payload_canon_event(3) [OF b] d by (simp add: to_json_line_def)
  with line_parses [OF assms b] parse_json_str [OF t] b t d show ?thesis
    by (simp add: to_json_line_def)
qed

theorem signed_event_roundtrip_witness:
  "\<exists>line raw. to_json_line sample_event = Inr line \<and> utf8_encode line = Inr raw
    \<and> parse_signed_event_json (PyStr line) MAX_EVIDENCE_BYTES True = Inr (canon_event sample_event)
    \<and> to_json_line (canon_event sample_event) = Inr line"
  by (rule signed_event_roundtrip [OF sample_wf]) (simp add: sample_event_def)

section \<open>Where the code does not do what its comments say\<close>

text \<open>
  A record whose timestamp is \<^verbatim>\<open>0001-01-01T00:00:00+01:00\<close> makes
  \<^verbatim>\<open>parse_signed_event\<close> raise \<^verbatim>\<open>OverflowError\<close>, which its documentation rules out.
\<close>

theorem timestamp_overflow_escapes:
  "parse_signed_event
     (PyDict (to_dict (sample_event\<lparr>timestamp := lit ''0001-01-01T00:00:00+01:00''\<rparr>) True))
     MAX_EVIDENCE_BYTES True = Inl OverflowError"
proof -
  have o: "checked_timestamp (PyStr (lit ''0001-01-01T00:00:00+01:00'')) = Inl OverflowError"
    by (simp add: checked_timestamp_def time_eval prev_day_def)
  show ?thesis
    using o
    by (simp add: parse_signed_event_def to_dict_def sample_event_def ENVELOPE_FIELDS_def
        dict_keys_def dict_has_def supported_field_def dict_item_def field_eval unsortable_def)
qed

text \<open>
  The patterns end in \<^verbatim>\<open>$\<close>: an identifier or a digest with one newline
  appended is accepted whenever it is accepted without it and fits the length limit.
\<close>

theorem trailing_newline_accepted:
  assumes "validate_identifier (PyStr s) = Inr s" "length s < MAX_NODE_ID_LENGTH" "last s \<noteq> 10"
    and "validate_hash (PyStr h) = Inr h" "last h \<noteq> 10"
  shows "validate_identifier (PyStr (s @ [10])) = Inr (s @ [10])
    \<and> validate_hash (PyStr (h @ [10])) = Inr (h @ [10])"
  using assms by (auto simp: validate_identifier_def validate_hash_def require_Inr_iff ID_PATTERN_def
      SHA3_256_HEX_def dollar_core_def)

theorem trailing_newline_accepted_witness:
  "validate_identifier (PyStr (lit ''plc'' @ [10])) = Inr (lit ''plc'' @ [10])
    \<and> validate_hash (PyStr (replicate 64 97 @ [10])) = Inr (replicate 64 97 @ [10])"
  by (rule trailing_newline_accepted)
    (simp_all add: field_eval validate_hash_def list_all_iff)

text \<open>
  Strict base64 does not make the signature text unique: two texts decode to the
  same signature, so one signed record has several spellings that all validate.
\<close>

theorem signature_text_not_unique:
  "lit ''QQ=='' \<noteq> lit ''QR=='' \<and>
   validate_signature (PyStr (lit ''QQ=='')) = validate_signature (PyStr (lit ''QR=='')) \<and>
   validate_signature (PyStr (lit ''QQ=='')) = Inr [65]"
  by (simp add: field_eval)

end
