(* ===== verification/EventChain.thy ===== *)
theory EventChain
  imports Models
begin

text \<open>
  \<^verbatim>\<open>pqc_evidence/event_chain.py\<close>: the node-bound genesis value, the event hash and the
  chain cursor. The hash function is a parameter: \<open>sha3 b\<close> stands for
  \<^verbatim>\<open>hashlib.sha3_256(b).hexdigest()\<close>. What the code relies on of it is \<open>hex_digest\<close>
  (sixty-four lowercase hex digits); collision resistance is not a property of a function,
  so statements about tampering name the colliding pair instead of assuming it away.
\<close>

type_synonym digest = "bytes \<Rightarrow> pystr"

definition hex_digest :: "digest \<Rightarrow> bool" where
  "hex_digest sha3 \<longleftrightarrow> (\<forall>b. length (sha3 b) = 64 \<and> list_all hex_lower (sha3 b))"

definition GENESIS_DOMAIN :: bytes where
  "GENESIS_DOMAIN = map byte_of (lit ''ics-deception/pqc-evidence/genesis/v1/'')"

definition FIRST_SEQUENCE :: int where
  "FIRST_SEQUENCE = 1"

definition genesis_previous_hash :: "digest \<Rightarrow> pystr \<Rightarrow> pystr res" where
  "genesis_previous_hash sha3 nid =
     rbind (utf8_encode nid) (\<lambda>b. Inr (sha3 (GENESIS_DOMAIN @ b)))"

definition is_genesis :: "SignedEvent \<Rightarrow> bool" where
  "is_genesis e \<longleftrightarrow> sequence e = FIRST_SEQUENCE"

definition expected_previous_hash :: "digest \<Rightarrow> pystr \<Rightarrow> int \<Rightarrow> pystr option \<Rightarrow> pystr res" where
  "expected_previous_hash sha3 nid sq last_event_hash =
     (if sq = FIRST_SEQUENCE then genesis_previous_hash sha3 nid
      else (case last_event_hash of None \<Rightarrow> Inl ValueError | Some h \<Rightarrow> Inr h))"

definition compute_event_hash :: "digest \<Rightarrow> SignedEvent \<Rightarrow> pystr res" where
  "compute_event_hash sha3 e = rbind (hash_payload e) (\<lambda>b. Inr (sha3 b))"

definition verify_event_hash :: "digest \<Rightarrow> SignedEvent \<Rightarrow> bool res" where
  "verify_event_hash sha3 e = rbind (compute_event_hash sha3 e) (\<lambda>h. Inr (h = event_hash e))"

record ChainPosition =
  cp_node_id :: pystr
  last_sequence :: int
  last_event_hash :: "pystr option"

definition new_position :: "pystr \<Rightarrow> ChainPosition" where
  "new_position nid = \<lparr>cp_node_id = nid, last_sequence = 0, last_event_hash = None\<rparr>"

definition next_sequence :: "ChainPosition \<Rightarrow> int" where
  "next_sequence p = last_sequence p + 1"

definition previous_hash_for_next :: "digest \<Rightarrow> ChainPosition \<Rightarrow> pystr res" where
  "previous_hash_for_next sha3 p =
     expected_previous_hash sha3 (cp_node_id p) (next_sequence p) (last_event_hash p)"

definition advance :: "ChainPosition \<Rightarrow> SignedEvent \<Rightarrow> pystr option \<Rightarrow> ChainPosition" where
  "advance p e h =
     p\<lparr>last_sequence := sequence e,
       last_event_hash := Some (case h of Some x \<Rightarrow> x | None \<Rightarrow> event_hash e)\<rparr>"

definition position_dict :: "ChainPosition \<Rightarrow> pydict" where
  "position_dict p =
     [(KStr (lit ''node_id''), PyStr (cp_node_id p)),
      (KStr (lit ''last_sequence''), PyInt (last_sequence p)),
      (KStr (lit ''last_event_hash''),
         (case last_event_hash p of None \<Rightarrow> PyNone | Some h \<Rightarrow> PyStr h))]"

section \<open>Chains\<close>

text \<open>
  The rule a sequence of one node's events must satisfy, as the module header states it:
  sequences count from \<open>n + 1\<close>, each event carries the hash before it (\<open>prev\<close> for the first),
  and the stored hash is the hash of the content.
\<close>

fun chain_from :: "digest \<Rightarrow> pystr \<Rightarrow> int \<Rightarrow> SignedEvent list \<Rightarrow> bool" where
  "chain_from sha3 prev n [] = True"
| "chain_from sha3 prev n (e # es) =
     (sequence e = n + 1 \<and> previous_event_hash e = prev \<and>
      compute_event_hash sha3 e = Inr (event_hash e) \<and>
      chain_from sha3 (event_hash e) (n + 1) es)"

definition chain :: "digest \<Rightarrow> pystr \<Rightarrow> SignedEvent list \<Rightarrow> bool" where
  "chain sha3 nid es \<longleftrightarrow>
     (case genesis_previous_hash sha3 nid of Inl _ \<Rightarrow> False | Inr g \<Rightarrow> chain_from sha3 g 0 es)"

definition tip :: "pystr \<Rightarrow> SignedEvent list \<Rightarrow> pystr" where
  "tip prev es = (if es = [] then prev else event_hash (last es))"

lemma tip_simps [simp]: "tip prev [] = prev" "tip prev (es @ [e]) = event_hash e"
  by (simp_all add: tip_def)

lemma tip_Cons [simp]: "tip prev (e # es) = tip (event_hash e) es"
  by (simp add: tip_def)

lemma chain_from_append:
  "chain_from sha3 prev n (es @ fs) \<longleftrightarrow>
   chain_from sha3 prev n es \<and> chain_from sha3 (tip prev es) (n + int (length es)) fs"
  by (induction es arbitrary: prev n) (auto simp: algebra_simps)

lemma chain_from_sequence:
  "\<lbrakk>chain_from sha3 prev n es; i < length es\<rbrakk> \<Longrightarrow> sequence (es ! i) = n + 1 + int i"
proof (induction es arbitrary: prev n i)
  case (Cons e es)
  then show ?case by (cases i) auto
qed simp

lemma chain_from_distinct: "chain_from sha3 prev n es \<Longrightarrow> distinct (map sequence es)"
  by (auto simp: distinct_conv_nth chain_from_sequence)

text \<open>What the content hash covers: everything but the hash itself and the signature.\<close>

definition hashed_fields :: "SignedEvent \<Rightarrow> pydict" where
  "hashed_fields e = filter (\<lambda>(k, v). k \<notin> set HASH_EXCLUDED) (to_dict e True)"

lemma hash_payload_fields: "hash_payload e = canonical_bytes (PyDict (hashed_fields e))"
  by (simp add: hash_payload_def hashed_fields_def)

lemma hashed_fields_eq:
  "hashed_fields e =
     [(KStr (lit ''format_version''), PyStr (format_version e)),
      (KStr (lit ''node_id''), PyStr (node_id e)),
      (KStr (lit ''sequence''), PyInt (sequence e)),
      (KStr (lit ''timestamp''), PyStr (timestamp e)),
      (KStr (lit ''previous_event_hash''), PyStr (previous_event_hash e)),
      (KStr (lit ''event''), PyDict (event e)),
      (KStr (lit ''signature_algorithm''), PyStr (signature_algorithm e)),
      (KStr (lit ''hash_algorithm''), PyStr (hash_algorithm e)),
      (KStr (lit ''key_id''), PyStr (key_id e))]"
  by (simp add: hashed_fields_def to_dict_def HASH_EXCLUDED_def)

lemma hash_payload_ignores:
  "hash_payload (with_signature e s b) = hash_payload e"
  "hash_payload (with_event_hash e h) = hash_payload e"
  by (simp_all add: hash_payload_fields hashed_fields_eq with_signature_def with_event_hash_def)

lemma compute_event_hash_ignores:
  "compute_event_hash sha3 (with_signature e s b) = compute_event_hash sha3 e"
  "compute_event_hash sha3 (with_event_hash e h) = compute_event_hash sha3 e"
  by (simp_all add: compute_event_hash_def hash_payload_ignores)

text \<open>Equal payloads mean equal content, field by field.\<close>

definition same_content :: "SignedEvent \<Rightarrow> SignedEvent \<Rightarrow> bool" where
  "same_content e f \<longleftrightarrow>
     format_version e = format_version f \<and> node_id e = node_id f \<and> sequence e = sequence f \<and>
     timestamp e = timestamp f \<and> previous_event_hash e = previous_event_hash f \<and>
     canon_form (PyDict (event e)) = canon_form (PyDict (event f)) \<and>
     signature_algorithm e = signature_algorithm f \<and> hash_algorithm e = hash_algorithm f \<and>
     key_id e = key_id f"

lemma hash_payload_same_content:
  assumes "dicts_ok (PyDict (event e))" "dicts_ok (PyDict (event f))"
    and "hash_payload e = Inr b" "hash_payload f = Inr b"
  shows "same_content e f"
proof -
  have "dicts_ok (PyDict (hashed_fields g))" if "dicts_ok (PyDict (event g))" for g
    using that by (simp add: hashed_fields_eq)
  note eq = canonical_bytes_fields [OF this this, OF assms(1,2) assms(3,4) [unfolded hash_payload_fields]]
  from eq [of "lit ''format_version''"] eq [of "lit ''node_id''"] eq [of "lit ''sequence''"]
    eq [of "lit ''timestamp''"] eq [of "lit ''previous_event_hash''"] eq [of "lit ''event''"]
    eq [of "lit ''signature_algorithm''"] eq [of "lit ''hash_algorithm''"] eq [of "lit ''key_id''"]
  show ?thesis by (simp add: hashed_fields_eq same_content_def)
qed
section \<open>Tamper evidence\<close>

lemma rev_induct2 [consumes 1, case_names Nil snoc]:
  assumes "length es = length fs" "P [] []"
    and "\<And>e es f fs. \<lbrakk>length es = length fs; P es fs\<rbrakk> \<Longrightarrow> P (es @ [e]) (fs @ [f])"
  shows "P es fs"
  using assms(1)
proof (induction es arbitrary: fs rule: rev_induct)
  case (snoc e es)
  then obtain f fs' where "fs = fs' @ [f]" "length es = length fs'"
    by (cases fs rule: rev_cases) auto
  with snoc.IH assms(3) show ?case by blast
qed (use assms(2) in simp)

text \<open>A collision of the digest on the payloads of two given chains.\<close>

definition payload_collision :: "digest \<Rightarrow> SignedEvent list \<Rightarrow> SignedEvent list \<Rightarrow> bool" where
  "payload_collision sha3 es fs \<longleftrightarrow>
     (\<exists>e\<in>set es. \<exists>f\<in>set fs. \<exists>b c. hash_payload e = Inr b \<and> hash_payload f = Inr c \<and> b \<noteq> c \<and> sha3 b = sha3 c)"

lemma same_hash_same_content:
  assumes "compute_event_hash sha3 e = Inr (event_hash e)" "compute_event_hash sha3 f = Inr (event_hash f)"
    and "event_hash e = event_hash f" "e \<in> set es" "f \<in> set fs" "\<not> payload_collision sha3 es fs"
    and "dicts_ok (PyDict (event e))" "dicts_ok (PyDict (event f))"
  shows "same_content e f"
proof -
  obtain b c where b: "hash_payload e = Inr b" "sha3 b = event_hash e" "hash_payload f = Inr c"
      "sha3 c = event_hash f"
    using assms(1,2) by (auto simp: compute_event_hash_def rbind_Inr_iff)
  moreover have "b = c"
    using assms(3-6) b unfolding payload_collision_def by metis
  ultimately show ?thesis using hash_payload_same_content assms(7,8) by blast
qed

lemma chain_from_same:
  assumes "chain_from sha3 p n es" "chain_from sha3 q m fs" "length es = length fs"
    and "\<not> payload_collision sha3 es fs"
    and "\<forall>e\<in>set es \<union> set fs. dicts_ok (PyDict (event e))"
    and "tip p es = tip q fs"
  shows "list_all2 same_content es fs"
  using assms(3,1,2,4-6)
proof (induction es fs rule: rev_induct2)
  case (snoc e es f fs)
  have ch: "compute_event_hash sha3 e = Inr (event_hash e)" "compute_event_hash sha3 f = Inr (event_hash f)"
    "previous_event_hash e = tip p es" "previous_event_hash f = tip q fs"
    "chain_from sha3 p n es" "chain_from sha3 q m fs"
    using snoc by (simp_all add: chain_from_append)
  have e: "same_content e f"
    by (rule same_hash_same_content [OF ch(1,2), of "es @ [e]" "fs @ [f]"]) (use snoc in auto)
  have "\<not> payload_collision sha3 es fs"
    using snoc(5) by (auto simp: payload_collision_def)
  moreover have "tip p es = tip q fs" using e ch(3,4) by (simp add: same_content_def)
  ultimately have "list_all2 same_content es fs"
    using snoc ch(5,6) by auto
  with e show ?case by (simp add: list_all2_appendI)
qed auto

text \<open>A chain of one event, under a digest that is the same everywhere.\<close>

definition demo_sha3 :: digest where
  "demo_sha3 b = replicate 64 97"

lemma demo_hex_digest: "hex_digest demo_sha3"
  by (simp add: hex_digest_def demo_sha3_def hex_lower_def list_all_iff)

lemma sample_hash: "compute_event_hash demo_sha3 sample_event = Inr (event_hash sample_event)"
proof -
  have "check 0 (PyDict (hashed_fields sample_event)) = Inr ()" "ints_ok (PyDict (hashed_fields sample_event))"
    by (simp_all add: hashed_fields_eq sample_event_def check_eval list_all_iff)
  then have "\<exists>b. hash_payload sample_event = Inr b"
    using canonical_bytes_bound unfolding hash_payload_fields by blast
  then show ?thesis by (auto simp: compute_event_hash_def demo_sha3_def sample_event_def)
qed

lemma demo_genesis: "list_all scalar nid \<Longrightarrow> genesis_previous_hash demo_sha3 nid = Inr (replicate 64 97)"
  by (simp add: genesis_previous_hash_def utf8_encode_def demo_sha3_def)

lemma sample_chain: "chain demo_sha3 (lit ''plc-1'') [sample_event]"
proof -
  have "genesis_previous_hash demo_sha3 (lit ''plc-1'') = Inr (previous_event_hash sample_event)"
    by (subst demo_genesis) (simp_all add: sample_event_def)
  moreover have "sequence sample_event = 1" by (simp add: sample_event_def)
  ultimately show ?thesis by (simp add: chain_def sample_hash)
qed

text \<open>
  \<^bold>\<open>C10\<close>. Tamper evidence of the chain. Two chains of one node that end in the same event
  hash have the same length and the same content, event by event, unless two of their payloads
  are a collision of SHA3-256. So an event cannot be changed, removed, inserted or reordered
  without changing the last hash.
\<close>

theorem chain_tamper_evident:
  assumes "chain sha3 nid es" "chain sha3 nid fs" "es \<noteq> []" "fs \<noteq> []"
    and "event_hash (last es) = event_hash (last fs)"
    and "\<forall>e\<in>set es \<union> set fs. dicts_ok (PyDict (event e))"
  shows "length es = length fs \<and> list_all2 same_content es fs \<or> payload_collision sha3 es fs"
proof (cases "payload_collision sha3 es fs")
  case False
  obtain g where g: "chain_from sha3 g 0 es" "chain_from sha3 g 0 fs"
    using assms(1,2) by (auto simp: chain_def split: sum.splits)
  have last: "compute_event_hash sha3 (last es) = Inr (event_hash (last es))
      \<and> sequence (last es) = int (length es)"
    if c: "chain_from sha3 g 0 es" and ne: "es \<noteq> []" for es
  proof -
    obtain xs x where "es = xs @ [x]" using ne by (cases es rule: rev_cases) auto
    with c show ?thesis by (simp add: chain_from_append)
  qed
  have "same_content (last es) (last fs)"
    using last [OF g(1) assms(3)] last [OF g(2) assms(4)] assms False
    by (intro same_hash_same_content) auto
  then have "length es = length fs"
    using last [OF g(1) assms(3)] last [OF g(2) assms(4)] by (simp add: same_content_def)
  moreover from this have "list_all2 same_content es fs"
    using chain_from_same [OF g _ False assms(6)] assms(3-5) by (simp add: tip_def)
  ultimately show ?thesis by blast
qed blast

theorem chain_tamper_evident_witness:
  "length [sample_event] = length [sample_event] \<and> list_all2 same_content [sample_event] [sample_event]
   \<or> payload_collision demo_sha3 [sample_event] [sample_event]"
  by (rule chain_tamper_evident [OF sample_chain sample_chain]) (simp_all add: sample_event_def)

text \<open>
  The genesis value is bound to the node: two nodes with the same genesis value are
  the same node, or their identifiers give a collision of SHA3-256.
\<close>

theorem genesis_node_bound:
  assumes "genesis_previous_hash sha3 a = Inr g" "genesis_previous_hash sha3 b = Inr g"
  shows "a = b \<or> (\<exists>x y. x \<noteq> y \<and> sha3 x = sha3 y)"
proof -
  obtain u v where u: "utf8_encode a = Inr u" "utf8_encode b = Inr v"
      "sha3 (GENESIS_DOMAIN @ u) = g" "sha3 (GENESIS_DOMAIN @ v) = g"
    using assms by (auto simp: genesis_previous_hash_def rbind_Inr_iff)
  show ?thesis
  proof (cases "u = v")
    case True
    then have "a = b"
      using utf8.enc_inj [of a b u] u(1,2) by (auto simp: utf8_encode_Inr)
    then show ?thesis ..
  next
    case False
    then have "GENESIS_DOMAIN @ u \<noteq> GENESIS_DOMAIN @ v" by simp
    moreover have "sha3 (GENESIS_DOMAIN @ u) = sha3 (GENESIS_DOMAIN @ v)" using u(3,4) by simp
    ultimately have "\<exists>x y. x \<noteq> y \<and> sha3 x = sha3 y" by (intro exI conjI)
    then show ?thesis ..
  qed
qed

theorem genesis_node_bound_witness:
  "lit ''plc-1'' = lit ''plc-2'' \<or> (\<exists>x y. x \<noteq> y \<and> demo_sha3 x = demo_sha3 y)"
  by (rule genesis_node_bound [OF demo_genesis demo_genesis]) simp_all

end
