(* ===== verification/KeyRegistry.thy ===== *)
theory KeyRegistry
  imports EventChain "HOL-Library.Product_Lexorder"
begin

text \<open>
  \<^verbatim>\<open>pqc_evidence/key_registry.py\<close>: the registry of public keys as the insertion-ordered
  dict of its records, with registration, rotation, revocation, import and the usability check
  the verifier relies on. The clock enters as the argument \<open>now\<close>. An operation returns its
  result together with the registry it leaves behind, because an operation that raises can
  have changed the registry before. Shown: the registry invariant (keys and public keys
  unique, every record valid) is kept by every operation, an export reads back as the same
  registry, revoked and disabled keys are never usable, and what a usable key satisfies.
\<close>

section \<open>Records\<close>

datatype KeyState = ACTIVE | ROTATED | REVOKED | EXPIRED | DISABLED

fun state_value :: "KeyState \<Rightarrow> pystr" where
  "state_value ACTIVE = lit ''active''"
| "state_value ROTATED = lit ''rotated''"
| "state_value REVOKED = lit ''revoked''"
| "state_value EXPIRED = lit ''expired''"
| "state_value DISABLED = lit ''disabled''"

text \<open>The call \<^verbatim>\<open>KeyState(value)\<close>.\<close>

definition key_state :: "pyval \<Rightarrow> KeyState option" where
  "key_state v =
     (case v of
        PyStr s \<Rightarrow> find (\<lambda>st. state_value st = s) [ACTIVE, ROTATED, REVOKED, EXPIRED, DISABLED]
      | _ \<Rightarrow> None)"

text \<open>The first eight bytes of the digest as hex pairs, from the hex digest.\<close>

fun hex_pairs :: "pystr \<Rightarrow> pystr list" where
  "hex_pairs (a # b # r) = [a, b] # hex_pairs r"
| "hex_pairs _ = []"

definition fingerprint :: "digest \<Rightarrow> bytes \<Rightarrow> pystr" where
  "fingerprint sha3 public_key = join [58] (hex_pairs (take 16 (sha3 public_key)))"

text \<open>
  \<^verbatim>\<open>datetime.strptime(text, "%Y-%m-%dT%H:%M:%S.%fZ")\<close> on a normalised timestamp. The instant
  is a number that orders as the datetimes do. \<^verbatim>\<open>%Y\<close> wants four digits, which the
  normal form of a year below 1000 does not have: \<^verbatim>\<open>ValueError\<close>.
\<close>

definition strptime_utc :: "pystr \<Rightarrow> nat res" where
  "strptime_utc u =
     (if length u \<noteq> 27 then Inl ValueError
      else
        (case (num_field 0 4 u, num_field 5 2 u, num_field 8 2 u, parse_clock (take 15 (drop 11 u))) of
           (Some y, Some m, Some d, Some k) \<Rightarrow>
             Inr (((y * 13 + m) * 32 + d) * day_us + clock_us k)
         | _ \<Rightarrow> Inl ValueError))"

definition parse_time :: "pyval \<Rightarrow> nat res" where
  "parse_time v =
     (case normalize_timestamp v of Inl _ \<Rightarrow> Inl KeyRegistryError | Inr u \<Rightarrow> strptime_utc u)"

record KeyRecord =
  kr_key_id :: pystr
  kr_node_id :: pystr
  kr_algorithm :: pystr
  kr_public_key :: pystr
  created_at :: pystr
  activated_at :: pystr
  expires_at :: "pystr option"
  kr_state :: KeyState
  revocation_reason :: pyval
  revoked_at :: pyval
  metadata :: pydict

definition public_key_bytes :: "KeyRecord \<Rightarrow> bytes res" where
  "public_key_bytes r =
     (case b64decode (kr_public_key r) of Inl _ \<Rightarrow> Inl KeyRegistryError | Inr b \<Rightarrow> Inr b)"

definition opt_str :: "pystr option \<Rightarrow> pyval" where
  "opt_str x = (case x of None \<Rightarrow> PyNone | Some s \<Rightarrow> PyStr s)"

definition record_to_dict :: "digest \<Rightarrow> KeyRecord \<Rightarrow> pydict res" where
  "record_to_dict sha3 r =
     rbind (public_key_bytes r) (\<lambda>pk. Inr
       [(KStr (lit ''key_id''), PyStr (kr_key_id r)),
        (KStr (lit ''node_id''), PyStr (kr_node_id r)),
        (KStr (lit ''algorithm''), PyStr (kr_algorithm r)),
        (KStr (lit ''public_key''), PyStr (kr_public_key r)),
        (KStr (lit ''created_at''), PyStr (created_at r)),
        (KStr (lit ''activated_at''), PyStr (activated_at r)),
        (KStr (lit ''expires_at''), opt_str (expires_at r)),
        (KStr (lit ''state''), PyStr (state_value (kr_state r))),
        (KStr (lit ''revocation_reason''), revocation_reason r),
        (KStr (lit ''revoked_at''), revoked_at r),
        (KStr (lit ''metadata''), PyDict (metadata r)),
        (KStr (lit ''fingerprint''), PyStr (fingerprint sha3 pk)),
        (KStr (lit ''public_key_sha3_256''), PyStr (sha3 pk))])"

text \<open>
  Truth value of a decoded JSON value. A float is zero when its mantissa is.
\<close>

definition truthy :: "pyval \<Rightarrow> bool" where
  "truthy v =
     (case v of
        PyNone \<Rightarrow> False
      | PyBool b \<Rightarrow> b
      | PyInt i \<Rightarrow> i \<noteq> 0
      | PyFloat (FFin t) \<Rightarrow>
          list_ex (\<lambda>c. is_digit c \<and> c \<noteq> 48) (takeWhile (\<lambda>c. c \<noteq> 101 \<and> c \<noteq> 69) t)
      | PyFloat _ \<Rightarrow> True
      | PyStr s \<Rightarrow> s \<noteq> []
      | PyBytes b \<Rightarrow> b \<noteq> []
      | PyList xs \<Rightarrow> xs \<noteq> []
      | PyTuple xs \<Rightarrow> xs \<noteq> []
      | PyDict d \<Rightarrow> d \<noteq> []
      | PyObj _ \<Rightarrow> True)"

definition get_or :: "pydict \<Rightarrow> pystr \<Rightarrow> pyval \<Rightarrow> pyval" where
  "get_or d k v = (case dict_get d k of None \<Rightarrow> v | Some x \<Rightarrow> x)"

definition REQUIRED_KEY_FIELDS :: "pystr list" where
  "REQUIRED_KEY_FIELDS = map lit
     [''key_id'', ''node_id'', ''algorithm'', ''public_key'', ''created_at'', ''activated_at'']"

definition id_field :: "pydict \<Rightarrow> pystr \<Rightarrow> pystr res" where
  "id_field d k =
     rbind (dict_item d k) (\<lambda>v.
       (case v of
          PyStr s \<Rightarrow> require (s \<noteq> [] \<and> length s \<le> MAX_NODE_ID_LENGTH) KeyRegistryError (Inr s)
        | _ \<Rightarrow> Inl KeyRegistryError))"

text \<open>
  Membership in a \<^verbatim>\<open>frozenset\<close> of strings: a list or dict cannot be hashed, a
  \<^verbatim>\<open>TypeError\<close>.
\<close>

definition algorithm_field :: "pyval \<Rightarrow> pystr res" where
  "algorithm_field v =
     (case v of
        PyStr s \<Rightarrow> require (s \<in> set SUPPORTED_SIGNATURE_ALGORITHMS) KeyRegistryError (Inr s)
      | PyList _ \<Rightarrow> Inl TypeError
      | PyDict _ \<Rightarrow> Inl TypeError
      | _ \<Rightarrow> Inl KeyRegistryError)"

text \<open>
  \<^verbatim>\<open>record.public_key_bytes\<close> while validating: decoding something that is not a string is a
  \<^verbatim>\<open>TypeError\<close>, which the handler does not catch (decoded JSON has no bytes).
\<close>

definition key_field :: "pyval \<Rightarrow> pystr res" where
  "key_field v =
     (case v of
        PyStr s \<Rightarrow> (case b64decode s of Inl _ \<Rightarrow> Inl KeyRegistryError | Inr _ \<Rightarrow> Inr s)
      | _ \<Rightarrow> Inl TypeError)"

text \<open>A timestamp field: checked, kept as it was written.\<close>

definition time_field :: "pyval \<Rightarrow> pystr res" where
  "time_field v = rbind (parse_time v) (\<lambda>_. case v of PyStr s \<Rightarrow> Inr s | _ \<Rightarrow> Inl KeyRegistryError)"

definition expiry_field :: "pyval \<Rightarrow> pystr option res" where
  "expiry_field v = (if v = PyNone then Inr None else rbind (time_field v) (\<lambda>s. Inr (Some s)))"

definition from_dict :: "pyval \<Rightarrow> KeyRecord res" where
  "from_dict v =
     (case v of
        PyDict d \<Rightarrow>
          require (list_all (dict_has d) REQUIRED_KEY_FIELDS) KeyRegistryError
          (rbind (id_field d (lit ''key_id'')) (\<lambda>kid.
           rbind (id_field d (lit ''node_id'')) (\<lambda>nid.
           rbind (rbind (dict_item d (lit ''algorithm'')) algorithm_field) (\<lambda>alg.
           (case key_state (get_or d (lit ''state'') (PyStr (lit ''active''))) of
              None \<Rightarrow> Inl KeyRegistryError
            | Some st \<Rightarrow>
               (let meta = (let m = get_or d (lit ''metadata'') PyNone in if truthy m then m else PyDict [])
                in case meta of
                     PyDict md \<Rightarrow>
                       rbind (rbind (dict_item d (lit ''public_key'')) key_field) (\<lambda>pk.
                       rbind (rbind (dict_item d (lit ''created_at'')) time_field) (\<lambda>ca.
                       rbind (rbind (dict_item d (lit ''activated_at'')) time_field) (\<lambda>aa.
                       rbind (expiry_field (get_or d (lit ''expires_at'') PyNone)) (\<lambda>ea.
                         Inr \<lparr>kr_key_id = kid, kr_node_id = nid, kr_algorithm = alg,
                              kr_public_key = pk, created_at = ca, activated_at = aa,
                              expires_at = ea, kr_state = st,
                              revocation_reason = get_or d (lit ''revocation_reason'') PyNone,
                              revoked_at = get_or d (lit ''revoked_at'') PyNone,
                              metadata = md\<rparr>))))
                   | _ \<Rightarrow> Inl KeyRegistryError))))))
      | _ \<Rightarrow> Inl KeyRegistryError)"

section \<open>The registry\<close>

type_synonym registry = "(pystr \<times> KeyRecord) list"

definition REGISTRY_FORMAT_VERSION :: pystr where
  "REGISTRY_FORMAT_VERSION = lit ''1.0''"

definition MAX_REGISTRY_BYTES :: nat where
  "MAX_REGISTRY_BYTES = 8 * 1024 * 1024"

definition reg_insert :: "registry \<Rightarrow> KeyRecord \<Rightarrow> registry res" where
  "reg_insert reg r =
     require (map_of reg (kr_key_id r) = None) KeyRegistryError
       (require (list_all (\<lambda>(k, other). kr_public_key other \<noteq> kr_public_key r) reg) KeyRegistryError
         (Inr (adict_set reg (kr_key_id r) r)))"

fun reg_init :: "registry \<Rightarrow> KeyRecord list \<Rightarrow> registry res" where
  "reg_init reg [] = Inr reg"
| "reg_init reg (r # rs) = rbind (reg_insert reg r) (\<lambda>reg'. reg_init reg' rs)"

fun from_dicts :: "pyval list \<Rightarrow> KeyRecord list res" where
  "from_dicts [] = Inr []"
| "from_dicts (v # vs) = rbind (from_dict v) (\<lambda>r. rbind (from_dicts vs) (\<lambda>rs. Inr (r # rs)))"

text \<open>The part of \<^verbatim>\<open>load\<close> after the JSON is decoded.\<close>

definition load_document :: "pyval \<Rightarrow> registry res" where
  "load_document v =
     (case v of
        PyDict data \<Rightarrow>
          require (get_or data (lit ''format_version'') PyNone = PyStr REGISTRY_FORMAT_VERSION)
            KeyRegistryError
            (case get_or data (lit ''keys'') PyNone of
               PyList entries \<Rightarrow> rbind (from_dicts entries) (reg_init [])
             | _ \<Rightarrow> Inl KeyRegistryError)
      | _ \<Rightarrow> Inl KeyRegistryError)"

text \<open>\<^verbatim>\<open>load\<close> on the bytes of the file, \<open>None\<close> when there is none.\<close>

definition reg_load :: "bytes option \<Rightarrow> registry res" where
  "reg_load content =
     (case content of
        None \<Rightarrow> Inr []
      | Some raw \<Rightarrow>
          require (length raw \<le> MAX_REGISTRY_BYTES) KeyRegistryError
            (case utf8_decode raw of
               Inl _ \<Rightarrow> Inl KeyRegistryError
             | Inr s \<Rightarrow>
                 (case json_loads s of
                    Inl e \<Rightarrow> Inl (if e = JSONDecodeError then KeyRegistryError else e)
                  | Inr data \<Rightarrow> load_document data)))"

definition sorted_records :: "registry \<Rightarrow> KeyRecord list" where
  "sorted_records reg = sort_key (\<lambda>r. (kr_node_id r, kr_key_id r)) (map snd reg)"

definition reg_nodes :: "registry \<Rightarrow> pystr list" where
  "reg_nodes reg = sort (remdups (map (kr_node_id \<circ> snd) reg))"

text \<open>\<^verbatim>\<open>sorted(..., reverse=True)\<close> is stable: equal keys keep their order.\<close>

definition for_node :: "registry \<Rightarrow> pystr \<Rightarrow> KeyRecord list" where
  "for_node reg nid =
     rev (sort_key activated_at (rev (filter (\<lambda>r. kr_node_id r = nid) (map snd reg))))"

definition active_key :: "registry \<Rightarrow> pystr \<Rightarrow> KeyRecord option" where
  "active_key reg nid = find (\<lambda>r. kr_state r = ACTIVE) (for_node reg nid)"

definition set_state :: "registry \<Rightarrow> KeyRecord \<Rightarrow> KeyState \<Rightarrow> registry" where
  "set_state reg r st = adict_set reg (kr_key_id r) (r\<lparr>kr_state := st\<rparr>)"

text \<open>\<^verbatim>\<open>normalize_timestamp(x) if x else default\<close>.\<close>

definition time_arg :: "pystr option \<Rightarrow> pystr option \<Rightarrow> pystr option res" where
  "time_arg x dflt =
     (case x of
        None \<Rightarrow> Inr dflt
      | Some s \<Rightarrow> if s = [] then Inr dflt else rbind (normalize_timestamp (PyStr s)) (\<lambda>t. Inr (Some t)))"

text \<open>
  The record \<^verbatim>\<open>register\<close> builds, validated through \<^verbatim>\<open>from_dict(to_dict())\<close>.
\<close>

definition new_record ::
  "digest \<Rightarrow> pystr \<Rightarrow> pystr \<Rightarrow> pystr \<Rightarrow> bytes \<Rightarrow> pystr \<Rightarrow> pystr option \<Rightarrow> pystr option \<Rightarrow> pydict
   \<Rightarrow> bool \<Rightarrow> KeyRecord res"
where
  "new_record sha3 now kid nid pk alg act expi meta make_active =
     require (alg \<in> set SUPPORTED_SIGNATURE_ALGORITHMS) KeyRegistryError
     (require (pk \<noteq> []) KeyRegistryError
     (rbind (time_arg act (Some now)) (\<lambda>aa.
      rbind (time_arg expi None) (\<lambda>ea.
      rbind (record_to_dict sha3
               \<lparr>kr_key_id = kid, kr_node_id = nid, kr_algorithm = alg, kr_public_key = b64encode pk,
                created_at = now, activated_at = (case aa of Some t \<Rightarrow> t | None \<Rightarrow> now),
                expires_at = ea, kr_state = (if make_active then ACTIVE else DISABLED),
                revocation_reason = PyNone, revoked_at = PyNone, metadata = meta\<rparr>) (\<lambda>d.
        from_dict (PyDict d))))))"

text \<open>The registry \<^verbatim>\<open>register\<close> inserts into: the node's active key is marked rotated.\<close>

definition rotated :: "registry \<Rightarrow> pystr \<Rightarrow> bool \<Rightarrow> registry" where
  "rotated reg nid make_active =
     (if make_active
      then (case active_key reg nid of None \<Rightarrow> reg | Some p \<Rightarrow> set_state reg p ROTATED) else reg)"

definition register ::
  "digest \<Rightarrow> pystr \<Rightarrow> pystr \<Rightarrow> pystr \<Rightarrow> bytes \<Rightarrow> pystr \<Rightarrow> pystr option \<Rightarrow> pystr option \<Rightarrow> pydict
   \<Rightarrow> bool \<Rightarrow> registry \<Rightarrow> KeyRecord res \<times> registry"
where
  "register sha3 now kid nid pk alg act expi meta make_active reg =
     (case new_record sha3 now kid nid pk alg act expi meta make_active of
        Inl e \<Rightarrow> (Inl e, reg)
      | Inr r \<Rightarrow>
          (case reg_insert (rotated reg nid make_active) r of
             Inl e \<Rightarrow> (Inl e, rotated reg nid make_active)
           | Inr reg2 \<Rightarrow> (Inr r, reg2)))"

definition reg_require :: "registry \<Rightarrow> pystr \<Rightarrow> KeyRecord res" where
  "reg_require reg kid = (case map_of reg kid of None \<Rightarrow> Inl KeyRegistryError | Some r \<Rightarrow> Inr r)"

definition revoke :: "pystr \<Rightarrow> pystr \<Rightarrow> pystr \<Rightarrow> registry \<Rightarrow> KeyRecord res \<times> registry" where
  "revoke now kid reason_text reg =
     (case reg_require reg kid of
        Inl e \<Rightarrow> (Inl e, reg)
      | Inr r \<Rightarrow>
          if reason_text = [] \<or> strip reason_text = [] then (Inl KeyRegistryError, reg)
          else
            (let r' = r\<lparr>kr_state := REVOKED, revocation_reason := PyStr (strip reason_text),
                         revoked_at := PyStr now\<rparr>
             in (Inr r', adict_set reg kid r')))"

definition disable :: "pystr \<Rightarrow> registry \<Rightarrow> KeyRecord res \<times> registry" where
  "disable kid reg =
     (case reg_require reg kid of
        Inl e \<Rightarrow> (Inl e, reg)
      | Inr r \<Rightarrow> (Inr (r\<lparr>kr_state := DISABLED\<rparr>), set_state reg r DISABLED))"

definition reg_rotate ::
  "digest \<Rightarrow> pystr \<Rightarrow> pystr \<Rightarrow> pystr \<Rightarrow> bytes \<Rightarrow> pystr \<Rightarrow> pystr option \<Rightarrow> pystr option \<Rightarrow> pydict
   \<Rightarrow> registry \<Rightarrow> KeyRecord res \<times> registry"
where
  "reg_rotate sha3 now nid kid pk alg act expi meta reg =
     (if active_key reg nid = None \<and> for_node reg nid = [] then (Inl KeyRegistryError, reg)
      else register sha3 now kid nid pk alg act expi meta True reg)"

section \<open>Usability\<close>

text \<open>\<^verbatim>\<open>ALERTS\<close> of \<^verbatim>\<open>verifier.py\<close>.\<close>

datatype alert =
    pqc_invalid_signature
  | pqc_event_hash_mismatch
  | pqc_previous_hash_mismatch
  | pqc_sequence_gap
  | pqc_duplicate_sequence
  | pqc_replayed_event
  | pqc_unknown_node
  | pqc_unknown_key
  | pqc_revoked_key
  | pqc_expired_key
  | pqc_chain_reset
  | pqc_unsupported_algorithm
  | pqc_malformed_evidence
  | pqc_oversized_evidence

record KeyUsability =
  usable :: bool
  problems :: "alert list"

text \<open>
  The \<^verbatim>\<open>try\<close> block of \<^verbatim>\<open>check_usable\<close>: the problems it appends, and the exception that
  ended it early.
\<close>

definition expiry_problems :: "KeyRecord \<Rightarrow> nat \<Rightarrow> alert list \<times> exn option" where
  "expiry_problems r event_time =
     (case expires_at r of
        None \<Rightarrow> ([], None)
      | Some x \<Rightarrow>
          (case parse_time (PyStr x) of
             Inl e \<Rightarrow> ([], Some e)
           | Inr expires \<Rightarrow> (if event_time > expires then [pqc_expired_key] else [], None)))"

definition time_problems :: "KeyRecord \<Rightarrow> pystr \<Rightarrow> alert list \<times> exn option" where
  "time_problems r at =
     (case parse_time (PyStr at) of
        Inl e \<Rightarrow> ([], Some e)
      | Inr event_time \<Rightarrow>
          (case parse_time (PyStr (activated_at r)) of
             Inl e \<Rightarrow> ([], Some e)
           | Inr activated \<Rightarrow>
               (let p1 = (if event_time < activated then [pqc_unknown_key] else [])
                in case expiry_problems r event_time of
                     (p2, Some e) \<Rightarrow> (p1 @ p2, Some e)
                   | (p2, None) \<Rightarrow>
                       (p1 @ p2 @ (if kr_state r = EXPIRED \<and> pqc_expired_key \<notin> set p2
                                   then [pqc_expired_key] else []), None))))"

definition check_usable :: "registry \<Rightarrow> pystr \<Rightarrow> pystr \<Rightarrow> pystr \<Rightarrow> pystr \<Rightarrow> KeyUsability res" where
  "check_usable reg kid nid at alg =
     (case map_of reg kid of
        None \<Rightarrow>
          Inr \<lparr>usable = False,
               problems = (if list_ex (\<lambda>(k, r). kr_node_id r = nid) reg then [pqc_unknown_key]
                           else [pqc_unknown_node, pqc_unknown_key])\<rparr>
      | Some r \<Rightarrow>
          (let p0 = (if kr_node_id r \<noteq> nid then [pqc_unknown_node] else [])
                  @ (if kr_algorithm r \<noteq> alg then [pqc_unsupported_algorithm] else [])
                  @ (if kr_state r = REVOKED then [pqc_revoked_key] else [])
                  @ (if kr_state r = DISABLED then [pqc_revoked_key] else [])
           in case time_problems r at of
                (ps, None) \<Rightarrow> Inr \<lparr>usable = (p0 @ ps = []), problems = p0 @ ps\<rparr>
              | (ps, Some e) \<Rightarrow>
                  if e = KeyRegistryError
                  then Inr \<lparr>usable = False, problems = p0 @ ps @ [pqc_malformed_evidence]\<rparr>
                  else Inl e))"

section \<open>Import and export\<close>

fun to_dicts :: "digest \<Rightarrow> KeyRecord list \<Rightarrow> pyval list res" where
  "to_dicts sha3 [] = Inr []"
| "to_dicts sha3 (r # rs) =
     rbind (record_to_dict sha3 r) (\<lambda>d. rbind (to_dicts sha3 rs) (\<lambda>ds. Inr (PyDict d # ds)))"

definition export_public :: "digest \<Rightarrow> pystr \<Rightarrow> registry \<Rightarrow> pydict res" where
  "export_public sha3 now reg =
     rbind (to_dicts sha3 (sorted_records reg)) (\<lambda>ds. Inr
       [(KStr (lit ''format_version''), PyStr REGISTRY_FORMAT_VERSION),
        (KStr (lit ''exported_at''), PyStr now),
        (KStr (lit ''keys''), PyList ds)])"

text \<open>The document that \<^verbatim>\<open>save\<close> writes.\<close>

definition save_document :: "digest \<Rightarrow> pystr \<Rightarrow> registry \<Rightarrow> pydict res" where
  "save_document sha3 now reg =
     rbind (to_dicts sha3 (sorted_records reg)) (\<lambda>ds. Inr
       [(KStr (lit ''format_version''), PyStr REGISTRY_FORMAT_VERSION),
        (KStr (lit ''updated_at''), PyStr now),
        (KStr (lit ''keys''), PyList ds)])"

fun import_entries :: "bool \<Rightarrow> pyval list \<Rightarrow> pystr list \<Rightarrow> registry \<Rightarrow> pystr list res \<times> registry" where
  "import_entries overwrite [] added reg = (Inr added, reg)"
| "import_entries overwrite (v # vs) added reg =
     (case from_dict v of
        Inl e \<Rightarrow> (Inl e, reg)
      | Inr r \<Rightarrow>
          if map_of reg (kr_key_id r) \<noteq> None \<and> \<not> overwrite
          then import_entries overwrite vs added reg
          else
            (let reg1 = (if map_of reg (kr_key_id r) \<noteq> None then adict_del reg (kr_key_id r) else reg)
             in case reg_insert reg1 r of
                  Inl e \<Rightarrow> (Inl e, reg1)
                | Inr reg2 \<Rightarrow> import_entries overwrite vs (added @ [kr_key_id r]) reg2))"

definition import_public :: "pyval \<Rightarrow> bool \<Rightarrow> registry \<Rightarrow> pystr list res \<times> registry" where
  "import_public document overwrite reg =
     (case document of
        PyDict d \<Rightarrow>
          if get_or d (lit ''format_version'') PyNone \<noteq> PyStr REGISTRY_FORMAT_VERSION
          then (Inl KeyRegistryError, reg)
          else
            (case get_or d (lit ''keys'') PyNone of
               PyList entries \<Rightarrow> import_entries overwrite entries [] reg
             | _ \<Rightarrow> (Inl KeyRegistryError, reg))
      | _ \<Rightarrow> (Inl KeyRegistryError, reg))"

text \<open>
  \<^verbatim>\<open>load_public_key_file\<close> on the bytes of the file: base64 text if it reads as that, the
  raw bytes otherwise.
\<close>

definition byte_space :: "byte \<Rightarrow> bool" where
  "byte_space b \<longleftrightarrow> unat b \<in> {9, 10, 11, 12, 13, 32}"

definition bytes_strip :: "bytes \<Rightarrow> bytes" where
  "bytes_strip b = rev (dropWhile byte_space (rev (dropWhile byte_space b)))"

definition load_public_key_file :: "bytes option \<Rightarrow> bytes res" where
  "load_public_key_file content =
     (case content of
        None \<Rightarrow> Inl malformed
      | Some data \<Rightarrow>
          require (data \<noteq> []) malformed
            (if list_all (\<lambda>b. unat b < 128) (bytes_strip data)
             then (case b64decode (map unat (bytes_strip data)) of Inl _ \<Rightarrow> Inr data | Inr k \<Rightarrow> Inr k)
             else Inr data))"

section \<open>The invariant\<close>

definition wf_record :: "KeyRecord \<Rightarrow> bool" where
  "wf_record r \<longleftrightarrow>
     kr_key_id r \<noteq> [] \<and> length (kr_key_id r) \<le> MAX_NODE_ID_LENGTH \<and>
     kr_node_id r \<noteq> [] \<and> length (kr_node_id r) \<le> MAX_NODE_ID_LENGTH \<and>
     kr_algorithm r \<in> set SUPPORTED_SIGNATURE_ALGORITHMS \<and>
     is_ok (b64decode (kr_public_key r)) \<and>
     is_ok (parse_time (PyStr (created_at r))) \<and> is_ok (parse_time (PyStr (activated_at r))) \<and>
     (case expires_at r of None \<Rightarrow> True | Some x \<Rightarrow> is_ok (parse_time (PyStr x)))"

definition reg_inv :: "registry \<Rightarrow> bool" where
  "reg_inv reg \<longleftrightarrow>
     distinct (map fst reg) \<and> distinct (map (kr_public_key \<circ> snd) reg) \<and>
     (\<forall>(k, r)\<in>set reg. k = kr_key_id r \<and> wf_record r)"

lemma wf_record_update [simp]:
  "wf_record (r\<lparr>kr_state := st\<rparr>) = wf_record r"
  "wf_record (r\<lparr>revocation_reason := v\<rparr>) = wf_record r"
  "wf_record (r\<lparr>revoked_at := v\<rparr>) = wf_record r"
  by (simp_all add: wf_record_def)

lemma id_field_Inr:
  "id_field d k = Inr s \<longleftrightarrow> dict_get d k = Some (PyStr s) \<and> s \<noteq> [] \<and> length s \<le> MAX_NODE_ID_LENGTH"
  by (auto simp: id_field_def res_iff dict_item_Inr)

lemma algorithm_field_Inr:
  "algorithm_field v = Inr s \<longleftrightarrow> v = PyStr s \<and> s \<in> set SUPPORTED_SIGNATURE_ALGORITHMS"
  by (auto simp: algorithm_field_def require_Inr_iff split: pyval.splits)

lemma key_field_Inr: "key_field v = Inr s \<longleftrightarrow> v = PyStr s \<and> is_ok (b64decode s)"
  by (auto simp: key_field_def is_ok_iff split: pyval.splits sum.splits)

lemma time_field_Inr: "time_field v = Inr s \<longleftrightarrow> v = PyStr s \<and> is_ok (parse_time v)"
  by (auto simp: time_field_def rbind_Inr_iff is_ok_iff split: pyval.splits)

lemma expiry_field_Inr:
  "expiry_field v = Inr x \<longleftrightarrow>
   (x = None \<and> v = PyNone \<or> (\<exists>s. x = Some s \<and> v = PyStr s \<and> is_ok (parse_time v)))"
  by (auto simp: expiry_field_def rbind_Inr_iff time_field_Inr)

lemmas field_Inr = id_field_Inr algorithm_field_Inr key_field_Inr time_field_Inr expiry_field_Inr

lemma from_dict_wf: "from_dict v = Inr r \<Longrightarrow> wf_record r"
proof (cases v)
  case (PyDict d)
  assume r: "from_dict v = Inr r"
  then show ?thesis
    using PyDict
    by (auto simp: from_dict_def res_iff field_Inr Let_def wf_record_def simp del: lit_simps)
qed (simp_all add: from_dict_def)

lemma key_state_value [simp]: "key_state (PyStr (state_value st)) = Some st"
  by (cases st) (simp_all add: key_state_def)

lemma dict_item_get: "dict_get d k = Some v \<Longrightarrow> dict_item d k = Inr v"
  by (simp add: dict_item_def)

lemma to_dict_fields:
  assumes "record_to_dict sha3 r = Inr d"
  shows "list_all (dict_has d) REQUIRED_KEY_FIELDS"
    "dict_get d (lit ''key_id'') = Some (PyStr (kr_key_id r))"
    "dict_get d (lit ''node_id'') = Some (PyStr (kr_node_id r))"
    "dict_get d (lit ''algorithm'') = Some (PyStr (kr_algorithm r))"
    "dict_get d (lit ''public_key'') = Some (PyStr (kr_public_key r))"
    "dict_get d (lit ''created_at'') = Some (PyStr (created_at r))"
    "dict_get d (lit ''activated_at'') = Some (PyStr (activated_at r))"
    "get_or d (lit ''expires_at'') PyNone = opt_str (expires_at r)"
    "get_or d (lit ''state'') x = PyStr (state_value (kr_state r))"
    "get_or d (lit ''revocation_reason'') PyNone = revocation_reason r"
    "get_or d (lit ''revoked_at'') PyNone = revoked_at r"
    "get_or d (lit ''metadata'') PyNone = PyDict (metadata r)"
  using assms
  by (auto simp: record_to_dict_def rbind_Inr_iff get_or_def dict_has_def dict_keys_def
      REQUIRED_KEY_FIELDS_def)

lemma metadata_default:
  "(if truthy (PyDict m) then PyDict m else PyDict []) = PyDict m"
  by (simp add: truthy_def)

lemma from_dict_to_dict:
  assumes "wf_record r" "record_to_dict sha3 r = Inr d"
  shows "from_dict (PyDict d) = Inr r"
proof -
  note d = to_dict_fields [OF assms(2)]
  have ids: "id_field d (lit ''key_id'') = Inr (kr_key_id r)" "id_field d (lit ''node_id'') = Inr (kr_node_id r)"
    "algorithm_field (PyStr (kr_algorithm r)) = Inr (kr_algorithm r)"
    "key_field (PyStr (kr_public_key r)) = Inr (kr_public_key r)"
    "time_field (PyStr (created_at r)) = Inr (created_at r)"
    "time_field (PyStr (activated_at r)) = Inr (activated_at r)"
    "expiry_field (opt_str (expires_at r)) = Inr (expires_at r)"
    using assms(1) d(2,3)
    by (auto simp: field_Inr wf_record_def opt_str_def simp del: lit_simps split: option.splits)
  show ?thesis
    unfolding from_dict_def pyval.case
    by (simp only: d dict_item_get ids metadata_default Let_def key_state_value option.case pyval.case
        rbind_simps require_simps) simp
qed

lemma from_dict_same:
  assumes "record_to_dict sha3 r = Inr d" "from_dict (PyDict d) = Inr r'"
  shows "r' = r"
proof -
  note d = to_dict_fields [OF assms(1)]
  have "expiry_field (opt_str x) = Inr y \<Longrightarrow> y = x" for x y
    by (auto simp: expiry_field_Inr opt_str_def split: option.splits)
  then show ?thesis
    using assms(2) unfolding from_dict_def pyval.case Let_def d(12) metadata_default
    by (clarsimp simp: res_iff field_Inr(1-4) dict_item_Inr d(1-11) simp del: lit_simps)
qed

lemma adict_set_same:
  "map_of d k = Some v' \<Longrightarrow> f v' = f v \<Longrightarrow> map (f \<circ> snd) (adict_set d k v) = map (f \<circ> snd) d"
  by (induction d k v rule: adict_set.induct) (auto split: if_splits)

lemma set_adict_set: "set (adict_set d k v) \<subseteq> insert (k, v) (set d)"
  by (induction d k v rule: adict_set.induct) auto

lemma reg_inv_get: "\<lbrakk>reg_inv reg; map_of reg k = Some r\<rbrakk> \<Longrightarrow> kr_key_id r = k \<and> wf_record r"
  by (auto simp: reg_inv_def dest!: map_of_SomeD)

lemma reg_inv_update [inv_intros]:
  assumes "reg_inv reg" "map_of reg k = Some r" "kr_public_key r' = kr_public_key r"
    "kr_key_id r' = kr_key_id r" "wf_record r'"
  shows "reg_inv (adict_set reg k r')"
proof -
  have "map (kr_public_key \<circ> snd) (adict_set reg k r') = map (kr_public_key \<circ> snd) reg"
    by (rule adict_set_same [OF assms(2)]) (simp add: assms(3))
  then show ?thesis
    using assms reg_inv_get [OF assms(1,2)] set_adict_set [of reg k r']
    by (auto simp: reg_inv_def)
qed

lemma reg_inv_insert [inv_intros]:
  assumes "reg_inv reg" "wf_record r" "reg_insert reg r = Inr reg'"
  shows "reg_inv reg'"
proof -
  have f: "map_of reg (kr_key_id r) = None" "\<forall>(k, other)\<in>set reg. kr_public_key other \<noteq> kr_public_key r"
    "reg' = reg @ [(kr_key_id r, r)]"
    using assms(3) by (auto simp: reg_insert_def require_Inr_iff list_all_iff map_of_eq_None_iff
        adict_set_fresh)
  then show ?thesis
    using assms(1,2) by (auto simp: reg_inv_def map_of_eq_None_iff)
qed

lemma reg_inv_init: "\<lbrakk>reg_inv reg; \<forall>r\<in>set rs. wf_record r; reg_init reg rs = Inr reg'\<rbrakk> \<Longrightarrow> reg_inv reg'"
  by (induction rs arbitrary: reg) (auto simp: rbind_Inr_iff intro: reg_inv_insert)

lemma from_dicts_wf: "from_dicts vs = Inr rs \<Longrightarrow> \<forall>r\<in>set rs. wf_record r"
  by (induction vs arbitrary: rs) (auto simp: rbind_Inr_iff from_dict_wf)

lemma reg_inv_Nil [simp]: "reg_inv []"
  by (simp add: reg_inv_def)

lemma reg_inv_load: "reg_load content = Inr reg \<Longrightarrow> reg_inv reg"
proof -
  have "load_document v = Inr reg \<Longrightarrow> reg_inv reg" for v
    by (auto simp: load_document_def res_iff simp del: lit_simps
        intro: reg_inv_init [OF reg_inv_Nil from_dicts_wf])
  then show "reg_load content = Inr reg \<Longrightarrow> reg_inv reg"
    by (auto simp: reg_load_def res_iff split: option.splits)
qed

lemma new_record_wf:
  "new_record sha3 now kid nid pk alg act expi meta act' = Inr r \<Longrightarrow>
   wf_record r \<and> kr_key_id r = kid \<and> kr_node_id r = nid \<and> kr_public_key r = b64encode pk
   \<and> kr_state r = (if act' then ACTIVE else DISABLED)"
  by (auto simp: new_record_def res_iff dest: from_dict_same from_dict_wf)

lemma for_node_set: "set (for_node reg nid) = {r. r \<in> snd ` set reg \<and> kr_node_id r = nid}"
  by (auto simp: for_node_def)

lemma active_key_Some:
  assumes "reg_inv reg" "active_key reg nid = Some r"
  shows "map_of reg (kr_key_id r) = Some r" "kr_node_id r = nid" "kr_state r = ACTIVE"
proof -
  have "r \<in> set (for_node reg nid)" and st: "kr_state r = ACTIVE"
    using assms(2) by (auto simp: active_key_def find_Some_iff)
  then obtain k where k: "(k, r) \<in> set reg" "kr_node_id r = nid" by (auto simp: for_node_set)
  with assms(1) show "map_of reg (kr_key_id r) = Some r" by (auto simp: reg_inv_def)
  show "kr_node_id r = nid" "kr_state r = ACTIVE" using k st by simp_all
qed

lemma active_key_None:
  "active_key reg nid = None \<longleftrightarrow> (\<forall>r\<in>snd ` set reg. kr_node_id r = nid \<longrightarrow> kr_state r \<noteq> ACTIVE)"
  by (auto simp: active_key_def find_None_iff for_node_set)

lemma set_state_inv [inv_intros]:
  "\<lbrakk>reg_inv reg; map_of reg (kr_key_id r) = Some r\<rbrakk> \<Longrightarrow> reg_inv (set_state reg r st)"
  unfolding set_state_def by (rule reg_inv_update) (auto dest: reg_inv_get)

lemma rotated_inv [inv_intros]: "reg_inv reg \<Longrightarrow> reg_inv (rotated reg nid ma)"
  by (auto simp: rotated_def split: option.split intro: set_state_inv dest: active_key_Some)

lemma register_inv [inv_intros]:
  "reg_inv reg \<Longrightarrow> reg_inv (snd (register sha3 now kid nid pk alg act expi meta ma reg))"
  by (auto simp: register_def split: sum.split dest: new_record_wf intro: rotated_inv reg_inv_insert)

lemma reg_require_Inr: "reg_require reg kid = Inr r \<longleftrightarrow> map_of reg kid = Some r"
  by (simp add: reg_require_def split: option.split)

lemma revoke_inv [inv_intros]: "reg_inv reg \<Longrightarrow> reg_inv (snd (revoke now kid rs reg))"
  by (auto simp: revoke_def Let_def reg_require_Inr split: sum.split
      intro!: reg_inv_update dest: reg_inv_get)

lemma disable_inv [inv_intros]: "reg_inv reg \<Longrightarrow> reg_inv (snd (disable kid reg))"
  by (auto simp: disable_def reg_require_Inr split: sum.split intro!: set_state_inv dest: reg_inv_get)

lemma rotate_inv [inv_intros]:
  "reg_inv reg \<Longrightarrow> reg_inv (snd (reg_rotate sha3 now nid kid pk alg act expi meta reg))"
  by (simp add: reg_rotate_def register_inv)

lemma adict_del_inv: "reg_inv reg \<Longrightarrow> reg_inv (adict_del reg k)"
  by (auto simp: reg_inv_def adict_del_def distinct_map_filter)

lemma import_entries_inv: "reg_inv reg \<Longrightarrow> reg_inv (snd (import_entries ow vs added reg))"
proof (induction vs arbitrary: reg added)
  case (Cons v vs)
  show ?case
  proof (cases "from_dict v")
    case (Inr r)
    let ?reg1 = "if map_of reg (kr_key_id r) \<noteq> None then adict_del reg (kr_key_id r) else reg"
    have "reg_inv ?reg1" using Cons.prems by (simp add: adict_del_inv)
    then show ?thesis
      using Cons Inr from_dict_wf [OF Inr]
      by (cases "reg_insert ?reg1 r") (auto simp: Let_def dest: reg_inv_insert)
  qed (use Cons in simp)
qed simp

lemma import_inv [inv_intros]: "reg_inv reg \<Longrightarrow> reg_inv (snd (import_public doc ow reg))"
  by (auto simp: import_public_def import_entries_inv simp del: lit_simps split: pyval.split)

section \<open>The registry as a machine\<close>

datatype reg_op =
    Register pystr pystr pystr bytes pystr "pystr option" "pystr option" pydict bool
  | Revoke pystr pystr pystr
  | Disable pystr
  | Rotate pystr pystr pystr bytes pystr "pystr option" "pystr option" pydict
  | Import pyval

definition outcome :: "'a res \<times> registry \<Rightarrow> exn option \<times> registry" where
  "outcome x = (case fst x of Inl e \<Rightarrow> Some e | Inr _ \<Rightarrow> None, snd x)"

lemma snd_outcome [simp]: "snd (outcome x) = snd x"
  by (simp add: outcome_def)

text \<open>One call on the registry; \<open>ow\<close> is the \<^verbatim>\<open>overwrite\<close> flag its imports use.\<close>

fun reg_step :: "digest \<Rightarrow> bool \<Rightarrow> registry \<Rightarrow> reg_op \<Rightarrow> exn option \<times> registry" where
  "reg_step sha3 ow reg (Register now kid nid pk alg act expi meta ma) =
     outcome (register sha3 now kid nid pk alg act expi meta ma reg)"
| "reg_step sha3 ow reg (Revoke now kid rs) = outcome (revoke now kid rs reg)"
| "reg_step sha3 ow reg (Disable kid) = outcome (disable kid reg)"
| "reg_step sha3 ow reg (Rotate now nid kid pk alg act expi meta) =
     outcome (reg_rotate sha3 now nid kid pk alg act expi meta reg)"
| "reg_step sha3 ow reg (Import doc) = outcome (import_public doc ow reg)"

interpretation registry: guarded_machine "reg_step sha3 ow" reg_inv "\<lambda>_. True" for sha3 ow
proof unfold_locales
  fix reg i assume "reg_inv reg"
  then show "reg_inv (snd (reg_step sha3 ow reg i))"
    by (cases i) (simp_all add: register_inv revoke_inv disable_inv rotate_inv import_inv)
qed

text \<open>A key that has been revoked or disabled stays so, unless an import overwrites it.\<close>

definition withdrawn :: "registry \<Rightarrow> pystr \<Rightarrow> bool" where
  "withdrawn reg kid \<longleftrightarrow> (\<exists>r. map_of reg kid = Some r \<and> kr_state r \<in> {REVOKED, DISABLED})"

lemma withdrawn_insert: "\<lbrakk>withdrawn reg kid; reg_insert reg r = Inr reg'\<rbrakk> \<Longrightarrow> withdrawn reg' kid"
  by (auto simp: withdrawn_def reg_insert_def require_Inr_iff)

lemma withdrawn_rotated: "\<lbrakk>reg_inv reg; withdrawn reg kid\<rbrakk> \<Longrightarrow> withdrawn (rotated reg nid ma) kid"
proof (cases "ma \<and> (\<exists>p. active_key reg nid = Some p)")
  case True
  assume r: "reg_inv reg" "withdrawn reg kid"
  from True obtain p where p: "active_key reg nid = Some p" "ma" by blast
  note a = active_key_Some [OF r(1) p(1)]
  have "kr_key_id p \<noteq> kid" using a r(2) by (auto simp: withdrawn_def)
  then show ?thesis using p r(2) by (simp add: rotated_def set_state_def withdrawn_def)
qed (auto simp: rotated_def split: option.split)

lemma withdrawn_register:
  "\<lbrakk>reg_inv reg; withdrawn reg kid\<rbrakk> \<Longrightarrow>
   withdrawn (snd (register sha3 now kid' nid pk alg act expi meta ma reg)) kid"
  by (auto simp: register_def split: sum.split intro: withdrawn_rotated withdrawn_insert)

lemma withdrawn_import:
  "withdrawn reg kid \<Longrightarrow> withdrawn (snd (import_entries False vs added reg)) kid"
  by (induction vs arbitrary: reg added)
    (auto simp: Let_def split: sum.split intro: withdrawn_insert)

interpretation withdrawn_key: guarded_machine "reg_step sha3 False"
  "\<lambda>reg. reg_inv reg \<and> withdrawn reg kid" "\<lambda>_. True" for sha3 kid
proof unfold_locales
  fix reg i assume r: "reg_inv reg \<and> withdrawn reg kid"
  have "withdrawn (snd (reg_step sha3 False reg i)) kid"
  proof (cases i)
    case (Import doc)
    then show ?thesis
      using r withdrawn_import by (auto simp: import_public_def simp del: lit_simps split: pyval.split)
  next
    case (Revoke now k rs)
    then show ?thesis
      using r by (auto simp: revoke_def Let_def reg_require_Inr withdrawn_def split: sum.split)
  next
    case (Disable k)
    then show ?thesis
      using r reg_inv_get [of reg k]
      by (auto simp: disable_def reg_require_Inr withdrawn_def set_state_def split: sum.split)
  qed (use r in \<open>simp_all add: withdrawn_register reg_rotate_def\<close>)
  with r registry.step_inv show "reg_inv (snd (reg_step sha3 False reg i))
      \<and> withdrawn (snd (reg_step sha3 False reg i)) kid" by blast
qed

section \<open>Properties\<close>



lemma expiry_problems_nil:
  "expiry_problems r t = ([], None) \<longleftrightarrow>
   (\<forall>x. expires_at r = Some x \<longrightarrow> (\<exists>e. parse_time (PyStr x) = Inr e \<and> t \<le> e))"
  by (auto simp: expiry_problems_def split: option.splits sum.splits)

lemma time_problems_nil:
  "time_problems r at = ([], None) \<longleftrightarrow>
   (\<exists>t a. parse_time (PyStr at) = Inr t \<and> parse_time (PyStr (activated_at r)) = Inr a \<and> a \<le> t
      \<and> expiry_problems r t = ([], None) \<and> kr_state r \<noteq> EXPIRED)"
  by (auto simp: time_problems_def Let_def split: sum.splits prod.splits option.splits if_splits)

text \<open>
  \<^bold>\<open>C24\<close>. What the usability check means: when it answers, the key is usable if and only if
  it is registered, belongs to the node, has the claimed algorithm, is active or rotated (not
  revoked, disabled or marked expired), and the event time lies between activation and expiry.
\<close>

theorem check_usable_iff:
  assumes "check_usable reg kid nid at alg = Inr u"
  shows "usable u \<longleftrightarrow>
    (\<exists>r t a. map_of reg kid = Some r \<and> kr_node_id r = nid \<and> kr_algorithm r = alg
       \<and> kr_state r \<in> {ACTIVE, ROTATED}
       \<and> parse_time (PyStr at) = Inr t \<and> parse_time (PyStr (activated_at r)) = Inr a \<and> a \<le> t
       \<and> (\<forall>x. expires_at r = Some x \<longrightarrow> (\<exists>e. parse_time (PyStr x) = Inr e \<and> t \<le> e)))"
proof (cases "map_of reg kid")
  case None
  with assms show ?thesis by (auto simp: check_usable_def)
next
  case (Some r)
  have "usable u \<longleftrightarrow> kr_node_id r = nid \<and> kr_algorithm r = alg \<and> kr_state r \<noteq> REVOKED
      \<and> kr_state r \<noteq> DISABLED \<and> time_problems r at = ([], None)"
    using assms Some by (cases "time_problems r at")
      (auto simp: check_usable_def Let_def split: option.splits if_splits)
  moreover have "kr_state r \<in> {ACTIVE, ROTATED} \<longleftrightarrow>
      kr_state r \<noteq> REVOKED \<and> kr_state r \<noteq> DISABLED \<and> kr_state r \<noteq> EXPIRED"
    by (cases "kr_state r") simp_all
  ultimately show ?thesis
    using Some by (auto simp: time_problems_nil expiry_problems_nil)
qed

text \<open>
  Withdrawal is final: a key that is revoked or disabled is reported unusable after
  any further sequence of calls in which imports do not overwrite, for every node, time and
  algorithm.
\<close>

theorem withdrawn_never_usable:
  assumes "reg_inv reg" "withdrawn reg kid"
    and "check_usable (foldl (\<lambda>s i. snd (reg_step sha3 False s i)) reg ops) kid nid at alg = Inr u"
  shows "\<not> usable u"
proof -
  have "withdrawn (foldl (\<lambda>s i. snd (reg_step sha3 False s i)) reg ops) kid"
    using withdrawn_key.foldl_inv assms(1,2) by (simp add: list_all_iff)
  with assms(3) show ?thesis
    by (auto simp: withdrawn_def check_usable_def Let_def split: prod.splits option.splits if_splits)
qed

section \<open>Registration\<close>

definition single_active :: "registry \<Rightarrow> bool" where
  "single_active reg \<longleftrightarrow>
     (\<forall>r\<in>snd ` set reg. \<forall>r'\<in>snd ` set reg.
        kr_state r = ACTIVE \<longrightarrow> kr_state r' = ACTIVE \<longrightarrow> kr_node_id r = kr_node_id r' \<longrightarrow> r = r')"

lemma snd_adict_set:
  assumes "distinct (map fst d)" "map_of d k = Some v'"
  shows "snd ` set (adict_set d k v) = insert v (snd ` set (adict_del d k))"
  using assms
proof (induction d k v rule: adict_set.induct)
  case (2 k' w d k v)
  then show ?case
    by (cases "k' = k") (force simp: adict_del_def image_iff filter_id_conv)+
qed simp

lemma rotated_no_active:
  assumes "reg_inv reg" "single_active reg"
  shows "active_key (rotated reg nid True) nid = None"
    and "single_active (rotated reg nid True)"
proof -
  have "active_key (rotated reg nid True) nid = None \<and> single_active (rotated reg nid True)"
  proof (cases "active_key reg nid")
    case None
    then show ?thesis using assms by (simp add: rotated_def)
  next
    case (Some p)
    note p = active_key_Some [OF assms(1) Some]
    have img: "snd ` set (rotated reg nid True)
        = insert (p\<lparr>kr_state := ROTATED\<rparr>) (snd ` set (adict_del reg (kr_key_id p)))"
      using snd_adict_set [OF _ p(1)] assms(1) Some by (simp add: rotated_def set_state_def reg_inv_def)
    have del: "r \<in> snd ` set reg \<and> r \<noteq> p" if "r \<in> snd ` set (adict_del reg (kr_key_id p))" for r
      using that assms(1) p(1) by (auto simp: adict_del_def reg_inv_def)
    have "p \<in> snd ` set reg" using p(1) by (force dest: map_of_SomeD)
    then have only: "kr_state r \<noteq> ACTIVE" if "r \<in> snd ` set reg" "r \<noteq> p" "kr_node_id r = nid" for r
      using that assms(2) p(2,3) unfolding single_active_def by metis
    have "\<forall>r\<in>snd ` set (rotated reg nid True). kr_node_id r = nid \<longrightarrow> kr_state r \<noteq> ACTIVE"
      unfolding img using del only by fastforce
    moreover have "r \<in> snd ` set reg" if "r \<in> snd ` set (rotated reg nid True)" "kr_state r = ACTIVE" for r
      using that del unfolding img by fastforce
    then have "single_active (rotated reg nid True)"
      using assms(2) unfolding single_active_def by metis
    ultimately show ?thesis by (simp add: active_key_None)
  qed
  then show "active_key (rotated reg nid True) nid = None" "single_active (rotated reg nid True)"
    by simp_all
qed

lemma active_key_unique:
  assumes "single_active reg" "r \<in> snd ` set reg" "kr_state r = ACTIVE" "kr_node_id r = nid"
  shows "active_key reg nid = Some r"
proof -
  have "active_key reg nid \<noteq> None" using assms by (auto simp: active_key_None)
  then obtain p where p: "active_key reg nid = Some p" by blast
  then have "p \<in> snd ` set reg" "kr_node_id p = nid" "kr_state p = ACTIVE"
    by (auto simp: active_key_def find_Some_iff for_node_set dest!: nth_mem)
  then show ?thesis using assms p by (metis single_active_def)
qed

text \<open>
  Registering an active key: on success the new record is the node's active key and
  the only one, the key that was active before is still there as rotated, and every other
  record is unchanged.
\<close>

theorem register_activates:
  assumes "reg_inv reg" "single_active reg"
    and "register sha3 now kid nid pk alg act expi meta True reg = (Inr r, reg')"
  shows "single_active reg' \<and> active_key reg' nid = Some r \<and> map_of reg' kid = Some r
    \<and> (\<forall>p. active_key reg nid = Some p \<longrightarrow> map_of reg' (kr_key_id p) = Some (p\<lparr>kr_state := ROTATED\<rparr>))
    \<and> (\<forall>k p. map_of reg k = Some p \<longrightarrow> active_key reg nid \<noteq> Some p \<longrightarrow> map_of reg' k = Some p)"
proof -
  let ?r1 = "rotated reg nid True"
  have n: "kr_key_id r = kid" "kr_node_id r = nid" "kr_state r = ACTIVE"
    and ins: "reg_insert ?r1 r = Inr reg'"
    using assms(3) new_record_wf [of sha3 now kid nid pk alg act expi meta True]
    by (auto simp: register_def split: sum.splits)
  have reg': "reg' = ?r1 @ [(kid, r)]" "map_of ?r1 kid = None"
    using ins n(1) by (auto simp: reg_insert_def require_Inr_iff adict_set_fresh map_of_eq_None_iff)
  have sa: "single_active reg'"
    using rotated_no_active [OF assms(1,2), of nid] n
    by (auto simp: reg' single_active_def active_key_None)
  have "map_of reg' k = map_of ?r1 k" if "map_of ?r1 k \<noteq> None" for k
    using that by (auto simp: reg')
  moreover have "map_of ?r1 k = (case active_key reg nid of
      Some p \<Rightarrow> if k = kr_key_id p then Some (p\<lparr>kr_state := ROTATED\<rparr>) else map_of reg k
    | None \<Rightarrow> map_of reg k)" for k
    by (auto simp: rotated_def set_state_def split: option.split)
  moreover have "active_key reg nid = Some p" if "active_key reg nid = Some q"
      "map_of reg (kr_key_id q) = Some p" for p q
    using that active_key_Some(1) [OF assms(1) that(1)] by simp
  ultimately have rest: "\<forall>p. active_key reg nid = Some p \<longrightarrow> map_of reg' (kr_key_id p) = Some (p\<lparr>kr_state := ROTATED\<rparr>)"
    "\<forall>k p. map_of reg k = Some p \<longrightarrow> active_key reg nid \<noteq> Some p \<longrightarrow> map_of reg' k = Some p"
    by (auto split: option.splits if_splits)
  have "active_key reg' nid = Some r"
    using sa n by (intro active_key_unique) (simp_all add: reg')
  moreover have "map_of reg' kid = Some r" using reg' by (simp add: map_add_def)
  ultimately show ?thesis using sa rest by blast
qed

text \<open>
  A refused registration is not without effect: when the new record itself is valid
  but its identifier or public key is already taken, \<^verbatim>\<open>register\<close> raises after it has
  marked the node's active key as rotated, and the node is left without an active key.
\<close>

theorem refused_register_loses_active_key:
  assumes "reg_inv reg" "single_active reg"
    and "is_ok (new_record sha3 now kid nid pk alg act expi meta True)"
    and "register sha3 now kid nid pk alg act expi meta True reg = (Inl e, reg')"
  shows "active_key reg' nid = None"
  using assms rotated_no_active(1) [OF assms(1,2), of nid]
  by (auto simp: register_def split: sum.splits)

section \<open>Export and load\<close>

lemma to_dicts_from_dicts:
  "\<forall>r\<in>set rs. wf_record r \<Longrightarrow> \<exists>ds. to_dicts sha3 rs = Inr ds \<and> from_dicts ds = Inr rs"
proof (induction rs)
  case (Cons r rs)
  then obtain ds where ds: "to_dicts sha3 rs = Inr ds" "from_dicts ds = Inr rs" by auto
  have w: "wf_record r" using Cons.prems by simp
  then have "\<exists>pk. public_key_bytes r = Inr pk"
    by (auto simp: wf_record_def public_key_bytes_def is_ok_iff)
  then obtain d where d: "record_to_dict sha3 r = Inr d" by (auto simp: record_to_dict_def)
  show ?case using ds d from_dict_to_dict [OF w d] by simp
qed simp

lemma reg_init_distinct:
  "\<lbrakk>distinct (map kr_key_id rs); distinct (map kr_public_key rs);
    \<forall>r\<in>set rs. kr_key_id r \<notin> fst ` set reg \<and> kr_public_key r \<notin> (kr_public_key \<circ> snd) ` set reg\<rbrakk>
   \<Longrightarrow> reg_init reg rs = Inr (reg @ map (\<lambda>r. (kr_key_id r, r)) rs)"
proof (induction rs arbitrary: reg)
  case (Cons r rs)
  have "reg_insert reg r = Inr (reg @ [(kr_key_id r, r)])"
    using Cons.prems(3)
    by (force simp: reg_insert_def require_def list_all_iff adict_set_fresh map_of_eq_None_iff)
  moreover have "reg_init (reg @ [(kr_key_id r, r)]) rs
      = Inr ((reg @ [(kr_key_id r, r)]) @ map (\<lambda>r. (kr_key_id r, r)) rs)"
    using Cons.prems by (intro Cons.IH) (auto simp: image_iff dest: sym)
  ultimately show ?case by simp
qed simp

lemma load_export:
  assumes "reg_inv reg" "to_dicts sha3 (sorted_records reg) = Inr ds"
  shows "\<exists>reg'. rbind (from_dicts ds) (reg_init []) = Inr reg' \<and> map_of reg' = map_of reg
    \<and> map snd reg' = sorted_records reg"
proof -
  let ?rs = "sorted_records reg"
  let ?reg' = "map (\<lambda>r. (kr_key_id r, r)) ?rs"
  have set: "set ?rs = snd ` set reg" by (simp add: sorted_records_def)
  have keys: "\<forall>(k, r)\<in>set reg. k = kr_key_id r \<and> wf_record r" using assms(1) by (simp add: reg_inv_def)
  then have "from_dicts ds = Inr ?rs"
    using to_dicts_from_dicts [of ?rs sha3] assms(2) set by fastforce
  moreover have m: "mset (map kr_key_id ?rs) = mset (map fst reg)"
    "mset (map kr_public_key ?rs) = mset (map (kr_public_key \<circ> snd) reg)"
  proof -
    have f: "mset (map f ?rs) = mset (map (f \<circ> snd) reg)" for f :: "KeyRecord \<Rightarrow> pystr"
    proof -
      have "mset (map f ?rs) = image_mset f (mset (map snd reg))"
        unfolding sorted_records_def mset_map mset_sort ..
      then show ?thesis by (metis map_map mset_map)
    qed
    have "map (kr_key_id \<circ> snd) reg = map fst reg" using keys by auto
    with f [of kr_key_id] show "mset (map kr_key_id ?rs) = mset (map fst reg)" by simp
    show "mset (map kr_public_key ?rs) = mset (map (kr_public_key \<circ> snd) reg)" by (rule f)
  qed
  then have d: "distinct (map kr_key_id ?rs)" "distinct (map kr_public_key ?rs)"
    using assms(1) m [THEN mset_eq_imp_distinct_iff] by (auto simp: reg_inv_def)
  then have "reg_init [] ?rs = Inr ?reg'" using reg_init_distinct [of ?rs "[]"] by simp
  moreover have "map_of ?reg' = map_of reg"
  proof -
    have "\<forall>x\<in>set reg. (kr_key_id (snd x), snd x) = x" using keys by auto
    then have "(\<lambda>x. (kr_key_id (snd x), snd x)) ` set reg = set reg"
      by (metis (no_types, lifting) image_cong image_ident)
    then have "set ?reg' = set reg" by (simp add: set image_image)
    then show ?thesis using d(1) assms(1) by (simp add: map_of_inject_set comp_def reg_inv_def)
  qed
  ultimately show ?thesis by (auto simp: comp_def)
qed

text \<open>
  Export and load are inverse: the exported document of any valid registry loads, and
  the loaded registry has the same record under every identifier, in the sorted order.
\<close>

theorem registry_export_roundtrip:
  assumes "reg_inv reg"
  shows "\<exists>d reg'. export_public sha3 now reg = Inr d \<and> load_document (PyDict d) = Inr reg'
    \<and> map_of reg' = map_of reg \<and> map snd reg' = sorted_records reg"
proof -
  have "\<forall>r\<in>set (sorted_records reg). wf_record r"
    using assms by (auto simp: sorted_records_def reg_inv_def)
  then obtain ds where ds: "to_dicts sha3 (sorted_records reg) = Inr ds"
    using to_dicts_from_dicts by blast
  then have "export_public sha3 now reg = Inr
       [(KStr (lit ''format_version''), PyStr REGISTRY_FORMAT_VERSION),
        (KStr (lit ''exported_at''), PyStr now), (KStr (lit ''keys''), PyList ds)]"
    by (simp add: export_public_def)
  moreover have "load_document (PyDict
       [(KStr (lit ''format_version''), PyStr REGISTRY_FORMAT_VERSION),
        (KStr (lit ''exported_at''), PyStr now), (KStr (lit ''keys''), PyList ds)])
      = rbind (from_dicts ds) (reg_init [])"
    by (simp add: load_document_def get_or_def)
  ultimately show ?thesis using load_export [OF assms ds] by auto
qed

section \<open>A concrete registry\<close>

definition sample_key :: KeyRecord where
  "sample_key = \<lparr>kr_key_id = lit ''k1'', kr_node_id = lit ''plc-1'', kr_algorithm = lit ''ML-DSA-65'',
     kr_public_key = lit ''QUJD'', created_at = lit ''2026-01-01T00:00:00.000000Z'',
     activated_at = lit ''2026-01-01T00:00:00.000000Z'', expires_at = None, kr_state = ACTIVE,
     revocation_reason = PyNone, revoked_at = PyNone, metadata = []\<rparr>"

definition sample_reg :: registry where
  "sample_reg = [(lit ''k1'', sample_key)]"

lemma sample_time: "is_ok (parse_time (PyStr (lit ''2026-01-01T00:00:00.000000Z'')))"
  by (simp add: parse_time_def strptime_utc_def time_eval)

lemma sample_reg_inv: "reg_inv sample_reg"
  using sample_time
  by (simp add: reg_inv_def sample_reg_def wf_record_def sample_key_def MAX_NODE_ID_LENGTH_def
      SUPPORTED_SIGNATURE_ALGORITHMS_def b64_val_def)

lemma sample_single_active: "single_active sample_reg"
  by (simp add: single_active_def sample_reg_def)

lemma sample_usable:
  "check_usable sample_reg (lit ''k1'') (lit ''plc-1'') (lit ''2026-08-05T18:15:00.000000Z'')
     (lit ''ML-DSA-65'') = Inr \<lparr>usable = True, problems = []\<rparr>"
proof -
  have "parse_time (PyStr (lit ''2026-08-05T18:15:00.000000Z''))
      = Inr (((2026 * 13 + 8) * 32 + 5) * day_us + 65700000000)"
    "parse_time (PyStr (lit ''2026-01-01T00:00:00.000000Z'')) = Inr (((2026 * 13 + 1) * 32 + 1) * day_us)"
    by (simp_all add: parse_time_def strptime_utc_def time_eval)
  then show ?thesis
    by (simp add: check_usable_def sample_reg_def sample_key_def time_problems_def expiry_problems_def
        day_us_def)
qed

theorem registry_export_roundtrip_witness:
  "\<exists>d reg'. export_public demo_sha3 (lit ''now'') sample_reg = Inr d \<and> load_document (PyDict d) = Inr reg'
    \<and> map_of reg' = map_of sample_reg \<and> map snd reg' = sorted_records sample_reg"
  by (rule registry_export_roundtrip [OF sample_reg_inv])

theorem check_usable_iff_witness:
  "\<exists>r t a. map_of sample_reg (lit ''k1'') = Some r \<and> kr_node_id r = lit ''plc-1''
     \<and> kr_algorithm r = lit ''ML-DSA-65'' \<and> kr_state r \<in> {ACTIVE, ROTATED}
     \<and> parse_time (PyStr (lit ''2026-08-05T18:15:00.000000Z'')) = Inr t
     \<and> parse_time (PyStr (activated_at r)) = Inr a \<and> a \<le> t
     \<and> (\<forall>x. expires_at r = Some x \<longrightarrow> (\<exists>e. parse_time (PyStr x) = Inr e \<and> t \<le> e))"
  using check_usable_iff [OF sample_usable] by simp

theorem withdrawn_never_usable_witness:
  "\<exists>u. check_usable (foldl (\<lambda>s i. snd (reg_step demo_sha3 False s i))
        (snd (disable (lit ''k1'') sample_reg)) [Revoke (lit ''now'') (lit ''k1'') (lit ''lost'')])
        (lit ''k1'') (lit ''plc-1'') (lit ''2026-08-05T18:15:00.000000Z'') (lit ''ML-DSA-65'') = Inr u
     \<and> \<not> usable u"
proof -
  let ?reg = "snd (disable (lit ''k1'') sample_reg)"
  have i: "reg_inv ?reg" by (rule disable_inv [OF sample_reg_inv])
  have w: "withdrawn ?reg (lit ''k1'')"
    by (simp add: withdrawn_def disable_def reg_require_def sample_reg_def set_state_def sample_key_def)
  have "parse_time (PyStr (lit ''2026-08-05T18:15:00.000000Z''))
      = Inr (((2026 * 13 + 8) * 32 + 5) * day_us + 65700000000)"
    "parse_time (PyStr (lit ''2026-01-01T00:00:00.000000Z'')) = Inr (((2026 * 13 + 1) * 32 + 1) * day_us)"
    by (simp_all add: parse_time_def strptime_utc_def time_eval)
  then have "\<exists>u. check_usable (foldl (\<lambda>s i. snd (reg_step demo_sha3 False s i)) ?reg
        [Revoke (lit ''now'') (lit ''k1'') (lit ''lost'')]) (lit ''k1'') (lit ''plc-1'')
        (lit ''2026-08-05T18:15:00.000000Z'') (lit ''ML-DSA-65'') = Inr u"
    by (simp add: check_usable_def disable_def revoke_def reg_require_def set_state_def sample_reg_def
        sample_key_def time_problems_def expiry_problems_def day_us_def strip_def py_space_def Let_def)
  then show ?thesis using withdrawn_never_usable [OF i w] by blast
qed

text \<open>A second key for the same node.\<close>

definition second_key :: KeyRecord where
  "second_key = sample_key\<lparr>kr_key_id := lit ''k2'', kr_public_key := lit ''QUJE''\<rparr>"

lemma second_record:
  assumes "kid \<noteq> []" "length kid \<le> MAX_NODE_ID_LENGTH"
  shows "new_record demo_sha3 (lit ''2026-01-01T00:00:00.000000Z'') kid (lit ''plc-1'') [65, 66, 68]
     (lit ''ML-DSA-65'') None None [] True = Inr (second_key\<lparr>kr_key_id := kid\<rparr>)"
proof -
  let ?r = "second_key\<lparr>kr_key_id := kid\<rparr>"
  have w: "wf_record ?r"
    using assms sample_time
    by (simp add: wf_record_def second_key_def sample_key_def MAX_NODE_ID_LENGTH_def
        SUPPORTED_SIGNATURE_ALGORITHMS_def b64_val_def)
  have "is_ok (b64decode (kr_public_key ?r))" using w by (simp add: wf_record_def)
  then obtain d where d: "record_to_dict demo_sha3 ?r = Inr d"
    by (auto simp: record_to_dict_def public_key_bytes_def is_ok_iff)
  have "?r = \<lparr>kr_key_id = kid, kr_node_id = lit ''plc-1'', kr_algorithm = lit ''ML-DSA-65'',
      kr_public_key = b64encode [65, 66, 68], created_at = lit ''2026-01-01T00:00:00.000000Z'',
      activated_at = lit ''2026-01-01T00:00:00.000000Z'', expires_at = None, kr_state = ACTIVE,
      revocation_reason = PyNone, revoked_at = PyNone, metadata = []\<rparr>"
    by (simp add: second_key_def sample_key_def b64_char_def)
  with d from_dict_to_dict [OF w d] show ?thesis
    by (simp add: new_record_def time_arg_def SUPPORTED_SIGNATURE_ALGORITHMS_def)
qed

lemma sample_rotated:
  "rotated sample_reg (lit ''plc-1'') True = [(lit ''k1'', sample_key\<lparr>kr_state := ROTATED\<rparr>)]"
  by (simp add: rotated_def active_key_def for_node_def sample_reg_def set_state_def sample_key_def)

theorem register_activates_witness:
  "\<exists>reg'. register demo_sha3 (lit ''2026-01-01T00:00:00.000000Z'') (lit ''k2'') (lit ''plc-1'')
     [65, 66, 68] (lit ''ML-DSA-65'') None None [] True sample_reg = (Inr second_key, reg')
   \<and> single_active reg' \<and> active_key reg' (lit ''plc-1'') = Some second_key"
proof -
  have n: "new_record demo_sha3 (lit ''2026-01-01T00:00:00.000000Z'') (lit ''k2'') (lit ''plc-1'')
      [65, 66, 68] (lit ''ML-DSA-65'') None None [] True = Inr second_key"
    using second_record [of "lit ''k2''"] by (simp add: MAX_NODE_ID_LENGTH_def second_key_def)
  have "is_ok (reg_insert (rotated sample_reg (lit ''plc-1'') True) second_key)"
    unfolding sample_rotated by (simp add: reg_insert_def second_key_def sample_key_def)
  then obtain reg' where "register demo_sha3 (lit ''2026-01-01T00:00:00.000000Z'') (lit ''k2'')
      (lit ''plc-1'') [65, 66, 68] (lit ''ML-DSA-65'') None None [] True sample_reg
      = (Inr second_key, reg')"
    using n by (auto simp: register_def is_ok_iff)
  with register_activates [OF sample_reg_inv sample_single_active this] show ?thesis by blast
qed

theorem refused_register_loses_active_key_witness:
  "\<exists>e reg'. register demo_sha3 (lit ''2026-01-01T00:00:00.000000Z'') (lit ''k1'') (lit ''plc-1'')
     [65, 66, 68] (lit ''ML-DSA-65'') None None [] True sample_reg = (Inl e, reg')
   \<and> active_key sample_reg (lit ''plc-1'') = Some sample_key \<and> active_key reg' (lit ''plc-1'') = None"
proof -
  have n: "is_ok (new_record demo_sha3 (lit ''2026-01-01T00:00:00.000000Z'') (lit ''k1'')
      (lit ''plc-1'') [65, 66, 68] (lit ''ML-DSA-65'') None None [] True)"
    using second_record [of "lit ''k1''"] by (simp add: MAX_NODE_ID_LENGTH_def)
  have "reg_insert (rotated sample_reg (lit ''plc-1'') True) (second_key\<lparr>kr_key_id := lit ''k1''\<rparr>)
      = Inl KeyRegistryError"
    unfolding sample_rotated by (simp add: reg_insert_def second_key_def sample_key_def)
  then have "\<exists>reg'. register demo_sha3 (lit ''2026-01-01T00:00:00.000000Z'') (lit ''k1'')
      (lit ''plc-1'') [65, 66, 68] (lit ''ML-DSA-65'') None None [] True sample_reg
      = (Inl KeyRegistryError, reg')"
    using second_record [of "lit ''k1''"]
    by (simp add: register_def MAX_NODE_ID_LENGTH_def del: lit_simps) (simp add: lit_def)
  then obtain reg' where r: "register demo_sha3 (lit ''2026-01-01T00:00:00.000000Z'') (lit ''k1'')
      (lit ''plc-1'') [65, 66, 68] (lit ''ML-DSA-65'') None None [] True sample_reg
      = (Inl KeyRegistryError, reg')" by blast
  moreover have "active_key sample_reg (lit ''plc-1'') = Some sample_key"
    by (simp add: active_key_def for_node_def sample_reg_def sample_key_def)
  moreover have "active_key reg' (lit ''plc-1'') = None"
    by (rule refused_register_loses_active_key [OF sample_reg_inv sample_single_active n r])
  ultimately show ?thesis by blast
qed

end
