(* ===== verification/JsonFile.thy ===== *)
theory JsonFile
  imports KeyRegistry
begin

text \<open>
  The small JSON documents the program keeps on disk: the node state
  (\<^verbatim>\<open>json.dump(..., indent=2, sort_keys=True)\<close>) and the journal
  (\<^verbatim>\<open>json.dump(entry)\<close>), both flat dictionaries of strings, integers and nulls, and the nested ones of
  the key registry and the archive manifest. Shown here: such a document is read back as it was
  written, and a flat document of which only a proper prefix reached the disk is always rejected by
  \<^verbatim>\<open>json.loads\<close> with \<^verbatim>\<open>JSONDecodeError\<close>, never misread.
\<close>

section \<open>Conversions\<close>

text \<open>
  \<^verbatim>\<open>str(v)\<close> and \<^verbatim>\<open>int(v)\<close> on a value of unknown type. The text Python gives to floats
  and containers, and the conversion of floats and strings to integers, are parameters: the
  program applies them to foreign documents only.
\<close>

record conversions =
  repr_of :: "pyval \<Rightarrow> pystr"
  int_of_text :: "pyval \<Rightarrow> int res"

definition py_str :: "conversions \<Rightarrow> pyval \<Rightarrow> pystr" where
  "py_str cv v =
     (case v of
        PyStr s \<Rightarrow> s
      | PyNone \<Rightarrow> lit ''None''
      | PyBool b \<Rightarrow> lit (if b then ''True'' else ''False'')
      | PyInt i \<Rightarrow> dec_int i
      | _ \<Rightarrow> repr_of cv v)"

definition py_int :: "conversions \<Rightarrow> pyval \<Rightarrow> int res" where
  "py_int cv v =
     (case v of
        PyInt i \<Rightarrow> Inr i
      | PyBool b \<Rightarrow> Inr (if b then 1 else 0)
      | PyStr _ \<Rightarrow> int_of_text cv v
      | PyFloat _ \<Rightarrow> int_of_text cv v
      | _ \<Rightarrow> Inl TypeError)"

lemma py_conv_simps [simp]:
  "py_str cv (PyStr s) = s"
  "py_int cv (PyInt i) = Inr i"
  "py_int cv (PyBool b) = Inr (if b then 1 else 0)"
  by (simp_all add: py_str_def py_int_def)

text \<open>\<^verbatim>\<open>Path.read_text(encoding="utf-8")\<close>: strict decoding, universal newlines.\<close>

definition read_text :: "bytes \<Rightarrow> pystr res" where
  "read_text raw = rbind (utf8_decode raw) (\<lambda>s. Inr (universal_newlines s))"

section \<open>Writing flat documents\<close>

text \<open>The default style of \<^verbatim>\<open>json.dump\<close>, and the one with \<^verbatim>\<open>indent=2, sort_keys=True\<close>.\<close>

definition plain_style :: json_style where
  "plain_style = \<lparr>sort_keys = False, item_sep = lit '', '', key_sep = lit '': '',
                  ensure_ascii = True, allow_nan = True\<rparr>"

definition indent_style :: json_style where
  "indent_style = \<lparr>sort_keys = True, item_sep = [44, 10, 32, 32], key_sep = lit '': '',
                   ensure_ascii = True, allow_nan = True\<rparr>"

definition dump_indented :: "pydict \<Rightarrow> pystr res" where
  "dump_indented d =
     rbind (dumps_items indent_style d) (\<lambda>ts.
       Inr (if ts = [] then lit ''{}''
            else [123, 10, 32, 32]
                 @ join (item_sep indent_style) (map (member_text indent_style) (order_items indent_style ts))
                 @ [10, 125]))"

lemma style_oks [simp]: "style_ok plain_style" "style_ok indent_style"
  by (simp_all add: style_ok_def plain_style_def indent_style_def jws_def)

lemma dump_indented_loads_ws:
  assumes "list_all jws w" and "json_ok (PyDict d)" "dump_indented d = Inr t" "d \<noteq> []"
  shows "json_loads (t @ w) = Inr (canon indent_style (PyDict d))"
proof -
  obtain us where us: "dumps_items indent_style d = Inr us"
      "t = (if us = [] then lit ''{}'' else [123, 10, 32, 32] @ join (item_sep indent_style)
         (map (member_text indent_style) (order_items indent_style us)) @ [10, 125])"
    using assms(3) by (auto simp: dump_indented_def rbind_Inr_iff)
  obtain es where es: "entries_ok dict_of_pairs python_constant es" "map (\<lambda>(k, t, v). (k, t)) es = us"
      "map (\<lambda>(k, t, v). (KStr k, v)) es = canon_items indent_style d"
      "map (\<lambda>e. KStr (fst e)) es = map fst d"
    using dumps_scans(3) [OF style_oks(2) dict_of_pairs_ok us(1), of python_constant] assms(2) by auto
  have "us \<noteq> []" using es(2,4) assms(4) by auto
  moreover have "distinct (map fst es)" using entries_distinct [OF es(4)] assms(2) by simp
  ultimately have "scans dict_of_pairs python_constant t (canon indent_style (PyDict d))"
    using scans_dict [of "[10, 32, 32]" indent_style "[32]" "[10, 32, 32]" "[10]", OF _ _ _ _ _ dict_of_pairs_ok es(1)] es(2,3) us(2)
    by (simp add: indent_style_def jws_def)
  moreover have "starts t" using us(2) \<open>us \<noteq> []\<close> by (simp add: starts_bracket)
  ultimately show ?thesis using scans_loads assms(1) by (simp add: json_loads_def)
qed

lemma dump_indented_loads:
  assumes "json_ok (PyDict d)" "dump_indented d = Inr t" "d \<noteq> []"
  shows "json_loads (t @ [10]) = Inr (canon indent_style (PyDict d))"
  using dump_indented_loads_ws [OF _ assms, of "[10]"] by (simp add: jws_def)

text \<open>\<^verbatim>\<open>json.dumps(..., indent=2, sort_keys=True)\<close> at any depth of nesting.\<close>

definition newline_indent :: "nat \<Rightarrow> pystr" where
  "newline_indent level = 10 # replicate level 32"

fun dumps_indent :: "nat \<Rightarrow> pyval \<Rightarrow> pystr res"
  and dumps_indent_list :: "nat \<Rightarrow> pyval list \<Rightarrow> pystr list res"
  and dumps_indent_items :: "nat \<Rightarrow> pydict \<Rightarrow> (pystr \<times> pystr) list res"
where
  "dumps_indent level (PyDict d) =
     rbind (dumps_indent_items (level + 2) d) (\<lambda>ts.
       Inr (if ts = [] then lit ''{}''
            else 123 # newline_indent (level + 2)
                 @ join (44 # newline_indent (level + 2)) (map (member_text indent_style) (order_items indent_style ts))
                 @ newline_indent level @ [125]))"
| "dumps_indent level (PyList xs) =
     rbind (dumps_indent_list (level + 2) xs) (\<lambda>ts.
       Inr (if ts = [] then lit ''[]''
            else 91 # newline_indent (level + 2) @ join (44 # newline_indent (level + 2)) ts @ newline_indent level @ [93]))"
| "dumps_indent level (PyTuple xs) =
     rbind (dumps_indent_list (level + 2) xs) (\<lambda>ts.
       Inr (if ts = [] then lit ''[]''
            else 91 # newline_indent (level + 2) @ join (44 # newline_indent (level + 2)) ts @ newline_indent level @ [93]))"
| "dumps_indent level v = dumps indent_style v"
| "dumps_indent_list level [] = Inr []"
| "dumps_indent_list level (x # xs) =
     rbind (dumps_indent level x) (\<lambda>t. rbind (dumps_indent_list level xs) (\<lambda>ts. Inr (t # ts)))"
| "dumps_indent_items level [] = Inr []"
| "dumps_indent_items level ((KStr k, v) # d) =
     rbind (dumps_indent level v) (\<lambda>t. rbind (dumps_indent_items level d) (\<lambda>ts. Inr ((k, t) # ts)))"
| "dumps_indent_items level ((KOther k, v) # d) = Inl TypeError"

lemma newline_blank: "list_all jws (newline_indent n)"
  by (simp add: newline_indent_def jws_def list_all_iff)

lemma indent_keys: "key_sep indent_style = 58 # [32]" "list_all jws [32]"
  by (simp_all add: indent_style_def jws_def)

lemma dumps_indent_scans:
  shows "\<lbrakk>dumps_indent n v = Inr t; json_ok v\<rbrakk> \<Longrightarrow>
      scans dict_of_pairs python_constant t (canon indent_style v) \<and> starts t"
    and "\<lbrakk>dumps_indent_list n xs = Inr ts; json_ok_list xs\<rbrakk> \<Longrightarrow>
      list_all2 (scans dict_of_pairs python_constant) ts (canon_list indent_style xs) \<and> list_all starts ts"
    and "\<lbrakk>dumps_indent_items n d = Inr us; json_ok_items d\<rbrakk> \<Longrightarrow>
      \<exists>es. entries_ok dict_of_pairs python_constant es \<and> map (\<lambda>(k, t, v). (k, t)) es = us
        \<and> map (\<lambda>(k, t, v). (KStr k, v)) es = canon_items indent_style d \<and> map (\<lambda>e. KStr (fst e)) es = map fst d"
proof (induction n v and n xs and n d arbitrary: t and ts and us rule: dumps_indent_dumps_indent_list_dumps_indent_items.induct)
  case (1 level d)
  then obtain us where us: "dumps_indent_items (level + 2) d = Inr us" "json_ok_items d"
      "t = (if us = [] then lit ''{}'' else 123 # newline_indent (level + 2)
         @ join (44 # newline_indent (level + 2)) (map (member_text indent_style) (order_items indent_style us)) @ newline_indent level @ [125])"
    by (auto simp: rbind_Inr_iff simp del: add_2_eq_Suc add_2_eq_Suc')
  with 1 obtain es where es: "entries_ok dict_of_pairs python_constant es" "map (\<lambda>(k, t, v). (k, t)) es = us"
      "map (\<lambda>(k, t, v). (KStr k, v)) es = canon_items indent_style d" "map (\<lambda>e. KStr (fst e)) es = map fst d"
    by blast
  have dist: "distinct (map fst es)" using entries_distinct [OF es(4)] 1 by simp
  note obj = scans_dict [OF _ indent_keys _ _ dict_of_pairs_ok es(1) dist]
  show ?case
  proof (cases "us = []")
    case True
    then have "es = []" "order_items indent_style us = []" using es(2) by (auto simp: order_items_def)
    with True us(3) es(3) obj [of "[]" "[]" "[]"] show ?thesis by (simp add: order_items_def starts_bracket)
  next
    case False
    with us(3) es(2,3) obj [OF newline_blank newline_blank newline_blank, of "level + 2" "level + 2" level] show ?thesis
      by (simp add: starts_bracket del: add_2_eq_Suc add_2_eq_Suc')
  qed
next
  case (2 level xs)
  then show ?case
    using scans_list [OF newline_blank newline_blank newline_blank] scans_list [of "[]" "[]" "[]" dict_of_pairs python_constant "[]" "[]"]
    by (auto simp: rbind_Inr_iff starts_bracket simp del: add_2_eq_Suc add_2_eq_Suc')
next
  case (3 level xs)
  then show ?case
    using scans_list [OF newline_blank newline_blank newline_blank] scans_list [of "[]" "[]" "[]" dict_of_pairs python_constant "[]" "[]"]
    by (auto simp: rbind_Inr_iff starts_bracket simp del: add_2_eq_Suc add_2_eq_Suc')
next
  case (6 level x xs)
  then show ?case by (auto simp: rbind_Inr_iff)
next
  case (8 level k v d)
  then obtain t us' where t: "dumps_indent level v = Inr t" "dumps_indent_items level d = Inr us'" "us = (k, t) # us'"
    by (auto simp: rbind_Inr_iff)
  from 8 t(1) have v: "scans dict_of_pairs python_constant t (canon indent_style v)" "starts t" by simp_all
  from 8 t obtain es where "entries_ok dict_of_pairs python_constant es" "map (\<lambda>(k, t, v). (k, t)) es = us'"
      "map (\<lambda>(k, t, v). (KStr k, v)) es = canon_items indent_style d" "map (\<lambda>e. KStr (fst e)) es = map fst d"
    by auto
  with 8 t v show ?case
    by (intro exI [of _ "(k, t, canon indent_style v) # es"]) (auto simp: entries_ok_def)
qed (auto simp: entries_ok_def simp del: dumps.simps json_ok.simps dest: dumps_scans(1) [OF style_oks(2) dict_of_pairs_ok])

lemma dumps_indent_loads:
  assumes "json_ok v" "dumps_indent n v = Inr t" "list_all jws w"
  shows "json_loads (t @ w) = Inr (canon indent_style v)"
  using dumps_indent_scans(1) [OF assms(2,1)] scans_loads assms(3) by (simp add: json_loads_def)

lemma dict_get_order:
  assumes "distinct (map fst d)"
  shows "dict_get (order_dict st d) k = dict_get d k"
proof -
  have "set (order_dict st d) = set d" "distinct (map fst (order_dict st d))"
    using assms by (simp_all add: order_dict_def distinct_map)
  then have "map_of (order_dict st d) = map_of d" using assms by (simp add: map_of_inject_set)
  then show ?thesis by (simp add: dict_get_def)
qed

text \<open>Reading a canonical dict is reading the dict and taking the canonical value.\<close>

lemma dict_get_canon:
  "distinct (map fst d) \<Longrightarrow> dict_get (order_dict st (canon_items st d)) k = map_option (canon st) (dict_get d k)"
proof -
  have keys: "map fst (canon_items st d) = map fst d" by (induction d) auto
  have "dict_get (canon_items st d) k = map_option (canon st) (dict_get d k)"
    by (induction d) (auto simp: dict_get_def)
  then show "distinct (map fst d) \<Longrightarrow> ?thesis" using dict_get_order [of "canon_items st d" st k] keys by simp
qed

section \<open>Torn writes\<close>

text \<open>Input after the end of a string literal does not change how the literal is scanned.\<close>

lemma scan_u4_extend: "scan_u4 r = Some u \<Longrightarrow> scan_u4 (r @ q) = Some u"
  by (cases r rule: scan_u4.cases) auto

lemma low_half_extend:
  assumes "scan_string r \<noteq> None"
  shows "low_half (r @ q) = low_half r"
proof (cases "6 \<le> length r")
  case True
  then have "Suc (Suc (Suc (Suc (Suc (Suc 0))))) \<le> length r" by simp
  then obtain a b c d e f s where "r = a # b # c # d # e # f # s"
    unfolding Suc_le_length_iff by blast
  then show ?thesis by (simp add: low_half_def)
next
  case False
  show ?thesis
  proof (cases "take 2 r = [92, 117]")
    case True
    then obtain s where s: "r = 92 # 117 # s"
      by (cases r; cases "tl r") auto
    with False have "scan_u4 s = None"
      using scan_u4_length [of s] by (cases "scan_u4 s") auto
    with s assms show ?thesis by (simp add: scan_string.simps(2))
  next
    case no: False
    show ?thesis
    proof (cases r)
      case (Cons a s)
      show ?thesis
      proof (cases s)
        case Nil
        with Cons assms have "a \<noteq> 92" by (auto simp: scan_string.simps(2))
        with Nil Cons show ?thesis by (cases q) (simp_all add: low_half_def)
      next
        case (Cons b s')
        with no \<open>r = a # s\<close> show ?thesis by (auto simp: low_half_def)
      qed
    qed (use assms in \<open>simp add: scan_string.simps\<close>)
  qed
qed

lemma scan_string_extend: "scan_string s = Some (t, r) \<Longrightarrow> scan_string (s @ q) = Some (t, r @ q)"
proof (induction s arbitrary: t r rule: scan_string.induct)
  case (2 c cs)
  consider "c = 34" | "c = 92" | "c \<noteq> 34" "c \<noteq> 92" by blast
  then show ?case
  proof cases
    case 1
    with "2.prems" show ?thesis by (simp add: scan_string.simps(2))
  next
    case 2
    with "2.prems" obtain e u where cs: "cs = e # u"
      by (auto simp: scan_string.simps(2) split: list.splits)
    show ?thesis
    proof (cases "e = 117")
      case True
      with "2.prems" 2 cs obtain v where v: "scan_u4 u = Some v"
        by (auto simp: scan_string.simps(2) split: option.splits)
      have d: "drop 4 (u @ q) = drop 4 u @ q" using scan_u4_length [OF v] by simp
      show ?thesis
      proof (cases "(0xD800 \<le> v \<and> v \<le> 0xDBFF) \<and> low_half (drop 4 u) \<noteq> None")
        case pair: True
        then obtain w where w: "low_half (drop 4 u) = Some w" by blast
        then obtain a b u' where u': "drop 4 u = a # b # u'" "4 \<le> length u'"
          using scan_u4_length by (fastforce simp: low_half_def split: list.splits if_splits option.splits)
        then have w': "low_half (drop 4 u @ q) = Some w"
          using w scan_u4_extend [of u' _ q] by (auto simp: low_half_def split: if_splits option.splits)
        have "length (drop 4 u) \<ge> 6" using u' by simp
        then have d10: "drop 10 (u @ q) = drop 10 u @ q" by simp
        from "2.prems" 2 cs True v w pair obtain t' where "scan_string (drop 10 u) = Some (t', r)"
          "t = (0x10000 + (v - 0xD800) * 1024 + (w - 0xDC00)) # t'"
          by (auto simp: scan_string.simps(2) push_def)
        with "2.IH"(2) [of e u v w] 2 cs True v w w' pair d d10 scan_u4_extend [OF v, of q]
        show ?thesis by (simp add: scan_string.simps(2))
      next
        case single: False
        with "2.prems" 2 cs True v obtain t' where t': "scan_string (drop 4 u) = Some (t', r)" "t = v # t'"
          by (auto simp: scan_string.simps(2) push_def split: if_splits)
        have lh: "low_half (drop 4 u @ q) = low_half (drop 4 u)" using t'(1) by (intro low_half_extend) simp
        have "c \<noteq> 34" using 2 by simp
        then have "scan_string (drop 4 u @ q) = Some (t', r @ q)"
          using "2.IH"(1) [OF _ 2 cs True v] "2.IH"(3) [OF _ 2 cs True v] single t'(1) by blast
        moreover have "\<not> ((0xD800 \<le> v \<and> v \<le> 0xDBFF) \<and> low_half (drop 4 u @ q) \<noteq> None)"
          using single lh by simp
        ultimately show ?thesis
          unfolding cs 2 True using scan_u4_extend [OF v, of q] d t'(2)
          by (auto simp add: scan_string.simps(2) [of 92])
      qed
    next
      case False
      with "2.prems" 2 cs obtain x t' where "unescape e = Some x" "scan_string u = Some (t', r)" "t = x # t'"
        by (auto simp: scan_string.simps(2) push_def split: option.splits)
      with "2.IH"(4) [of e u x] 2 cs False show ?thesis by (simp add: scan_string.simps(2))
    qed
  next
    case 3
    with "2.prems" obtain t' where "\<not> c < 32" "scan_string cs = Some (t', r)" "t = c # t'"
      by (auto simp: scan_string.simps(2) push_def split: if_splits)
    with "2.IH"(5) 3 show ?thesis by (simp add: scan_string.simps(2))
  qed
qed (simp add: scan_string.simps)

lemma scan_string_torn:
  assumes "list_all scalar s" "concat (map (esc_char ascii) s) @ [34] = p @ q" "q \<noteq> []"
  shows "scan_string p = None"
proof (rule ccontr)
  assume "scan_string p \<noteq> None"
  then obtain t r where "scan_string p = Some (t, r)" by auto
  then have "scan_string (p @ q) = Some (t, r @ q)" by (rule scan_string_extend)
  moreover have "scan_string (p @ q) = Some (s, [])"
    using scan_string_quote [OF assms(1), of ascii "[]"] unfolding assms(2) [symmetric] by simp
  ultimately show False using assms(3) by simp
qed

lemma digits_val_bound: "\<forall>d\<in>set p. is_digit d \<Longrightarrow> digits_val p < 10 ^ length p"
proof (induction p rule: rev_induct)
  case (snoc d p)
  then have "digits_val p + 1 \<le> 10 ^ length p" "d - 48 \<le> 9" by (auto simp: is_digit_def)
  then show ?case by (simp add: digits_val_snoc)
qed (simp add: digits_val_def)

text \<open>
  A value text is \<open>torn\<close>-safe when scanning a proper prefix of it fails or runs into the end
  of the input, so that the enclosing object fails.
\<close>

definition torn_safe :: "pystr \<Rightarrow> bool" where
  "torn_safe t \<longleftrightarrow> (\<forall>hook pconst n p q. t = p @ q \<longrightarrow> q \<noteq> [] \<longrightarrow>
     scan_value hook pconst n p = Inl JSONDecodeError \<or> (\<exists>v. scan_value hook pconst n p = Inr (v, [])))"

lemma torn_safeD:
  "\<lbrakk>torn_safe (p @ q); q \<noteq> []; scan_value hook pconst n p = Inr (v, r)\<rbrakk> \<Longrightarrow> r = []"
  "\<lbrakk>torn_safe (p @ q); q \<noteq> []; scan_value hook pconst n p = Inl e\<rbrakk> \<Longrightarrow> e = JSONDecodeError"
  unfolding torn_safe_def by (metis Inr_inject prod.inject sum.distinct(1)) (metis Inl_inject sum.distinct(1))

lemma torn_safe_str: "list_all scalar s \<Longrightarrow> torn_safe (quote ascii s)"
  unfolding torn_safe_def
proof (intro allI impI)
  fix hook pconst n p q assume s: "list_all scalar s" "quote ascii s = p @ q" "q \<noteq> []"
  show "scan_value hook pconst n p = Inl JSONDecodeError \<or> (\<exists>v. scan_value hook pconst n p = Inr (v, []))"
  proof (cases "n = 0 \<or> p = []")
    case True
    then show ?thesis by (cases n) auto
  next
    case False
    then obtain m c cs where p: "n = Suc m" "p = c # cs" by (cases n; cases p) auto
    with s have "c = 34" "concat (map (esc_char ascii) s) @ [34] = cs @ q" by (auto simp: quote_def)
    with scan_string_torn [OF s(1) _ s(3), of ascii cs] p show ?thesis by simp
  qed
qed

lemma scan_unsigned_digits:
  assumes "\<forall>d\<in>set p. is_digit d" "p \<noteq> []" "hd p = 48 \<Longrightarrow> tl p = []"
  shows "scan_unsigned neg p = Some (PyInt (if neg then - int (digits_val p) else int (digits_val p)), [])"
proof -
  have "int_part p = p"
    using assms by (cases p) (auto simp: int_part_def takeWhile_eq_all_conv [THEN iffD2])
  with assms(2) show ?thesis by (simp add: scan_unsigned_def Let_def frac_part_def exp_part_def)
qed

lemma scan_digits:
  assumes "\<forall>d\<in>set p. is_digit d" "p \<noteq> []" "hd p = 48 \<Longrightarrow> tl p = []" "length p \<le> MAX_STR_DIGITS"
    and "s = (if neg then 45 # p else p)"
  shows "scan_value hook pconst (Suc n) s
    = Inr (PyInt (if neg then - int (digits_val p) else int (digits_val p)), [])"
proof -
  have "length (dec_nat (digits_val p)) \<le> length p"
    using digits_val_bound [OF assms(1)] assms(2) by (intro dec_nat_length) simp_all
  then have lim: "int_limit (PyInt (if neg then - int (digits_val p) else int (digits_val p))) = Inr ()"
    using assms(4) by (simp add: int_limit_def int_digits_ok_def)
  obtain d p' where p: "p = d # p'" "is_digit d" using assms(1,2) by (cases p) auto
  have w: "scan_word pconst s = None"
    using p assms(5) by (cases p') (auto simp: scan_word_def strip_prefix_def is_digit_def split: if_splits)
  have "take 1 p \<noteq> [45]" using p by (auto simp: is_digit_def)
  then have "scan_number s = Some (PyInt (if neg then - int (digits_val p) else int (digits_val p)), [])"
    using scan_unsigned_digits [OF assms(1-3), of neg] assms(5) by (cases neg) (simp_all add: scan_number_def)
  with lim w p assms(5) show ?thesis by (auto simp: is_digit_def)
qed

lemma torn_safe_int:
  assumes "int_digits_ok i"
  shows "torn_safe (dec_int i)"
  unfolding torn_safe_def
proof (intro allI impI)
  fix hook pconst n p q assume p: "dec_int i = p @ q" "q \<noteq> []"
  let ?m = "nat \<bar>i\<bar>"
  have dec: "dec_int i = (if i < 0 then 45 # dec_nat ?m else dec_nat ?m)" by (simp add: dec_int_def)
  show "scan_value hook pconst n p = Inl JSONDecodeError \<or> (\<exists>v. scan_value hook pconst n p = Inr (v, []))"
  proof (cases "n = 0 \<or> p = [] \<or> p = [45]")
    case True
    then show ?thesis
      by (cases n) (auto simp: scan_word_def strip_prefix_def scan_number_def scan_unsigned_def
          int_part_def Let_def)
  next
    case False
    then obtain m where n: "n = Suc m" by (cases n) auto
    define ds where "ds = (if i < 0 then tl p else p)"
    have ds: "dec_nat ?m = ds @ q" "ds \<noteq> []" "p = (if i < 0 then 45 # ds else ds)"
      using p(1) dec False by (cases p; auto simp: ds_def split: if_splits)+
    have dig: "\<forall>d\<in>set ds. is_digit d" using dec_nat_digits [of ?m] ds(1) by auto
    have z: "tl ds = []" if "hd ds = 48"
      using dec_nat_hd [of ?m] ds(1,2) that by (cases ds) auto
    have len: "length ds \<le> MAX_STR_DIGITS" using assms ds(1) by (simp add: int_digits_ok_def)
    show ?thesis using scan_digits [OF dig ds(2) z len ds(3)] n by blast
  qed
qed

lemma scan_value_Nil [simp]: "scan_value hook pconst n [] = Inl JSONDecodeError"
  by (cases n) simp_all

lemma scan_members_Nil [simp]: "scan_members hook pconst n [] = Inl JSONDecodeError"
  by (cases n) simp_all

lemma skip_ws_all [simp]: "list_all jws w \<Longrightarrow> skip_ws w = []"
  by (simp add: skip_ws_def list_all_iff)

lemma skip_ws_prefix:
  assumes "list_all jws w" "starts (p @ q)"
  shows "skip_ws (w @ p) = p"
proof (cases p)
  case (Cons c cs)
  with assms have "starts p" by (simp add: starts_def)
  from skip_ws_starts [OF this assms(1), of "[]"] show ?thesis by simp
qed (use assms in simp)

lemma append_split:
  assumes "xs @ ys = p @ q"
  obtains (inside) us where "xs = p @ us" "us \<noteq> []" | (after) us where "p = xs @ us" "ys = us @ q"
proof -
  from assms obtain us where us: "xs = p @ us \<and> us @ ys = q \<or> xs @ us = p \<and> ys = us @ q"
    by (auto simp: append_eq_append_conv2)
  show thesis
  proof (cases "xs = p @ us \<and> us \<noteq> []")
    case True
    then show thesis using inside by blast
  next
    case False
    with us have "p = xs @ (if xs @ us = p then us else []) \<and> ys = (if xs @ us = p then us else []) @ q"
      by (auto split: if_splits)
    then show thesis using after by blast
  qed
qed

text \<open>What a member needs to be read back, and to be rejected when it is cut short.\<close>

definition entry_ok ::
  "((pystr \<times> pyval) list \<Rightarrow> pyval res) \<Rightarrow> (pystr \<Rightarrow> pyval res) \<Rightarrow> pystr \<times> pystr \<times> pyval \<Rightarrow> bool"
where
  "entry_ok hook pconst = (\<lambda>(k, t, v). list_all scalar k \<and> scans hook pconst t v \<and> starts t \<and> torn_safe t)"

lemma scan_member_torn:
  assumes "key_sep st = 58 # u" "list_all jws u" "entry_ok hook pconst (k, t, v)"
    and "member_text st (k, t) = p @ q" "2 * length p + 1 < n"
  shows "scan_members hook pconst n p = Inl JSONDecodeError"
proof (cases p)
  case (Cons c p1)
  obtain m where n: "n = Suc m" "2 * length p < m" using assms(5) by (cases n) auto
  let ?b = "concat (map (esc_char (ensure_ascii st)) k) @ [34]"
  have ok: "list_all scalar k" "scans hook pconst t v" "starts t" "torn_safe t"
    using assms(3) by (simp_all add: entry_ok_def)
  have p: "c = 34" "?b @ 58 # u @ t = p1 @ q"
    using assms(1,4) Cons by (auto simp: member_text_def quote_def)
  from p(2) show ?thesis
  proof (cases rule: append_split)
    case key: (inside us)
    with scan_string_torn [OF ok(1) key] Cons p(1) n show ?thesis by simp
  next
    case sep: (after us)
    have str: "scan_string p1 = Some (k, us)"
      using scan_string_quote [OF ok(1), of "ensure_ascii st" us] sep(1) by simp
    show ?thesis
    proof (cases us)
      case Nil
      with str Cons p(1) n show ?thesis by (simp add: skip_ws_def)
    next
      case (Cons d p3)
      with sep(2) have d: "d = 58" "u @ t = p3 @ q" by simp_all
      define p4 where "p4 = skip_ws p3"
      have "p4 = [] \<or> t = p4 @ q" using d(2)
      proof (cases rule: append_split)
        case (inside us)
        with assms(2) show ?thesis by (simp add: p4_def)
      next
        case (after us)
        with ok(3) skip_ws_prefix [OF assms(2), of us q] show ?thesis by (simp add: p4_def)
      qed
      note p4 = p4_def [symmetric] this skip_ws_length [of p3, folded p4_def]
      have "scan_value hook pconst m p4 = Inl JSONDecodeError \<or> (\<exists>x. scan_value hook pconst m p4 = Inr (x, []))"
      proof (cases "p4 = [] \<or> q = []")
        case True
        have "2 * length p4 < m" using p4(3) n(2) Cons \<open>p = c # p1\<close> sep(1) by simp
        with True p4(2) scansD [OF ok(2), of "[]" m] show ?thesis by auto
      next
        case False
        with p4(2) torn_safeD [of p4 q hook pconst m] ok(4) show ?thesis
          by (cases "scan_value hook pconst m p4") auto
      qed
      then show ?thesis
        using str Cons d(1) p(1) n(1) \<open>p = c # p1\<close> p4(1) by (auto simp: skip_ws_sep skip_ws_def)
    qed
  qed
qed (use assms(5) in simp)

lemma scan_member_then:
  assumes "key_sep st = 58 # u" "list_all jws u" "entry_ok hook pconst (k, t, v)"
    and "num_stop r" "2 * length t < n"
  shows "scan_members hook pconst (Suc n) (member_text st (k, t) @ r)
    = (case skip_ws r of
         [] \<Rightarrow> Inl JSONDecodeError
       | d # r' \<Rightarrow>
           if d = 44 then rbind (scan_members hook pconst n (skip_ws r')) (\<lambda>(kvs, r3). Inr ((k, v) # kvs, r3))
           else if d = 125 then Inr ([(k, v)], r') else Inl JSONDecodeError)"
proof -
  have ok: "list_all scalar k" "scans hook pconst t v" "starts t"
    using assms(3) by (simp_all add: entry_ok_def)
  obtain cs r1 where "member_text st (k, t) @ r = 34 # cs" "scan_string cs = Some (k, 58 # r1)" "skip_ws r1 = t @ r"
    using member_text_scan [OF assms(1,2) ok(1,3)] by blast
  with scansD [OF ok(2) assms(4,5)] show ?thesis by (simp add: skip_ws_sep)
qed

lemma scan_members_torn:
  assumes seps: "item_sep st = 44 # w" "list_all jws w" "key_sep st = 58 # u" "list_all jws u"
    and "list_all jws z"
  shows "\<lbrakk>list_all (entry_ok hook pconst) es; es \<noteq> [];
     join (item_sep st) (map (\<lambda>(k, t, v). member_text st (k, t)) es) @ z @ [125] = p @ q; q \<noteq> [];
     2 * length p + 1 < n\<rbrakk> \<Longrightarrow> scan_members hook pconst n p = Inl JSONDecodeError"
proof (induction es arbitrary: p n)
  case (Cons e es)
  obtain k t v where e: "e = (k, t, v)" by (cases e)
  have ok: "entry_ok hook pconst (k, t, v)" using Cons.prems(1) e by simp
  let ?t = "if es = [] then z @ [125]
    else 44 # w @ join (item_sep st) (map (\<lambda>(k, t, v). member_text st (k, t)) es) @ z @ [125]"
  have "member_text st (k, t) @ ?t = p @ q"
    using Cons.prems(3) e seps(1) by (cases es) simp_all
  then show ?case
  proof (cases rule: append_split)
    case (inside us)
    from scan_member_torn [OF seps(3,4) ok this(1) Cons.prems(5)] show ?thesis .
  next
    case (after p5)
    obtain m where n: "n = Suc m" "2 * length p < m" using Cons.prems(5) by (cases n) auto
    have len: "2 * length t < m" using n(2) after(1) by (simp add: member_text_def)
    have stop: "num_stop p5 \<and> (es = [] \<longrightarrow> list_all jws p5)
      \<and> (es \<noteq> [] \<longrightarrow> p5 = [] \<or> (\<exists>p6. p5 = 44 # p6))"
    proof (cases "es = []")
      case True
      with after(2) Cons.prems(4) have "\<exists>y. z = p5 @ y"
        by (cases q rule: rev_cases) auto
      with assms(5) num_stop_ws [of p5 "[]"] True show ?thesis by auto
    next
      case False
      with after(2) show ?thesis by (cases p5) auto
    qed
    note step = scan_member_then [OF seps(3,4) ok conjunct1 [OF stop] len]
    show ?thesis
    proof (cases "es = [] \<or> p5 = []")
      case True
      then have "skip_ws p5 = []" using stop by (auto simp: skip_ws_def list_all_iff)
      with step after(1) n(1) show ?thesis by simp
    next
      case False
      with stop obtain p6 where p6: "p5 = 44 # p6" by auto
      let ?j = "join (item_sep st) (map (\<lambda>(k, t, v). member_text st (k, t)) es)"
      have j: "w @ ?j @ z @ [125] = p6 @ q" using after(2) p6 False by simp
      have "starts ?j" using False
        by (intro starts_join) (auto simp: starts_member hd_map split: prod.split)
      then have st: "starts (?j @ z @ [125])" by (rule starts_append)
      from j have "scan_members hook pconst m (skip_ws p6) = Inl JSONDecodeError"
      proof (cases rule: append_split)
        case (inside us)
        then show ?thesis using seps(2) by simp
      next
        case 2: (after p7)
        then have "skip_ws p6 = p7" using skip_ws_prefix [OF seps(2), of p7 q] st by simp
        moreover have "2 * length p7 + 1 < m" using n(2) after(1) p6 2(1) by simp
        ultimately show ?thesis
          using Cons.IH [OF _ _ 2(2) Cons.prems(4)] Cons.prems(1) False by simp
      qed
      with step after(1) n(1) p6 show ?thesis by (simp add: skip_ws_sep)
    qed
  qed
qed simp

text \<open>A flat document of strings and integers, cut short, is rejected.\<close>

definition flat :: "pyval \<Rightarrow> bool" where
  "flat v \<longleftrightarrow> (case v of PyStr _ \<Rightarrow> True | PyInt _ \<Rightarrow> True | _ \<Rightarrow> False)"

lemma flat_torn_safe:
  assumes "flat v" "json_ok v" "dumps st v = Inr t"
  shows "torn_safe t"
  using assms by (cases v) (auto simp: flat_def torn_safe_str torn_safe_int require_Inr_iff)

lemma flat_entries:
  assumes "style_ok st" "hook_ok hook"
  shows "\<lbrakk>dumps_items st d = Inr us; json_ok_items d; \<forall>kv\<in>set d. flat (snd kv)\<rbrakk> \<Longrightarrow>
     \<exists>es. list_all (entry_ok hook pconst) es \<and> map (\<lambda>(k, t, v). (k, t)) es = us"
proof (induction d arbitrary: us)
  case (Cons kv d)
  obtain k v where kv: "kv = (KStr k, v)" using Cons.prems(2) by (cases kv; cases "fst kv") auto
  with Cons.prems obtain t us' where t: "dumps st v = Inr t" "dumps_items st d = Inr us'" "us = (k, t) # us'"
      "list_all scalar k" "json_ok v" "flat v"
    by (auto simp: rbind_Inr_iff)
  obtain es where "list_all (entry_ok hook pconst) es" "map (\<lambda>(k, t, v). (k, t)) es = us'"
    using Cons.IH [OF t(2)] Cons.prems kv by auto
  with t dumps_scans(1) [OF assms t(1,5)] flat_torn_safe [OF t(6,5,1)] show ?case
    by (intro exI [of _ "(k, t, canon st v) # es"]) (auto simp: entry_ok_def)
qed simp

theorem torn_document:
  assumes "json_ok (PyDict d)" "\<forall>kv\<in>set d. flat (snd kv)" "dumps plain_style (PyDict d) = Inr (p @ q)" "q \<noteq> []"
  shows "json_loads p = Inl JSONDecodeError"
proof -
  obtain us where us: "dumps_items plain_style d = Inr us"
      "p @ q = 123 # join (item_sep plain_style) (map (member_text plain_style) us) @ [125]"
    using assms(3) by (auto simp: rbind_Inr_iff order_items_def plain_style_def)
  obtain es where es: "list_all (entry_ok dict_of_pairs python_constant) es" "map (\<lambda>(k, t, v). (k, t)) es = us"
    using flat_entries [OF style_oks(1) dict_of_pairs_ok us(1)] assms(1,2) by auto
  show ?thesis
  proof (cases p)
    case Nil
    then show ?thesis by (simp add: json_loads_def loads_def skip_ws_def)
  next
    case (Cons c p1)
    let ?j = "join (item_sep plain_style) (map (\<lambda>(k, t, v). member_text plain_style (k, t)) es)"
    have p1: "c = 123" "?j @ [] @ [125] = p1 @ q"
      using us(2) Cons unfolding es(2) [symmetric] by (simp_all add: case_prod_unfold comp_def)
    have "skip_ws p1 = p1 \<and> take 1 p1 \<noteq> [125] \<and> (es = [] \<longrightarrow> p1 = [])"
    proof (cases "es = []")
      case True
      with p1(2) assms(4) have "p1 = []" by (cases p1) auto
      with True show ?thesis by simp
    next
      case False
      then have st: "starts (p1 @ q)" unfolding p1(2) [symmetric]
        by (intro starts_append starts_join) (auto simp: hd_map starts_member split: prod.split)
      from skip_ws_prefix [of "[]", OF _ this] st False show ?thesis
        by (cases p1) (auto simp: starts_def)
    qed
    moreover have "scan_members dict_of_pairs python_constant (Suc (Suc (2 * length p1))) p1 = Inl JSONDecodeError"
    proof (cases "es = []")
      case False
      then show ?thesis
        by (intro scan_members_torn [of plain_style "[32]" "[32]" "[]", OF _ _ _ _ _ es(1) False p1(2) assms(4)])
          (simp_all add: plain_style_def jws_def)
    qed (use calculation in simp)
    ultimately show ?thesis
      using Cons p1(1) by (simp add: json_loads_def loads_def skip_ws_sep)
  qed
qed

end
