(* ===== verification/StateStore.thy ===== *)
theory StateStore
  imports JsonFile
begin

text \<open>
  \<^verbatim>\<open>pqc_evidence/state_store.py\<close>: the persisted chain position of a node, its validation,
  and the locked store that reads and advances it. The state file is the list of its bytes
  (\<open>None\<close> when there is none); a write is atomic (temporary file, fsync, rename), so it either
  replaces the file or leaves it as it was. The clock and the operating system enter as
  arguments: \<open>now\<close> is the text of \<^verbatim>\<open>_utc_now()\<close>, \<open>ok\<close> says whether the system calls of a
  write succeed. File modes and the creation of directories are not modelled.
\<close>

section \<open>The state of a node\<close>

definition EVIDENCE_FORMAT_VERSION :: pystr where
  "EVIDENCE_FORMAT_VERSION = lit ''1.0''"

definition MAX_STATE_BYTES :: nat where
  "MAX_STATE_BYTES = 64 * 1024"

record NodeState =
  ns_node_id :: pystr
  ns_key_id :: pyval
  ns_last_sequence :: int
  ns_last_event_hash :: "pystr option"
  ns_format_version :: pystr
  ns_updated_at :: pystr

definition zero_state :: "pystr \<Rightarrow> pyval \<Rightarrow> NodeState" where
  "zero_state nid kid =
     \<lparr>ns_node_id = nid, ns_key_id = kid, ns_last_sequence = 0, ns_last_event_hash = None,
      ns_format_version = EVIDENCE_FORMAT_VERSION, ns_updated_at = []\<rparr>"

definition hash_value :: "pystr option \<Rightarrow> pyval" where
  "hash_value h = (case h of None \<Rightarrow> PyNone | Some x \<Rightarrow> PyStr x)"

definition state_dict :: "pystr \<Rightarrow> NodeState \<Rightarrow> pydict" where
  "state_dict now st =
     [(KStr (lit ''node_id''), PyStr (ns_node_id st)),
      (KStr (lit ''key_id''), ns_key_id st),
      (KStr (lit ''last_sequence''), PyInt (ns_last_sequence st)),
      (KStr (lit ''last_event_hash''), hash_value (ns_last_event_hash st)),
      (KStr (lit ''format_version''), PyStr (ns_format_version st)),
      (KStr (lit ''updated_at''), PyStr (if ns_updated_at st = [] then now else ns_updated_at st))]"

definition state_hash_ok :: "pyval \<Rightarrow> bool" where
  "state_hash_ok v = (case v of PyNone \<Rightarrow> True | PyStr h \<Rightarrow> length h = 64 \<and> list_all hex_lower h | _ \<Rightarrow> False)"

definition STATE_FIELDS :: "pystr list" where
  "STATE_FIELDS = [lit ''node_id'', lit ''key_id'', lit ''last_sequence'', lit ''format_version'']"

definition nonempty_str :: "pyval \<Rightarrow> pystr res" where
  "nonempty_str v = (case v of PyStr s \<Rightarrow> require (s \<noteq> []) StateCorruptionError (Inr s) | _ \<Rightarrow> Inl StateCorruptionError)"

definition state_position :: "pydict \<Rightarrow> (int \<times> pystr option) res" where
  "state_position data =
     rbind (dict_item data (lit ''last_sequence'')) (\<lambda>sv.
       (case sv of
          PyInt sq \<Rightarrow>
            require (0 \<le> sq) StateCorruptionError
            (let hv = get_or data (lit ''last_event_hash'') PyNone in
             require (state_hash_ok hv) StateCorruptionError
            (require (0 < sq \<longrightarrow> hv \<noteq> PyNone) StateCorruptionError
            (require (sq = 0 \<longrightarrow> hv = PyNone) StateCorruptionError
              (Inr (sq, case hv of PyStr h \<Rightarrow> Some h | _ \<Rightarrow> None)))))
        | _ \<Rightarrow> Inl StateCorruptionError))"

definition state_from_dict :: "conversions \<Rightarrow> pyval \<Rightarrow> pystr option \<Rightarrow> NodeState res" where
  "state_from_dict cv v expected_node_id =
     (case v of
        PyDict data \<Rightarrow>
          require (list_all (dict_has data) STATE_FIELDS) StateCorruptionError
          (rbind (rbind (dict_item data (lit ''node_id'')) nonempty_str) (\<lambda>nid.
           require (expected_node_id = None \<or> expected_node_id = Some nid) StateCorruptionError
          (rbind (rbind (dict_item data (lit ''key_id'')) nonempty_str) (\<lambda>kid.
           rbind (state_position data) (\<lambda>(sq, h).
           rbind (dict_item data (lit ''format_version'')) (\<lambda>fv.
           require (fv = PyStr EVIDENCE_FORMAT_VERSION) StateCorruptionError
             (Inr \<lparr>ns_node_id = nid, ns_key_id = PyStr kid, ns_last_sequence = sq,
                   ns_last_event_hash = h, ns_format_version = EVIDENCE_FORMAT_VERSION,
                   ns_updated_at = py_str cv (get_or data (lit ''updated_at'') (PyStr []))\<rparr>)))))))
      | _ \<Rightarrow> Inl StateCorruptionError)"

section \<open>The state file\<close>

text \<open>
  What both stores do with the text of the file: decode, refuse a blank file, parse, validate.
  \<^verbatim>\<open>json.JSONDecodeError\<close> is translated; the \<^verbatim>\<open>ValueError\<close> of an integer beyond the
  digit limit is not.
\<close>

definition load_state :: "conversions \<Rightarrow> pystr \<Rightarrow> bytes \<Rightarrow> NodeState res" where
  "load_state cv nid raw =
     (case read_text raw of
        Inl _ \<Rightarrow> Inl StateCorruptionError
      | Inr t \<Rightarrow>
          require (strip t \<noteq> []) StateCorruptionError
            (case json_loads t of
               Inl e \<Rightarrow> Inl (if e = JSONDecodeError then StateCorruptionError else e)
             | Inr data \<Rightarrow> state_from_dict cv data (Some nid)))"

text \<open>The bytes a write puts into the file.\<close>

definition encode_state :: "NodeState \<Rightarrow> bytes res" where
  "encode_state st = rbind (dump_indented (state_dict [] st)) (\<lambda>t. utf8_encode (t @ [10]))"

text \<open>
  The atomic replacement: the new content of the file, or the exception with the old file.
\<close>

definition replace_state :: "pystr \<Rightarrow> bool \<Rightarrow> NodeState \<Rightarrow> bytes option \<Rightarrow> NodeState res \<times> bytes option" where
  "replace_state now ok st file =
     (let st' = st\<lparr>ns_updated_at := now\<rparr> in
      case encode_state st' of
        Inl e \<Rightarrow> (Inl e, file)
      | Inr raw \<Rightarrow> if ok then (Inr st', Some raw) else (Inl OSError, file))"

section \<open>The store\<close>

record StateStore =
  ss_node_id :: pystr
  ss_key_id :: pystr
  ss_locked :: bool
  ss_state :: "NodeState option"
  ss_file :: "bytes option"

definition state_read :: "conversions \<Rightarrow> StateStore \<Rightarrow> NodeState res \<times> StateStore" where
  "state_read cv s =
     (if \<not> ss_locked s then (Inl StateStoreError, s)
      else
        (case ss_file s of
           None \<Rightarrow>
             (let st = zero_state (ss_node_id s) (PyStr (ss_key_id s)) in (Inr st, s\<lparr>ss_state := Some st\<rparr>))
         | Some raw \<Rightarrow>
             if length raw > MAX_STATE_BYTES then (Inl StateCorruptionError, s)
             else
               (case load_state cv (ss_node_id s) raw of
                  Inl e \<Rightarrow> (Inl e, s)
                | Inr st \<Rightarrow> (Inr st, s\<lparr>ss_state := Some st\<rparr>))))"

definition state_write :: "pystr \<Rightarrow> bool \<Rightarrow> NodeState \<Rightarrow> StateStore \<Rightarrow> unit res \<times> StateStore" where
  "state_write now ok st s =
     (if \<not> ss_locked s then (Inl StateStoreError, s)
      else
        (case replace_state now ok st (ss_file s) of
           (Inl e, _) \<Rightarrow> (Inl e, s)
         | (Inr st', file) \<Rightarrow> (Inr (), s\<lparr>ss_file := file, ss_state := Some st'\<rparr>)))"

text \<open>\<^verbatim>\<open>a or b\<close>.\<close>

definition py_or :: "pyval \<Rightarrow> pyval \<Rightarrow> pyval" where
  "py_or a b = (if truthy a then a else b)"

definition key_arg :: "pystr option \<Rightarrow> pyval" where
  "key_arg k = (case k of None \<Rightarrow> PyNone | Some x \<Rightarrow> PyStr x)"

text \<open>What \<^verbatim>\<open>commit\<close> and \<^verbatim>\<open>recover_from\<close> return after their checks.\<close>

definition state_persist :: "pystr \<Rightarrow> bool \<Rightarrow> NodeState \<Rightarrow> StateStore \<Rightarrow> NodeState res \<times> StateStore" where
  "state_persist now ok st s =
     (case state_write now ok st s of
        (Inl e, s') \<Rightarrow> (Inl e, s')
      | (Inr _, s') \<Rightarrow> (Inr (st\<lparr>ns_updated_at := now\<rparr>), s'))"

definition state_commit ::
  "conversions \<Rightarrow> pystr \<Rightarrow> bool \<Rightarrow> int \<Rightarrow> pystr \<Rightarrow> pystr option \<Rightarrow> StateStore \<Rightarrow> NodeState res \<times> StateStore"
where
  "state_commit cv now ok sq h kid s =
     (if \<not> ss_locked s then (Inl StateStoreError, s)
      else
        (case (case ss_state s of Some st \<Rightarrow> (Inr st, s) | None \<Rightarrow> state_read cv s) of
           (Inl e, s1) \<Rightarrow> (Inl e, s1)
         | (Inr st, s1) \<Rightarrow>
             if sq \<le> ns_last_sequence st then (Inl StateStoreError, s1)
             else if sq \<noteq> ns_last_sequence st + 1 then (Inl StateStoreError, s1)
             else
               state_persist now ok
                 \<lparr>ns_node_id = (if ns_node_id st \<noteq> [] then ns_node_id st else ss_node_id s1),
                  ns_key_id = py_or (key_arg kid) (py_or (PyStr (ss_key_id s1)) (ns_key_id st)),
                  ns_last_sequence = sq, ns_last_event_hash = Some h,
                  ns_format_version = EVIDENCE_FORMAT_VERSION, ns_updated_at = []\<rparr> s1))"

definition state_reset :: "pystr \<Rightarrow> bool \<Rightarrow> pystr option \<Rightarrow> StateStore \<Rightarrow> NodeState res \<times> StateStore" where
  "state_reset now ok kid s =
     (if \<not> ss_locked s then (Inl StateStoreError, s)
      else state_persist now ok (zero_state (ss_node_id s) (py_or (key_arg kid) (PyStr (ss_key_id s)))) s)"

definition state_recover_from ::
  "conversions \<Rightarrow> pystr \<Rightarrow> bool \<Rightarrow> int \<Rightarrow> pystr \<Rightarrow> pystr option \<Rightarrow> StateStore \<Rightarrow> NodeState res \<times> StateStore"
where
  "state_recover_from cv now ok sq h kid s =
     (if \<not> ss_locked s then (Inl StateStoreError, s)
      else
        (case state_read cv s of
           (Inl e, s1) \<Rightarrow> (Inl e, s1)
         | (Inr st, s1) \<Rightarrow>
             if sq < ns_last_sequence st then (Inl StateStoreError, s1)
             else
               state_persist now ok
                 \<lparr>ns_node_id = ss_node_id s1,
                  ns_key_id = py_or (key_arg kid) (py_or (PyStr (ss_key_id s1)) (ns_key_id st)),
                  ns_last_sequence = sq, ns_last_event_hash = Some h,
                  ns_format_version = EVIDENCE_FORMAT_VERSION, ns_updated_at = []\<rparr> s1))"

section \<open>The lock\<close>

text \<open>
  The advisory lock as the loop sees it: the outcome of the \<open>k\<close>-th attempt
  (\<^verbatim>\<open>flock\<close> with \<^verbatim>\<open>LOCK_NB\<close>: taken, held by another process, or another
  \<^verbatim>\<open>OSError\<close>) and the monotonic clock in milliseconds, first when the deadline is
  computed, then after each attempt.
\<close>

datatype lock_try = Acquired | Busy | Failed

record lock_env =
  try_lock :: "nat \<Rightarrow> lock_try"
  monotonic :: "nat \<Rightarrow> int"

partial_function (option) lock_loop :: "lock_env \<Rightarrow> int \<Rightarrow> nat \<Rightarrow> unit res option" where
  "lock_loop le deadline k =
     (case try_lock le k of
        Acquired \<Rightarrow> Some (Inr ())
      | Failed \<Rightarrow> Some (Inl StateLockError)
      | Busy \<Rightarrow>
          if deadline \<le> monotonic le (Suc k) then Some (Inl StateLockError)
          else lock_loop le deadline (Suc k))"

definition lock_exclusive :: "lock_env \<Rightarrow> int \<Rightarrow> unit res option" where
  "lock_exclusive le timeout = lock_loop le (monotonic le 0 + max timeout 0) 0"

definition state_acquire :: "lock_env \<Rightarrow> int \<Rightarrow> StateStore \<Rightarrow> (unit res \<times> StateStore) option" where
  "state_acquire le timeout s =
     (if ss_locked s then Some (Inr (), s)
      else
        (case lock_exclusive le timeout of
           None \<Rightarrow> None
         | Some (Inl e) \<Rightarrow> Some (Inl e, s)
         | Some (Inr _) \<Rightarrow> Some (Inr (), s\<lparr>ss_locked := True\<rparr>)))"

definition state_release :: "StateStore \<Rightarrow> StateStore" where
  "state_release s = (if ss_locked s then s\<lparr>ss_locked := False\<rparr> else s)"

lemma lock_loop_stops:
  assumes "\<And>j. monotonic le (Suc j) + 1 \<le> monotonic le (Suc (Suc j))"
  shows "\<exists>m r. k \<le> m \<and> lock_loop le deadline k = Some r
    \<and> (\<forall>j. k \<le> j \<and> j < m \<longrightarrow> try_lock le j = Busy \<and> monotonic le (Suc j) < deadline)
    \<and> (case r of Inr _ \<Rightarrow> try_lock le m = Acquired
        | Inl e \<Rightarrow> e = StateLockError
            \<and> (try_lock le m = Failed \<or> try_lock le m = Busy \<and> deadline \<le> monotonic le (Suc m)))"
proof (induction "nat (deadline - monotonic le (Suc k))" arbitrary: k rule: less_induct)
  case less
  show ?case
  proof (cases "try_lock le k = Busy \<and> monotonic le (Suc k) < deadline")
    case True
    then have "nat (deadline - monotonic le (Suc (Suc k))) < nat (deadline - monotonic le (Suc k))"
      using assms [of k] by simp
    from less [OF this] obtain m r where m: "Suc k \<le> m" "lock_loop le deadline (Suc k) = Some r"
        "\<forall>j. Suc k \<le> j \<and> j < m \<longrightarrow> try_lock le j = Busy \<and> monotonic le (Suc j) < deadline"
        "case r of Inr _ \<Rightarrow> try_lock le m = Acquired
          | Inl e \<Rightarrow> e = StateLockError
              \<and> (try_lock le m = Failed \<or> try_lock le m = Busy \<and> deadline \<le> monotonic le (Suc m))"
      by blast
    have "lock_loop le deadline k = Some r" using True m(2) by (subst lock_loop.simps) simp
    moreover have "\<forall>j. k \<le> j \<and> j < m \<longrightarrow> try_lock le j = Busy \<and> monotonic le (Suc j) < deadline"
      using True m(3) by (metis le_antisym not_less_eq_eq)
    ultimately show ?thesis using m(1,4) by (intro exI [of _ m] exI [of _ r]) simp
  next
    case False
    let ?r = "if try_lock le k = Acquired then Inr () else Inl StateLockError"
    have "lock_loop le deadline k = Some ?r"
      using False by (subst lock_loop.simps) (auto split: lock_try.splits)
    with False show ?thesis
      by (intro exI [of _ k] exI [of _ ?r]) (cases "try_lock le k"; auto)
  qed
qed

text \<open>
  \<^bold>\<open>C21\<close>. Taking the lock always ends. If every retry is at least 50 milliseconds after the one
  before (the sleep of the loop), \<^verbatim>\<open>_lock_exclusive\<close> returns after at most one attempt
  more than fit into the timeout: with the lock when some attempt got it while all earlier ones
  were refused before the deadline, and with \<^verbatim>\<open>StateLockError\<close> otherwise.
\<close>

theorem lock_exclusive_terminates:
  assumes "\<And>j. monotonic le (Suc j) + 50 \<le> monotonic le (Suc (Suc j))" "monotonic le 0 \<le> monotonic le 1"
  shows "\<exists>m r. lock_exclusive le timeout = Some r \<and> (m = 0 \<or> 50 * (int m - 1) < max timeout 0)
    \<and> (\<forall>j<m. try_lock le j = Busy)
    \<and> (case r of Inr _ \<Rightarrow> try_lock le m = Acquired
        | Inl e \<Rightarrow> e = StateLockError \<and> try_lock le m \<noteq> Acquired)"
proof -
  let ?d = "monotonic le 0 + max timeout 0"
  have "monotonic le (Suc j) + 1 \<le> monotonic le (Suc (Suc j))" for j using assms(1) [of j] by simp
  from lock_loop_stops [of le 0, OF this, of ?d] obtain m r where r: "lock_loop le ?d 0 = Some r"
      "\<forall>j<m. try_lock le j = Busy \<and> monotonic le (Suc j) < ?d"
      "case r of Inr _ \<Rightarrow> try_lock le m = Acquired
        | Inl e \<Rightarrow> e = StateLockError
            \<and> (try_lock le m = Failed \<or> try_lock le m = Busy \<and> ?d \<le> monotonic le (Suc m))"
    by auto
  have steps: "monotonic le 0 + 50 * int j \<le> monotonic le (Suc j)" for j
  proof (induction j)
    case (Suc j)
    with assms(1) [of j] show ?case by simp
  qed (use assms(2) in simp)
  have "m = 0 \<or> 50 * (int m - 1) < max timeout 0"
  proof (cases m)
    case (Suc n)
    with r(2) steps [of n] show ?thesis by (auto dest: spec [of _ n])
  qed simp
  with r show ?thesis
    by (intro exI [of _ m] exI [of _ r]) (auto simp: lock_exclusive_def split: sum.splits)
qed

definition demo_lock :: lock_env where
  "demo_lock = \<lparr>try_lock = (\<lambda>k. if k < 2 then Busy else Acquired), monotonic = (\<lambda>k. 60 * int k)\<rparr>"

theorem lock_exclusive_terminates_witness:
  "\<exists>m r. lock_exclusive demo_lock 1000 = Some r \<and> (m = 0 \<or> 50 * (int m - 1) < max 1000 (0::int))
    \<and> (\<forall>j<m. try_lock demo_lock j = Busy)
    \<and> (case r of Inr _ \<Rightarrow> try_lock demo_lock m = Acquired
        | Inl e \<Rightarrow> e = StateLockError \<and> try_lock demo_lock m \<noteq> Acquired)"
  by (rule lock_exclusive_terminates) (simp_all add: demo_lock_def)

section \<open>The state file is read back\<close>

lemma hex_digit_range: "v < 16 \<Longrightarrow> 32 \<le> hex_digit v \<and> hex_digit v < 127"
  by (simp add: hex_digit_def)

lemma u_escape_range: "\<forall>c\<in>set (u_escape n). 32 \<le> c \<and> c < 127"
  by (simp add: u_escape_def hex4_def hex_digit_range)

lemma esc_char_range: "\<forall>x\<in>set (esc_char True c). 32 \<le> x \<and> x < 127"
  unfolding esc_char_def using u_escape_range by (simp add: ball_Un)

lemma quote_ascii: "c \<in> set (quote True s) \<Longrightarrow> 32 \<le> c \<and> c < 127"
  using esc_char_range by (auto simp: quote_def)

lemma dec_int_ascii: "c \<in> set (dec_int i) \<Longrightarrow> 32 \<le> c \<and> c < 127"
  using dec_nat_digits [of "nat (- i)"] dec_nat_digits [of "nat i"]
  by (auto simp: dec_int_def is_digit_def split: if_splits dest!: bspec [of _ _ c])

definition printable :: "pystr \<Rightarrow> bool" where
  "printable t \<longleftrightarrow> (\<forall>c\<in>set t. 32 \<le> c \<and> c < 127)"

lemma flat_printable:
  "\<lbrakk>dumps st v = Inr t; ensure_ascii st; flat v \<or> v = PyNone\<rbrakk> \<Longrightarrow> printable t"
  by (cases v) (auto simp: flat_def printable_def require_Inr_iff dest: quote_ascii dec_int_ascii)

lemma flat_items_printable:
  "\<lbrakk>dumps_items st d = Inr ts; ensure_ascii st; \<forall>kv\<in>set d. flat (snd kv) \<or> snd kv = PyNone; kt \<in> set ts\<rbrakk>
   \<Longrightarrow> printable (snd kt)"
proof (induction d arbitrary: ts)
  case (Cons kv d)
  then obtain k v t us where kv: "kv = (KStr k, v)" "dumps st v = Inr t" "dumps_items st d = Inr us" "ts = (k, t) # us"
    by (cases kv; cases "fst kv") (auto simp: rbind_Inr_iff)
  have "printable t" using flat_printable [OF kv(2)] Cons.prems kv(1) by auto
  with Cons kv show ?case by auto
qed simp

lemma dump_indented_chars:
  assumes "dump_indented d = Inr t" "\<forall>kv\<in>set d. flat (snd kv) \<or> snd kv = PyNone" "c \<in> set t"
  shows "c = 10 \<or> (32 \<le> c \<and> c < 127)"
proof -
  obtain ts where ts: "dumps_items indent_style d = Inr ts"
      "t = (if ts = [] then lit ''{}'' else [123, 10, 32, 32] @ join (item_sep indent_style)
         (map (member_text indent_style) (order_items indent_style ts)) @ [10, 125])"
    using assms(1) by (auto simp: dump_indented_def rbind_Inr_iff)
  have a: "ensure_ascii indent_style" by (simp add: indent_style_def)
  have m: "32 \<le> x \<and> x < 127" if "kt \<in> set ts" "x \<in> set (member_text indent_style kt)" for kt x
    using that flat_items_printable [OF ts(1) a assms(2) that(1)]
    by (auto simp: member_text_def a printable_def indent_style_def dest: quote_ascii)
  have "x = 10 \<or> (32 \<le> x \<and> x < 127)"
    if "x \<in> set (join (item_sep indent_style) (map (member_text indent_style) (order_items indent_style ts)))" for x
    using set_join [of "item_sep indent_style"] that m by (fastforce simp: indent_style_def)
  with ts(2) assms(3) show ?thesis by (auto split: if_splits)
qed

lemma read_text_ascii:
  assumes "\<forall>c\<in>set t. c = 10 \<or> (32 \<le> c \<and> c < 127)"
  shows "\<exists>raw. utf8_encode t = Inr raw \<and> length raw = length t \<and> read_text raw = Inr t
    \<and> raw = map byte_of t"
proof -
  have s: "list_all scalar t" using assms by (auto simp: list_all_iff scalar_def)
  moreover have "universal_newlines t = t" using assms by (intro universal_newlines_id) auto
  moreover have "concat (map utf8_char t) = map byte_of t"
  proof -
    have "map utf8_char t = map (\<lambda>c. [byte_of c]) t"
      using assms by (auto simp: utf8_char_def)
    then show ?thesis by (simp only: concat_map_singleton)
  qed
  ultimately show ?thesis
    using utf8.dec_enc [of t] by (simp add: utf8_encode_def read_text_def)
qed

text \<open>The states the program writes: every string has a UTF-8 form.\<close>

definition writable :: "NodeState \<Rightarrow> bool" where
  "writable st \<longleftrightarrow> list_all scalar (ns_node_id st) \<and> (\<exists>k. ns_key_id st = PyStr k \<and> list_all scalar k)
     \<and> (\<forall>h. ns_last_event_hash st = Some h \<longrightarrow> list_all scalar h)
     \<and> list_all scalar (ns_format_version st) \<and> list_all scalar (ns_updated_at st)"

lemma state_dict_ok:
  assumes "writable st"
  shows "json_ok (PyDict (state_dict [] st))" "\<forall>kv\<in>set (state_dict [] st). flat (snd kv) \<or> snd kv = PyNone"
  using assms
  by (auto simp: writable_def state_dict_def hash_value_def flat_def scalar_def split: option.splits)

lemma encode_state_read:
  assumes "writable st" "encode_state st = Inr raw"
  shows "\<exists>t d. read_text raw = Inr t \<and> strip t \<noteq> [] \<and> json_loads t = Inr (PyDict d)
    \<and> (\<forall>k. dict_get d k = dict_get (state_dict [] st) k)"
proof -
  obtain t where t: "dump_indented (state_dict [] st) = Inr t" "utf8_encode (t @ [10]) = Inr raw"
    using assms(2) by (auto simp: encode_state_def rbind_Inr_iff)
  note ok = state_dict_ok [OF assms(1)]
  have "\<forall>c\<in>set (t @ [10]). c = 10 \<or> (32 \<le> c \<and> c < 127)"
    using dump_indented_chars [OF t(1) ok(2)] by auto
  from read_text_ascii [OF this] t(2) have "read_text raw = Inr (t @ [10])" by auto
  moreover have "json_loads (t @ [10]) = Inr (canon indent_style (PyDict (state_dict [] st)))"
    using dump_indented_loads [OF ok(1) t(1)] by (simp add: state_dict_def)
  moreover have "strip (t @ [10]) \<noteq> []"
  proof -
    obtain t' where "t = 123 # t'" using t(1) by (auto simp: dump_indented_def rbind_Inr_iff split: if_splits)
    then show ?thesis by (simp add: strip_def py_space_def dropWhile_eq_Nil_conv)
  qed
  moreover have "distinct (map fst (canon_items indent_style (state_dict [] st)))"
    "canon_items indent_style (state_dict [] st) = state_dict [] st"
    using assms(1) by (auto simp: state_dict_def hash_value_def writable_def split: option.splits)
  ultimately show ?thesis by (intro exI [of _ "t @ [10]"]) (auto simp: dict_get_order)
qed

text \<open>What validation accepts, in terms of the fields of the document.\<close>

lemma state_from_dict_Inr:
  "state_from_dict cv (PyDict d) (Some nid) = Inr st \<longleftrightarrow>
   (\<exists>k sq. nid \<noteq> [] \<and> k \<noteq> [] \<and> dict_get d (lit ''node_id'') = Some (PyStr nid)
     \<and> dict_get d (lit ''key_id'') = Some (PyStr k)
     \<and> dict_get d (lit ''last_sequence'') = Some (PyInt sq) \<and> 0 \<le> sq
     \<and> state_hash_ok (get_or d (lit ''last_event_hash'') PyNone)
     \<and> (sq = 0 \<longleftrightarrow> get_or d (lit ''last_event_hash'') PyNone = PyNone)
     \<and> dict_get d (lit ''format_version'') = Some (PyStr EVIDENCE_FORMAT_VERSION)
     \<and> st = \<lparr>ns_node_id = nid, ns_key_id = PyStr k, ns_last_sequence = sq,
             ns_last_event_hash = (case get_or d (lit ''last_event_hash'') PyNone of PyStr h \<Rightarrow> Some h | _ \<Rightarrow> None),
             ns_format_version = EVIDENCE_FORMAT_VERSION,
             ns_updated_at = py_str cv (get_or d (lit ''updated_at'') (PyStr []))\<rparr>)"
  by (auto simp: state_from_dict_def state_position_def nonempty_str_def res_iff STATE_FIELDS_def
      dict_has_iff dict_item_Inr Let_def simp del: lit_simps)

lemma load_state_Inr:
  assumes "read_text raw = Inr t" "strip t \<noteq> []" "json_loads t = Inr (PyDict d)"
  shows "load_state cv nid raw = state_from_dict cv (PyDict d) (Some nid)"
  using assms by (simp add: load_state_def)

lemma load_state_dict:
  assumes "load_state cv nid raw = Inr st"
  shows "\<exists>t d. read_text raw = Inr t \<and> json_loads t = Inr (PyDict d)
    \<and> state_from_dict cv (PyDict d) (Some nid) = Inr st"
proof -
  obtain t v where t: "read_text raw = Inr t" "json_loads t = Inr v" "state_from_dict cv v (Some nid) = Inr st"
    using assms by (auto simp: load_state_def res_iff split: sum.splits)
  then obtain d where "v = PyDict d" by (cases v) (auto simp: state_from_dict_def)
  with t show ?thesis by blast
qed

text \<open>The states that validation accepts.\<close>

definition valid_state :: "NodeState \<Rightarrow> bool" where
  "valid_state st \<longleftrightarrow> writable st \<and> ns_node_id st \<noteq> [] \<and> truthy (ns_key_id st)
     \<and> 0 \<le> ns_last_sequence st \<and> (ns_last_sequence st = 0 \<longleftrightarrow> ns_last_event_hash st = None)
     \<and> state_hash_ok (hash_value (ns_last_event_hash st)) \<and> ns_format_version st = EVIDENCE_FORMAT_VERSION"

lemma state_dict_get [simp]:
  "dict_get (state_dict now st) (lit ''node_id'') = Some (PyStr (ns_node_id st))"
  "dict_get (state_dict now st) (lit ''key_id'') = Some (ns_key_id st)"
  "dict_get (state_dict now st) (lit ''last_sequence'') = Some (PyInt (ns_last_sequence st))"
  "dict_get (state_dict now st) (lit ''last_event_hash'') = Some (hash_value (ns_last_event_hash st))"
  "dict_get (state_dict now st) (lit ''format_version'') = Some (PyStr (ns_format_version st))"
  "dict_get (state_dict now st) (lit ''updated_at'')
     = Some (PyStr (if ns_updated_at st = [] then now else ns_updated_at st))"
  by (simp_all add: state_dict_def)

lemma state_encode_load:
  assumes "valid_state st" "encode_state st = Inr raw"
  shows "load_state cv (ns_node_id st) raw = Inr st"
proof -
  obtain t d where d: "read_text raw = Inr t" "strip t \<noteq> []" "json_loads t = Inr (PyDict d)"
      "\<forall>k. dict_get d k = dict_get (state_dict [] st) k"
    using encode_state_read [OF _ assms(2)] assms(1) by (auto simp: valid_state_def)
  obtain k where k: "ns_key_id st = PyStr k" "k \<noteq> []"
    using assms(1) by (auto simp: valid_state_def writable_def truthy_def)
  have "state_from_dict cv (PyDict d) (Some (ns_node_id st)) = Inr st"
    unfolding state_from_dict_Inr
    using assms(1) k d(4)
    by (intro exI [of _ k] exI [of _ "ns_last_sequence st"])
      (auto simp: valid_state_def get_or_def hash_value_def simp del: lit_simps split: option.splits)
  with load_state_Inr [OF d(1-3)] show ?thesis by simp
qed

lemma encode_state_total:
  assumes "writable st" "int_digits_ok (ns_last_sequence st)"
  shows "\<exists>raw. encode_state st = Inr raw"
proof -
  obtain k where k: "ns_key_id st = PyStr k" using assms(1) by (auto simp: writable_def)
  have "\<exists>ts. dumps_items indent_style (state_dict [] st) = Inr ts"
    using assms(2) k by (cases "ns_last_event_hash st") (simp_all add: state_dict_def hash_value_def del: lit_simps)
  then obtain t where t: "dump_indented (state_dict [] st) = Inr t" by (auto simp: dump_indented_def)
  then have "\<forall>c\<in>set (t @ [10]). c = 10 \<or> (32 \<le> c \<and> c < 127)"
    using dump_indented_chars [OF t state_dict_ok(2) [OF assms(1)]] by auto
  from read_text_ascii [OF this] t show ?thesis by (auto simp: encode_state_def)
qed

section \<open>Ordering safety\<close>

text \<open>The sequence number a state file holds, whether or not the rest of it is valid.\<close>

definition raw_sequence :: "bytes option \<Rightarrow> int" where
  "raw_sequence file =
     (case file of
        None \<Rightarrow> 0
      | Some raw \<Rightarrow>
          (case rbind (read_text raw) json_loads of
             Inr (PyDict d) \<Rightarrow> (case dict_get d (lit ''last_sequence'') of Some (PyInt i) \<Rightarrow> i | _ \<Rightarrow> 0)
           | _ \<Rightarrow> 0))"

lemma load_state_sequence: "load_state cv nid raw = Inr st \<Longrightarrow> raw_sequence (Some raw) = ns_last_sequence st"
  using load_state_dict [of cv nid raw st]
  by (auto simp: raw_sequence_def state_from_dict_Inr simp del: lit_simps)

lemma encode_state_sequence:
  "\<lbrakk>writable st; encode_state st = Inr raw\<rbrakk> \<Longrightarrow> raw_sequence (Some raw) = ns_last_sequence st"
  using encode_state_read [of st raw] by (auto simp: raw_sequence_def simp del: lit_simps)

text \<open>The operations a signer uses; \<^verbatim>\<open>reset\<close> starts a new chain on purpose and is left out.\<close>

datatype state_op =
    ReadState
  | Commit int pystr "pystr option"
  | RecoverFrom int pystr "pystr option"

definition state_step ::
  "conversions \<Rightarrow> StateStore \<Rightarrow> pystr \<times> bool \<times> state_op \<Rightarrow> NodeState res \<times> StateStore"
where
  "state_step cv s = (\<lambda>(now, ok, op).
     (case op of
        ReadState \<Rightarrow> state_read cv s
      | Commit sq h kid \<Rightarrow> state_commit cv now ok sq h kid s
      | RecoverFrom sq h kid \<Rightarrow> state_recover_from cv now ok sq h kid s))"

definition op_texts :: "state_op \<Rightarrow> pystr list" where
  "op_texts op = (case op of ReadState \<Rightarrow> [] | Commit _ h k \<Rightarrow> [h, case k of None \<Rightarrow> [] | Some x \<Rightarrow> x]
     | RecoverFrom _ h k \<Rightarrow> [h, case k of None \<Rightarrow> [] | Some x \<Rightarrow> x])"

text \<open>Arguments that are texts with a UTF-8 form.\<close>

definition legal_op :: "pystr \<times> bool \<times> state_op \<Rightarrow> bool" where
  "legal_op = (\<lambda>(now, ok, op). list_all scalar now \<and> (\<forall>t\<in>set (op_texts op). list_all scalar t))"

definition text_ids :: "NodeState \<Rightarrow> bool" where
  "text_ids st \<longleftrightarrow> list_all scalar (ns_node_id st) \<and> (\<exists>k. ns_key_id st = PyStr k \<and> list_all scalar k)"

definition store_inv :: "conversions \<Rightarrow> StateStore \<Rightarrow> bool" where
  "store_inv cv s \<longleftrightarrow> list_all scalar (ss_node_id s) \<and> list_all scalar (ss_key_id s)
     \<and> (\<forall>st. ss_state s = Some st \<longrightarrow> text_ids st \<and> raw_sequence (ss_file s) = ns_last_sequence st)
     \<and> (\<forall>raw st. ss_file s = Some raw \<longrightarrow> load_state cv (ss_node_id s) raw = Inr st \<longrightarrow> text_ids st)"

lemma state_read_inv:
  assumes "store_inv cv s" "state_read cv s = (r, s')"
  shows "store_inv cv s' \<and> ss_file s' = ss_file s \<and> ss_node_id s' = ss_node_id s \<and> ss_key_id s' = ss_key_id s
    \<and> (\<forall>st. r = Inr st \<longrightarrow> ss_state s' = Some st)"
proof (cases "ss_locked s")
  case True
  show ?thesis
  proof (cases "ss_file s")
    case None
    with True assms show ?thesis
      by (auto simp: state_read_def Let_def store_inv_def text_ids_def zero_state_def raw_sequence_def)
  next
    case (Some raw)
    have "text_ids st \<and> raw_sequence (Some raw) = ns_last_sequence st" if "load_state cv (ss_node_id s) raw = Inr st" for st
      using that assms(1) Some load_state_sequence by (auto simp: store_inv_def)
    with True Some assms show ?thesis
      by (auto simp: state_read_def store_inv_def split: if_splits sum.splits)
  qed
qed (use assms in \<open>auto simp: state_read_def\<close>)

lemma state_persist_inv:
  assumes "store_inv cv s" "writable (st\<lparr>ns_updated_at := now\<rparr>)" "raw_sequence (ss_file s) \<le> ns_last_sequence st"
  shows "store_inv cv (snd (state_persist now ok st s))
    \<and> raw_sequence (ss_file s) \<le> raw_sequence (ss_file (snd (state_persist now ok st s)))"
proof (cases "encode_state (st\<lparr>ns_updated_at := now\<rparr>)")
  case (Inl e)
  with assms(1) show ?thesis by (simp add: state_persist_def state_write_def replace_state_def)
next
  case (Inr raw)
  let ?st = "st\<lparr>ns_updated_at := now\<rparr>"
  have sq: "raw_sequence (Some raw) = ns_last_sequence st"
    using encode_state_sequence [OF assms(2) Inr] by simp
  have ids: "text_ids st2" if l: "load_state cv nid raw = Inr st2" for st2 nid
  proof -
    obtain t d where d: "read_text raw = Inr t" "json_loads t = Inr (PyDict d)"
        "\<forall>k. dict_get d k = dict_get (state_dict [] ?st) k"
      using encode_state_read [OF assms(2) Inr] by blast
    moreover obtain t2 d2 where "read_text raw = Inr t2" "json_loads t2 = Inr (PyDict d2)"
        "state_from_dict cv (PyDict d2) (Some nid) = Inr st2"
      using load_state_dict [OF l] by blast
    ultimately have "ns_node_id st2 = ns_node_id ?st" "ns_key_id st2 = ns_key_id ?st"
      by (auto simp: state_from_dict_Inr simp del: lit_simps)
    then show ?thesis using assms(2) by (auto simp: text_ids_def writable_def)
  qed
  have "text_ids ?st" using assms(2) by (auto simp: writable_def text_ids_def)
  with Inr sq ids assms(1,3) show ?thesis
    by (auto simp: state_persist_def state_write_def replace_state_def Let_def store_inv_def)
qed

lemma key_choice_text:
  assumes "\<exists>k. v = PyStr k \<and> list_all scalar k" "list_all scalar b" "\<forall>k. a = Some k \<longrightarrow> list_all scalar k"
  shows "\<exists>k. py_or (key_arg a) (py_or (PyStr b) v) = PyStr k \<and> list_all scalar k"
  using assms by (auto simp: py_or_def key_arg_def truthy_def split: option.splits)

lemma state_advance_inv:
  assumes "store_inv cv s" "ss_state s = Some st" "legal_op (now, ok, Commit sq h kid)" "list_all scalar nid"
    and "ns_last_sequence st \<le> sq"
    and "st' = \<lparr>ns_node_id = nid, ns_key_id = py_or (key_arg kid) (py_or (PyStr (ss_key_id s)) (ns_key_id st)),
      ns_last_sequence = sq, ns_last_event_hash = Some h, ns_format_version = EVIDENCE_FORMAT_VERSION, ns_updated_at = []\<rparr>"
  shows "store_inv cv (snd (state_persist now ok st' s))
    \<and> raw_sequence (ss_file s) \<le> raw_sequence (ss_file (snd (state_persist now ok st' s)))"
proof (rule state_persist_inv [OF assms(1)])
  have "\<exists>k. py_or (key_arg kid) (py_or (PyStr (ss_key_id s)) (ns_key_id st)) = PyStr k \<and> list_all scalar k"
    using assms(1-3) by (intro key_choice_text) (auto simp: store_inv_def text_ids_def legal_op_def op_texts_def)
  moreover have "list_all scalar EVIDENCE_FORMAT_VERSION" by (simp add: EVIDENCE_FORMAT_VERSION_def scalar_def)
  ultimately show "writable (st'\<lparr>ns_updated_at := now\<rparr>)"
    using assms(3,4,6) by (simp add: writable_def legal_op_def op_texts_def)
  show "raw_sequence (ss_file s) \<le> ns_last_sequence st'"
    using assms(1,2,5,6) by (auto simp: store_inv_def)
qed

lemma state_step_inv:
  assumes "store_inv cv s" "legal_op i"
  shows "store_inv cv (snd (state_step cv s i))
    \<and> raw_sequence (ss_file s) \<le> raw_sequence (ss_file (snd (state_step cv s i)))"
proof -
  obtain now ok op where i: "i = (now, ok, op)" by (cases i)
  obtain r s0 where r: "state_read cv s = (r, s0)" by (cases "state_read cv s")
  note read = state_read_inv [OF assms(1) r]
  show ?thesis
  proof (cases op)
    case ReadState
    with read r i show ?thesis by (simp add: state_step_def)
  next
    case (RecoverFrom sq h kid)
    have l: "legal_op (now, ok, Commit sq h kid)" using assms(2) i RecoverFrom by (simp add: legal_op_def op_texts_def)
    have n: "list_all scalar (ss_node_id s0)" using conjunct1 [OF read] by (simp add: store_inv_def)
    show ?thesis
    proof (cases r)
      case (Inl e)
      with read r i RecoverFrom assms(1) show ?thesis by (simp add: state_step_def state_recover_from_def)
    next
      case (Inr st)
      from state_advance_inv [OF conjunct1 [OF read] _ l n _ refl, of st] read r i RecoverFrom assms(1) Inr
      show ?thesis by (simp add: state_step_def state_recover_from_def)
    qed
  next
    case (Commit sq h kid)
    have l: "legal_op (now, ok, Commit sq h kid)" using assms(2) i Commit by simp
    obtain r1 s1 where p: "(case ss_state s of Some st \<Rightarrow> (Inr st, s) | None \<Rightarrow> state_read cv s) = (r1, s1)"
      by fastforce
    then have s1: "store_inv cv s1" "ss_file s1 = ss_file s" "\<And>st. r1 = Inr st \<Longrightarrow> ss_state s1 = Some st"
      using read r assms(1) by (auto split: option.splits)
    show ?thesis
    proof (cases r1)
      case (Inl e)
      with s1 p i Commit assms(1) show ?thesis by (simp add: state_step_def state_commit_def)
    next
      case (Inr st)
      have "list_all scalar (if ns_node_id st \<noteq> [] then ns_node_id st else ss_node_id s1)"
        using s1(1) s1(3) [OF Inr] by (auto simp: store_inv_def text_ids_def)
      from state_advance_inv [OF s1(1) s1(3) [OF Inr] l this _ refl] s1(1,2) Inr p i Commit assms(1)
      show ?thesis by (cases "ns_node_id st = []"; cases "sq = ns_last_sequence st + 1")
        (simp_all add: state_step_def state_commit_def)
    qed
  qed
qed

interpretation state_machine: monotone_machine "state_step cv" "store_inv cv" legal_op "\<lambda>s. raw_sequence (ss_file s)" for cv
  by unfold_locales (simp_all add: state_step_inv)

text \<open>
  \<^bold>\<open>C20\<close>. Ordering safety of the state store: whatever sequence of reads, commits and
  recoveries is tried, in whatever order, with whatever arguments and however many of the writes
  fail, the sequence number in the state file never decreases.
\<close>

theorem state_sequence_monotone:
  assumes "store_inv cv s" "list_all legal_op ops"
  shows "raw_sequence (ss_file s) \<le> raw_sequence (ss_file (foldl (\<lambda>s i. snd (state_step cv s i)) s ops))"
  by (rule state_machine.foldl_rank [OF assms])

definition demo_conversions :: conversions where
  "demo_conversions = \<lparr>repr_of = (\<lambda>_. []), int_of_text = (\<lambda>_. Inl ValueError)\<rparr>"

definition fresh_store :: "pystr \<Rightarrow> pystr \<Rightarrow> StateStore" where
  "fresh_store nid kid = \<lparr>ss_node_id = nid, ss_key_id = kid, ss_locked = True, ss_state = None, ss_file = None\<rparr>"

theorem state_sequence_monotone_witness:
  "raw_sequence (ss_file (fresh_store (lit ''n'') (lit ''k'')))
    \<le> raw_sequence (ss_file (foldl (\<lambda>s i. snd (state_step demo_conversions s i)) (fresh_store (lit ''n'') (lit ''k''))
        [(lit ''t'', True, Commit 1 (replicate 64 97) None), (lit ''t'', True, RecoverFrom 0 (lit ''x'') None)]))"
  by (rule state_sequence_monotone)
    (simp_all add: fresh_store_def store_inv_def legal_op_def op_texts_def scalar_def list_all_iff)

text \<open>
  A commit is durable and exact: it succeeds only for the number that follows the
  current one, and when it has returned, a new store opened on the file reads exactly the
  committed state.
\<close>

theorem state_commit_durable:
  assumes "state_commit cv now ok sq h kid s = (Inr st, s')" "ss_state s = Some st0" "text_ids st0"
    and "ns_node_id st0 = ss_node_id s" "ss_node_id s \<noteq> []" "truthy (ns_key_id st)" "0 \<le> ns_last_sequence st0"
    and "length h = 64" "list_all hex_lower h" "legal_op (now, ok, Commit sq h kid)" "list_all scalar (ss_key_id s)"
  shows "sq = ns_last_sequence st0 + 1 \<and> ns_last_sequence st = sq \<and> ns_last_event_hash st = Some h
    \<and> (\<exists>raw. ss_file s' = Some raw \<and> load_state cv (ss_node_id s) raw = Inr st)"
proof -
  define st1 where "st1 = \<lparr>ns_node_id = ss_node_id s,
    ns_key_id = py_or (key_arg kid) (py_or (PyStr (ss_key_id s)) (ns_key_id st0)),
    ns_last_sequence = sq, ns_last_event_hash = Some h, ns_format_version = EVIDENCE_FORMAT_VERSION, ns_updated_at = now\<rparr>"
  have p: "sq = ns_last_sequence st0 + 1" "st = st1" "\<exists>raw. encode_state st1 = Inr raw \<and> ss_file s' = Some raw"
    using assms(1,2,4,5)
    by (auto simp: state_commit_def state_persist_def state_write_def replace_state_def Let_def st1_def
        split: if_splits sum.splits prod.splits)
  have "\<exists>k. ns_key_id st1 = PyStr k \<and> list_all scalar k"
    using assms(3,10,11) unfolding st1_def NodeState.select_convs
    by (intro key_choice_text) (auto simp: text_ids_def legal_op_def op_texts_def)
  then have "valid_state st1"
    using assms p(1,2) by (auto simp: valid_state_def writable_def st1_def text_ids_def state_hash_ok_def hash_value_def
        EVIDENCE_FORMAT_VERSION_def scalar_def legal_op_def op_texts_def)
  moreover have "ns_node_id st1 = ss_node_id s" by (simp add: st1_def)
  ultimately show ?thesis using p state_encode_load [of st1] by (auto simp: st1_def)
qed

definition demo_store :: StateStore where
  "demo_store = (fresh_store (lit ''n'') (lit ''k''))\<lparr>ss_state := Some (zero_state (lit ''n'') (PyStr (lit ''k'')))\<rparr>"

theorem state_commit_durable_witness:
  "\<exists>st s'. state_commit demo_conversions (lit ''t'') True 1 (replicate 64 97) None demo_store = (Inr st, s')
    \<and> (\<exists>raw. ss_file s' = Some raw \<and> load_state demo_conversions (lit ''n'') raw = Inr st)"
proof -
  let ?st = "\<lparr>ns_node_id = lit ''n'', ns_key_id = PyStr (lit ''k''), ns_last_sequence = 1,
    ns_last_event_hash = Some (replicate 64 97), ns_format_version = EVIDENCE_FORMAT_VERSION, ns_updated_at = lit ''t''\<rparr>"
  have "\<exists>raw. encode_state ?st = Inr raw"
    by (rule encode_state_total)
      (simp_all add: writable_def scalar_def EVIDENCE_FORMAT_VERSION_def list_all_iff int_digits_ok_def
        MAX_STR_DIGITS_def dec_nat.simps)
  then obtain raw where "encode_state ?st = Inr raw" by blast
  then have run: "state_commit demo_conversions (lit ''t'') True 1 (replicate 64 97) None demo_store
      = (Inr ?st, demo_store\<lparr>ss_file := Some raw, ss_state := Some ?st\<rparr>)"
    by (simp add: state_commit_def demo_store_def fresh_store_def zero_state_def state_persist_def
        state_write_def replace_state_def Let_def py_or_def key_arg_def truthy_def)
  have "1 = ns_last_sequence (zero_state (lit ''n'') (PyStr (lit ''k''))) + 1 \<and> ns_last_sequence ?st = 1
    \<and> ns_last_event_hash ?st = Some (replicate 64 97)
    \<and> (\<exists>raw'. ss_file (demo_store\<lparr>ss_file := Some raw, ss_state := Some ?st\<rparr>) = Some raw'
        \<and> load_state demo_conversions (ss_node_id demo_store) raw' = Inr ?st)"
    by (rule state_commit_durable [OF run])
      (simp_all add: demo_store_def fresh_store_def zero_state_def text_ids_def truthy_def legal_op_def op_texts_def
        scalar_def list_all_iff hex_lower_def)
  with run show ?thesis by (auto simp: demo_store_def fresh_store_def simp del: lit_simps)
qed

text \<open>
  The state file round trip: every state that validation accepts can be written (while
  its number has at most 4300 digits), and reading the file back yields the same state.
\<close>

theorem state_file_roundtrip:
  assumes "valid_state st" "int_digits_ok (ns_last_sequence st)"
  shows "\<exists>raw. encode_state st = Inr raw \<and> load_state cv (ns_node_id st) raw = Inr st"
  using encode_state_total [OF _ assms(2)] state_encode_load [OF assms(1)] assms(1)
  by (auto simp: valid_state_def)

theorem state_file_roundtrip_witness:
  "\<exists>raw. encode_state (zero_state (lit ''n'') (PyStr (lit ''k''))) = Inr raw
    \<and> load_state demo_conversions (ns_node_id (zero_state (lit ''n'') (PyStr (lit ''k'')))) raw
      = Inr (zero_state (lit ''n'') (PyStr (lit ''k'')))"
  by (rule state_file_roundtrip)
    (simp_all add: zero_state_def valid_state_def writable_def scalar_def truthy_def state_hash_ok_def hash_value_def
      EVIDENCE_FORMAT_VERSION_def int_digits_ok_def MAX_STR_DIGITS_def dec_nat.simps)

text \<open>
  \<^verbatim>\<open>recover_from\<close> does not validate the position it is given. Called with
  sequence 0 on a fresh store it succeeds and writes a state file that every later read rejects
  as corrupt.
\<close>

theorem recover_from_zero_corrupts:
  assumes "legal_op (now, True, Commit 0 h None)" "list_all scalar nid" "list_all scalar kid" "kid \<noteq> []"
  shows "\<exists>st s'. state_recover_from cv now True 0 h None (fresh_store nid kid) = (Inr st, s')
    \<and> fst (state_read cv s') = Inl StateCorruptionError"
proof -
  let ?st = "\<lparr>ns_node_id = nid, ns_key_id = PyStr kid, ns_last_sequence = 0, ns_last_event_hash = Some h,
    ns_format_version = EVIDENCE_FORMAT_VERSION, ns_updated_at = now\<rparr>"
  have w: "writable ?st"
    using assms by (simp add: writable_def legal_op_def op_texts_def EVIDENCE_FORMAT_VERSION_def scalar_def)
  then obtain raw where raw: "encode_state ?st = Inr raw"
    using encode_state_total [of ?st] by (auto simp: int_digits_ok_def MAX_STR_DIGITS_def dec_nat.simps)
  obtain t d where d: "read_text raw = Inr t" "strip t \<noteq> []" "json_loads t = Inr (PyDict d)"
      "\<forall>k. dict_get d k = dict_get (state_dict [] ?st) k"
    using encode_state_read [OF w raw] by blast
  have "state_from_dict cv (PyDict d) (Some nid) = Inl StateCorruptionError"
    using d(4) assms(4)
    by (auto simp: state_from_dict_def state_position_def nonempty_str_def require_def STATE_FIELDS_def dict_has_iff
        dict_item_def get_or_def hash_value_def state_hash_ok_def Let_def simp del: lit_simps)
  then have "load_state cv nid raw = Inl StateCorruptionError" using load_state_Inr [OF d(1-3)] by simp
  with raw assms(4) show ?thesis
    by (auto simp: state_recover_from_def state_read_def fresh_store_def zero_state_def state_persist_def
        state_write_def replace_state_def Let_def py_or_def key_arg_def truthy_def)
qed

theorem recover_from_zero_corrupts_witness:
  "\<exists>st s'. state_recover_from demo_conversions (lit ''t'') True 0 (lit ''x'') None (fresh_store (lit ''n'') (lit ''k''))
      = (Inr st, s')
    \<and> fst (state_read demo_conversions s') = Inl StateCorruptionError"
  by (rule recover_from_zero_corrupts) (simp_all add: legal_op_def op_texts_def scalar_def)

end
