(* ===== verification/EvidenceStore.thy ===== *)
theory EvidenceStore
  imports StateStore
begin

text \<open>
  \<^verbatim>\<open>pqc_evidence/evidence_store.py\<close>: the transaction that appends one signed record, and
  the recovery that completes or rolls back an interrupted one. A store works on a \<open>disk\<close>: the
  bytes of the state file, of the write-ahead journal and of the evidence log (\<open>None\<close> when the
  file is absent), and the side files recovery leaves. Every operation maps the store object and
  the disk to its result and to what it leaves behind, also when it raises. The operating system
  enters as an \<open>osenv\<close>: clock readings, and how far each system call gets. The \<^verbatim>\<open>detail\<close>
  texts of the report, file modes and directory creation are not modelled.
\<close>

section \<open>Disk, environment and store\<close>

definition MAX_JOURNAL_BYTES :: nat where
  "MAX_JOURNAL_BYTES = 1024 * 1024"

record disk =
  state_file :: "bytes option"
  journal_file :: "bytes option"
  evidence_log :: "bytes option"
  side_files :: "(pystr \<times> bytes) list"

text \<open>
  \<open>journal_io\<close> and \<open>append_io\<close>: \<open>None\<close> when the write succeeds, \<open>Some n\<close> when it fails with
  \<^verbatim>\<open>OSError\<close> after \<open>n\<close> bytes. \<open>state_io\<close>, \<open>unlink_ok\<close> and \<open>preserve_ok\<close>: whether
  replacing the state file, removing the journal and writing a side file succeed.
\<close>

record osenv =
  utc_now :: pystr
  epoch :: int
  conv :: conversions
  digest_of :: digest
  journal_io :: "nat option"
  append_io :: "nat option"
  state_io :: bool
  unlink_ok :: bool
  preserve_ok :: bool

record RecoveryReport =
  journal_found :: bool
  action :: pystr
  rr_sequence :: "int option"
  bytes_discarded :: int
  preserved_path :: "pystr option"

definition new_recovery :: RecoveryReport where
  "new_recovery = \<lparr>journal_found = False, action = lit ''none'', rr_sequence = None, bytes_discarded = 0,
                   preserved_path = None\<rparr>"

definition recovery_dict :: "RecoveryReport \<Rightarrow> pydict" where
  "recovery_dict r =
     [(KStr (lit ''journal_found''), PyBool (journal_found r)),
      (KStr (lit ''action''), PyStr (action r)),
      (KStr (lit ''sequence''), (case rr_sequence r of None \<Rightarrow> PyNone | Some i \<Rightarrow> PyInt i)),
      (KStr (lit ''bytes_discarded''), PyInt (bytes_discarded r)),
      (KStr (lit ''preserved_path''), (case preserved_path r of None \<Rightarrow> PyNone | Some p \<Rightarrow> PyStr p))]"

record EvidenceStore =
  es_node_id :: pystr
  es_key_id :: pystr
  es_state_path :: pystr
  es_evidence_path :: pystr
  es_timeout :: int
  es_locked :: bool
  es_state :: "NodeState option"
  last_recovery :: "RecoveryReport option"

definition new_store :: "pystr \<Rightarrow> pystr \<Rightarrow> pystr \<Rightarrow> pystr \<Rightarrow> int \<Rightarrow> EvidenceStore res" where
  "new_store state_path evidence_path nid kid lock_timeout =
     require (0 < lock_timeout) EvidenceStoreError
       (Inr \<lparr>es_node_id = nid, es_key_id = kid, es_state_path = state_path, es_evidence_path = evidence_path,
             es_timeout = lock_timeout, es_locked = False, es_state = None, last_recovery = None\<rparr>)"

definition lock_path :: "EvidenceStore \<Rightarrow> pystr" where
  "lock_path s = es_state_path s @ lit ''.lock''"

definition journal_path :: "EvidenceStore \<Rightarrow> pystr" where
  "journal_path s = es_state_path s @ lit ''.journal''"

text \<open>Operations: state passing with exceptions, the state kept when they raise.\<close>

type_synonym world = "EvidenceStore \<times> disk"
type_synonym 'a act = "world \<Rightarrow> 'a res \<times> world"

definition abind :: "'a act \<Rightarrow> ('a \<Rightarrow> 'b act) \<Rightarrow> 'b act" where
  "abind m f w = (case m w of (Inl e, w') \<Rightarrow> (Inl e, w') | (Inr x, w') \<Rightarrow> f x w')"

definition areturn :: "'a \<Rightarrow> 'a act" where
  "areturn x w = (Inr x, w)"

definition araise :: "exn \<Rightarrow> 'a act" where
  "araise e w = (Inl e, w)"

definition areq :: "bool \<Rightarrow> exn \<Rightarrow> unit act" where
  "areq c e w = (if c then Inr () else Inl e, w)"

definition alift :: "'a res \<Rightarrow> 'a act" where
  "alift r w = (r, w)"

definition on_disk :: "(disk \<Rightarrow> disk) \<Rightarrow> unit act" where
  "on_disk f w = (Inr (), fst w, f (snd w))"

lemma act_simps [simp]:
  "areturn x w = (Inr x, w)"
  "araise e w = (Inl e, w)"
  "areq True e w = (Inr (), w)"
  "areq False e w = (Inl e, w)"
  "alift r w = (r, w)"
  "on_disk f (s, d) = (Inr (), s, f d)"
  by (simp_all add: areturn_def araise_def areq_def alift_def on_disk_def)

lemma abind_simps [simp]:
  "m w = (Inl e, w') \<Longrightarrow> abind m f w = (Inl e, w')"
  "m w = (Inr x, w') \<Longrightarrow> abind m f w = f x w'"
  by (simp_all add: abind_def)

lemma abind_assoc: "abind (abind m f) g = abind m (\<lambda>x. abind (f x) g)"
  by (rule ext) (auto simp: abind_def split: prod.splits sum.splits)

section \<open>Locking\<close>

text \<open>What opening the lock file finds: a symbolic link, another error, a file of which kind.\<close>

datatype lock_file = Symlink | OpenError | LockFile bool bool

text \<open>\<open>LockFile regular owned\<close>: \<^verbatim>\<open>S_ISREG\<close>, and owned by the user of the process.\<close>

definition verify_lock_file :: "bool \<Rightarrow> bool \<Rightarrow> unit res" where
  "verify_lock_file regular owned =
     require regular StateLockError (require owned StateLockError (Inr ()))"

definition es_acquire :: "lock_file \<Rightarrow> lock_env \<Rightarrow> EvidenceStore \<Rightarrow> (unit res \<times> EvidenceStore) option" where
  "es_acquire lf le s =
     (if es_locked s then Some (Inr (), s)
      else
        (case lf of
           Symlink \<Rightarrow> Some (Inl StateLockError, s)
         | OpenError \<Rightarrow> Some (Inl EvidenceStoreError, s)
         | LockFile regular owned \<Rightarrow>
             (case verify_lock_file regular owned of
                Inl e \<Rightarrow> Some (Inl e, s)
              | Inr _ \<Rightarrow>
                  (case lock_exclusive le (es_timeout s) of
                     None \<Rightarrow> None
                   | Some (Inl e) \<Rightarrow> Some (Inl e, s)
                   | Some (Inr _) \<Rightarrow> Some (Inr (), s\<lparr>es_locked := True\<rparr>)))))"

definition es_release :: "EvidenceStore \<Rightarrow> EvidenceStore" where
  "es_release s = (if es_locked s then s\<lparr>es_locked := False\<rparr> else s)"

definition require_lock :: "unit act" where
  "require_lock w = areq (es_locked (fst w)) EvidenceStoreError w"

section \<open>State\<close>

definition read_state :: "osenv \<Rightarrow> NodeState act" where
  "read_state env = abind require_lock (\<lambda>_ (s, d).
     (case es_state s of
        Some st \<Rightarrow> (Inr st, s, d)
      | None \<Rightarrow>
          (case (case state_file d of
                   None \<Rightarrow> Inr (zero_state (es_node_id s) (PyStr (es_key_id s)))
                 | Some raw \<Rightarrow> load_state (conv env) (es_node_id s) raw) of
             Inl e \<Rightarrow> (Inl e, s, d)
           | Inr st \<Rightarrow> (Inr st, s\<lparr>es_state := Some st\<rparr>, d))))"

definition write_state :: "osenv \<Rightarrow> NodeState \<Rightarrow> unit act" where
  "write_state env st = (\<lambda>(s, d).
     (case replace_state (utc_now env) (state_io env) st (state_file d) of
        (Inl e, _) \<Rightarrow> (Inl e, s, d)
      | (Inr st', file) \<Rightarrow> (Inr (), s\<lparr>es_state := Some st'\<rparr>, d\<lparr>state_file := file\<rparr>)))"

section \<open>The evidence log\<close>

definition is_record :: "pystr \<Rightarrow> pyval \<Rightarrow> (int \<times> pystr) option" where
  "is_record nid v =
     (case v of
        PyDict d \<Rightarrow>
          (if dict_get d (lit ''node_id'') = Some (PyStr nid) then
             (case (dict_get d (lit ''sequence''), dict_get d (lit ''event_hash'')) of
                (Some (PyInt i), Some (PyStr h)) \<Rightarrow> Some (i, h)
              | (Some (PyBool b), Some (PyStr h)) \<Rightarrow> Some (if b then 1 else 0, h)
              | _ \<Rightarrow> None)
           else None)
      | _ \<Rightarrow> None)"

definition line_position :: "pystr \<Rightarrow> pystr \<Rightarrow> (int \<times> pystr) option" where
  "line_position nid l =
     (let t = strip l in
      if t = [] then None
      else (case json_loads t of Inl _ \<Rightarrow> None | Inr v \<Rightarrow> is_record nid v))"

text \<open>
  \<^verbatim>\<open>_last_logged_record\<close>: what recovery needs of the last complete record of the node, its
  sequence number and hash.
\<close>

definition last_logged_record :: "pystr \<Rightarrow> bytes option \<Rightarrow> (int \<times> pystr) option" where
  "last_logged_record nid log =
     (case log of
        None \<Rightarrow> None
      | Some raw \<Rightarrow>
          foldl (\<lambda>last l. case line_position nid l of None \<Rightarrow> last | Some p \<Rightarrow> Some p) None
            (text_lines (utf8_decode_replace raw)))"

definition last_logged_sequence :: "pystr \<Rightarrow> bytes option \<Rightarrow> int option" where
  "last_logged_sequence nid log = map_option fst (last_logged_record nid log)"

definition log_size :: "disk \<Rightarrow> nat" where
  "log_size d = (case evidence_log d of None \<Rightarrow> 0 | Some raw \<Rightarrow> length raw)"

definition preserve :: "osenv \<Rightarrow> pystr \<Rightarrow> bytes \<Rightarrow> disk \<Rightarrow> pystr option \<times> disk" where
  "preserve env target content d =
     (if preserve_ok env then (Some target, d\<lparr>side_files := side_files d @ [(target, content)]\<rparr>)
      else (None, d))"

definition preserve_journal :: "osenv \<Rightarrow> EvidenceStore \<Rightarrow> disk \<Rightarrow> pystr option \<times> disk" where
  "preserve_journal env s d =
     (case journal_file d of
        None \<Rightarrow> (None, d)
      | Some raw \<Rightarrow>
          preserve env (journal_path s @ lit ''.journal.corrupt-'' @ dec_int (epoch env)) raw d)"

definition preserve_tail :: "osenv \<Rightarrow> EvidenceStore \<Rightarrow> int \<Rightarrow> int \<Rightarrow> disk \<Rightarrow> pystr option \<times> disk" where
  "preserve_tail env s offset len d =
     (case evidence_log d of
        None \<Rightarrow> (None, d)
      | Some raw \<Rightarrow>
          if offset < 0 then (None, d)
          else preserve env (es_evidence_path s @ lit ''.partial-'' @ dec_int (epoch env))
                 (take (nat len) (drop (nat offset) raw)) d)"

text \<open>\<^verbatim>\<open>truncate\<close> also extends: a log shorter than the offset is padded with zero bytes.\<close>

definition truncate_evidence :: "int \<Rightarrow> unit act" where
  "truncate_evidence offset = (\<lambda>(s, d).
     (case evidence_log d of
        None \<Rightarrow> (Inl OSError, s, d)
      | Some raw \<Rightarrow>
          if offset < 0 then (Inl OSError, s, d)
          else (Inr (), s, d\<lparr>evidence_log :=
                  Some (take (nat offset) raw @ replicate (nat offset - length raw) 0)\<rparr>)))"

definition drop_journal :: "osenv \<Rightarrow> disk \<Rightarrow> disk" where
  "drop_journal env d = (if unlink_ok env then d\<lparr>journal_file := None\<rparr> else d)"

section \<open>Recovery\<close>

definition JOURNAL_FIELDS :: "pystr list" where
  "JOURNAL_FIELDS = [lit ''sequence'', lit ''event_hash'', lit ''offset'', lit ''record'', lit ''node_id'']"

text \<open>\<^verbatim>\<open>set(entry)\<close> for whatever JSON value the journal held.\<close>

definition hashable :: "pyval \<Rightarrow> bool" where
  "hashable v = (case v of PyList _ \<Rightarrow> False | PyDict _ \<Rightarrow> False | _ \<Rightarrow> True)"

definition journal_keys :: "pyval \<Rightarrow> (pystr \<Rightarrow> bool) res" where
  "journal_keys v =
     (case v of
        PyDict e \<Rightarrow> Inr (dict_has e)
      | PyList xs \<Rightarrow> require (list_all hashable xs) TypeError (Inr (\<lambda>k. PyStr k \<in> set xs))
      | PyStr s \<Rightarrow> Inr (\<lambda>k. k \<in> set (map (\<lambda>c. [c]) s))
      | _ \<Rightarrow> Inl TypeError)"

text \<open>The entry as a dict of this node, \<open>None\<close> when it is incomplete or another node's.\<close>

definition journal_entry :: "pystr \<Rightarrow> pyval \<Rightarrow> pydict option res" where
  "journal_entry nid v =
     rbind (journal_keys v) (\<lambda>has.
       if \<not> list_all has JOURNAL_FIELDS then Inr None
       else
         (case v of
            PyDict e \<Rightarrow> Inr (if get_or e (lit ''node_id'') PyNone \<noteq> PyStr nid then None else Some e)
          | _ \<Rightarrow> Inl AttributeError))"

definition discard_journal :: "osenv \<Rightarrow> pystr \<Rightarrow> RecoveryReport act" where
  "discard_journal env what = (\<lambda>(s, d).
     (case preserve_journal env s d of
        (preserved, d1) \<Rightarrow>
          (Inr (new_recovery\<lparr>journal_found := True, action := what, preserved_path := preserved\<rparr>),
           s, drop_journal env d1)))"

definition next_state :: "EvidenceStore \<Rightarrow> pyval \<Rightarrow> int \<Rightarrow> pystr \<Rightarrow> NodeState" where
  "next_state s kid sq h =
     \<lparr>ns_node_id = es_node_id s, ns_key_id = kid, ns_last_sequence = sq, ns_last_event_hash = Some h,
      ns_format_version = EVIDENCE_FORMAT_VERSION, ns_updated_at = []\<rparr>"

text \<open>The append completed: finish the transaction.\<close>

definition complete_commit :: "osenv \<Rightarrow> pydict \<Rightarrow> int \<Rightarrow> RecoveryReport act" where
  "complete_commit env e sq =
     abind (read_state env) (\<lambda>st (s, d).
       abind
         (if ns_last_sequence st < sq then
            abind (alift (dict_item e (lit ''event_hash''))) (\<lambda>h.
            abind (write_state env
              (next_state s (py_or (get_or e (lit ''key_id'') PyNone) (py_or (PyStr (es_key_id s)) (ns_key_id st)))
                 sq (py_str (conv env) h))) (\<lambda>_. areturn (lit ''completed_commit'')))
          else areturn (lit ''already_committed'')) (\<lambda>what.
       abind (on_disk (drop_journal env)) (\<lambda>_.
         areturn (new_recovery\<lparr>journal_found := True, action := what, rr_sequence := Some sq\<rparr>))) (s, d))"

text \<open>The append never completed: roll back to the recorded offset.\<close>

definition roll_back :: "osenv \<Rightarrow> int \<Rightarrow> int \<Rightarrow> RecoveryReport act" where
  "roll_back env sq offset = (\<lambda>(s, d).
     (let discarded = max 0 (int (log_size d) - offset);
          (preserved, d1) = (if discarded \<noteq> 0 then preserve_tail env s offset discarded d else (None, d))
      in
        abind (truncate_evidence offset) (\<lambda>_.
        abind (on_disk (drop_journal env)) (\<lambda>_.
          areturn (new_recovery\<lparr>journal_found := True, action := lit ''rolled_back_partial_append'',
            rr_sequence := Some sq, bytes_discarded := discarded, preserved_path := preserved\<rparr>))) (s, d1)))"

text \<open>\<^verbatim>\<open>seek\<close> and \<^verbatim>\<open>read\<close> on the log: an absent file or a negative offset is an error.\<close>

definition read_log_at :: "int \<Rightarrow> nat \<Rightarrow> disk \<Rightarrow> bytes res" where
  "read_log_at offset n d =
     (case evidence_log d of
        None \<Rightarrow> Inl OSError
      | Some raw \<Rightarrow> require (0 \<le> offset) OSError (Inr (take n (drop (nat offset) raw))))"

definition replay_entry :: "osenv \<Rightarrow> pydict \<Rightarrow> RecoveryReport act" where
  "replay_entry env e =
     abind (alift (rbind (dict_item e (lit ''sequence'')) (py_int (conv env)))) (\<lambda>sq.
     abind (alift (rbind (dict_item e (lit ''offset'')) (py_int (conv env)))) (\<lambda>offset.
     abind (alift (rbind (dict_item e (lit ''record'')) (\<lambda>r. utf8_encode (py_str (conv env) r @ [10])))) (\<lambda>expected (s, d).
       if int (log_size d) \<ge> offset + int (length expected) then
         abind (alift (read_log_at offset (length expected) d)) (\<lambda>written.
           if written = expected then complete_commit env e sq else roll_back env sq offset) (s, d)
       else roll_back env sq offset (s, d))))"

definition replay_journal :: "osenv \<Rightarrow> bytes \<Rightarrow> RecoveryReport act" where
  "replay_journal env raw =
     abind (areq (length raw \<le> MAX_JOURNAL_BYTES) StateCorruptionError) (\<lambda>_ (s, d).
       (case rbind (read_text raw) json_loads of
          Inl ex \<Rightarrow>
            (if ex = UnicodeError \<or> ex = JSONDecodeError
             then discard_journal env (lit ''discarded_unreadable_journal'') (s, d)
             else (Inl ex, s, d))
        | Inr v \<Rightarrow>
            abind (alift (journal_entry (es_node_id s) v)) (\<lambda>entry.
              (case entry of
                 None \<Rightarrow> discard_journal env (lit ''discarded_foreign_journal'')
               | Some e \<Rightarrow> replay_entry env e)) (s, d)))"

definition check_state_against_log :: "osenv \<Rightarrow> RecoveryReport \<Rightarrow> RecoveryReport act" where
  "check_state_against_log env report =
     abind (read_state env) (\<lambda>st (s, d).
       if ns_last_sequence st = 0 then (Inr report, s, d)
       else
         (case last_logged_record (es_node_id s) (evidence_log d) of
            None \<Rightarrow> (Inl EvidenceStateDivergence, s, d)
          | Some (last_logged, h) \<Rightarrow>
              if last_logged < ns_last_sequence st then (Inl EvidenceStateDivergence, s, d)
              else if last_logged > ns_last_sequence st then
                abind (write_state env (next_state s (py_or (PyStr (es_key_id s)) (ns_key_id st)) last_logged h))
                  (\<lambda>_. areturn (report\<lparr>action := (if action report \<noteq> [] then action report
                                                 else lit ''adopted_log_tail'')\<rparr>)) (s, d)
              else (Inr report, s, d)))"

definition recover :: "osenv \<Rightarrow> RecoveryReport act" where
  "recover env =
     abind require_lock (\<lambda>_ (s, d).
       abind (case journal_file d of None \<Rightarrow> areturn new_recovery | Some raw \<Rightarrow> replay_journal env raw) (\<lambda>report.
       abind (check_state_against_log env report) (\<lambda>report' (s', d').
         (Inr report', s'\<lparr>last_recovery := Some report'\<rparr>, d'))) (s, d))"

section \<open>The transaction\<close>

definition journal_dict :: "osenv \<Rightarrow> EvidenceStore \<Rightarrow> int \<Rightarrow> pystr \<Rightarrow> int \<Rightarrow> pystr \<Rightarrow> pystr option \<Rightarrow> pydict" where
  "journal_dict env s sq h offset record_line kid =
     [(KStr (lit ''node_id''), PyStr (es_node_id s)),
      (KStr (lit ''key_id''), py_or (key_arg kid) (PyStr (es_key_id s))),
      (KStr (lit ''sequence''), PyInt sq),
      (KStr (lit ''event_hash''), PyStr h),
      (KStr (lit ''offset''), PyInt offset),
      (KStr (lit ''record''), PyStr record_line),
      (KStr (lit ''written_at''), PyStr (utc_now env))]"

definition journal_bytes :: "osenv \<Rightarrow> EvidenceStore \<Rightarrow> int \<Rightarrow> pystr \<Rightarrow> int \<Rightarrow> pystr \<Rightarrow> pystr option \<Rightarrow> bytes res" where
  "journal_bytes env s sq h offset record_line kid =
     rbind (dumps plain_style (PyDict (journal_dict env s sq h offset record_line kid))) utf8_encode"

definition write_journal :: "osenv \<Rightarrow> int \<Rightarrow> pystr \<Rightarrow> int \<Rightarrow> pystr \<Rightarrow> pystr option \<Rightarrow> unit act" where
  "write_journal env sq h offset record_line kid = (\<lambda>(s, d).
     (case journal_bytes env s sq h offset record_line kid of
        Inl e \<Rightarrow> (Inl e, s, d\<lparr>journal_file := Some []\<rparr>)
      | Inr raw \<Rightarrow>
          (case journal_io env of
             None \<Rightarrow> (Inr (), s, d\<lparr>journal_file := Some raw\<rparr>)
           | Some n \<Rightarrow> (Inl TransactionAborted, s, d\<lparr>journal_file := Some (take n raw)\<rparr>))))"

definition rollback :: "osenv \<Rightarrow> nat \<Rightarrow> disk \<Rightarrow> disk" where
  "rollback env offset d =
     drop_journal env
       (case evidence_log d of
          None \<Rightarrow> d
        | Some raw \<Rightarrow> if length raw > offset then d\<lparr>evidence_log := Some (take offset raw)\<rparr> else d)"

definition append_record :: "osenv \<Rightarrow> nat \<Rightarrow> bytes \<Rightarrow> unit act" where
  "append_record env offset payload = (\<lambda>(s, d).
     (let raw = (case evidence_log d of None \<Rightarrow> [] | Some r \<Rightarrow> r) in
      (case append_io env of
         None \<Rightarrow> (Inr (), s, d\<lparr>evidence_log := Some (raw @ payload)\<rparr>)
       | Some n \<Rightarrow>
           (Inl TransactionAborted, s, rollback env offset (d\<lparr>evidence_log := Some (raw @ take n payload)\<rparr>)))))"

definition create_log :: "disk \<Rightarrow> disk" where
  "create_log d = (case evidence_log d of None \<Rightarrow> d\<lparr>evidence_log := Some []\<rparr> | Some _ \<Rightarrow> d)"

text \<open>The hook fired at a stage; raising from it is a crash at that point.\<close>

definition fault_at :: "(pystr \<Rightarrow> bool) \<Rightarrow> string \<Rightarrow> unit act" where
  "fault_at fault stage = areq (\<not> fault (lit stage)) (Fault (lit stage))"

definition commit_state :: "osenv \<Rightarrow> NodeState \<Rightarrow> unit act" where
  "commit_state env st w =
     (case write_state env st w of
        (Inl e, w') \<Rightarrow> (Inl (if e = OSError then TransactionAborted else e), w')
      | (Inr x, w') \<Rightarrow> (Inr x, w'))"

text \<open>What follows the journal: the append, the commit and the removal of the journal.\<close>

definition finish_txn :: "osenv \<Rightarrow> nat \<Rightarrow> pystr \<Rightarrow> NodeState \<Rightarrow> (pystr \<Rightarrow> bool) \<Rightarrow> int \<times> pystr \<Rightarrow> (int \<times> pystr) act" where
  "finish_txn env offset l st fault out =
     abind (fault_at fault ''after_journal'') (\<lambda>_.
     abind (alift (utf8_encode (l @ [10]))) (\<lambda>payload.
     abind (append_record env offset payload) (\<lambda>_.
     abind (fault_at fault ''after_append'') (\<lambda>_.
     abind (commit_state env st) (\<lambda>_.
     abind (fault_at fault ''after_commit'') (\<lambda>_.
     abind (on_disk (drop_journal env)) (\<lambda>_.
       areturn out)))))))"

definition append_signed ::
  "osenv \<Rightarrow> (int \<Rightarrow> pystr \<Rightarrow> (pystr \<times> pystr) res) \<Rightarrow> pystr option \<Rightarrow> (pystr \<Rightarrow> bool) \<Rightarrow> (int \<times> pystr) act"
where
  "append_signed env build_and_sign kid fault =
     abind require_lock (\<lambda>_.
     abind (read_state env) (\<lambda>st (s, d).
       (let sq = ns_last_sequence st + 1 in
        abind (alift (expected_previous_hash (digest_of env) (es_node_id s) sq (ns_last_event_hash st))) (\<lambda>previous_hash.
        abind (fault_at fault ''before_sign'') (\<lambda>_.
        abind (alift (build_and_sign sq previous_hash)) (\<lambda>(record_line, h).
        abind (fault_at fault ''after_sign'') (\<lambda>_.
        abind (on_disk create_log) (\<lambda>_ (s1, d1).
          (let offset = log_size d1 in
           abind (write_journal env sq h (int offset) record_line kid) (\<lambda>_.
             finish_txn env offset record_line
               (next_state s1 (py_or (key_arg kid) (py_or (PyStr (es_key_id s1)) (ns_key_id st))) sq h) fault (sq, h))
           (s1, d1))))))) (s, d))))"

section \<open>Administration\<close>

definition store_status :: "osenv \<Rightarrow> pydict act" where
  "store_status env =
     abind require_lock (\<lambda>_.
     abind (read_state env) (\<lambda>st (s, d).
       (Inr
          [(KStr (lit ''node_id''), PyStr (es_node_id s)),
           (KStr (lit ''key_id''), ns_key_id st),
           (KStr (lit ''last_sequence''), PyInt (ns_last_sequence st)),
           (KStr (lit ''last_event_hash''), hash_value (ns_last_event_hash st)),
           (KStr (lit ''format_version''), PyStr (ns_format_version st)),
           (KStr (lit ''updated_at''), PyStr (ns_updated_at st)),
           (KStr (lit ''evidence_log''), PyStr (es_evidence_path s)),
           (KStr (lit ''evidence_bytes''), PyInt (int (log_size d))),
           (KStr (lit ''journal_present''), PyBool (journal_file d \<noteq> None)),
           (KStr (lit ''last_recovery''),
              (case last_recovery s of None \<Rightarrow> PyNone | Some r \<Rightarrow> PyDict (recovery_dict r)))], s, d)))"

definition current_sequence :: "osenv \<Rightarrow> int act" where
  "current_sequence env w =
     (case read_state env w of
        (Inl e, w') \<Rightarrow> (if e = StateCorruptionError \<or> e = EvidenceStateDivergence then Inr 0 else Inl e, w')
      | (Inr st, w') \<Rightarrow> (Inr (ns_last_sequence st), w'))"

definition repair_from_log :: "osenv \<Rightarrow> NodeState act" where
  "repair_from_log env =
     abind require_lock (\<lambda>_ (s0, d0).
     (let tail = last_logged_record (es_node_id s0) (evidence_log d0) in
      abind (current_sequence env) (\<lambda>current (s, d).
        (case (case tail of
                 None \<Rightarrow>
                   (if current \<noteq> 0 then Inl EvidenceStateDivergence
                    else Inr (zero_state (es_node_id s) (PyStr (es_key_id s))))
               | Some (sq, h) \<Rightarrow> Inr (next_state s (PyStr (es_key_id s)) sq h)) of
           Inl e \<Rightarrow> (Inl e, s, d)
         | Inr repaired \<Rightarrow>
             abind (write_state env repaired) (\<lambda>_. areturn (repaired\<lparr>ns_updated_at := utc_now env\<rparr>))
               (s\<lparr>es_state := None\<rparr>, d))) (s0, d0)))"

end
