(* ===== verification/Recovery.thy ===== *)
theory Recovery
  imports EvidenceStore
begin

text \<open>
  Crash safety of the evidence store. A disk is \<open>consistent\<close> with a list of records when the
  log holds exactly their lines, in order, with sequence numbers 1, 2, 3, ..., the state file
  holds the position of the last one, and there is no journal. \<open>stage\<close> lists the disks a
  transaction passes through, torn writes included. Shown: the transaction appends exactly one
  record; every exit from it, normal or not, leaves one of its stages; from every stage recovery
  succeeds and leaves a consistent disk, with the new record exactly when its line had reached
  the log completely.
\<close>

section \<open>Logs\<close>

type_synonym log_record = "pystr \<times> pystr"

definition line_bytes :: "pystr \<Rightarrow> bytes" where
  "line_bytes l = concat (map utf8_char (l @ [10]))"

definition log_bytes :: "log_record list \<Rightarrow> bytes" where
  "log_bytes rs = concat (map (\<lambda>r. line_bytes (fst r)) rs)"

text \<open>A line that the store recognises as the record of a node with a given number and hash.\<close>

definition record_line :: "pystr \<Rightarrow> int \<Rightarrow> pystr \<Rightarrow> pystr \<Rightarrow> bool" where
  "record_line nid sq h l \<longleftrightarrow> list_all scalar l \<and> 10 \<notin> set l \<and> 13 \<notin> set l
     \<and> line_position nid (l @ [10]) = Some (sq, h) \<and> length h = 64 \<and> list_all hex_lower h"

definition log_of :: "pystr \<Rightarrow> log_record list \<Rightarrow> bool" where
  "log_of nid rs \<longleftrightarrow> (\<forall>i<length rs. record_line nid (int i + 1) (snd (rs ! i)) (fst (rs ! i)))"

lemma log_bytes_snoc: "log_bytes (rs @ [r]) = log_bytes rs @ line_bytes (fst r)"
  by (simp add: log_bytes_def)

lemma log_of_snoc:
  "log_of nid (rs @ [r]) \<longleftrightarrow> log_of nid rs \<and> record_line nid (int (length rs) + 1) (snd r) (fst r)"
  by (auto simp: log_of_def nth_append less_Suc_eq)

lemma log_lines:
  assumes "log_of nid rs"
  shows "text_lines (utf8_decode_replace (log_bytes rs)) = map (\<lambda>r. fst r @ [10]) rs"
proof -
  have l: "list_all scalar (fst r)" "10 \<notin> set (fst r)" "13 \<notin> set (fst r)" if "r \<in> set rs" for r
    using assms that by (auto simp: log_of_def record_line_def in_set_conv_nth)
  have "log_bytes rs = concat (map utf8_char (concat (map (\<lambda>r. fst r @ [10]) rs)))"
    by (induction rs) (simp_all add: log_bytes_def line_bytes_def)
  moreover have "list_all scalar (concat (map (\<lambda>r. fst r @ [10]) rs))"
    using l by (auto simp: list_all_iff scalar_def)
  ultimately have "utf8_decode_replace (log_bytes rs) = concat (map (\<lambda>l. l @ [10]) (map fst rs))"
    using utf8_replace_append [of "concat (map (\<lambda>r. fst r @ [10]) rs)" "[]"] by (simp add: comp_def)
  then show ?thesis using text_lines_concat [of "map fst rs"] l by (simp add: comp_def)
qed

lemma last_logged:
  assumes "log_of nid rs"
  shows "last_logged_record nid (Some (log_bytes rs))
    = (if rs = [] then None else Some (int (length rs), snd (last rs)))"
proof -
  let ?f = "\<lambda>last l. case line_position nid l of None \<Rightarrow> last | Some p \<Rightarrow> Some p"
  have "foldl ?f None (map (\<lambda>r. fst r @ [10]) rs)
      = (if rs = [] then None else Some (int (length rs), snd (last rs)))"
    using assms
  proof (induction rs rule: rev_induct)
    case (snoc r rs)
    then show ?case by (simp add: log_of_snoc record_line_def)
  qed simp
  then show ?thesis by (simp add: last_logged_record_def log_lines [OF assms])
qed

section \<open>Consistent disks\<close>

definition at_position :: "NodeState \<Rightarrow> log_record list \<Rightarrow> bool" where
  "at_position st rs \<longleftrightarrow> ns_last_sequence st = int (length rs)
     \<and> ns_last_event_hash st = (if rs = [] then None else Some (snd (last rs))) \<and> text_ids st"

definition state_at :: "conversions \<Rightarrow> pystr \<Rightarrow> bytes option \<Rightarrow> log_record list \<Rightarrow> bool" where
  "state_at cv nid file rs \<longleftrightarrow>
     (case file of None \<Rightarrow> rs = [] | Some raw \<Rightarrow> \<exists>st. load_state cv nid raw = Inr st \<and> at_position st rs)"

definition log_at :: "bytes option \<Rightarrow> log_record list \<Rightarrow> bool" where
  "log_at log rs \<longleftrightarrow> log = Some (log_bytes rs) \<or> (log = None \<and> rs = [])"

definition consistent :: "conversions \<Rightarrow> pystr \<Rightarrow> disk \<Rightarrow> log_record list \<Rightarrow> bool" where
  "consistent cv nid d rs \<longleftrightarrow> log_of nid rs \<and> log_at (evidence_log d) rs \<and> journal_file d = None
     \<and> state_at cv nid (state_file d) rs"

text \<open>Identities a store can be opened with, and an open store in step with its disk.\<close>

definition named :: "EvidenceStore \<Rightarrow> bool" where
  "named s \<longleftrightarrow> es_node_id s \<noteq> [] \<and> es_key_id s \<noteq> [] \<and> list_all scalar (es_node_id s) \<and> list_all scalar (es_key_id s)"

definition cache_at :: "EvidenceStore \<Rightarrow> log_record list \<Rightarrow> bool" where
  "cache_at s rs \<longleftrightarrow> (\<forall>st. es_state s = Some st \<longrightarrow> at_position st rs)"

definition opened :: "conversions \<Rightarrow> EvidenceStore \<Rightarrow> disk \<Rightarrow> log_record list \<Rightarrow> bool" where
  "opened cv s d rs \<longleftrightarrow> es_locked s \<and> named s \<and> consistent cv (es_node_id s) d rs \<and> cache_at s rs"

text \<open>A clock reading is a text, replacing the state file and removing the journal work.\<close>

definition healthy :: "osenv \<Rightarrow> bool" where
  "healthy env \<longleftrightarrow> list_all scalar (utc_now env) \<and> state_io env \<and> unlink_ok env"

lemma read_state_at:
  assumes "es_locked s" "named s" "state_at (conv env) (es_node_id s) (state_file d) rs" "cache_at s rs"
  shows "\<exists>st. at_position st rs \<and> read_state env (s, d) = (Inr st, s\<lparr>es_state := Some st\<rparr>, d)"
proof (cases "es_state s")
  case (Some st)
  with assms show ?thesis
    by (intro exI [of _ st]) (simp add: read_state_def abind_def require_lock_def cache_at_def)
next
  case None
  with assms show ?thesis
    by (cases "state_file d")
      (auto simp: read_state_def abind_def require_lock_def state_at_def at_position_def zero_state_def
        text_ids_def named_def)
qed

text \<open>Advancing the state by one record.\<close>

lemma write_state_next:
  assumes "list_all scalar (utc_now env) \<and> state_io env" "named s" "\<exists>k. kid = PyStr k \<and> k \<noteq> [] \<and> list_all scalar k"
    and "sq = int (length rs) + 1" "int_digits_ok sq" "length h = 64" "list_all hex_lower h"
  shows "\<exists>raw st. write_state env (next_state s kid sq h) (s, d)
      = (Inr (), s\<lparr>es_state := Some st\<rparr>, d\<lparr>state_file := Some raw\<rparr>)
    \<and> load_state cv (es_node_id s) raw = Inr st \<and> at_position st (rs @ [(l, h)])"
proof -
  let ?st = "(next_state s kid sq h)\<lparr>ns_updated_at := utc_now env\<rparr>"
  have h: "list_all scalar h" using assms(7) by (auto simp: list_all_iff hex_lower_def scalar_def)
  have v: "valid_state ?st"
    using assms h by (auto simp: next_state_def valid_state_def writable_def named_def healthy_def truthy_def
        state_hash_ok_def hash_value_def EVIDENCE_FORMAT_VERSION_def scalar_def)
  then obtain raw where "encode_state ?st = Inr raw"
    using encode_state_total [of ?st] assms(5) by (auto simp: valid_state_def next_state_def)
  moreover from this have "load_state cv (es_node_id s) raw = Inr ?st"
    using state_encode_load [OF v, of raw] by (simp add: next_state_def)
  moreover have "at_position ?st (rs @ [(l, h)])"
    using assms(2-4) by (auto simp: at_position_def next_state_def text_ids_def named_def)
  ultimately show ?thesis
    using assms(1) by (intro exI [of _ raw] exI [of _ ?st])
      (auto simp: write_state_def replace_state_def Let_def healthy_def)
qed

section \<open>The journal\<close>

text \<open>What a transaction writes: the record, its journal, and texts that have a UTF-8 form.\<close>

definition journal_of ::
  "osenv \<Rightarrow> EvidenceStore \<Rightarrow> pystr option \<Rightarrow> log_record list \<Rightarrow> pystr \<Rightarrow> pystr \<Rightarrow> bytes \<Rightarrow> bool"
where
  "journal_of env s kid rs l h jb \<longleftrightarrow> named s \<and> list_all scalar (utc_now env)
     \<and> (\<forall>k. kid = Some k \<longrightarrow> list_all scalar k)
     \<and> record_line (es_node_id s) (int (length rs) + 1) h l \<and> int_digits_ok (int (length rs) + 1)
     \<and> journal_bytes env s (int (length rs) + 1) h (int (length (log_bytes rs))) l kid = Inr jb
     \<and> length jb \<le> MAX_JOURNAL_BYTES"

lemma journal_dict_cache [simp]:
  "journal_dict env (s\<lparr>es_state := x\<rparr>) sq h offset l kid = journal_dict env s sq h offset l kid"
  by (simp add: journal_dict_def)

lemma journal_of_cache [simp]: "journal_of env (s\<lparr>es_state := x\<rparr>) kid rs l h jb = journal_of env s kid rs l h jb"
  unfolding journal_of_def journal_bytes_def journal_dict_cache named_def by simp

lemma key_field:
  assumes "named s" "\<forall>k. kid = Some k \<longrightarrow> list_all scalar k"
  shows "\<exists>k. py_or (key_arg kid) (PyStr (es_key_id s)) = PyStr k \<and> k \<noteq> [] \<and> list_all scalar k"
  using assms by (auto simp: py_or_def key_arg_def truthy_def named_def split: option.splits)

lemma hex_scalar: "list_all hex_lower h \<Longrightarrow> list_all scalar h"
  by (auto simp: list_all_iff hex_lower_def scalar_def)

lemma journal_dict_ok:
  assumes "journal_of env s kid rs l h jb"
  shows "json_ok (PyDict (journal_dict env s sq h offset l kid))"
    and "\<forall>kv\<in>set (journal_dict env s sq h offset l kid). flat (snd kv)"
    and "canon plain_style (PyDict (journal_dict env s sq h offset l kid)) = PyDict (journal_dict env s sq h offset l kid)"
  using assms key_field [of s kid] hex_scalar [of h]
  by (auto simp: journal_of_def journal_dict_def flat_def named_def record_line_def scalar_def order_dict_def
      plain_style_def)

lemma plain_printable:
  assumes "dumps plain_style (PyDict d) = Inr jt" "\<forall>kv\<in>set d. flat (snd kv)"
  shows "printable jt"
proof -
  obtain ts where ts: "dumps_items plain_style d = Inr ts"
      "jt = 123 # join (item_sep plain_style) (map (member_text plain_style) ts) @ [125]"
    using assms(1) by (auto simp: rbind_Inr_iff order_items_def plain_style_def)
  have a: "ensure_ascii plain_style" by (simp add: plain_style_def)
  have m: "32 \<le> x \<and> x < 127" if "kt \<in> set ts" "x \<in> set (member_text plain_style kt)" for kt x
    using that flat_items_printable [OF ts(1) a _ that(1)] assms(2)
    by (auto simp: member_text_def a printable_def plain_style_def dest: quote_ascii)
  have "32 \<le> x \<and> x < 127" if "x \<in> set (join (item_sep plain_style) (map (member_text plain_style) ts))" for x
    using set_join [of "item_sep plain_style"] that m by (fastforce simp: plain_style_def)
  then show ?thesis using ts(2) by (auto simp: printable_def)
qed

lemma journal_text:
  assumes "journal_of env s kid rs l h jb"
  shows "\<exists>jt. dumps plain_style (PyDict (journal_dict env s (int (length rs) + 1) h (int (length (log_bytes rs))) l kid)) = Inr jt
    \<and> printable jt \<and> jb = map byte_of jt"
proof -
  obtain jt where jt: "dumps plain_style (PyDict (journal_dict env s (int (length rs) + 1) h (int (length (log_bytes rs))) l kid)) = Inr jt"
      "utf8_encode jt = Inr jb"
    using assms by (auto simp: journal_of_def journal_bytes_def rbind_Inr_iff)
  have p: "printable jt" using plain_printable [OF jt(1) journal_dict_ok(2) [OF assms]] .
  from read_text_ascii [of jt] p jt(2) have "jb = map byte_of jt" by (auto simp: printable_def)
  with jt p show ?thesis by blast
qed

lemma journal_read:
  assumes "journal_of env s kid rs l h jb"
  shows "rbind (read_text jb) json_loads
      = Inr (PyDict (journal_dict env s (int (length rs) + 1) h (int (length (log_bytes rs))) l kid))"
    and "k < length jb \<Longrightarrow> rbind (read_text (take k jb)) json_loads = Inl JSONDecodeError"
proof -
  let ?d = "journal_dict env s (int (length rs) + 1) h (int (length (log_bytes rs))) l kid"
  obtain jt where jt: "dumps plain_style (PyDict ?d) = Inr jt" "printable jt" "jb = map byte_of jt"
    using journal_text [OF assms] by blast
  have rd: "read_text (map byte_of (take k jt)) = Inr (take k jt)" for k
    using read_text_ascii [of "take k jt"] jt(2) by (auto simp: printable_def dest: in_set_takeD)
  have "json_loads jt = Inr (PyDict ?d)"
    using loads_dumps [OF style_oks(1) dict_of_pairs_ok journal_dict_ok(1) [OF assms] jt(1)] journal_dict_ok(3) [OF assms]
    by (simp add: json_loads_def)
  then show "rbind (read_text jb) json_loads = Inr (PyDict ?d)"
    using rd [of "length jt"] jt(3) by simp
  assume k: "k < length jb"
  then have "json_loads (take k jt) = Inl JSONDecodeError"
    using torn_document [OF journal_dict_ok(1,2) [OF assms], of _ _ "take k jt" "drop k jt"] jt by simp
  then show "rbind (read_text (take k jb)) json_loads = Inl JSONDecodeError"
    using rd [of k] jt(3) by (simp add: take_map)
qed

lemma journal_get:
  "dict_get (journal_dict env s sq h offset l kid) (lit ''node_id'') = Some (PyStr (es_node_id s))"
  "dict_get (journal_dict env s sq h offset l kid) (lit ''key_id'') = Some (py_or (key_arg kid) (PyStr (es_key_id s)))"
  "dict_get (journal_dict env s sq h offset l kid) (lit ''sequence'') = Some (PyInt sq)"
  "dict_get (journal_dict env s sq h offset l kid) (lit ''event_hash'') = Some (PyStr h)"
  "dict_get (journal_dict env s sq h offset l kid) (lit ''offset'') = Some (PyInt offset)"
  "dict_get (journal_dict env s sq h offset l kid) (lit ''record'') = Some (PyStr l)"
  by (simp_all add: journal_dict_def)

section \<open>Stages of a transaction\<close>

text \<open>
  The disks between the start and the end of a transaction that appends the line \<open>l\<close> with hash
  \<open>h\<close> to a disk consistent with \<open>rs\<close>: the log is created, the journal is written (any prefix of
  it may have reached the disk), the line is appended (again, any prefix), the state is replaced,
  the journal removed. The flag says whether the line is complete.
\<close>

inductive stage ::
  "conversions \<Rightarrow> pystr \<Rightarrow> bytes \<Rightarrow> log_record list \<Rightarrow> pystr \<Rightarrow> pystr \<Rightarrow> disk \<Rightarrow> bool \<Rightarrow> disk \<Rightarrow> bool"
  for cv nid jb rs l h d
where
  begin_txn: "stage cv nid jb rs l h d False d"
| created: "stage cv nid jb rs l h d False (create_log d)"
| journalling: "stage cv nid jb rs l h d False ((create_log d)\<lparr>journal_file := Some (take k jb)\<rparr>)"
| appending: "k < length (line_bytes l) \<Longrightarrow>
    stage cv nid jb rs l h d False
      (d\<lparr>journal_file := Some jb, evidence_log := Some (log_bytes rs @ take k (line_bytes l))\<rparr>)"
| appended: "stage cv nid jb rs l h d True
      (d\<lparr>journal_file := Some jb, evidence_log := Some (log_bytes rs @ line_bytes l)\<rparr>)"
| committed: "\<lbrakk>load_state cv nid raw = Inr st; at_position st (rs @ [(l, h)])\<rbrakk> \<Longrightarrow>
    stage cv nid jb rs l h d True
      (d\<lparr>state_file := Some raw, journal_file := Some jb, evidence_log := Some (log_bytes rs @ line_bytes l)\<rparr>)"
| finished: "\<lbrakk>load_state cv nid raw = Inr st; at_position st (rs @ [(l, h)])\<rbrakk> \<Longrightarrow>
    stage cv nid jb rs l h d True
      (d\<lparr>state_file := Some raw, journal_file := None, evidence_log := Some (log_bytes rs @ line_bytes l)\<rparr>)"

section \<open>Recovery from every stage\<close>

lemma check_passes:
  assumes "opened (conv env) s d rs"
  shows "\<exists>st. check_state_against_log env rep (s, d) = (Inr rep, s\<lparr>es_state := Some st\<rparr>, d) \<and> at_position st rs"
proof -
  have o: "es_locked s" "named s" "consistent (conv env) (es_node_id s) d rs" "cache_at s rs"
    using assms by (auto simp: opened_def)
  obtain st where st: "at_position st rs" "read_state env (s, d) = (Inr st, s\<lparr>es_state := Some st\<rparr>, d)"
    using read_state_at [OF o(1,2) _ o(4), of env d] o(3) by (auto simp: consistent_def)
  have "last_logged_record (es_node_id s) (evidence_log d) = Some (int (length rs), snd (last rs))" if "rs \<noteq> []"
    using o(3) last_logged [of "es_node_id s" rs] that by (auto simp: consistent_def log_at_def)
  with st show ?thesis
    by (cases "rs = []") (auto simp: check_state_against_log_def at_position_def)
qed

text \<open>A store after recovery: the same node, in step with the disk.\<close>

definition recovered :: "osenv \<Rightarrow> EvidenceStore \<Rightarrow> disk \<Rightarrow> log_record list \<Rightarrow> bool" where
  "recovered env s d rs \<longleftrightarrow>
     (\<exists>rep s' d'. recover env (s, d) = (Inr rep, s', d') \<and> opened (conv env) s' d' rs
        \<and> es_node_id s' = es_node_id s \<and> es_key_id s' = es_key_id s)"

lemma recover_after:
  assumes "es_locked s"
    and "(case journal_file d of None \<Rightarrow> areturn new_recovery | Some raw \<Rightarrow> replay_journal env raw) (s, d) = (Inr rep, s1, d1)"
    and "opened (conv env) s1 d1 rs" "es_node_id s1 = es_node_id s" "es_key_id s1 = es_key_id s"
  shows "recovered env s d rs"
proof -
  obtain st where st: "check_state_against_log env rep (s1, d1) = (Inr rep, s1\<lparr>es_state := Some st\<rparr>, d1)" "at_position st rs"
    using check_passes [OF assms(3)] by blast
  have "recover env (s, d) = (Inr rep, s1\<lparr>es_state := Some st, last_recovery := Some rep\<rparr>, d1)"
    using assms(1,2) st(1) by (simp add: recover_def abind_def require_lock_def)
  moreover have "opened (conv env) (s1\<lparr>es_state := Some st, last_recovery := Some rep\<rparr>) d1 rs"
    using assms(3) st(2) by (simp add: opened_def cache_at_def named_def)
  ultimately show ?thesis using assms(4,5) by (auto simp: recovered_def)
qed

lemma recover_clean: "opened (conv env) s d rs \<Longrightarrow> recovered env s d rs"
  by (rule recover_after) (auto simp: opened_def consistent_def)

lemma discard_recovers:
  assumes "es_locked s" "named s" "es_state s = None" "healthy env"
    and "log_of (es_node_id s) rs" "log_at (evidence_log d) rs" "state_at (conv env) (es_node_id s) (state_file d) rs"
    and "journal_file d = Some raw" "length raw \<le> MAX_JOURNAL_BYTES" "rbind (read_text raw) json_loads = Inl JSONDecodeError"
  shows "recovered env s d rs"
proof -
  obtain preserved d1 where p: "preserve_journal env s d = (preserved, d1)" by (cases "preserve_journal env s d")
  then have d1: "evidence_log d1 = evidence_log d" "state_file d1 = state_file d"
    using assms(8) by (auto simp: preserve_journal_def preserve_def split: if_splits)
  have "replay_journal env raw (s, d)
      = (Inr (new_recovery\<lparr>journal_found := True, action := lit ''discarded_unreadable_journal'', preserved_path := preserved\<rparr>),
         s, drop_journal env d1)"
    using assms(9,10) p by (simp add: replay_journal_def discard_journal_def del: lit_simps)
  moreover have "opened (conv env) s (drop_journal env d1) rs"
    using assms d1 by (simp add: opened_def consistent_def drop_journal_def healthy_def cache_at_def)
  ultimately show ?thesis using assms(1,8) by (intro recover_after) simp_all
qed

text \<open>A complete journal of this node sends recovery to the log.\<close>

lemma replay_own:
  assumes "journal_of env0 s0 kid rs l h jb" "es_node_id s0 = es_node_id s"
  shows "replay_journal env jb (s, d)
    = replay_entry env (journal_dict env0 s0 (int (length rs) + 1) h (int (length (log_bytes rs))) l kid) (s, d)"
proof -
  let ?e = "journal_dict env0 s0 (int (length rs) + 1) h (int (length (log_bytes rs))) l kid"
  have "length jb \<le> MAX_JOURNAL_BYTES" using assms(1) by (simp add: journal_of_def)
  moreover have "journal_entry (es_node_id s) (PyDict ?e) = Inr (Some ?e)"
    using assms(2) by (simp add: journal_entry_def journal_keys_def JOURNAL_FIELDS_def dict_has_iff journal_get get_or_def
        del: lit_simps)
  ultimately show ?thesis
    using journal_read(1) [OF assms(1)] by (simp add: replay_journal_def)
qed

lemma line_encode: "record_line nid sq h l \<Longrightarrow> utf8_encode (l @ [10]) = Inr (line_bytes l)"
  by (simp add: record_line_def utf8_encode_def line_bytes_def scalar_def)

lemma replay_entry_own:
  assumes "journal_of env0 s0 kid rs l h jb" "evidence_log d = Some (log_bytes rs @ rest)"
    and "e = journal_dict env0 s0 (int (length rs) + 1) h (int (length (log_bytes rs))) l kid"
  shows "replay_entry env e (s, d)
    = (if length (line_bytes l) \<le> length rest \<and> take (length (line_bytes l)) rest = line_bytes l
       then complete_commit env e (int (length rs) + 1) (s, d)
       else roll_back env (int (length rs) + 1) (int (length (log_bytes rs))) (s, d))"
proof -
  have "record_line (es_node_id s0) (int (length rs) + 1) h l" using assms(1) by (simp add: journal_of_def)
  from line_encode [OF this] have
    "rbind (dict_item e (lit ''sequence'')) (py_int (conv env)) = Inr (int (length rs) + 1)"
    "rbind (dict_item e (lit ''offset'')) (py_int (conv env)) = Inr (int (length (log_bytes rs)))"
    "rbind (dict_item e (lit ''record'')) (\<lambda>r. utf8_encode (py_str (conv env) r @ [10])) = Inr (line_bytes l)"
    by (simp_all add: assms(3) dict_item_def journal_get del: lit_simps)
  then show ?thesis
    using assms(2) by (auto simp: replay_entry_def abind_def log_size_def read_log_at_def simp del: lit_simps)
qed

lemma roll_back_recovers:
  assumes "es_locked s" "named s" "es_state s = None" "healthy env"
    and "log_of (es_node_id s) rs" "state_at (conv env) (es_node_id s) (state_file d) rs"
    and "evidence_log d = Some (log_bytes rs @ rest)" "journal_file d = Some jb"
    and "replay_journal env jb (s, d) = roll_back env sq (int (length (log_bytes rs))) (s, d)"
  shows "recovered env s d rs"
proof -
  let ?n = "int (length (log_bytes rs))"
  obtain preserved d1 where p: "(if max 0 (int (log_size d) - ?n) \<noteq> 0
      then preserve_tail env s ?n (max 0 (int (log_size d) - ?n)) d else (None, d)) = (preserved, d1)"
    by fastforce
  then have d1: "evidence_log d1 = evidence_log d" "state_file d1 = state_file d"
    by (auto simp: preserve_tail_def preserve_def split: if_splits option.splits)
  let ?d = "drop_journal env (d1\<lparr>evidence_log := Some (log_bytes rs)\<rparr>)"
  have "\<exists>rep. replay_journal env jb (s, d) = (Inr rep, s, ?d)"
    using p d1 assms(7,9) by (simp add: roll_back_def Let_def truncate_evidence_def abind_def del: lit_simps)
  then obtain rep where "replay_journal env jb (s, d) = (Inr rep, s, ?d)" by blast
  moreover have "opened (conv env) s ?d rs"
    using assms d1 by (simp add: opened_def consistent_def drop_journal_def healthy_def cache_at_def log_at_def)
  ultimately show ?thesis using assms(1,8) by (intro recover_after) simp_all
qed

lemma complete_recovers:
  assumes "es_locked s" "named s" "es_state s = None" "healthy env"
    and "journal_of env0 s0 kid rs l h jb" "es_node_id s0 = es_node_id s" "log_of (es_node_id s) rs"
    and "state_at (conv env) (es_node_id s) (state_file d) rs \<or> state_at (conv env) (es_node_id s) (state_file d) (rs @ [(l, h)])"
    and "evidence_log d = Some (log_bytes rs @ line_bytes l)" "journal_file d = Some jb"
  shows "recovered env s d (rs @ [(l, h)])"
proof -
  let ?sq = "int (length rs) + 1"
  define e where "e = journal_dict env0 s0 ?sq h (int (length (log_bytes rs))) l kid"
  have j: "record_line (es_node_id s) ?sq h l" "int_digits_ok ?sq" "named s0" "\<forall>k. kid = Some k \<longrightarrow> list_all scalar k"
    using assms(5,6) by (simp_all add: journal_of_def)
  have run: "replay_journal env jb (s, d) = complete_commit env e ?sq (s, d)"
    using replay_own [OF assms(5,6), of env d] replay_entry_own [OF assms(5,9) e_def, of env s] by (simp add: e_def)
  have get: "dict_get e (lit ''event_hash'') = Some (PyStr h)"
      "dict_get e (lit ''key_id'') = Some (py_or (key_arg kid) (PyStr (es_key_id s0)))"
    by (simp_all add: e_def journal_get del: lit_simps)
  have log: "log_of (es_node_id s) (rs @ [(l, h)])" "log_at (evidence_log d) (rs @ [(l, h)])"
    using assms(7,9) j(1) by (simp_all add: log_of_snoc log_at_def log_bytes_snoc)
  have cache: "cache_at s x" for x using assms(3) by (simp add: cache_at_def)
  consider (old) "state_at (conv env) (es_node_id s) (state_file d) rs"
    | (new) "state_at (conv env) (es_node_id s) (state_file d) (rs @ [(l, h)])"
    using assms(8) by blast
  then have "\<exists>rep s1 d1. replay_journal env jb (s, d) = (Inr rep, s1, d1) \<and> opened (conv env) s1 d1 (rs @ [(l, h)])
      \<and> es_node_id s1 = es_node_id s \<and> es_key_id s1 = es_key_id s"
  proof cases
    case old
    obtain st where st: "at_position st rs" "read_state env (s, d) = (Inr st, s\<lparr>es_state := Some st\<rparr>, d)"
      using read_state_at [OF assms(1,2) old cache] by blast
    let ?s = "s\<lparr>es_state := Some st\<rparr>"
    obtain k where k: "py_or (get_or e (lit ''key_id'') PyNone) (py_or (PyStr (es_key_id s)) (ns_key_id st)) = PyStr k"
        "k \<noteq> []" "list_all scalar k"
      using key_field [OF j(3,4)] get(2) by (auto simp: get_or_def py_or_def truthy_def simp del: lit_simps)
    obtain raw st' where w: "write_state env (next_state ?s (PyStr k) ?sq h) (?s, d)
          = (Inr (), ?s\<lparr>es_state := Some st'\<rparr>, d\<lparr>state_file := Some raw\<rparr>)"
        "load_state (conv env) (es_node_id ?s) raw = Inr st'" "at_position st' (rs @ [(l, h)])"
      using write_state_next [OF _ _ _ refl j(2), of env ?s "PyStr k" h d "conv env" l] assms(2,4) k(2,3) j(1)
      by (auto simp: named_def record_line_def healthy_def)
    let ?d = "drop_journal env (d\<lparr>state_file := Some raw\<rparr>)"
    have "replay_journal env jb (s, d) = (Inr (new_recovery\<lparr>journal_found := True, action := lit ''completed_commit'',
        rr_sequence := Some ?sq\<rparr>), ?s\<lparr>es_state := Some st'\<rparr>, ?d)"
      using st w(1) get(1) k(1) unfolding run
      by (simp add: complete_commit_def abind_def dict_item_def at_position_def del: lit_simps)
    moreover have "opened (conv env) (?s\<lparr>es_state := Some st'\<rparr>) ?d (rs @ [(l, h)])"
      using assms(1,2,4) log w(2,3)
      by (simp add: opened_def consistent_def drop_journal_def healthy_def cache_at_def state_at_def named_def)
    ultimately show ?thesis by - (rule exI, rule exI, rule exI, rule conjI, assumption, simp)
  next
    case new
    obtain st where st: "at_position st (rs @ [(l, h)])" "read_state env (s, d) = (Inr st, s\<lparr>es_state := Some st\<rparr>, d)"
      using read_state_at [OF assms(1,2) new cache] by blast
    let ?s = "s\<lparr>es_state := Some st\<rparr>"
    have "replay_journal env jb (s, d) = (Inr (new_recovery\<lparr>journal_found := True, action := lit ''already_committed'',
        rr_sequence := Some ?sq\<rparr>), ?s, drop_journal env d)"
      using st unfolding run by (simp add: complete_commit_def abind_def at_position_def del: lit_simps)
    moreover have "opened (conv env) ?s (drop_journal env d) (rs @ [(l, h)])"
      using assms(1,2,4) log new st(1)
      by (simp add: opened_def consistent_def drop_journal_def healthy_def cache_at_def named_def)
    ultimately show ?thesis by - (rule exI, rule exI, rule exI, rule conjI, assumption, simp)
  qed
  then show ?thesis using recover_after [OF assms(1)] assms(10) by auto
qed

section \<open>Properties\<close>

lemma line_bytes_Nil [simp]: "line_bytes l \<noteq> []"
  by (simp add: line_bytes_def utf8_char_def)

lemma create_log_at:
  assumes "log_at (evidence_log d) rs"
  shows "evidence_log (create_log d) = Some (log_bytes rs)" "state_file (create_log d) = state_file d"
    "journal_file (create_log d) = journal_file d"
    "create_log d = d\<lparr>evidence_log := Some (log_bytes rs)\<rparr>"
  using assms by (auto simp: create_log_def log_at_def log_bytes_def split: option.splits)

lemma stage_recovers:
  assumes "stage (conv env) nid jb rs l h d0 complete d" "journal_of env0 s0 kid rs l h jb" "es_node_id s0 = nid"
    and "consistent (conv env) nid d0 rs" "es_locked s" "named s" "es_node_id s = nid" "es_state s = None" "healthy env"
  shows "recovered env s d (if complete then rs @ [(l, h)] else rs)"
proof -
  have c: "log_of (es_node_id s) rs" "log_at (evidence_log d0) rs" "journal_file d0 = None"
    "state_at (conv env) (es_node_id s) (state_file d0) rs"
    using assms(4,7) by (simp_all add: consistent_def)
  note cl = create_log_at [OF c(2)]
  have r: "record_line (es_node_id s) (int (length rs) + 1) h l" using assms(2,3,7) by (simp add: journal_of_def)
  have n: "es_node_id s0 = es_node_id s" using assms(3,7) by simp
  have clean: "recovered env s d1 x"
    if "log_of (es_node_id s) x" "log_at (evidence_log d1) x" "journal_file d1 = None"
      "state_at (conv env) (es_node_id s) (state_file d1) x" for d1 x
    using that assms(5,6,8) by (intro recover_clean) (simp add: opened_def consistent_def cache_at_def)
  have partial: "recovered env s d1 rs"
    if "evidence_log d1 = Some (log_bytes rs @ take k (line_bytes l))" "k < length (line_bytes l)"
      "journal_file d1 = Some jb" "state_file d1 = state_file d0" for d1 k
  proof (rule roll_back_recovers [OF assms(5,6,8,9) c(1) _ that(1,3)])
    show "state_at (conv env) (es_node_id s) (state_file d1) rs" using c(4) that(4) by simp
    show "replay_journal env jb (s, d1) = roll_back env (int (length rs) + 1) (int (length (log_bytes rs))) (s, d1)"
      using replay_own [OF assms(2) n, of env d1] replay_entry_own [OF assms(2) that(1) refl, of env s] that(2) by simp
  qed
  show ?thesis using assms(1)
  proof cases
    case begin_txn
    with clean [of rs d0] c show ?thesis by simp
  next
    case created
    with clean [of rs d] c cl show ?thesis by (simp add: log_at_def)
  next
    case (journalling k)
    show ?thesis
    proof (cases "k < length jb")
      case True
      have "length (take k jb) \<le> MAX_JOURNAL_BYTES" using assms(2) by (auto simp: journal_of_def)
      with journalling discard_recovers [OF assms(5,6,8,9) c(1), of d "take k jb"] journal_read(2) [OF assms(2) True] c(4) cl
      show ?thesis by (simp add: log_at_def)
    next
      case False
      with journalling partial [of d 0] cl show ?thesis by simp
    qed
  next
    case (appending k)
    with partial [of d k] show ?thesis by simp
  next
    case appended
    with complete_recovers [OF assms(5,6,8,9,2) n c(1)] c(4) show ?thesis by simp
  next
    case (committed raw st)
    then have "state_at (conv env) (es_node_id s) (Some raw) (rs @ [(l, h)])"
      using assms(7) by (auto simp: state_at_def)
    with committed complete_recovers [OF assms(5,6,8,9,2) n c(1)] show ?thesis by simp
  next
    case (finished raw st)
    then have "state_at (conv env) (es_node_id s) (Some raw) (rs @ [(l, h)])"
      using assms(7) by (auto simp: state_at_def)
    with finished clean [of "rs @ [(l, h)]" d] c(1) r show ?thesis
      by (simp add: log_of_snoc log_at_def log_bytes_snoc)
  qed
qed

text \<open>
  \<^bold>\<open>C9\<close>. Crash safety. Start from a disk consistent with the records \<open>rs\<close> and kill the process
  at any stage of the transaction that appends one more record: before or after any write, or in
  the middle of writing the journal or the line. The next store that is opened on the disk
  recovers without an error, and its disk is again consistent: with the new record if the line
  had been written completely, and with exactly \<open>rs\<close> otherwise. So no record is lost, half
  written or duplicated, and no sequence number of a complete record is issued again.
\<close>

theorem recovery_from_every_stage:
  assumes "stage (conv env) nid jb rs l h d0 complete d" "journal_of env0 s0 kid rs l h jb" "es_node_id s0 = nid"
    and "consistent (conv env) nid d0 rs" "es_locked s" "named s" "es_node_id s = nid" "es_state s = None" "healthy env"
  shows "recovered env s d (if complete then rs @ [(l, h)] else rs)"
  by (rule stage_recovers [OF assms])

section \<open>Every exit of the transaction is a stage\<close>

lemma disk_order:
  "d\<lparr>evidence_log := a, journal_file := b\<rparr> = d\<lparr>journal_file := b, evidence_log := a\<rparr>"
  "d\<lparr>evidence_log := a, state_file := c\<rparr> = d\<lparr>state_file := c, evidence_log := a\<rparr>"
  "d\<lparr>journal_file := b, state_file := c\<rparr> = d\<lparr>state_file := c, journal_file := b\<rparr>"
  by (cases d; simp)+

lemma previous_hash_exists:
  assumes "named s" "at_position st rs"
  shows "\<exists>prev. expected_previous_hash sha3 (es_node_id s) (ns_last_sequence st + 1) (ns_last_event_hash st) = Inr prev"
  using assms by (auto simp: expected_previous_hash_def at_position_def FIRST_SEQUENCE_def genesis_previous_hash_def
      named_def utf8_encode_def)

lemma append_signed_split:
  assumes "es_locked s" "read_state env (s, d) = (Inr st, s1, d)" "es_node_id s1 = es_node_id s"
    and "expected_previous_hash (digest_of env) (es_node_id s) (ns_last_sequence st + 1) (ns_last_event_hash st) = Inr prev"
    and "build (ns_last_sequence st + 1) prev = Inr (l, h)"
  shows "append_signed env build kid fault (s, d) =
    (if fault (lit ''before_sign'') then (Inl (Fault (lit ''before_sign'')), s1, d)
     else if fault (lit ''after_sign'') then (Inl (Fault (lit ''after_sign'')), s1, d)
     else
       abind (write_journal env (ns_last_sequence st + 1) h (int (log_size (create_log d))) l kid) (\<lambda>_.
         finish_txn env (log_size (create_log d)) l
           (next_state s1 (py_or (key_arg kid) (py_or (PyStr (es_key_id s1)) (ns_key_id st))) (ns_last_sequence st + 1) h)
           fault (ns_last_sequence st + 1, h)) (s1, create_log d))"
  using assms
  by (simp add: append_signed_def finish_txn_def abind_def require_lock_def fault_at_def areq_def Let_def del: lit_simps)

lemma finish_txn_stage:
  assumes j: "journal_of env s kid rs l h jb" "log_at (evidence_log d) rs" "journal_file d = None"
    and st: "ns_last_sequence st = int (length rs) + 1" "ns_last_event_hash st = Some h"
    and w: "state_io env \<Longrightarrow> \<exists>raw st'. write_state env st (s, d1) = (Inr (), s\<lparr>es_state := Some st'\<rparr>, d1\<lparr>state_file := Some raw\<rparr>)
        \<and> load_state cv nid raw = Inr st' \<and> at_position st' (rs @ [(l, h)])"
    and w': "\<not> state_io env \<Longrightarrow> write_state env st (s, d1) = (Inl OSError, s, d1)"
    and d1: "d1 = d\<lparr>journal_file := Some jb, evidence_log := Some (log_bytes rs @ line_bytes l)\<rparr>"
    and run: "finish_txn env (length (log_bytes rs)) l st fault out
       (s, d\<lparr>journal_file := Some jb, evidence_log := Some (log_bytes rs)\<rparr>) = (r, s', d')"
  shows "\<exists>complete. stage cv nid jb rs l h d complete d' \<and> (\<forall>x. r = Inr x \<longrightarrow> complete \<and> x = out)
    \<and> (r = Inr out \<and> unlink_ok env \<longrightarrow> (\<exists>raw st'. s' = s\<lparr>es_state := Some st'\<rparr> \<and> at_position st' (rs @ [(l, h)])
        \<and> d' = d\<lparr>state_file := Some raw, journal_file := None, evidence_log := Some (log_bytes rs @ line_bytes l)\<rparr>
        \<and> load_state cv nid raw = Inr st'))
    \<and> (fault = (\<lambda>_. False) \<and> append_io env = None \<and> state_io env \<longrightarrow> r = Inr out)"
proof -
  have enc: "utf8_encode (l @ [10]) = Inr (line_bytes l)" using j(1) line_encode by (auto simp: journal_of_def)
  have cl: "create_log d = d\<lparr>evidence_log := Some (log_bytes rs)\<rparr>" using create_log_at(4) [OF j(2)] .
  have jr: "stage cv nid jb rs l h d False (d\<lparr>journal_file := Some jb, evidence_log := Some (log_bytes rs)\<rparr>)"
    using stage.journalling [of cv nid jb rs l h d "length jb"] cl by (simp add: disk_order)
  have rb: "stage cv nid jb rs l h d False (rollback env (length (log_bytes rs))
      (d\<lparr>journal_file := Some jb, evidence_log := Some (log_bytes rs @ x)\<rparr>))" for x
  proof (cases "unlink_ok env")
    case True
    have "d\<lparr>journal_file := None, evidence_log := Some (log_bytes rs)\<rparr> = create_log d"
      using cl j(3) by (cases d) simp
    with True show ?thesis using stage.created [of cv nid jb rs l h d] by (simp add: rollback_def drop_journal_def disk_order)
  next
    case False
    with jr show ?thesis by (simp add: rollback_def drop_journal_def disk_order)
  qed
  note ap = stage.appended [of cv nid jb rs l h d]
  consider (f1) "fault (lit ''after_journal'')" | (io) n where "\<not> fault (lit ''after_journal'')" "append_io env = Some n"
    | (f2) "\<not> fault (lit ''after_journal'')" "append_io env = None" "fault (lit ''after_append'')"
    | (nostate) "\<not> fault (lit ''after_journal'')" "append_io env = None" "\<not> fault (lit ''after_append'')" "\<not> state_io env"
    | (ok) "\<not> fault (lit ''after_journal'')" "append_io env = None" "\<not> fault (lit ''after_append'')" "state_io env"
    by (cases "append_io env") auto
  then show ?thesis
  proof cases
    case f1
    with run have "r = Inl (Fault (lit ''after_journal''))" "d' = d\<lparr>journal_file := Some jb, evidence_log := Some (log_bytes rs)\<rparr>"
      by (simp_all add: finish_txn_def fault_at_def abind_def areq_def del: lit_simps)
    with jr f1 show ?thesis by (intro exI [of _ False]) auto
  next
    case io
    with run enc have "r = Inl TransactionAborted" "d' = rollback env (length (log_bytes rs))
        (d\<lparr>journal_file := Some jb, evidence_log := Some (log_bytes rs @ take n (line_bytes l))\<rparr>)"
      by (simp_all add: finish_txn_def fault_at_def abind_def areq_def append_record_def del: lit_simps)
    with rb io show ?thesis by (intro exI [of _ False]) auto
  next
    case f2
    with run enc have "r = Inl (Fault (lit ''after_append''))" "d' = d1"
      by (simp_all add: finish_txn_def fault_at_def abind_def areq_def append_record_def d1 del: lit_simps)
    with ap f2 d1 show ?thesis by (intro exI [of _ True]) auto
  next
    case nostate
    with run enc w' d1 have "r = Inl TransactionAborted" "d' = d1"
      by (simp_all add: finish_txn_def fault_at_def abind_def areq_def append_record_def commit_state_def del: lit_simps)
    with ap nostate d1 show ?thesis by (intro exI [of _ True]) auto
  next
    case ok
    from w [OF ok(4)] obtain raw st' where ws: "write_state env st (s, d1) = (Inr (), s\<lparr>es_state := Some st'\<rparr>, d1\<lparr>state_file := Some raw\<rparr>)"
        "load_state cv nid raw = Inr st'" "at_position st' (rs @ [(l, h)])" by blast
    note cm = stage.committed [OF ws(2,3), of jb d] and fin = stage.finished [OF ws(2,3), of jb d]
    let ?d = "d1\<lparr>state_file := Some raw\<rparr>"
    have step: "finish_txn env (length (log_bytes rs)) l st fault out
       (s, d\<lparr>journal_file := Some jb, evidence_log := Some (log_bytes rs)\<rparr>)
       = (if fault (lit ''after_commit'') then (Inl (Fault (lit ''after_commit'')), s\<lparr>es_state := Some st'\<rparr>, ?d)
          else (Inr out, s\<lparr>es_state := Some st'\<rparr>, drop_journal env ?d))"
      using ok enc ws(1) d1
      by (simp add: finish_txn_def fault_at_def abind_def areq_def append_record_def commit_state_def del: lit_simps)
    show ?thesis
    proof (cases "fault (lit ''after_commit'')")
      case True
      with step run have "r = Inl (Fault (lit ''after_commit''))" "d' = ?d" by auto
      with cm True d1 show ?thesis by (intro exI [of _ True]) (auto simp: disk_order)
    next
      case False
      with step run have r: "r = Inr out" "s' = s\<lparr>es_state := Some st'\<rparr>" "d' = drop_journal env ?d" by auto
      have "stage cv nid jb rs l h d True d'" using cm fin r(3) d1 by (cases "unlink_ok env") (simp_all add: drop_journal_def disk_order)
      with r ws d1 show ?thesis by (intro exI [of _ True]) (auto simp: drop_journal_def disk_order)
    qed
  qed
qed

section \<open>The journal fits\<close>

text \<open>
  Python converts integers of at most 4300 digits: no log that fits on a disk comes near, but
  the statements below have to name the limit.
\<close>

definition countable_log :: "log_record list \<Rightarrow> bool" where
  "countable_log rs \<longleftrightarrow> int_digits_ok (int (length rs) + 1) \<and> int_digits_ok (int (length (log_bytes rs)))"

lemma esc_char_length: "length (esc_char True c) \<le> 6 * length (utf8_char c)"
  by (simp add: esc_char_def u_escape_def utf8_char_def)

lemma quote_ascii_length: "length (quote True s) \<le> 2 + 6 * length (concat (map utf8_char s))"
proof -
  have "length (concat (map (esc_char True) s)) \<le> 6 * length (concat (map utf8_char s))"
  proof (induction s)
    case (Cons c s)
    with esc_char_length [of c] show ?case by (simp add: algebra_simps)
  qed simp
  then show ?thesis by (simp add: quote_def)
qed

lemma dec_int_length: "int_digits_ok i \<Longrightarrow> length (dec_int i) \<le> 4301"
  by (auto simp: dec_int_def int_digits_ok_def MAX_STR_DIGITS_def)

definition ids_fit :: "osenv \<Rightarrow> EvidenceStore \<Rightarrow> pystr option \<Rightarrow> bool" where
  "ids_fit env s kid \<longleftrightarrow> length (es_node_id s) \<le> 256 \<and> length (es_key_id s) \<le> 256
     \<and> (\<forall>k. kid = Some k \<longrightarrow> length k \<le> 256) \<and> length (utc_now env) \<le> 256"

text \<open>A record of at most 150 000 bytes has a journal below the limit recovery accepts.\<close>

lemma journal_exists:
  assumes "named s" "list_all scalar (utc_now env)" "\<forall>k. kid = Some k \<longrightarrow> list_all scalar k"
    and "record_line (es_node_id s) (int (length rs) + 1) h l" "length (line_bytes l) \<le> 150000"
    and "countable_log rs" "ids_fit env s kid"
  shows "\<exists>jb. journal_of env s kid rs l h jb"
proof -
  let ?sq = "int (length rs) + 1" and ?o = "int (length (log_bytes rs))"
  obtain k where k: "py_or (key_arg kid) (PyStr (es_key_id s)) = PyStr k" using key_field [OF assms(1,3)] by blast
  then have kl: "length k \<le> 256"
    using assms(7) by (auto simp: ids_fit_def py_or_def key_arg_def split: if_splits option.splits)
  let ?jt = "123 # join (lit '', '') (map (member_text plain_style)
    [(lit ''node_id'', quote True (es_node_id s)), (lit ''key_id'', quote True k), (lit ''sequence'', dec_int ?sq),
     (lit ''event_hash'', quote True h), (lit ''offset'', dec_int ?o), (lit ''record'', quote True l),
     (lit ''written_at'', quote True (utc_now env))]) @ [125]"
  have jt: "dumps plain_style (PyDict (journal_dict env s ?sq h ?o l kid)) = Inr ?jt"
    using assms(6) k by (simp add: journal_dict_def countable_log_def plain_style_def order_items_def del: lit_simps join.simps)
  have ql: "length (quote True x) \<le> 2 + 24 * length x" for x using quote_ascii_length [of x] utf8_length [of x] by simp
  have "length (quote True l) \<le> 2 + 6 * length (line_bytes l)" using quote_ascii_length [of l] by (simp add: line_bytes_def)
  with assms(5) have "length (quote True l) \<le> 900002" by simp
  moreover have "length (quote True h) \<le> 2 + 24 * 64" using ql [of h] assms(4) by (simp add: record_line_def)
  moreover have "length (quote True (es_node_id s)) \<le> 2 + 24 * 256" "length (quote True (utc_now env)) \<le> 2 + 24 * 256"
    "length (quote True k) \<le> 2 + 24 * 256"
    using ql [of "es_node_id s"] ql [of "utc_now env"] ql [of k] kl assms(7) by (auto simp: ids_fit_def)
  moreover have "length (dec_int ?sq) \<le> 4301" "length (dec_int ?o) \<le> 4301"
    using assms(6) by (simp_all add: countable_log_def dec_int_length)
  moreover have "length (quote True (lit x)) \<le> 2 + 24 * length x" for x using ql [of "lit x"] by simp
  note this [of "''node_id''"] this [of "''key_id''"] this [of "''sequence''"] this [of "''event_hash''"]
    this [of "''offset''"] this [of "''record''"] this [of "''written_at''"]
  ultimately have len: "length ?jt \<le> MAX_JOURNAL_BYTES"
    by (simp add: member_text_def plain_style_def MAX_JOURNAL_BYTES_def del: lit_simps)
  have "\<forall>kv\<in>set (journal_dict env s ?sq h ?o l kid). flat (snd kv)"
    using k by (simp add: journal_dict_def flat_def)
  from plain_printable [OF jt this] have "\<forall>c\<in>set ?jt. c = 10 \<or> (32 \<le> c \<and> c < 127)"
    unfolding printable_def by blast
  from read_text_ascii [OF this] obtain jb where "utf8_encode ?jt = Inr jb" "length jb = length ?jt" by blast
  with jt len assms(1-4,6) show ?thesis
    by (intro exI [of _ jb]) (simp add: journal_of_def journal_bytes_def countable_log_def del: lit_simps join.simps)
qed

section \<open>Builders of records\<close>

text \<open>
  What the store asks of the callback it runs inside the transaction: the line is a record of
  the node with the number it was given and the hash it returns, and it is not longer than
  150 000 bytes. The signer provides it whenever what it relies on holds (\<open>ready\<close>).
\<close>

locale record_builder =
  fixes build :: "int \<Rightarrow> pystr \<Rightarrow> (pystr \<times> pystr) res"
    and nid :: pystr
    and ready :: bool
  assumes build_line: "\<lbrakk>ready; build sq prev = Inr (l, h)\<rbrakk> \<Longrightarrow> record_line nid sq h l \<and> length (line_bytes l) \<le> 150000"
begin

text \<open>The previous hash the store hands to the builder.\<close>

lemma append_exits:
  assumes o: "opened (conv env) s d rs" "es_node_id s = nid" "countable_log rs" ready
    and t: "list_all scalar (utc_now env)" "\<forall>k. kid = Some k \<longrightarrow> list_all scalar k" "ids_fit env s kid"
    and run: "append_signed env build kid fault (s, d) = (r, s', d')"
  shows "\<exists>prev. expected_previous_hash (digest_of env) nid (int (length rs) + 1)
      (if rs = [] then None else Some (snd (last rs))) = Inr prev
    \<and> (case build (int (length rs) + 1) prev of
         Inl e \<Rightarrow> is_ok r = False \<and> d' = d \<and> opened (conv env) s' d' rs
       | Inr (l, h) \<Rightarrow> \<exists>jb complete. journal_of env s kid rs l h jb \<and> stage (conv env) nid jb rs l h d complete d'
           \<and> (\<forall>x. r = Inr x \<longrightarrow> complete \<and> x = (int (length rs) + 1, h))
           \<and> (is_ok r \<and> unlink_ok env \<longrightarrow> opened (conv env) s' d' (rs @ [(l, h)]) \<and> es_node_id s' = nid \<and> es_key_id s' = es_key_id s)
           \<and> (fault = (\<lambda>_. False) \<and> journal_io env = None \<and> append_io env = None \<and> state_io env \<longrightarrow> is_ok r))"
proof -
  let ?sq = "int (length rs) + 1"
  have op: "es_locked s" "named s" "consistent (conv env) (es_node_id s) d rs" "cache_at s rs"
    using o(1) by (auto simp: opened_def)
  obtain st where st: "at_position st rs" "read_state env (s, d) = (Inr st, s\<lparr>es_state := Some st\<rparr>, d)"
    using read_state_at [OF op(1,2) _ op(4), of env d] op(3) by (auto simp: consistent_def)
  let ?s = "s\<lparr>es_state := Some st\<rparr>"
  have pos: "ns_last_sequence st + 1 = ?sq" "ns_last_event_hash st = (if rs = [] then None else Some (snd (last rs)))"
    using st(1) by (simp_all add: at_position_def)
  obtain prev where prev: "expected_previous_hash (digest_of env) (es_node_id s) ?sq (ns_last_event_hash st) = Inr prev"
    using previous_hash_exists [OF op(2) st(1)] pos(1) by metis
  have fin: "opened (conv env) ?s d rs" using o(1) st(1) by (simp add: opened_def cache_at_def named_def)
  show ?thesis
  proof (cases "build ?sq prev")
    case (Inl e)
    have "is_ok r = False \<and> d' = d \<and> s' = ?s"
      using run st(2) op(1) prev Inl pos(1)
      by (auto simp: append_signed_def abind_def require_lock_def fault_at_def areq_def Let_def split: if_splits)
    with fin Inl prev pos(2) o(2) show ?thesis by (intro exI [of _ prev]) simp
  next
    case (Inr lh)
    obtain l h where lh: "lh = (l, h)" by (cases lh)
    note b = build_line [OF o(4) Inr [unfolded lh]]
    obtain jb where jb: "journal_of env s kid rs l h jb"
      using journal_exists [OF op(2) t(1,2) _ _ o(3) t(3)] b o(2) by blast
    then have jb': "journal_of env ?s kid rs l h jb"
      by simp
    let ?d1 = "d\<lparr>journal_file := Some jb, evidence_log := Some (log_bytes rs @ line_bytes l)\<rparr>"
    let ?st = "next_state ?s (py_or (key_arg kid) (py_or (PyStr (es_key_id s)) (ns_key_id st))) ?sq h"
    have la: "log_at (evidence_log d) rs" "journal_file d = None" using op(3) by (simp_all add: consistent_def)
    note cl = create_log_at [OF la(1)]
    have sz: "log_size (create_log d) = length (log_bytes rs)" by (simp add: log_size_def cl)
    have key: "\<exists>k. py_or (key_arg kid) (py_or (PyStr (es_key_id s)) (ns_key_id st)) = PyStr k \<and> k \<noteq> [] \<and> list_all scalar k"
      using op(2) t(2) by (auto simp: py_or_def key_arg_def truthy_def named_def split: option.splits)
    have w: "\<exists>raw st'. write_state env ?st (?s, ?d1) = (Inr (), ?s\<lparr>es_state := Some st'\<rparr>, ?d1\<lparr>state_file := Some raw\<rparr>)
        \<and> load_state (conv env) nid raw = Inr st' \<and> at_position st' (rs @ [(l, h)])" if "state_io env"
      using write_state_next [of env ?s _ ?sq rs h ?d1 "conv env" l, OF _ _ key refl] that t(1) op(2) o(2,3) b
      by (simp add: named_def countable_log_def record_line_def)
    have "\<exists>raw. encode_state (?st\<lparr>ns_updated_at := utc_now env\<rparr>) = Inr raw"
      using key op(2) t(1) o(3) hex_scalar [of h] b
      by (intro encode_state_total) (auto simp: writable_def next_state_def named_def countable_log_def
          record_line_def EVIDENCE_FORMAT_VERSION_def scalar_def)
    then have w': "write_state env ?st (?s, ?d1) = (Inl OSError, ?s, ?d1)" if "\<not> state_io env"
      using that by (auto simp: write_state_def replace_state_def Let_def)
    have split: "append_signed env build kid fault (s, d) =
      (if fault (lit ''before_sign'') then (Inl (Fault (lit ''before_sign'')), ?s, d)
       else if fault (lit ''after_sign'') then (Inl (Fault (lit ''after_sign'')), ?s, d)
       else
         abind (write_journal env ?sq h (int (length (log_bytes rs))) l kid) (\<lambda>_.
           finish_txn env (length (log_bytes rs)) l ?st fault (?sq, h)) (?s, create_log d))"
      using append_signed_split [OF op(1) st(2) _ prev [folded pos(1)], of build l h kid fault] Inr lh pos(1) sz
      by (simp del: lit_simps)
    have "\<exists>complete. stage (conv env) nid jb rs l h d complete d'
        \<and> (\<forall>x. r = Inr x \<longrightarrow> complete \<and> x = (?sq, h))
        \<and> (is_ok r \<and> unlink_ok env \<longrightarrow> opened (conv env) s' d' (rs @ [(l, h)]) \<and> es_node_id s' = nid \<and> es_key_id s' = es_key_id s)
        \<and> (fault = (\<lambda>_. False) \<and> journal_io env = None \<and> append_io env = None \<and> state_io env \<longrightarrow> is_ok r)"
    proof (cases "fault (lit ''before_sign'') \<or> fault (lit ''after_sign'')")
      case True
      then have "is_ok r = False" "d' = d" using run split by (auto split: if_splits)
      with True stage.begin_txn [of "conv env" nid jb rs l h d] show ?thesis
        by (intro exI [of _ False]) (auto simp: is_ok_iff)
    next
      case False
      have jw: "write_journal env ?sq h (int (length (log_bytes rs))) l kid (?s, create_log d)
          = (case journal_io env of None \<Rightarrow> (Inr (), ?s, (create_log d)\<lparr>journal_file := Some jb\<rparr>)
             | Some n \<Rightarrow> (Inl TransactionAborted, ?s, (create_log d)\<lparr>journal_file := Some (take n jb)\<rparr>))"
        using jb' by (simp add: write_journal_def journal_of_def)
      show ?thesis
      proof (cases "journal_io env")
        case (Some n)
        with False split run jw have "r = Inl TransactionAborted" "d' = (create_log d)\<lparr>journal_file := Some (take n jb)\<rparr>"
          by (auto simp: abind_def)
        with Some stage.journalling [of "conv env" nid jb rs l h d n] show ?thesis by (intro exI [of _ False]) auto
      next
        case None
        with False split run jw have fin_run: "finish_txn env (length (log_bytes rs)) l ?st fault (?sq, h)
            (?s, d\<lparr>journal_file := Some jb, evidence_log := Some (log_bytes rs)\<rparr>) = (r, s', d')"
          by (simp add: abind_def cl(4) disk_order)
        have st': "ns_last_sequence ?st = ?sq" "ns_last_event_hash ?st = Some h" by (simp_all add: next_state_def)
        from finish_txn_stage [OF jb' la st' w w' refl fin_run] obtain complete where c:
          "stage (conv env) nid jb rs l h d complete d'" "\<forall>x. r = Inr x \<longrightarrow> complete \<and> x = (?sq, h)"
          "r = Inr (?sq, h) \<and> unlink_ok env \<longrightarrow> (\<exists>raw st'. s' = ?s\<lparr>es_state := Some st'\<rparr> \<and> at_position st' (rs @ [(l, h)])
            \<and> d' = d\<lparr>state_file := Some raw, journal_file := None, evidence_log := Some (log_bytes rs @ line_bytes l)\<rparr>
            \<and> load_state (conv env) nid raw = Inr st')"
          "fault = (\<lambda>_. False) \<and> append_io env = None \<and> state_io env \<longrightarrow> r = Inr (?sq, h)"
          by blast
        have "opened (conv env) s' d' (rs @ [(l, h)]) \<and> es_node_id s' = nid \<and> es_key_id s' = es_key_id s"
          if ok: "is_ok r" "unlink_ok env"
        proof -
          obtain raw st' where x: "s' = ?s\<lparr>es_state := Some st'\<rparr>" "at_position st' (rs @ [(l, h)])"
            "d' = d\<lparr>state_file := Some raw, journal_file := None, evidence_log := Some (log_bytes rs @ line_bytes l)\<rparr>"
            "load_state (conv env) nid raw = Inr st'"
          proof -
            obtain x where "r = Inr x" using ok(1) unfolding is_ok_iff by blast
            with c(2) have "r = Inr (?sq, h)" by blast
            with c(3) ok(2) that show thesis by blast
          qed
          have "log_of nid (rs @ [(l, h)])" using op(3) o(2) b by (simp add: consistent_def log_of_snoc)
          with x op(1,2) o(2) show ?thesis
            by (simp add: opened_def consistent_def log_at_def log_bytes_snoc state_at_def cache_at_def named_def)
        qed
        moreover have "is_ok r" if "fault = (\<lambda>_. False)" "append_io env = None" "state_io env" using c(4) that by simp
        ultimately show ?thesis using c(1,2) by (intro exI [of _ complete] conjI impI allI) (blast | simp)+
      qed
    qed
    with jb Inr lh prev pos(2) o(2) show ?thesis by (intro exI [of _ prev]) auto
  qed
qed

end

end
