(* ===== verification/Backend.thy ===== *)
theory Backend
  imports Models
begin

text \<open>
  \<^verbatim>\<open>pqc_evidence/crypto_backend.py\<close>: the backend interface as a record of operations, the
  pure-Python backend over the \<^verbatim>\<open>dilithium-py\<close> / \<^verbatim>\<open>kyber-py\<close> packages (parameters, as
  third-party code), the test-only backend over HMAC (a parameter), and the selection of a
  backend. The OpenSSL backend is the subject of \<^verbatim>\<open>OpenSsl\<close>. A failure of a backend is the exception
  \<open>BackendError\<close> or its subclass \<open>BackendUnavailableError\<close>; the texts are dropped. Shown: what
  \<open>select_backend\<close> returns can do what was asked, and the test backend is never chosen unless
  the caller allowed it.
\<close>

record Capabilities =
  cap_name :: pystr
  available :: bool
  signature_algorithms :: "pystr list"
  kem_algorithms :: "pystr list"
  real_pqc :: bool

definition supports_signature :: "Capabilities \<Rightarrow> pystr \<Rightarrow> bool" where
  "supports_signature c alg \<longleftrightarrow> available c \<and> alg \<in> set (signature_algorithms c)"

definition supports_kem :: "Capabilities \<Rightarrow> pystr \<Rightarrow> bool" where
  "supports_kem c alg \<longleftrightarrow> available c \<and> alg \<in> set (kem_algorithms c)"

record KeyPair =
  kp_algorithm :: pystr
  public_bytes :: bytes
  private_bytes :: bytes
  kp_backend :: pystr

text \<open>
  \<^verbatim>\<open>CryptoBackend\<close>. Key generation and encapsulation draw random bytes, given as the first
  argument.
\<close>

record CryptoBackend =
  b_name :: pystr
  capabilities :: Capabilities
  generate_keypair :: "bytes \<Rightarrow> pystr \<Rightarrow> KeyPair res"
  sign :: "bytes \<Rightarrow> bytes \<Rightarrow> pystr \<Rightarrow> bytes res"
  verify :: "bytes \<Rightarrow> bytes \<Rightarrow> bytes \<Rightarrow> pystr \<Rightarrow> bool res"
  kem_generate_keypair :: "bytes \<Rightarrow> pystr \<Rightarrow> KeyPair res"
  kem_encapsulate :: "bytes \<Rightarrow> bytes \<Rightarrow> pystr \<Rightarrow> (bytes \<times> bytes) res"
  kem_decapsulate :: "bytes \<Rightarrow> bytes \<Rightarrow> pystr \<Rightarrow> bytes res"

section \<open>The pure-Python backend\<close>

definition PYFIPS_BACKEND :: pystr where
  "PYFIPS_BACKEND = lit ''pyfips''"

definition OPENSSL_BACKEND :: pystr where
  "OPENSSL_BACKEND = lit ''openssl''"

text \<open>One algorithm object of the packages; a call may raise.\<close>

record impl =
  keygen :: "bytes \<Rightarrow> bytes \<times> bytes"
  impl_sign :: "bytes \<Rightarrow> bytes \<Rightarrow> bytes res"
  impl_verify :: "bytes \<Rightarrow> bytes \<Rightarrow> bytes \<Rightarrow> bool res"
  encaps :: "bytes \<Rightarrow> bytes \<Rightarrow> (bytes \<times> bytes) res"
  decaps :: "bytes \<Rightarrow> bytes \<Rightarrow> bytes res"

text \<open>The table of a package, or \<open>None\<close> when it is not installed.\<close>

type_synonym package = "(pystr \<times> impl) list option"

definition package_impl :: "package \<Rightarrow> pystr \<Rightarrow> impl res" where
  "package_impl pkg alg =
     (case pkg of
        None \<Rightarrow> Inl BackendUnavailableError
      | Some table \<Rightarrow> (case map_of table alg of None \<Rightarrow> Inl BackendError | Some i \<Rightarrow> Inr i))"

definition package_names :: "package \<Rightarrow> pystr list" where
  "package_names pkg = (case pkg of None \<Rightarrow> [] | Some table \<Rightarrow> map fst table)"

text \<open>\<^verbatim>\<open>except Exception\<close> around a package call: any exception becomes \<open>BackendError\<close>.\<close>

definition guarded :: "'a res \<Rightarrow> 'a res" where
  "guarded r = (case r of Inl _ \<Rightarrow> Inl BackendError | Inr x \<Rightarrow> Inr x)"

definition pyfips_capabilities :: "package \<Rightarrow> package \<Rightarrow> Capabilities" where
  "pyfips_capabilities sigs kems =
     (if sigs = None \<and> kems = None
      then \<lparr>cap_name = PYFIPS_BACKEND, available = False, signature_algorithms = [],
            kem_algorithms = [], real_pqc = True\<rparr>
      else \<lparr>cap_name = PYFIPS_BACKEND, available = (sigs \<noteq> None),
            signature_algorithms = package_names sigs, kem_algorithms = package_names kems,
            real_pqc = True\<rparr>)"

definition PyFipsBackend :: "package \<Rightarrow> package \<Rightarrow> CryptoBackend" where
  "PyFipsBackend sigs kems =
     \<lparr>b_name = PYFIPS_BACKEND,
      capabilities = pyfips_capabilities sigs kems,
      generate_keypair = (\<lambda>rnd alg. rbind (package_impl sigs alg) (\<lambda>i.
        Inr \<lparr>kp_algorithm = alg, public_bytes = fst (keygen i rnd),
             private_bytes = snd (keygen i rnd), kp_backend = PYFIPS_BACKEND\<rparr>)),
      sign = (\<lambda>sk msg alg. rbind (package_impl sigs alg) (\<lambda>i. guarded (impl_sign i sk msg))),
      verify = (\<lambda>pk msg sig alg. rbind (package_impl sigs alg) (\<lambda>i.
        (case impl_verify i pk msg sig of Inl _ \<Rightarrow> Inr False | Inr ok \<Rightarrow> Inr ok))),
      kem_generate_keypair = (\<lambda>rnd alg. rbind (package_impl kems alg) (\<lambda>i.
        Inr \<lparr>kp_algorithm = alg, public_bytes = fst (keygen i rnd),
             private_bytes = snd (keygen i rnd), kp_backend = PYFIPS_BACKEND\<rparr>)),
      kem_encapsulate = (\<lambda>rnd pk alg. rbind (package_impl kems alg) (\<lambda>i. guarded (encaps i rnd pk))),
      kem_decapsulate = (\<lambda>sk ct alg. rbind (package_impl kems alg) (\<lambda>i. guarded (decaps i sk ct)))\<rparr>"

section \<open>The test-only backend\<close>

definition TEST_BACKEND :: pystr where
  "TEST_BACKEND = lit ''insecure-test-only''"

definition TEST_KEY_MARKER :: bytes where
  "TEST_KEY_MARKER = map byte_of (lit ''INSECURE-TEST-ONLY-KEY-DO-NOT-USE'')"

definition ML_DSA_ALGORITHMS :: "pystr list" where
  "ML_DSA_ALGORITHMS = [lit ''ML-DSA-44'', lit ''ML-DSA-65'', lit ''ML-DSA-87'']"

definition ML_KEM_ALGORITHMS :: "pystr list" where
  "ML_KEM_ALGORITHMS = [lit ''ML-KEM-512'', lit ''ML-KEM-768'', lit ''ML-KEM-1024'']"

text \<open>The two environment variables the module reads.\<close>

record environ =
  ICS_PQC_BACKEND :: "pystr option"
  ICS_PQC_PRODUCTION :: "pystr option"

definition production_mode :: "environ \<Rightarrow> bool" where
  "production_mode env \<longleftrightarrow>
     strip (case ICS_PQC_PRODUCTION env of None \<Rightarrow> [] | Some s \<Rightarrow> s)
       \<in> set [lit ''1'', lit ''true'', lit ''yes'', lit ''on'']"

definition test_capabilities :: "environ \<Rightarrow> Capabilities" where
  "test_capabilities env =
     \<lparr>cap_name = TEST_BACKEND, available = (\<not> production_mode env),
      signature_algorithms = ML_DSA_ALGORITHMS, kem_algorithms = ML_KEM_ALGORITHMS,
      real_pqc = False\<rparr>"

text \<open>
  \<open>hmac key msg\<close> stands for \<^verbatim>\<open>hmac.new(key, msg, hashlib.sha3_256).digest()\<close> and
  \<open>sha3_raw b\<close> for \<^verbatim>\<open>hashlib.sha3_256(b).digest()\<close>.
\<close>

definition InsecureTestBackend ::
  "(bytes \<Rightarrow> bytes \<Rightarrow> bytes) \<Rightarrow> (bytes \<Rightarrow> bytes) \<Rightarrow> environ \<Rightarrow> CryptoBackend"
where
  "InsecureTestBackend hmac sha3_raw env =
     (let guard = (\<lambda>r. if production_mode env then Inl BackendUnavailableError else r);
          marked = (\<lambda>mark rnd. TEST_KEY_MARKER @ map byte_of mark @ rnd);
          pair = (\<lambda>alg seed. \<lparr>kp_algorithm = alg, public_bytes = seed, private_bytes = seed,
                              kp_backend = TEST_BACKEND\<rparr>)
      in
       \<lparr>b_name = TEST_BACKEND,
        capabilities = test_capabilities env,
        generate_keypair = (\<lambda>rnd alg. if production_mode env then Inl BackendUnavailableError
                              else Inr (pair alg (marked (lit ''-'') rnd))),
        sign = (\<lambda>sk msg alg. guard (Inr (hmac sk msg))),
        verify = (\<lambda>pk msg sig alg. if production_mode env then Inl BackendUnavailableError
                              else Inr (hmac pk msg = sig)),
        kem_generate_keypair = (\<lambda>rnd alg. if production_mode env then Inl BackendUnavailableError
                              else Inr (pair alg (marked (lit ''-kem-'') rnd))),
        kem_encapsulate = (\<lambda>rnd pk alg. if production_mode env then Inl BackendUnavailableError
                              else Inr (sha3_raw (pk @ rnd), rnd)),
        kem_decapsulate = (\<lambda>sk ct alg. guard (Inr (sha3_raw (sk @ ct))))\<rparr>)"

section \<open>Selection\<close>

text \<open>\<^verbatim>\<open>_build_registry\<close>, in insertion order.\<close>

type_synonym backends = "(pystr \<times> CryptoBackend) list"

definition build_registry :: "CryptoBackend \<Rightarrow> CryptoBackend \<Rightarrow> CryptoBackend \<Rightarrow> backends" where
  "build_registry ossl pyfips tst =
     [(OPENSSL_BACKEND, ossl), (PYFIPS_BACKEND, pyfips), (TEST_BACKEND, tst)]"

definition PREFERENCE :: "pystr list" where
  "PREFERENCE = [OPENSSL_BACKEND, PYFIPS_BACKEND]"

definition get_backend :: "backends \<Rightarrow> pystr \<Rightarrow> CryptoBackend res" where
  "get_backend reg name = (case map_of reg name of None \<Rightarrow> Inl BackendError | Some b \<Rightarrow> Inr b)"

definition available_backends :: "backends \<Rightarrow> Capabilities list" where
  "available_backends reg =
     List.map_filter (\<lambda>name. map_option capabilities (map_of reg name)) (PREFERENCE @ [TEST_BACKEND])"

text \<open>\<^verbatim>\<open>bytes.lstrip()\<close> drops ASCII whitespace.\<close>

definition ascii_space :: "byte \<Rightarrow> bool" where
  "ascii_space b \<longleftrightarrow> unat b \<in> {9, 10, 11, 12, 13, 32}"

definition detect_private_key_backend :: "bytes \<Rightarrow> pystr" where
  "detect_private_key_backend sk =
     (if take 11 (dropWhile ascii_space sk) = map byte_of (lit ''-----BEGIN '') then OPENSSL_BACKEND
      else if take (length TEST_KEY_MARKER) sk = TEST_KEY_MARKER then TEST_BACKEND
      else PYFIPS_BACKEND)"

definition kem_ok :: "pystr option \<Rightarrow> Capabilities \<Rightarrow> bool" where
  "kem_ok require_kem c =
     (case require_kem of None \<Rightarrow> True | Some k \<Rightarrow> k = [] \<or> supports_kem c k)"

fun first_capable :: "backends \<Rightarrow> pystr \<Rightarrow> pystr option \<Rightarrow> pystr list \<Rightarrow> CryptoBackend res" where
  "first_capable reg alg require_kem [] = Inl BackendUnavailableError"
| "first_capable reg alg require_kem (candidate # rest) =
     (case map_of reg candidate of
        None \<Rightarrow> Inl KeyError
      | Some b \<Rightarrow>
          if \<not> available (capabilities b) then first_capable reg alg require_kem rest
          else if \<not> supports_signature (capabilities b) alg then first_capable reg alg require_kem rest
          else if \<not> kem_ok require_kem (capabilities b) then first_capable reg alg require_kem rest
          else Inr b)"

text \<open>\<^verbatim>\<open>x or y\<close> on optional strings: the empty string counts as absent.\<close>

definition nonempty :: "'a list option \<Rightarrow> 'a list option" where
  "nonempty x = (case x of Some (c # cs) \<Rightarrow> Some (c # cs) | _ \<Rightarrow> None)"

definition select_backend ::
  "backends \<Rightarrow> environ \<Rightarrow> pystr option \<Rightarrow> pystr \<Rightarrow> bool \<Rightarrow> pystr option \<Rightarrow> bytes option
   \<Rightarrow> CryptoBackend res"
where
  "select_backend reg env name alg allow_test require_kem for_private_key =
     (let requested = (case nonempty name of Some n \<Rightarrow> Some n | None \<Rightarrow> nonempty (ICS_PQC_BACKEND env))
      in case requested of
           None \<Rightarrow>
             (case nonempty for_private_key of
                Some sk \<Rightarrow>
                  (let detected = detect_private_key_backend sk in
                   require (detected \<noteq> TEST_BACKEND \<or> allow_test) BackendUnavailableError
                     (rbind (get_backend reg detected) (\<lambda>b.
                        require (available (capabilities b) \<and> supports_signature (capabilities b) alg)
                          BackendUnavailableError (Inr b))))
              | None \<Rightarrow> first_capable reg alg require_kem PREFERENCE)
         | Some n \<Rightarrow>
             rbind (get_backend reg n) (\<lambda>b.
               require (n \<noteq> TEST_BACKEND \<or> allow_test) BackendUnavailableError
               (require (available (capabilities b)) BackendUnavailableError
               (require (supports_signature (capabilities b) alg) BackendUnavailableError
               (require (kem_ok require_kem (capabilities b)) BackendUnavailableError (Inr b))))))"

definition select_real_backend ::
  "backends \<Rightarrow> environ \<Rightarrow> pystr \<Rightarrow> pystr option \<Rightarrow> bool \<Rightarrow> pystr option \<Rightarrow> CryptoBackend res"
where
  "select_real_backend reg env alg kem require_real_crypto name =
     select_backend reg env name alg (\<not> require_real_crypto) kem None"

text \<open>\<^verbatim>\<open>_registry()[candidate]\<close> for every preferred name.\<close>

definition real_backends :: "backends \<Rightarrow> pystr \<Rightarrow> pystr option \<Rightarrow> CryptoBackend list" where
  "real_backends reg alg kem =
     filter (\<lambda>b. (available (capabilities b) \<and> real_pqc (capabilities b))
                  \<and> supports_signature (capabilities b) alg \<and> kem_ok kem (capabilities b))
       (List.map_filter (map_of reg) PREFERENCE)"

section \<open>The contract of a signature backend\<close>

text \<open>
  What signer and verifier rely on: a signature made with a private key verifies under the
  public key that belongs to it, and checking it never raises.
\<close>

locale signature_backend =
  fixes backend :: CryptoBackend
    and pairs :: "bytes \<Rightarrow> bytes \<Rightarrow> pystr \<Rightarrow> bool"
  assumes verify_sign:
    "\<lbrakk>pairs sk pk alg; sign backend sk msg alg = Inr sig\<rbrakk> \<Longrightarrow> verify backend pk msg sig alg = Inr True"
begin

lemma verify_total:
  "pairs sk pk alg \<Longrightarrow> sign backend sk msg alg = Inr sig \<Longrightarrow> is_ok (verify backend pk msg sig alg)"
  by (simp add: verify_sign)

end

definition signs_for :: "CryptoBackend \<Rightarrow> bytes \<Rightarrow> bytes \<Rightarrow> pystr \<Rightarrow> bool" where
  "signs_for b sk pk alg \<longleftrightarrow>
     (\<forall>msg sig. sign b sk msg alg = Inr sig \<longrightarrow> verify b pk msg sig alg = Inr True)"

interpretation test_backend: signature_backend "InsecureTestBackend hmac sha3_raw env"
  "\<lambda>sk pk alg. sk = pk" for hmac sha3_raw env
  by unfold_locales (auto simp: InsecureTestBackend_def Let_def split: if_splits)

lemma test_backend_signs_for: "signs_for (InsecureTestBackend hmac sha3_raw env) sk sk alg"
  unfolding signs_for_def using test_backend.verify_sign by blast

lemma detect_test_key: "detect_private_key_backend (TEST_KEY_MARKER @ x) = TEST_BACKEND"
proof -
  obtain m where m: "TEST_KEY_MARKER = byte_of 73 # m" by (simp add: TEST_KEY_MARKER_def)
  have "byte_of 73 \<noteq> byte_of 45" "\<not> ascii_space (byte_of 73)"
    by (simp_all add: byte_eq_iff_unat ascii_space_def)
  then have "take 11 (dropWhile ascii_space (TEST_KEY_MARKER @ x)) \<noteq> map byte_of (lit ''-----BEGIN '')"
    by (simp add: m)
  then show ?thesis by (simp add: detect_private_key_backend_def)
qed

lemma test_keypair:
  "generate_keypair (InsecureTestBackend hmac sha3_raw env) rnd alg = Inr kp \<Longrightarrow>
   private_bytes kp = public_bytes kp \<and> detect_private_key_backend (private_bytes kp) = TEST_BACKEND"
  by (auto simp: InsecureTestBackend_def Let_def detect_test_key split: if_splits)

section \<open>Selection returns what was asked for\<close>

lemma first_capable_Inr:
  "first_capable reg alg kem cs = Inr b \<Longrightarrow>
   (\<exists>n\<in>set cs. map_of reg n = Some b) \<and> supports_signature (capabilities b) alg
   \<and> kem_ok kem (capabilities b)"
  by (induction cs) (auto split: option.splits if_splits)

text \<open>
  Whatever it is asked for and whatever the environment says, \<^verbatim>\<open>select_backend\<close>
  returns a registered backend that is available and supports the signature algorithm, also the
  key encapsulation when one is required (unless the backend was derived from a private key),
  and it returns the entry of the test backend only to a caller that allowed it.
\<close>

theorem select_backend_sound:
  assumes "select_backend reg env name alg allow_test kem sk = Inr b"
  shows "\<exists>n. map_of reg n = Some b \<and> (n = TEST_BACKEND \<longrightarrow> allow_test)
    \<and> supports_signature (capabilities b) alg
    \<and> (nonempty sk = None \<or> nonempty name \<noteq> None \<longrightarrow> kem_ok kem (capabilities b))"
proof -
  have "TEST_BACKEND \<notin> set PREFERENCE"
    by (simp add: TEST_BACKEND_def PREFERENCE_def OPENSSL_BACKEND_def PYFIPS_BACKEND_def)
  then have pref: "first_capable reg alg kem PREFERENCE = Inr b \<Longrightarrow> ?thesis"
    using first_capable_Inr by metis
  let ?req = "case nonempty name of Some n \<Rightarrow> Some n | None \<Rightarrow> nonempty (ICS_PQC_BACKEND env)"
  show ?thesis
  proof (cases ?req)
    case (Some n)
    with assms have "map_of reg n = Some b" "n \<noteq> TEST_BACKEND \<or> allow_test"
      "supports_signature (capabilities b) alg" "kem_ok kem (capabilities b)"
      by (auto simp: select_backend_def Let_def get_backend_def require_Inr_iff rbind_Inr_iff
          split: option.splits)
    then show ?thesis by blast
  next
    case None
    then have name: "nonempty name = None" by (auto split: option.splits)
    show ?thesis
    proof (cases "nonempty sk")
      case None
      with \<open>?req = None\<close> assms pref show ?thesis by (simp add: select_backend_def Let_def)
    next
      case (Some k)
      with \<open>?req = None\<close> assms
      have "map_of reg (detect_private_key_backend k) = Some b"
        "detect_private_key_backend k \<noteq> TEST_BACKEND \<or> allow_test"
        "supports_signature (capabilities b) alg"
        by (auto simp: select_backend_def Let_def get_backend_def require_Inr_iff rbind_Inr_iff
            split: option.splits)
      with Some name show ?thesis by (intro exI) auto
    qed
  qed
qed

definition demo_impl :: impl where
  "demo_impl = \<lparr>keygen = (\<lambda>r. (r, r)), impl_sign = (\<lambda>k m. Inr (k @ m)),
     impl_verify = (\<lambda>k m s. Inr (s = k @ m)), encaps = (\<lambda>r k. Inr (k, r)),
     decaps = (\<lambda>k c. Inr k)\<rparr>"

theorem select_backend_sound_witness:
  "\<exists>n. map_of [(PYFIPS_BACKEND, PyFipsBackend (Some [(lit ''ML-DSA-65'', demo_impl)]) None)] n
         = Some (PyFipsBackend (Some [(lit ''ML-DSA-65'', demo_impl)]) None)
    \<and> (n = TEST_BACKEND \<longrightarrow> False)
    \<and> supports_signature (capabilities (PyFipsBackend (Some [(lit ''ML-DSA-65'', demo_impl)]) None))
         (lit ''ML-DSA-65'')
    \<and> (nonempty None = (None :: bytes option) \<or> nonempty (Some (lit ''pyfips'')) \<noteq> None
         \<longrightarrow> kem_ok None (capabilities (PyFipsBackend (Some [(lit ''ML-DSA-65'', demo_impl)]) None)))"
  by (rule select_backend_sound [where env = "\<lparr>ICS_PQC_BACKEND = None, ICS_PQC_PRODUCTION = None\<rparr>"])
    (simp add: select_backend_def nonempty_def get_backend_def PYFIPS_BACKEND_def TEST_BACKEND_def
      PyFipsBackend_def pyfips_capabilities_def package_names_def supports_signature_def kem_ok_def)

end
