(* ===== verification/Verifier.thy ===== *)
theory Verifier
  imports KeyRegistry Backend
begin

text \<open>
  \<^verbatim>\<open>pqc_evidence/verifier.py\<close>: verification of one record against the registry and,
  optionally, a chain cursor. A result collects alerts; the explanatory texts and the clock are
  dropped. Shown: a record is reported valid exactly when its hash, its key and its signature
  (and its chain position) are right.
\<close>

definition MAX_EVIDENCE_BYTES_CEILING :: int where
  "MAX_EVIDENCE_BYTES_CEILING = 16 * 1024 * 1024"

definition REASON_TO_ALERT :: "reason \<Rightarrow> alert" where
  "REASON_TO_ALERT r =
     (case r of
        malformed_evidence \<Rightarrow> pqc_malformed_evidence
      | oversized_evidence \<Rightarrow> pqc_oversized_evidence
      | unsupported_algorithm \<Rightarrow> pqc_unsupported_algorithm
      | unsupported_format_version \<Rightarrow> pqc_malformed_evidence)"

record VerificationResult =
  valid :: bool
  vr_node_id :: pystr
  vr_sequence :: int
  vr_event_hash :: pystr
  errors :: "alert list"
  warnings :: "alert list"
  vr_key_id :: pystr

definition empty_result :: "bool \<Rightarrow> VerificationResult" where
  "empty_result ok =
     \<lparr>valid = ok, vr_node_id = [], vr_sequence = 0, vr_event_hash = [], errors = [], warnings = [],
      vr_key_id = []\<rparr>"

definition add_error :: "alert \<Rightarrow> VerificationResult \<Rightarrow> VerificationResult" where
  "add_error a r =
     r\<lparr>errors := (if a \<in> set (errors r) then errors r else errors r @ [a]), valid := False\<rparr>"

definition add_warning :: "alert \<Rightarrow> VerificationResult \<Rightarrow> VerificationResult" where
  "add_warning a r =
     r\<lparr>warnings := (if a \<in> set (warnings r) then warnings r else warnings r @ [a])\<rparr>"

text \<open>
  What the process provides: the digest, the registered crypto backends and the environment
  variables.
\<close>

record platform =
  sha3_256 :: digest
  crypto :: backends
  environment :: environ

record EvidenceVerifier =
  v_registry :: registry
  v_backend :: "CryptoBackend option"
  v_allow_test :: bool
  max_record_bytes :: int

definition new_verifier ::
  "registry \<Rightarrow> CryptoBackend option \<Rightarrow> bool \<Rightarrow> int \<Rightarrow> EvidenceVerifier res"
where
  "new_verifier reg be allow_test mb =
     require (mb > 0) VerifierError
     (require (mb \<le> MAX_EVIDENCE_BYTES_CEILING) VerifierError
       (Inr \<lparr>v_registry = reg, v_backend = be, v_allow_test = allow_test, max_record_bytes = mb\<rparr>))"

definition backend_for :: "platform \<Rightarrow> EvidenceVerifier \<Rightarrow> pystr \<Rightarrow> CryptoBackend res" where
  "backend_for pf v alg =
     (case v_backend v of
        Some b \<Rightarrow> Inr b
      | None \<Rightarrow> select_backend (crypto pf) (environment pf) None alg (v_allow_test v) None None)"

section \<open>The individual checks\<close>

definition check_event_hash ::
  "platform \<Rightarrow> SignedEvent \<Rightarrow> VerificationResult \<Rightarrow> VerificationResult res"
where
  "check_event_hash pf e result =
     rbind (compute_event_hash (sha3_256 pf) e) (\<lambda>recomputed.
       Inr (if recomputed \<noteq> event_hash e then add_error pqc_event_hash_mismatch result else result))"

definition check_key ::
  "EvidenceVerifier \<Rightarrow> SignedEvent \<Rightarrow> VerificationResult \<Rightarrow> VerificationResult res"
where
  "check_key v e result =
     rbind (check_usable (v_registry v) (key_id e) (node_id e) (timestamp e) (signature_algorithm e))
       (\<lambda>u. Inr (if usable u then result else foldl (\<lambda>r a. add_error a r) result (problems u)))"

text \<open>\<^verbatim>\<open>except BackendError\<close> around a backend call.\<close>

definition as_verifier_error :: "'a res \<Rightarrow> 'a res" where
  "as_verifier_error r =
     (case r of Inl e \<Rightarrow> Inl (if is_backend_error e then VerifierError else e) | Inr x \<Rightarrow> Inr x)"

definition check_signature ::
  "platform \<Rightarrow> EvidenceVerifier \<Rightarrow> SignedEvent \<Rightarrow> VerificationResult \<Rightarrow> VerificationResult res"
where
  "check_signature pf v e result =
     (case map_of (v_registry v) (key_id e) of
        None \<Rightarrow> Inr (add_error pqc_invalid_signature result)
      | Some rec \<Rightarrow>
          (case public_key_bytes rec of
             Inl _ \<Rightarrow> Inr (add_error pqc_invalid_signature result)
           | Inr public_key \<Rightarrow>
               rbind (as_verifier_error (backend_for pf v (signature_algorithm e))) (\<lambda>be.
               rbind (as_verifier_error (rbind (signing_payload e) (\<lambda>payload.
                        verify be public_key payload (signature_bytes e) (signature_algorithm e)))) (\<lambda>ok.
                 Inr (if ok then result else add_error pqc_invalid_signature result)))))"

text \<open>\<^verbatim>\<open>_check_chain\<close>: sequence continuity, then the link to the predecessor.\<close>

definition check_sequence :: "SignedEvent \<Rightarrow> ChainPosition \<Rightarrow> VerificationResult \<Rightarrow> VerificationResult" where
  "check_sequence e position result =
     (if sequence e < next_sequence position then
        (if sequence e \<le> last_sequence position then add_error pqc_duplicate_sequence result else result)
      else if sequence e > next_sequence position then add_error pqc_sequence_gap result
      else result)"

definition check_chain ::
  "platform \<Rightarrow> SignedEvent \<Rightarrow> ChainPosition \<Rightarrow> VerificationResult \<Rightarrow> VerificationResult res"
where
  "check_chain pf e position result =
     (let r1 = check_sequence e position result in
      if sequence e = FIRST_SEQUENCE then
        rbind (genesis_previous_hash (sha3_256 pf) (node_id e)) (\<lambda>expected_previous.
          (let r2 = (if last_sequence position > 0 then add_error pqc_chain_reset r1 else r1)
           in Inr (if previous_event_hash e \<noteq> expected_previous
                   then add_error pqc_previous_hash_mismatch r2 else r2)))
      else
        (case last_event_hash position of
           Some h \<Rightarrow> Inr (if previous_event_hash e \<noteq> h then add_error pqc_previous_hash_mismatch r1 else r1)
         | None \<Rightarrow> Inr r1))"

section \<open>One record\<close>

definition verify_event ::
  "platform \<Rightarrow> EvidenceVerifier \<Rightarrow> SignedEvent \<Rightarrow> ChainPosition option \<Rightarrow> VerificationResult res"
where
  "verify_event pf v e position =
     rbind (check_event_hash pf e
              \<lparr>valid = True, vr_node_id = node_id e, vr_sequence = sequence e,
               vr_event_hash = event_hash e, errors = [], warnings = [], vr_key_id = key_id e\<rparr>) (\<lambda>r1.
     rbind (check_key v e r1) (\<lambda>r2.
     rbind (check_signature pf v e r2) (\<lambda>r3.
       (case position of None \<Rightarrow> Inr r3 | Some p \<Rightarrow> check_chain pf e p r3))))"

definition verify_line ::
  "platform \<Rightarrow> EvidenceVerifier \<Rightarrow> pyval \<Rightarrow> (VerificationResult \<times> SignedEvent option) res"
where
  "verify_line pf v line =
     (case parse_signed_event_json line (nat (max_record_bytes v)) True of
        Inl (EvidenceValidationError r) \<Rightarrow>
          Inr (add_error (REASON_TO_ALERT r) (empty_result False), None)
      | Inl e \<Rightarrow> Inl e
      | Inr e \<Rightarrow> rbind (verify_event pf v e None) (\<lambda>result. Inr (result, Some e)))"

section \<open>What validity means\<close>

lemma add_error_valid [simp]: "\<not> valid (add_error a r)"
  by (simp add: add_error_def)

lemma foldl_add_error:
  "valid (foldl (\<lambda>r a. add_error a r) r as) \<longleftrightarrow> as = [] \<and> valid r"
  by (induction "as" arbitrary: r) simp_all

text \<open>
  The record-level condition: the content hash matches, the key may be used, and its owner's
  signature verifies.
\<close>

definition signature_ok :: "platform \<Rightarrow> EvidenceVerifier \<Rightarrow> SignedEvent \<Rightarrow> bool" where
  "signature_ok pf v e \<longleftrightarrow>
     (\<exists>rec pk be msg. map_of (v_registry v) (key_id e) = Some rec \<and> public_key_bytes rec = Inr pk
        \<and> backend_for pf v (signature_algorithm e) = Inr be \<and> signing_payload e = Inr msg
        \<and> verify be pk msg (signature_bytes e) (signature_algorithm e) = Inr True)"

definition key_ok :: "EvidenceVerifier \<Rightarrow> SignedEvent \<Rightarrow> bool" where
  "key_ok v e \<longleftrightarrow>
     (\<exists>u. check_usable (v_registry v) (key_id e) (node_id e) (timestamp e) (signature_algorithm e) = Inr u
        \<and> usable u)"

definition record_verified :: "platform \<Rightarrow> EvidenceVerifier \<Rightarrow> SignedEvent \<Rightarrow> bool" where
  "record_verified pf v e \<longleftrightarrow>
     compute_event_hash (sha3_256 pf) e = Inr (event_hash e) \<and> key_ok v e \<and> signature_ok pf v e"

lemma check_usable_problems:
  "check_usable reg kid nid at alg = Inr u \<Longrightarrow> usable u \<longleftrightarrow> problems u = []"
  by (auto simp: check_usable_def Let_def split: option.splits prod.splits if_splits)

lemma as_verifier_error_Inr [simp]: "as_verifier_error r = Inr x \<longleftrightarrow> r = Inr x"
  by (auto simp: as_verifier_error_def split: sum.splits)

lemma check_event_hash_valid:
  "check_event_hash pf e r = Inr r' \<Longrightarrow>
   valid r' \<longleftrightarrow> valid r \<and> compute_event_hash (sha3_256 pf) e = Inr (event_hash e)"
  by (auto simp: check_event_hash_def rbind_Inr_iff split: if_splits)

lemma check_key_valid: "check_key v e r = Inr r' \<Longrightarrow> valid r' \<longleftrightarrow> valid r \<and> key_ok v e"
proof -
  assume "check_key v e r = Inr r'"
  then obtain u where u: "check_usable (v_registry v) (key_id e) (node_id e) (timestamp e)
        (signature_algorithm e) = Inr u"
      "r' = (if usable u then r else foldl (\<lambda>r a. add_error a r) r (problems u))"
    by (auto simp: check_key_def rbind_Inr_iff)
  then show ?thesis
    using check_usable_problems [OF u(1)] by (auto simp: key_ok_def foldl_add_error)
qed

lemma check_signature_valid:
  "check_signature pf v e r = Inr r' \<Longrightarrow> valid r' \<longleftrightarrow> valid r \<and> signature_ok pf v e"
  by (auto simp: check_signature_def signature_ok_def rbind_Inr_iff split: option.splits sum.splits if_splits)

lemma verify_event_valid:
  "verify_event pf v e None = Inr r \<Longrightarrow> valid r \<longleftrightarrow> record_verified pf v e"
  by (auto simp: verify_event_def rbind_Inr_iff record_verified_def dest!: check_event_hash_valid
      check_key_valid check_signature_valid)

lemma verified_event_returns:
  assumes "record_verified pf v e"
  shows "\<exists>r. verify_event pf v e None = Inr r \<and> valid r"
proof -
  have "\<exists>r'. check_event_hash pf e r = Inr r'" "\<exists>r'. check_key v e r = Inr r'"
    "\<exists>r'. check_signature pf v e r = Inr r'" for r
    using assms
    by (auto simp: record_verified_def check_event_hash_def key_ok_def check_key_def signature_ok_def
        check_signature_def as_verifier_error_def)
  then have "\<exists>r. verify_event pf v e None = Inr r" unfolding verify_event_def
    by (metis (no_types, lifting) option.simps(4) rbind_simps(2))
  then show ?thesis using verify_event_valid assms by blast
qed

text \<open>The chain check, at the position a chain of \<open>n\<close> events of this node leaves behind.\<close>

lemma check_chain_valid:
  assumes "genesis_previous_hash (sha3_256 pf) (node_id e) = Inr g"
    and "position = \<lparr>cp_node_id = nid, last_sequence = int n, last_event_hash = h\<rparr>"
    and "n = 0 \<longleftrightarrow> h = None"
  shows "\<exists>r'. check_chain pf e position r = Inr r' \<and>
    (valid r' \<longleftrightarrow> valid r \<and> sequence e = int n + 1
       \<and> previous_event_hash e = (case h of None \<Rightarrow> g | Some x \<Rightarrow> x))"
  using assms
  by (auto simp: check_chain_def Let_def check_sequence_def next_sequence_def FIRST_SEQUENCE_def
      split: option.splits if_splits)

lemma verify_line_cases:
  assumes "verify_line pf v line = Inr (r, oe)"
  shows "case oe of
      None \<Rightarrow> \<not> valid r \<and> (\<exists>x. parse_signed_event_json line (nat (max_record_bytes v)) True = Inl x)
    | Some e \<Rightarrow> parse_signed_event_json line (nat (max_record_bytes v)) True = Inr e
        \<and> verify_event pf v e None = Inr r"
  using assms
  by (auto simp: verify_line_def rbind_Inr_iff split: sum.splits exn.splits)

lemma record_verified_canon: "record_verified pf v e \<Longrightarrow> record_verified pf v (canon_event e)"
  using payload_canon_event(1,2) [of e]
  by (fastforce simp: record_verified_def compute_event_hash_def key_ok_def signature_ok_def rbind_Inr_iff)

section \<open>A concrete verifier\<close>

definition demo_env :: environ where
  "demo_env = \<lparr>ICS_PQC_BACKEND = None, ICS_PQC_PRODUCTION = None\<rparr>"

definition demo_backend :: CryptoBackend where
  "demo_backend = InsecureTestBackend (\<lambda>k m. [65, 66, 67]) (\<lambda>b. []) demo_env"

definition demo_platform :: platform where
  "demo_platform = \<lparr>sha3_256 = demo_sha3, crypto = [], environment = demo_env\<rparr>"

definition demo_verifier :: EvidenceVerifier where
  "demo_verifier = \<lparr>v_registry = sample_reg, v_backend = Some demo_backend, v_allow_test = True,
     max_record_bytes = int MAX_EVIDENCE_BYTES\<rparr>"

lemma sample_signing: "\<exists>b. signing_payload sample_event = Inr b"
proof -
  let ?d = "PyDict (filter (\<lambda>(k, v). k \<notin> set SIGNATURE_EXCLUDED) (to_dict sample_event True))"
  have "check 0 ?d = Inr ()" "ints_ok ?d"
    by (simp_all add: to_dict_def SIGNATURE_EXCLUDED_def sample_event_def check_eval list_all_iff)
  then show ?thesis using canonical_bytes_bound unfolding signing_payload_def by blast
qed

lemma sample_verified: "record_verified demo_platform demo_verifier sample_event"
proof -
  have "compute_event_hash (sha3_256 demo_platform) sample_event = Inr (event_hash sample_event)"
    using sample_hash by (simp add: demo_platform_def)
  moreover have "key_ok demo_verifier sample_event"
    using sample_usable by (auto simp: key_ok_def demo_verifier_def sample_event_def)
  moreover have "signature_ok demo_platform demo_verifier sample_event"
  proof -
    have pk: "public_key_bytes sample_key = Inr [65, 66, 67]"
      by (simp add: public_key_bytes_def sample_key_def b64_val_def byte_of_def)
    have "verify demo_backend k m [65, 66, 67] a = Inr True" for k m a
      by (simp add: demo_backend_def InsecureTestBackend_def Let_def production_mode_def demo_env_def
          strip_def)
    then show ?thesis
      using pk sample_signing
      by (auto simp: signature_ok_def demo_verifier_def sample_reg_def backend_for_def sample_event_def)
  qed
  ultimately show ?thesis by (simp add: record_verified_def)
qed

text \<open>
  \<^bold>\<open>C15\<close>. Verification of one line: when it answers, the answer is \<^verbatim>\<open>valid\<close> exactly if
  the line parses to an envelope whose content hashes to its \<^verbatim>\<open>event_hash\<close>, whose key is
  usable for this node, time and algorithm, and whose signature verifies under the registered
  public key.
\<close>

theorem verify_line_valid_iff:
  assumes "verify_line pf v line = Inr (r, oe)"
  shows "valid r \<longleftrightarrow>
    (\<exists>e. oe = Some e \<and> parse_signed_event_json line (nat (max_record_bytes v)) True = Inr e
       \<and> record_verified pf v e)"
  using verify_line_cases [OF assms] verify_event_valid by (auto split: option.splits)

theorem verify_line_valid_iff_witness:
  "\<exists>r oe. verify_line demo_platform demo_verifier (PyStr (projr (to_json_line sample_event))) = Inr (r, oe)
     \<and> valid r"
proof -
  let ?line = "projr (to_json_line sample_event)"
  obtain b where b: "canonical_bytes (PyDict (to_dict sample_event True)) = Inr b"
    using sample_wf by (auto simp: wf_signed_def)
  obtain line where l: "to_json_line sample_event = Inr line" "utf8_encode line = Inr b"
    using json_line_shape [OF b] by blast
  have d: "dicts_ok (PyDict (event sample_event))" by (simp add: sample_event_def)
  have p: "parse_signed_event_json (PyStr ?line) MAX_EVIDENCE_BYTES True = Inr (canon_event sample_event)"
    using line_parses [OF sample_wf d b] parse_json_str [OF l(2)] l(1) by simp
  have v: "record_verified demo_platform demo_verifier (canon_event sample_event)"
    by (rule record_verified_canon [OF sample_verified])
  then obtain r where r: "verify_event demo_platform demo_verifier (canon_event sample_event) None = Inr r"
    using verified_event_returns by blast
  have line: "verify_line demo_platform demo_verifier (PyStr ?line) = Inr (r, Some (canon_event sample_event))"
    using p r by (simp add: verify_line_def demo_verifier_def)
  have "valid r" using verify_line_valid_iff [OF line] p v by (simp add: demo_verifier_def)
  with line show ?thesis by blast
qed

end
