(* ===== verification/Collector.thy ===== *)
theory Collector
  imports Verifier
begin

text \<open>
  \<^verbatim>\<open>pqc_evidence/collector.py\<close>: verification of a stream of records with one chain cursor
  and one replay detector per node. A line whose parsing raises something else than a validation error
  aborts the stream, as in the source. Shown: a stream reported valid consists, node by node,
  of complete hash chains of verified records, and conversely such a stream is reported valid.
\<close>

definition MAX_TRACKED_HASHES :: nat where
  "MAX_TRACKED_HASHES = 1000000"

section \<open>Per-node tracking\<close>

record NodeTracker =
  position :: ChainPosition
  seen_sequences :: "(int \<times> pystr) list"
  seen_hashes :: "pystr list"
  tracking_exhausted :: bool

definition new_tracker :: "pystr \<Rightarrow> NodeTracker" where
  "new_tracker nid =
     \<lparr>position = new_position nid, seen_sequences = [], seen_hashes = [], tracking_exhausted = False\<rparr>"

text \<open>The alerts of \<^verbatim>\<open>note\<close> from what was seen before, and the update.\<close>

definition note_alerts :: "NodeTracker \<Rightarrow> SignedEvent \<Rightarrow> alert list" where
  "note_alerts t e =
     (case map_of (seen_sequences t) (sequence e) of
        Some previous_hash \<Rightarrow>
          if previous_hash = event_hash e then [pqc_replayed_event] else [pqc_duplicate_sequence]
      | None \<Rightarrow> if event_hash e \<in> set (seen_hashes t) then [pqc_replayed_event] else [])"

definition note_event :: "NodeTracker \<Rightarrow> SignedEvent \<Rightarrow> alert list \<times> NodeTracker" where
  "note_event t e =
     (let alerts = note_alerts t e in
      if length (seen_hashes t) < MAX_TRACKED_HASHES then
        (alerts, t\<lparr>seen_sequences := adict_set (seen_sequences t) (sequence e) (event_hash e),
                   seen_hashes := List.insert (event_hash e) (seen_hashes t)\<rparr>)
      else if \<not> tracking_exhausted t then
        (alerts @ [pqc_malformed_evidence], t\<lparr>tracking_exhausted := True\<rparr>)
      else (alerts, t))"

record NodeSummary =
  sum_last_sequence :: int
  sum_last_event_hash :: "pystr option"
  sum_events :: nat

definition summary :: "NodeTracker \<Rightarrow> NodeSummary" where
  "summary t = \<lparr>sum_last_sequence = last_sequence (position t),
                sum_last_event_hash = last_event_hash (position t),
                sum_events = length (seen_sequences t)\<rparr>"

section \<open>Streams\<close>

record StreamReport =
  sr_valid :: bool
  total :: nat
  verified :: nat
  failed :: nat
  malformed_count :: nat
  nodes :: "(pystr \<times> NodeSummary) list"
  alert_counts :: "(alert \<times> nat) list"
  results :: "VerificationResult list"
  truncated_results :: bool

definition new_report :: StreamReport where
  "new_report = \<lparr>sr_valid = True, total = 0, verified = 0, failed = 0, malformed_count = 0,
                 nodes = [], alert_counts = [], results = [], truncated_results = False\<rparr>"

definition bump :: "(alert \<times> nat) list \<Rightarrow> alert \<Rightarrow> (alert \<times> nat) list" where
  "bump counts a = adict_set counts a ((case map_of counts a of None \<Rightarrow> 0 | Some n \<Rightarrow> n) + 1)"

definition record_result :: "nat \<Rightarrow> StreamReport \<Rightarrow> VerificationResult \<Rightarrow> StreamReport" where
  "record_result max_results rep r =
     (let rep1 = rep\<lparr>alert_counts := foldl bump (foldl bump (alert_counts rep) (errors r)) (warnings r)\<rparr>
      in if length (results rep1) < max_results then rep1\<lparr>results := results rep1 @ [r]\<rparr>
         else rep1\<lparr>truncated_results := True\<rparr>)"

record EvidenceCollector =
  c_verifier :: EvidenceVerifier
  max_results :: int
  c_max_record_bytes :: int

definition new_collector ::
  "registry \<Rightarrow> EvidenceVerifier option \<Rightarrow> int \<Rightarrow> int \<Rightarrow> bool \<Rightarrow> EvidenceCollector res"
where
  "new_collector reg v mr mb allow_test =
     require (mb > 0) CollectorError
     (require (mr > 0) CollectorError
     (rbind (case v of
               None \<Rightarrow> new_verifier reg None allow_test mb
             | Some x \<Rightarrow> Inr (x\<lparr>max_record_bytes := mb\<rparr>)) (\<lambda>v'.
        Inr \<lparr>c_verifier = v', max_results = mr, c_max_record_bytes = mb\<rparr>)))"

definition verify_one :: "platform \<Rightarrow> EvidenceCollector \<Rightarrow> pyval \<Rightarrow> VerificationResult res" where
  "verify_one pf c line = rbind (verify_line pf (c_verifier c) line) (\<lambda>(r, oe). Inr r)"

text \<open>\<^verbatim>\<open>raw.strip()\<close>, the truth of the text, and its length.\<close>

definition line_strip :: "pyval \<Rightarrow> pyval res" where
  "line_strip v =
     (case v of PyStr s \<Rightarrow> Inr (PyStr (strip s)) | PyBytes b \<Rightarrow> Inr (PyBytes (bytes_strip b))
      | _ \<Rightarrow> Inl AttributeError)"

definition line_length :: "pyval \<Rightarrow> nat" where
  "line_length v = (case v of PyStr s \<Rightarrow> length s | PyBytes b \<Rightarrow> length b | _ \<Rightarrow> 0)"

type_synonym trackers = "(pystr \<times> NodeTracker) list"

definition fail_malformed :: "nat \<Rightarrow> StreamReport \<Rightarrow> VerificationResult \<Rightarrow> StreamReport" where
  "fail_malformed mr rep r =
     record_result mr (rep\<lparr>malformed_count := malformed_count rep + 1, failed := failed rep + 1,
                           sr_valid := False\<rparr>) r"

text \<open>The part of the loop body after a record has been parsed.\<close>

definition collect_event ::
  "platform \<Rightarrow> EvidenceCollector \<Rightarrow> StreamReport \<Rightarrow> trackers \<Rightarrow> VerificationResult \<Rightarrow> SignedEvent
   \<Rightarrow> (StreamReport \<times> trackers) res"
where
  "collect_event pf c rep trk result e =
     (let tracker = (case map_of trk (node_id e) of Some t \<Rightarrow> t | None \<Rightarrow> new_tracker (node_id e)) in
      rbind (check_chain pf e (position tracker) result) (\<lambda>r1.
      (let (alerts, t1) = note_event tracker e;
           r2 = foldl (\<lambda>r a. add_error a r) r1 alerts
       in rbind (if sequence e = next_sequence (position t1)
                 then rbind (compute_event_hash (sha3_256 pf) e) (\<lambda>h.
                        Inr (t1\<lparr>position := advance (position t1) e (Some h)\<rparr>))
                 else Inr t1) (\<lambda>t2.
            (let rep1 = (if valid r2 then rep\<lparr>verified := verified rep + 1\<rparr>
                         else rep\<lparr>failed := failed rep + 1, sr_valid := False\<rparr>)
             in Inr (record_result (nat (max_results c)) rep1 r2,
                     adict_set trk (node_id e) t2))))))"

definition collect_line ::
  "platform \<Rightarrow> EvidenceCollector \<Rightarrow> StreamReport \<times> trackers \<Rightarrow> pyval \<Rightarrow> (StreamReport \<times> trackers) res"
where
  "collect_line pf c st raw =
     (case st of (rep0, trk) \<Rightarrow>
      rbind (line_strip raw) (\<lambda>line.
      if line_length line = 0 then Inr (rep0, trk)
      else
        (let rep = rep0\<lparr>total := total rep0 + 1\<rparr>; mr = nat (max_results c) in
         if int (line_length line) > c_max_record_bytes c
         then Inr (fail_malformed mr rep (add_error pqc_oversized_evidence (empty_result False)), trk)
         else
           rbind (verify_line pf (c_verifier c) line) (\<lambda>(result, oe).
             (case oe of
                None \<Rightarrow> Inr (fail_malformed mr rep result, trk)
              | Some e \<Rightarrow> collect_event pf c rep trk result e)))))"

fun collect_lines ::
  "platform \<Rightarrow> EvidenceCollector \<Rightarrow> StreamReport \<times> trackers \<Rightarrow> pyval list \<Rightarrow> (StreamReport \<times> trackers) res"
where
  "collect_lines pf c st [] = Inr st"
| "collect_lines pf c st (l # ls) = rbind (collect_line pf c st l) (\<lambda>st'. collect_lines pf c st' ls)"

definition verify_stream :: "platform \<Rightarrow> EvidenceCollector \<Rightarrow> pyval list \<Rightarrow> StreamReport res" where
  "verify_stream pf c lines =
     rbind (collect_lines pf c (new_report, []) lines) (\<lambda>(rep, trk).
       Inr (rep\<lparr>nodes := map (\<lambda>(n, t). (n, summary t)) trk\<rparr>))"

text \<open>\<^verbatim>\<open>verify_file\<close> on the bytes of the file, \<open>None\<close> when there is none.\<close>

definition verify_file :: "platform \<Rightarrow> EvidenceCollector \<Rightarrow> bytes option \<Rightarrow> StreamReport res" where
  "verify_file pf c content =
     (case content of
        None \<Rightarrow> Inl CollectorError
      | Some raw \<Rightarrow> verify_stream pf c (map PyStr (text_lines (utf8_decode_replace raw))))"

fun iter_valid_events :: "platform \<Rightarrow> EvidenceCollector \<Rightarrow> pystr list \<Rightarrow> SignedEvent list res" where
  "iter_valid_events pf c [] = Inr []"
| "iter_valid_events pf c (raw # ls) =
     (if strip raw = [] then iter_valid_events pf c ls
      else
        rbind (verify_line pf (c_verifier c) (PyStr (strip raw))) (\<lambda>(result, oe).
        rbind (iter_valid_events pf c ls) (\<lambda>es.
          Inr (case oe of Some e \<Rightarrow> if valid result then e # es else es | None \<Rightarrow> es))))"

section \<open>What a parsed record satisfies\<close>

lemma identifier_scalar: "validate_identifier (PyStr s) = Inr s \<Longrightarrow> list_all scalar s"
proof -
  assume "validate_identifier (PyStr s) = Inr s"
  then have "ID_PATTERN s" by (simp add: validate_identifier_def require_Inr_iff)
  then have "list_all id_char (dollar_core s)"
    by (auto simp: ID_PATTERN_def id_char_def split: list.splits)
  then have "list_all scalar (dollar_core s)"
    by (auto simp: list_all_iff id_char_def id_alnum_def scalar_def)
  then show ?thesis
    by (cases s rule: rev_cases) (auto simp: dollar_core_def scalar_def split: if_splits)
qed

lemma parse_json_wf:
  assumes "parse_signed_event_json line mb True = Inr e"
  shows "wf_signed mb e" "dicts_ok (PyDict (event e))"
proof -
  have "wf_signed mb e \<and> dicts_ok (PyDict (event e))"
    if "parse_signed_event_json (PyBytes raw) mb True = Inr e" for raw
  proof -
    obtain s data where d: "loads reject_duplicate_keys no_constants s = Inr (PyDict data)"
        "same_fields data e" "wf_signed mb e"
      using \<open>parse_signed_event_json (PyBytes raw) mb True = Inr e\<close> by (auto simp: parse_json_bytes_iff)
    have "dicts_ok (PyDict data)" using json_doc_dict evidence_loads_doc d(1) by blast
    moreover have "(KStr (lit ''event''), PyDict (event e)) \<in> set data"
      using d(2) by (simp add: same_fields_def to_dict_def)
    ultimately have "dicts_ok (PyDict (event e))" by (fastforce simp: dicts_ok_items_all)
    with d(3) show ?thesis by simp
  qed
  then have "wf_signed mb e \<and> dicts_ok (PyDict (event e))"
    using assms parse_json_str
    by (cases line) (auto simp: parse_signed_event_json_def case_Inr_iff rbind_Inr_iff)
  then show "wf_signed mb e" "dicts_ok (PyDict (event e))" by simp_all
qed

lemma wf_genesis: "wf_signed mb e \<Longrightarrow> \<exists>g. genesis_previous_hash sha3 (node_id e) = Inr g"
  by (auto simp: wf_signed_def genesis_previous_hash_def utf8_encode_def identifier_scalar)

section \<open>The state of a valid run\<close>

definition of_node :: "pystr \<Rightarrow> SignedEvent list \<Rightarrow> SignedEvent list" where
  "of_node nid es = filter (\<lambda>e. node_id e = nid) es"

lemma of_node_snoc: "of_node nid (es @ [e]) = of_node nid es @ (if node_id e = nid then [e] else [])"
  by (simp add: of_node_def)

definition evidence_ok :: "platform \<Rightarrow> EvidenceVerifier \<Rightarrow> SignedEvent list \<Rightarrow> bool" where
  "evidence_ok pf v es \<longleftrightarrow>
     (\<forall>e\<in>set es. record_verified pf v e) \<and>
     (\<forall>nid\<in>node_id ` set es. chain (sha3_256 pf) nid (of_node nid es))"

text \<open>The cursor of a node after the events \<open>fs\<close>.\<close>

definition tracked :: "pystr \<Rightarrow> SignedEvent list \<Rightarrow> NodeTracker \<Rightarrow> bool" where
  "tracked nid fs t \<longleftrightarrow>
     position t = \<lparr>cp_node_id = nid, last_sequence = int (length fs),
                   last_event_hash = (if fs = [] then None else Some (event_hash (last fs)))\<rparr> \<and>
     (\<forall>s\<in>fst ` set (seen_sequences t). s \<le> int (length fs)) \<and>
     set (seen_hashes t) \<subseteq> event_hash ` set fs \<and> length (seen_hashes t) \<le> length fs"

definition tracker_of :: "trackers \<Rightarrow> pystr \<Rightarrow> NodeTracker" where
  "tracker_of trk nid = (case map_of trk nid of Some t \<Rightarrow> t | None \<Rightarrow> new_tracker nid)"

definition state_ok :: "platform \<Rightarrow> EvidenceVerifier \<Rightarrow> SignedEvent list \<Rightarrow> StreamReport \<Rightarrow> trackers \<Rightarrow> bool" where
  "state_ok pf v es rep trk \<longleftrightarrow>
     evidence_ok pf v es \<and> (\<forall>nid. tracked nid (of_node nid es) (tracker_of trk nid)) \<and>
     sr_valid rep \<and> total rep = length es \<and> verified rep = length es \<and> failed rep = 0"

lemma tracked_new: "tracked nid [] (new_tracker nid)"
  by (simp add: tracked_def new_tracker_def new_position_def)

lemma state_ok_init: "state_ok pf v [] new_report []"
  by (simp add: state_ok_def evidence_ok_def of_node_def tracker_of_def tracked_new new_report_def)

lemma record_result_simps [simp]:
  "sr_valid (record_result mr rep r) = sr_valid rep" "total (record_result mr rep r) = total rep"
  "verified (record_result mr rep r) = verified rep" "failed (record_result mr rep r) = failed rep"
  by (simp_all add: record_result_def Let_def)

lemma fail_malformed_invalid [simp]: "\<not> sr_valid (fail_malformed mr rep r)"
  by (simp add: fail_malformed_def)

text \<open>The condition under which one more event extends its node's chain.\<close>

definition extends :: "digest \<Rightarrow> SignedEvent list \<Rightarrow> SignedEvent \<Rightarrow> bool" where
  "extends sha3 fs e \<longleftrightarrow>
     sequence e = int (length fs) + 1 \<and>
     (case genesis_previous_hash sha3 (node_id e) of
        Inl _ \<Rightarrow> False | Inr g \<Rightarrow> previous_event_hash e = tip g fs)"

lemma chain_snoc:
  assumes "fs = [] \<or> chain sha3 (node_id e) fs" "compute_event_hash sha3 e = Inr (event_hash e)"
  shows "chain sha3 (node_id e) (fs @ [e]) \<longleftrightarrow> extends sha3 fs e"
  using assms by (auto simp: chain_def extends_def chain_from_append split: sum.splits)

lemma chain_prefix: "chain sha3 nid (fs @ gs) \<Longrightarrow> chain sha3 nid fs"
  by (auto simp: chain_def chain_from_append split: sum.splits)

lemma note_event_fresh:
  assumes "tracked nid fs t" "sequence e = int (length fs) + 1" "event_hash e \<notin> event_hash ` set fs"
    and "length fs < MAX_TRACKED_HASHES"
  shows "fst (note_event t e) = []"
proof -
  have "sequence e \<notin> fst ` set (seen_sequences t)" using assms(1,2) by (auto simp: tracked_def)
  then have "map_of (seen_sequences t) (sequence e) = None" by (simp add: map_of_eq_None_iff)
  then show ?thesis
    using assms by (auto simp: note_event_def note_alerts_def tracked_def)
qed

lemma note_event_position [simp]: "position (snd (note_event t e)) = position t"
  by (simp add: note_event_def Let_def)

lemma tracked_step:
  assumes "tracked nid fs t" "sequence e = int (length fs) + 1"
  shows "tracked nid (fs @ [e])
     ((snd (note_event t e))\<lparr>position := advance (position t) e (Some (event_hash e))\<rparr>)"
proof -
  have "a \<le> 1 + int (length fs)"
    if "(a, b) \<in> set (adict_set (seen_sequences t) (int (length fs) + 1) (event_hash e))" for a b
    using set_adict_set that assms(1) unfolding tracked_def by fastforce
  moreover have "length (List.insert (event_hash e) (seen_hashes t)) \<le> Suc (length (seen_hashes t))"
    by (simp add: List.insert_def)
  ultimately show ?thesis
    using assms by (auto simp: tracked_def note_event_def Let_def advance_def)
qed

lemma tracker_of_set [simp]:
  "tracker_of (adict_set trk k t) nid = (if nid = k then t else tracker_of trk nid)"
  by (simp add: tracker_of_def)

text \<open>
  One parsed record in a state that is valid so far: the step answers, and the report stays
  valid exactly if the record verifies, extends its node's chain and raises no replay alert.
\<close>

lemma collect_event_step:
  assumes "state_ok pf v es rep0 trk" "rep = rep0\<lparr>total := total rep0 + 1\<rparr>" "wf_signed mb e"
    and "verify_event pf v e None = Inr r"
  shows "\<exists>rep' trk'. collect_event pf c rep trk r e = Inr (rep', trk') \<and>
    (sr_valid rep' \<longleftrightarrow> record_verified pf v e \<and> extends (sha3_256 pf) (of_node (node_id e) es) e
       \<and> fst (note_event (tracker_of trk (node_id e)) e) = []) \<and>
    (sr_valid rep' \<longrightarrow> state_ok pf v (es @ [e]) rep' trk')"
proof -
  let ?fs = "of_node (node_id e) es" and ?t = "tracker_of trk (node_id e)"
  have t: "tracked (node_id e) ?fs ?t" using assms(1) by (simp add: state_ok_def)
  obtain g where g: "genesis_previous_hash (sha3_256 pf) (node_id e) = Inr g"
    using wf_genesis [OF assms(3)] by blast
  obtain h where h: "compute_event_hash (sha3_256 pf) e = Inr h"
    using assms(4) by (auto simp: verify_event_def check_event_hash_def rbind_Inr_iff)
  let ?pos = "\<lparr>cp_node_id = node_id e, last_sequence = int (length ?fs),
    last_event_hash = (if ?fs = [] then None else Some (event_hash (last ?fs)))\<rparr>"
  have pos: "position ?t = ?pos" using t by (simp add: tracked_def)
  obtain r1 where r1: "check_chain pf e (position ?t) r = Inr r1"
      "valid r1 \<longleftrightarrow> valid r \<and> extends (sha3_256 pf) ?fs e"
    using check_chain_valid [OF g pos, of r] g by (fastforce simp: extends_def tip_def split: if_splits)
  define r2 where "r2 = foldl (\<lambda>r a. add_error a r) r1 (fst (note_event ?t e))"
  have r2: "valid r2 \<longleftrightarrow> record_verified pf v e \<and> extends (sha3_256 pf) ?fs e \<and> fst (note_event ?t e) = []"
    using r1(2) verify_event_valid [OF assms(4)] by (auto simp: r2_def foldl_add_error)
  let ?t2 = "if sequence e = next_sequence (position ?t)
    then (snd (note_event ?t e))\<lparr>position := advance (position ?t) e (Some h)\<rparr> else snd (note_event ?t e)"
  let ?rep1 = "if valid r2 then rep\<lparr>verified := verified rep + 1\<rparr>
    else rep\<lparr>failed := failed rep + 1, sr_valid := False\<rparr>"
  have run: "collect_event pf c rep trk r e
      = Inr (record_result (nat (max_results c)) ?rep1 r2, adict_set trk (node_id e) ?t2)"
    using r1(1) h
    by (simp add: collect_event_def tracker_of_def [symmetric] Let_def r2_def split_def)
  have rep: "sr_valid rep" "total rep = Suc (length es)" "verified rep = length es" "failed rep = 0"
    using assms(1,2) by (simp_all add: state_ok_def)
  have ok: "state_ok pf v (es @ [e]) (record_result (nat (max_results c)) ?rep1 r2) (adict_set trk (node_id e) ?t2)"
    if "valid r2"
  proof -
    have e: "record_verified pf v e" "extends (sha3_256 pf) ?fs e" using r2 that by simp_all
    have eh: "h = event_hash e" using e(1) h by (simp add: record_verified_def)
    have sq: "sequence e = int (length ?fs) + 1" using e(2) by (simp add: extends_def)
    then have t2: "tracked (node_id e) (?fs @ [e]) ?t2"
      using tracked_step [OF t sq] eh pos by (simp add: next_sequence_def)
    have "?fs = [] \<or> chain (sha3_256 pf) (node_id e) ?fs"
      using assms(1) by (auto simp: state_ok_def evidence_ok_def of_node_def filter_empty_conv)
    then have "chain (sha3_256 pf) (node_id e) (?fs @ [e])"
      using chain_snoc e by (simp add: record_verified_def)
    then have "evidence_ok pf v (es @ [e])"
      using assms(1) e(1) by (auto simp: state_ok_def evidence_ok_def of_node_snoc)
    moreover have "\<forall>nid. tracked nid (of_node nid (es @ [e])) (tracker_of (adict_set trk (node_id e) ?t2) nid)"
    proof
      fix nid
      show "tracked nid (of_node nid (es @ [e])) (tracker_of (adict_set trk (node_id e) ?t2) nid)"
        using assms(1) t2 unfolding of_node_snoc tracker_of_set
        by (cases "nid = node_id e") (auto simp: state_ok_def split: if_splits)
    qed
    ultimately show ?thesis using that rep by (simp add: state_ok_def)
  qed
  have "sr_valid (record_result (nat (max_results c)) ?rep1 r2) \<longleftrightarrow> valid r2" using rep(1) by simp
  with run r2 ok show ?thesis by auto
qed

section \<open>Soundness\<close>

text \<open>The line as the loop sees it, and the records of a stream in order, blank lines left out.\<close>

definition blank :: "pyval \<Rightarrow> bool" where
  "blank l = (case line_strip l of Inl _ \<Rightarrow> False | Inr t \<Rightarrow> line_length t = 0)"

definition line_record :: "nat \<Rightarrow> pyval \<Rightarrow> SignedEvent \<Rightarrow> bool" where
  "line_record mb l e \<longleftrightarrow> (\<exists>t. line_strip l = Inr t \<and> parse_signed_event_json t mb True = Inr e)"

definition stream_records :: "nat \<Rightarrow> pyval list \<Rightarrow> SignedEvent list \<Rightarrow> bool" where
  "stream_records mb ls es \<longleftrightarrow> list_all2 (line_record mb) (filter (\<lambda>l. \<not> blank l) ls) es"

lemma collect_line_sound:
  assumes "state_ok pf (c_verifier c) es rep trk" "collect_line pf c (rep, trk) l = Inr (rep', trk')"
    and "sr_valid rep'"
  shows "if blank l then state_ok pf (c_verifier c) es rep' trk'
    else \<exists>e. line_record (nat (max_record_bytes (c_verifier c))) l e
           \<and> state_ok pf (c_verifier c) (es @ [e]) rep' trk'"
proof -
  obtain t where t: "line_strip l = Inr t" using assms(2) by (auto simp: collect_line_def rbind_Inr_iff)
  show ?thesis
  proof (cases "line_length t = 0")
    case True
    with t assms show ?thesis by (simp add: collect_line_def blank_def)
  next
    case False
    with t assms(2,3) obtain r oe where v: "verify_line pf (c_verifier c) t = Inr (r, oe)"
      by (auto simp: collect_line_def rbind_Inr_iff Let_def split: if_splits)
    with t False assms(2,3) obtain e where e: "oe = Some e"
      by (cases oe) (auto simp: collect_line_def Let_def split: if_splits)
    with t False v assms(2,3) have run: "collect_event pf c (rep\<lparr>total := total rep + 1\<rparr>) trk r e = Inr (rep', trk')"
      by (auto simp: collect_line_def Let_def split: if_splits)
    have p: "parse_signed_event_json t (nat (max_record_bytes (c_verifier c))) True = Inr e"
      "verify_event pf (c_verifier c) e None = Inr r"
      using verify_line_cases [OF v] e by simp_all
    have "state_ok pf (c_verifier c) (es @ [e]) rep' trk'"
      using collect_event_step [OF assms(1) refl parse_json_wf(1) [OF p(1)] p(2), of c] run assms(3)
      by auto
    with t p False show ?thesis by (auto simp: blank_def line_record_def)
  qed
qed

lemma collect_event_mono: "collect_event pf c rep trk r e = Inr (rep', trk') \<Longrightarrow> sr_valid rep' \<Longrightarrow> sr_valid rep"
  by (auto simp: collect_event_def Let_def rbind_Inr_iff split_def split: if_splits)

lemma collect_line_mono:
  assumes "collect_line pf c (rep, trk) l = Inr (rep', trk')" "sr_valid rep'"
  shows "sr_valid rep"
  using assms collect_event_mono
  by (fastforce simp: collect_line_def Let_def rbind_Inr_iff split: if_splits option.splits)

lemma collect_lines_mono:
  "\<lbrakk>collect_lines pf c st ls = Inr st'; sr_valid (fst st')\<rbrakk> \<Longrightarrow> sr_valid (fst st)"
proof (induction ls arbitrary: st)
  case (Cons l ls)
  then obtain st1 where "collect_line pf c st l = Inr st1" "collect_lines pf c st1 ls = Inr st'"
    by (auto simp: rbind_Inr_iff)
  with Cons collect_line_mono [of pf c "fst st" "snd st" l "fst st1" "snd st1"] show ?case by simp
qed simp

lemma collect_lines_sound:
  assumes "state_ok pf (c_verifier c) es rep trk" "collect_lines pf c (rep, trk) ls = Inr (rep', trk')"
    and "sr_valid rep'"
  shows "\<exists>fs. stream_records (nat (max_record_bytes (c_verifier c))) ls fs
    \<and> state_ok pf (c_verifier c) (es @ fs) rep' trk'"
  using assms
proof (induction ls arbitrary: es rep trk)
  case Nil
  then show ?case by (intro exI [of _ "[]"]) (simp add: stream_records_def)
next
  case (Cons l ls)
  let ?mb = "nat (max_record_bytes (c_verifier c))"
  obtain rep1 trk1 where st1: "collect_line pf c (rep, trk) l = Inr (rep1, trk1)"
      "collect_lines pf c (rep1, trk1) ls = Inr (rep', trk')"
    using Cons.prems(2) by (auto simp: rbind_Inr_iff)
  have "sr_valid rep1" using collect_lines_mono [OF st1(2)] Cons.prems(3) by simp
  note step = collect_line_sound [OF Cons.prems(1) st1(1) this]
  show ?case
  proof (cases "blank l")
    case True
    with step Cons.IH [OF _ st1(2) Cons.prems(3)] show ?thesis by (auto simp: stream_records_def)
  next
    case False
    with step obtain e where e: "line_record ?mb l e" "state_ok pf (c_verifier c) (es @ [e]) rep1 trk1"
      by auto
    from Cons.IH [OF e(2) st1(2) Cons.prems(3)] obtain fs where
      "stream_records ?mb ls fs" "state_ok pf (c_verifier c) (es @ e # fs) rep' trk'" by auto
    with e(1) False show ?thesis by (intro exI [of _ "e # fs"]) (simp add: stream_records_def)
  qed
qed

section \<open>Completeness\<close>

lemma parse_line_length:
  assumes "parse_signed_event_json t mb True = Inr e"
  shows "line_length t \<le> mb"
proof (cases t)
  case (PyStr s)
  with assms obtain raw where "utf8_encode s = Inr raw" "length raw \<le> mb"
    by (auto simp: parse_signed_event_json_def res_iff split: sum.splits)
  then show ?thesis using PyStr utf8_encode_length by (fastforce simp: line_length_def)
qed (use assms in \<open>auto simp: parse_signed_event_json_def line_length_def require_Inr_iff\<close>)

text \<open>
  The streams a verifier accepts: every record verifies, every node's records form its chain,
  no hash repeats within a node, and no node exceeds the tracking limit.
\<close>

definition sound_stream :: "platform \<Rightarrow> EvidenceVerifier \<Rightarrow> SignedEvent list \<Rightarrow> bool" where
  "sound_stream pf v es \<longleftrightarrow>
     evidence_ok pf v es \<and>
     (\<forall>nid. distinct (map event_hash (of_node nid es)) \<and> length (of_node nid es) \<le> MAX_TRACKED_HASHES)"

lemma sound_stream_step:
  assumes "sound_stream pf v (es @ e # fs)"
  shows "record_verified pf v e" "chain (sha3_256 pf) (node_id e) (of_node (node_id e) es @ [e])"
    "event_hash e \<notin> event_hash ` set (of_node (node_id e) es)"
    "length (of_node (node_id e) es) < MAX_TRACKED_HASHES"
proof -
  have o: "of_node (node_id e) (es @ e # fs) = (of_node (node_id e) es @ [e]) @ of_node (node_id e) fs"
    by (simp add: of_node_def)
  have s: "evidence_ok pf v (es @ e # fs)"
    "distinct (map event_hash (of_node (node_id e) (es @ e # fs)))"
    "length (of_node (node_id e) (es @ e # fs)) \<le> MAX_TRACKED_HASHES"
    using assms unfolding sound_stream_def by blast+
  show "record_verified pf v e" using s(1) by (simp add: evidence_ok_def)
  have "chain (sha3_256 pf) (node_id e) ((of_node (node_id e) es @ [e]) @ of_node (node_id e) fs)"
    using s(1) o by (simp add: evidence_ok_def)
  then show "chain (sha3_256 pf) (node_id e) (of_node (node_id e) es @ [e])" by (rule chain_prefix)
  show "event_hash e \<notin> event_hash ` set (of_node (node_id e) es)"
    "length (of_node (node_id e) es) < MAX_TRACKED_HASHES"
    using s(2,3) unfolding o by auto
qed

lemma collect_line_complete:
  assumes "state_ok pf (c_verifier c) es rep trk" "max_record_bytes (c_verifier c) = c_max_record_bytes c"
    and "line_record (nat (max_record_bytes (c_verifier c))) l e" "\<not> blank l"
    and "sound_stream pf (c_verifier c) (es @ e # fs)"
  shows "\<exists>rep' trk'. collect_line pf c (rep, trk) l = Inr (rep', trk')
    \<and> state_ok pf (c_verifier c) (es @ [e]) rep' trk'"
proof -
  note e = sound_stream_step [OF assms(5)]
  obtain t where t: "line_strip l = Inr t"
      "parse_signed_event_json t (nat (max_record_bytes (c_verifier c))) True = Inr e"
    using assms(3) by (auto simp: line_record_def)
  obtain r where r: "verify_event pf (c_verifier c) e None = Inr r"
    using verified_event_returns [OF e(1)] by blast
  have v: "verify_line pf (c_verifier c) t = Inr (r, Some e)" using t(2) r by (simp add: verify_line_def)
  have len: "line_length t \<noteq> 0" "\<not> int (line_length t) > c_max_record_bytes c"
    using assms(2,4) t parse_line_length [OF t(2)] by (auto simp: blank_def)
  have run: "collect_line pf c (rep, trk) l = collect_event pf c (rep\<lparr>total := total rep + 1\<rparr>) trk r e"
    using t(1) v len by (simp add: collect_line_def Let_def)
  have "?thesis" if "extends (sha3_256 pf) (of_node (node_id e) es) e"
      "fst (note_event (tracker_of trk (node_id e)) e) = []"
    using collect_event_step [OF assms(1) refl parse_json_wf(1) [OF t(2)] r, of c] e(1) that
    unfolding run by blast
  moreover have x: "extends (sha3_256 pf) (of_node (node_id e) es) e"
    using e(1,2) chain_snoc [OF disjI2 [OF chain_prefix [OF e(2)]]] by (simp add: record_verified_def)
  moreover have "fst (note_event (tracker_of trk (node_id e)) e) = []"
    using assms(1) e(3,4) x
    by (intro note_event_fresh [of "node_id e" "of_node (node_id e) es"])
      (simp_all add: state_ok_def extends_def)
  ultimately show ?thesis by blast
qed

lemma collect_lines_complete:
  assumes "state_ok pf (c_verifier c) es rep trk" "max_record_bytes (c_verifier c) = c_max_record_bytes c"
    and "stream_records (nat (max_record_bytes (c_verifier c))) ls fs"
    and "sound_stream pf (c_verifier c) (es @ fs)"
  shows "\<exists>rep' trk'. collect_lines pf c (rep, trk) ls = Inr (rep', trk')
    \<and> state_ok pf (c_verifier c) (es @ fs) rep' trk'"
  using assms
proof (induction ls arbitrary: es fs rep trk)
  case (Cons l ls)
  show ?case
  proof (cases "blank l")
    case True
    then have "collect_line pf c (rep, trk) l = Inr (rep, trk)"
      by (auto simp: blank_def collect_line_def split: sum.splits)
    with Cons True show ?thesis by (simp add: stream_records_def)
  next
    case False
    with Cons.prems(3) obtain e fs' where fs: "fs = e # fs'"
        "line_record (nat (max_record_bytes (c_verifier c))) l e"
        "stream_records (nat (max_record_bytes (c_verifier c))) ls fs'"
      by (auto simp: stream_records_def list_all2_Cons1)
    from collect_line_complete [OF Cons.prems(1,2) fs(2) False] Cons.prems(4) fs(1)
    obtain rep1 trk1 where st1: "collect_line pf c (rep, trk) l = Inr (rep1, trk1)"
        "state_ok pf (c_verifier c) (es @ [e]) rep1 trk1" by blast
    from Cons.IH [OF st1(2) Cons.prems(2) fs(3)] Cons.prems(4) fs(1) st1(1) show ?thesis by simp
  qed
qed (simp add: stream_records_def)

section \<open>Log lines\<close>

text \<open>A well-formed envelope, written as a line, is read back by the collector.\<close>

lemma line_of_event:
  assumes "wf_signed mb e" "dicts_ok (PyDict (event e))"
  shows "\<exists>line raw. to_json_line e = Inr line \<and> utf8_encode line = Inr raw \<and> (\<forall>c\<in>set line. 32 \<le> c)
    \<and> \<not> blank (PyStr (line @ [10])) \<and> line_record mb (PyStr (line @ [10])) (canon_event e)"
proof -
  obtain b where b: "canonical_bytes (PyDict (to_dict e True)) = Inr b"
    using assms(1) by (auto simp: wf_signed_def)
  obtain line where l: "to_json_line e = Inr line" "utf8_encode line = Inr b" "\<forall>c\<in>set line. 32 \<le> c"
      "line \<noteq> []" "hd line = 123" "last line = 125"
    using json_line_shape [OF b] by blast
  have "parse_signed_event_json (PyStr line) mb True = Inr (canon_event e)"
    using line_parses [OF assms b] parse_json_str [OF l(2)] by simp
  with l strip_line [OF l(4-6)] show ?thesis
    by (auto simp: blank_def line_strip_def line_length_def line_record_def)
qed

section \<open>A concrete stream\<close>

definition demo_collector :: EvidenceCollector where
  "demo_collector = \<lparr>c_verifier = demo_verifier, max_results = 10000,
     c_max_record_bytes = int MAX_EVIDENCE_BYTES\<rparr>"

definition demo_line :: pystr where
  "demo_line = projr (to_json_line sample_event) @ [10]"

lemma chain_canon:
  assumes "chain sha3 nid [e]"
  shows "chain sha3 nid [canon_event e]"
proof -
  have "compute_event_hash sha3 (canon_event e) = compute_event_hash sha3 e"
    if "compute_event_hash sha3 e = Inr h" for h
    using that payload_canon_event(1) by (fastforce simp: compute_event_hash_def rbind_Inr_iff)
  then show ?thesis using assms by (auto simp: chain_def split: sum.splits)
qed

lemma demo_records:
  "stream_records MAX_EVIDENCE_BYTES [PyStr demo_line] [canon_event sample_event]"
  using line_of_event [OF sample_wf] by (auto simp: stream_records_def demo_line_def sample_event_def)

lemma demo_sound: "sound_stream demo_platform demo_verifier [canon_event sample_event]"
proof -
  have nid: "node_id sample_event = lit ''plc-1''" by (simp add: sample_event_def)
  have one: "of_node n [canon_event sample_event] = (if n = lit ''plc-1'' then [canon_event sample_event] else [])" for n
    using nid by (auto simp: of_node_def)
  show ?thesis
    unfolding sound_stream_def evidence_ok_def
    using record_verified_canon [OF sample_verified] chain_canon [OF sample_chain] nid
    by (simp add: one demo_platform_def MAX_TRACKED_HASHES_def del: lit_simps)
qed

section \<open>Properties\<close>

text \<open>
  \<^bold>\<open>C1\<close>. Soundness of the collector. When a stream is reported valid, its non-blank lines
  are records that all verify (hash, key, signature), the records of every node form one
  unbroken chain from that node's genesis value (sequences 1, 2, 3, ..., each linked to the one
  before), and the counters are right. So no record was deleted, reordered, duplicated, replayed
  or forked.
\<close>

theorem verify_stream_sound:
  assumes "verify_stream pf c lines = Inr rep" "sr_valid rep"
  shows "\<exists>es. stream_records (nat (max_record_bytes (c_verifier c))) lines es
    \<and> (\<forall>e\<in>set es. record_verified pf (c_verifier c) e)
    \<and> (\<forall>nid\<in>node_id ` set es. chain (sha3_256 pf) nid (of_node nid es))
    \<and> total rep = length es \<and> verified rep = length es \<and> failed rep = 0"
proof -
  obtain rep0 trk where r: "collect_lines pf c (new_report, []) lines = Inr (rep0, trk)"
      "rep = rep0\<lparr>nodes := map (\<lambda>(n, t). (n, summary t)) trk\<rparr>"
    using assms(1) by (auto simp: verify_stream_def rbind_Inr_iff)
  with collect_lines_sound [OF state_ok_init r(1)] assms(2) show ?thesis
    by (auto simp: state_ok_def evidence_ok_def)
qed

lemma stream_accepted:
  assumes "max_record_bytes (c_verifier c) = c_max_record_bytes c"
    and "stream_records (nat (max_record_bytes (c_verifier c))) lines es"
    and "sound_stream pf (c_verifier c) es"
  shows "\<exists>rep. verify_stream pf c lines = Inr rep \<and> sr_valid rep
    \<and> total rep = length es \<and> verified rep = length es \<and> failed rep = 0"
proof -
  obtain rep trk where "collect_lines pf c (new_report, []) lines = Inr (rep, trk)"
      "state_ok pf (c_verifier c) ([] @ es) rep trk"
    using collect_lines_complete [OF state_ok_init [of pf] assms(1,2)] assms(3) by auto
  then show ?thesis by (simp add: verify_stream_def state_ok_def)
qed

text \<open>
  \<^bold>\<open>C2\<close>. Completeness of the collector: a stream of verified records in which every node's
  records form its chain, no hash repeats within a node and no node exceeds the tracking limit
  is processed to the end and reported valid, every record counted as verified.
\<close>

theorem verify_stream_complete:
  assumes "max_record_bytes (c_verifier c) = c_max_record_bytes c"
    and "stream_records (nat (max_record_bytes (c_verifier c))) lines es"
    and "sound_stream pf (c_verifier c) es"
  shows "\<exists>rep. verify_stream pf c lines = Inr rep \<and> sr_valid rep
    \<and> total rep = length es \<and> verified rep = length es \<and> failed rep = 0"
  by (rule stream_accepted [OF assms])

theorem verify_stream_complete_witness:
  "\<exists>rep. verify_stream demo_platform demo_collector [PyStr demo_line] = Inr rep \<and> sr_valid rep
    \<and> total rep = length [canon_event sample_event] \<and> verified rep = length [canon_event sample_event]
    \<and> failed rep = 0"
  by (rule verify_stream_complete)
    (use demo_records demo_sound in \<open>simp_all add: demo_collector_def demo_verifier_def\<close>)

theorem verify_stream_sound_witness:
  "\<exists>rep es. verify_stream demo_platform demo_collector [PyStr demo_line] = Inr rep \<and> sr_valid rep
    \<and> stream_records (nat (max_record_bytes (c_verifier demo_collector))) [PyStr demo_line] es
    \<and> (\<forall>e\<in>set es. record_verified demo_platform (c_verifier demo_collector) e)"
proof -
  obtain rep trk where r: "collect_lines demo_platform demo_collector (new_report, []) [PyStr demo_line]
      = Inr (rep, trk)" "state_ok demo_platform (c_verifier demo_collector) ([] @ [canon_event sample_event]) rep trk"
    using collect_lines_complete [OF state_ok_init [of demo_platform], of demo_collector
        "[PyStr demo_line]" "[canon_event sample_event]"] demo_records demo_sound
    by (auto simp: demo_collector_def demo_verifier_def)
  let ?rep = "rep\<lparr>nodes := map (\<lambda>(n, t). (n, summary t)) trk\<rparr>"
  have v: "verify_stream demo_platform demo_collector [PyStr demo_line] = Inr ?rep" "sr_valid ?rep"
    using r by (simp_all add: verify_stream_def state_ok_def)
  with verify_stream_sound [OF v] show ?thesis by blast
qed

end
