(* ===== verification/Signer.thy ===== *)
theory Signer
  imports Recovery Collector
begin

text \<open>
  \<^verbatim>\<open>pqc_evidence/signer.py\<close>: private key files, the signer and its transactions on the
  evidence store. Shown: what the signer builds is what the store expects of a record builder;
  every signed event extends the node's chain; and a log that a signer wrote is accepted by the
  collector.
\<close>

section \<open>Private keys\<close>

text \<open>A key file: its bytes and its permission bits.\<close>

type_synonym key_file = "(bytes \<times> nat) option"

text \<open>
  \<open>open_ok\<close>: whether creating the file works; \<open>write_io\<close>: \<open>Some n\<close> when writing fails after
  \<open>n\<close> bytes. The mode is \<^verbatim>\<open>0o600\<close>; the test on loading is \<^verbatim>\<open>mode & 0o077\<close>.
\<close>

definition write_private_key :: "key_file \<Rightarrow> bool \<Rightarrow> nat option \<Rightarrow> KeyPair \<Rightarrow> unit res \<times> key_file" where
  "write_private_key file open_ok write_io key =
     (case file of
        Some _ \<Rightarrow> (Inl SignerError, file)
      | None \<Rightarrow>
          if \<not> open_ok then (Inl SignerError, file)
          else
            (case write_io of
               Some n \<Rightarrow> (Inl SignerError, Some (take n (private_bytes key), 384))
             | None \<Rightarrow> (Inr (), Some (private_bytes key, 384))))"

definition load_private_key :: "key_file \<Rightarrow> bool \<Rightarrow> bytes res" where
  "load_private_key file require_strict_permissions =
     (case file of
        None \<Rightarrow> Inl SignerError
      | Some (data, mode) \<Rightarrow>
          require (\<not> (require_strict_permissions \<and> mode mod 64 \<noteq> 0)) SignerError
            (require (data \<noteq> []) SignerError (Inr data)))"

section \<open>The signer\<close>

record SigningReport =
  sr_signed :: nat
  sr_skipped :: nat
  sr_errors :: nat
  sr_first_sequence :: "int option"
  sr_last_sequence :: "int option"
  sr_node_id :: pystr
  sr_key_id :: pystr
  sr_backend :: pystr
  sr_real_pqc :: bool

record EvidenceSigner =
  sg_node_id :: pystr
  sg_key_id :: pystr
  sg_algorithm :: pystr
  sg_hash_algorithm :: pystr
  sg_state_path :: pystr
  sg_evidence_path :: pystr
  sg_timeout :: int
  sg_private_key :: bytes
  sg_backend :: CryptoBackend
  sg_real_pqc :: bool

text \<open>\<^verbatim>\<open>Path.with_name\<close>: the part of the path up to the last separator, and the name.\<close>

definition with_name :: "pystr \<Rightarrow> pystr \<Rightarrow> pystr" where
  "with_name p name = rev (dropWhile (\<lambda>c. c \<noteq> 47) (rev p)) @ name"

definition new_signer ::
  "platform \<Rightarrow> pystr \<Rightarrow> pystr \<Rightarrow> bytes \<Rightarrow> pystr \<Rightarrow> pystr option \<Rightarrow> CryptoBackend option \<Rightarrow> pystr \<Rightarrow> pystr \<Rightarrow> int
   \<Rightarrow> EvidenceSigner res"
where
  "new_signer pf nid kid sk state_path evidence_path be alg halg lock_timeout =
     require (sk \<noteq> []) SignerError
     (require (0 < lock_timeout) SignerError
     (rbind (case be of
               Some b \<Rightarrow> Inr b
             | None \<Rightarrow> select_backend (crypto pf) (environment pf) None alg False None (Some sk)) (\<lambda>b.
      require (\<not> (take (length TEST_KEY_MARKER) sk = TEST_KEY_MARKER \<and> real_pqc (capabilities b))) SignerError
        (Inr \<lparr>sg_node_id = nid, sg_key_id = kid, sg_algorithm = alg, sg_hash_algorithm = halg,
              sg_state_path = state_path,
              sg_evidence_path = (case evidence_path of
                 Some p \<Rightarrow> p | None \<Rightarrow> with_name state_path (lit ''evidence.jsonl'')),
              sg_timeout = lock_timeout, sg_private_key = sk, sg_backend = b,
              sg_real_pqc = real_pqc (capabilities b)\<rparr>))))"

definition signer_store :: "EvidenceSigner \<Rightarrow> EvidenceStore res" where
  "signer_store sg =
     new_store (sg_state_path sg) (sg_evidence_path sg) (sg_node_id sg) (sg_key_id sg) (sg_timeout sg)"

definition build_and_sign ::
  "digest \<Rightarrow> EvidenceSigner \<Rightarrow> pydict \<Rightarrow> pystr \<Rightarrow> int \<Rightarrow> pystr \<Rightarrow> SignedEvent res"
where
  "build_and_sign sha3 sg ev ts sq previous_hash =
     rbind (build_unsigned (PyStr (sg_node_id sg)) (PyInt sq) (PyStr ts) (PyStr previous_hash) (PyDict ev)
              (PyStr (sg_key_id sg)) (sg_algorithm sg) (sg_hash_algorithm sg) EVIDENCE_FORMAT_VERSION) (\<lambda>unsigned.
     rbind (compute_event_hash sha3 unsigned) (\<lambda>h.
       (let envelope = with_event_hash unsigned h in
        case rbind (signing_payload envelope) (\<lambda>payload.
               sign (sg_backend sg) (sg_private_key sg) payload (sg_algorithm sg)) of
          Inl e \<Rightarrow> Inl (if is_backend_error e then e else SignerError)
        | Inr raw \<Rightarrow>
            require (raw \<noteq> []) SignerError (Inr (with_signature envelope (b64encode raw) raw)))))"

text \<open>The callback the store runs.\<close>

definition signed_line ::
  "digest \<Rightarrow> EvidenceSigner \<Rightarrow> pydict \<Rightarrow> pystr \<Rightarrow> int \<Rightarrow> pystr \<Rightarrow> (pystr \<times> pystr) res"
where
  "signed_line sha3 sg ev ts sq previous_hash =
     rbind (build_and_sign sha3 sg ev ts sq previous_hash) (\<lambda>e.
     rbind (to_json_line e) (\<lambda>l. Inr (l, event_hash e)))"

text \<open>
  \<^verbatim>\<open>_transact\<close>. The record it returns is the one the callback built; it is rebuilt here from
  the position the store had read.
\<close>

definition transact ::
  "osenv \<Rightarrow> EvidenceSigner \<Rightarrow> pydict \<Rightarrow> pystr \<Rightarrow> (pystr \<Rightarrow> bool) \<Rightarrow> SignedEvent act"
where
  "transact env sg ev ts fault w =
     abind (read_state env) (\<lambda>st.
     abind (append_signed env (signed_line (digest_of env) sg ev ts) (Some (sg_key_id sg)) fault) (\<lambda>(sq, _).
       alift (rbind (expected_previous_hash (digest_of env) (sg_node_id sg) sq (ns_last_event_hash st))
         (build_and_sign (digest_of env) sg ev ts sq)))) w"

text \<open>
  \<^verbatim>\<open>__enter__\<close>: take the lock, then recover. When recovery raises, Python does not call
  \<^verbatim>\<open>__exit__\<close>.
\<close>

definition enter_store :: "lock_file \<Rightarrow> lock_env \<Rightarrow> osenv \<Rightarrow> world \<Rightarrow> (RecoveryReport res \<times> world) option" where
  "enter_store lf le env w =
     (case es_acquire lf le (fst w) of
        None \<Rightarrow> None
      | Some (Inl e, s) \<Rightarrow> Some (Inl e, s, snd w)
      | Some (Inr _, s) \<Rightarrow> Some (recover env (s, snd w)))"

definition exit_store :: "world \<Rightarrow> world" where
  "exit_store w = (es_release (fst w), snd w)"

text \<open>\<^verbatim>\<open>with self.store() as store: ...\<close>\<close>

definition with_store ::
  "lock_file \<Rightarrow> lock_env \<Rightarrow> osenv \<Rightarrow> EvidenceSigner \<Rightarrow> 'a act \<Rightarrow> disk \<Rightarrow> ('a res \<times> EvidenceStore option \<times> disk) option"
where
  "with_store lf le env sg body d =
     (case signer_store sg of
        Inl e \<Rightarrow> Some (Inl e, None, d)
      | Inr s \<Rightarrow>
          (case enter_store lf le env (s, d) of
             None \<Rightarrow> None
           | Some (Inl e, s1, d1) \<Rightarrow> Some (Inl e, Some s1, d1)
           | Some (Inr _, w) \<Rightarrow> (case body w of (r, w') \<Rightarrow> Some (r, Some (fst (exit_store w')), snd w'))))"

definition signer_status :: "lock_file \<Rightarrow> lock_env \<Rightarrow> osenv \<Rightarrow> EvidenceSigner \<Rightarrow> disk
   \<Rightarrow> (pydict res \<times> EvidenceStore option \<times> disk) option" where
  "signer_status lf le env sg =
     with_store lf le env sg (abind (store_status env) (\<lambda>snapshot.
       areturn (snapshot @
         [(KStr (lit ''backend''), PyStr (b_name (sg_backend sg))),
          (KStr (lit ''real_pqc''), PyBool (sg_real_pqc sg)),
          (KStr (lit ''algorithm''), PyStr (sg_algorithm sg))])))"

definition sign_event ::
  "lock_file \<Rightarrow> lock_env \<Rightarrow> osenv \<Rightarrow> EvidenceSigner \<Rightarrow> pydict \<Rightarrow> pystr option \<Rightarrow> pystr \<Rightarrow> (pystr \<Rightarrow> bool) \<Rightarrow> disk
   \<Rightarrow> (SignedEvent res \<times> EvidenceStore option \<times> disk) option"
where
  "sign_event lf le env sg ev ts iso_now fault =
     with_store lf le env sg
       (transact env sg ev (case nonempty ts of Some t \<Rightarrow> t | None \<Rightarrow> iso_now) fault)"

text \<open>
  \<^verbatim>\<open>sign_events\<close>: the events with the environment and the clock reading of each. The result
  is what the generator yielded before it ended or raised.
\<close>

type_synonym batch = "(osenv \<times> pydict \<times> pystr) list"

fun sign_batch :: "EvidenceSigner \<Rightarrow> batch \<Rightarrow> SignedEvent list \<Rightarrow> (SignedEvent list \<times> exn option) act" where
  "sign_batch sg [] acc w = (Inr (acc, None), w)"
| "sign_batch sg ((env, ev, moment) # rest) acc w =
     (case transact env sg ev moment (\<lambda>_. False) w of
        (Inl e, w') \<Rightarrow> (Inr (acc, Some e), w')
      | (Inr r, w') \<Rightarrow> sign_batch sg rest (acc @ [r]) w')"

definition sign_events ::
  "lock_file \<Rightarrow> lock_env \<Rightarrow> osenv \<Rightarrow> EvidenceSigner \<Rightarrow> batch \<Rightarrow> disk
   \<Rightarrow> ((SignedEvent list \<times> exn option) res \<times> EvidenceStore option \<times> disk) option"
where
  "sign_events lf le env sg events = with_store lf le env sg (sign_batch sg events [])"

text \<open>The generator inside \<^verbatim>\<open>sign_log\<close>: the events, and how many lines were skipped or bad.\<close>

fun log_events :: "int option \<Rightarrow> nat \<Rightarrow> pystr list \<Rightarrow> pydict list \<times> nat \<times> nat" where
  "log_events max_events n [] = ([], 0, 0)"
| "log_events max_events n (l # ls) =
     (let t = strip l in
      if t = [] then (case log_events max_events n ls of (evs, sk, er) \<Rightarrow> (evs, sk + 1, er))
      else if (case max_events of None \<Rightarrow> False | Some m \<Rightarrow> int n \<ge> m) then ([], 0, 0)
      else
        (case json_loads t of
           Inr (PyDict ev) \<Rightarrow> (case log_events max_events (Suc n) ls of (evs, sk, er) \<Rightarrow> (ev # evs, sk, er))
         | _ \<Rightarrow> (case log_events max_events n ls of (evs, sk, er) \<Rightarrow> (evs, sk, er + 1))))"

text \<open>
  \<^verbatim>\<open>sign_log\<close>: \<open>clocks\<close> gives the environment and the clock reading of each transaction. An
  exception while signing leaves the loop, and no report is returned.
\<close>

definition sign_log ::
  "lock_file \<Rightarrow> lock_env \<Rightarrow> osenv \<Rightarrow> EvidenceSigner \<Rightarrow> (nat \<Rightarrow> osenv \<times> pystr) \<Rightarrow> int option \<Rightarrow> pystr list \<Rightarrow> disk
   \<Rightarrow> (SigningReport res \<times> EvidenceStore option \<times> disk) option"
where
  "sign_log lf le env sg clocks max_events source d =
     (case log_events max_events 0 source of
        (evs, sk, er) \<Rightarrow>
          (case sign_events lf le env sg (map (\<lambda>(i, ev). (fst (clocks i), ev, snd (clocks i))) (enumerate 0 evs)) d of
             None \<Rightarrow> None
           | Some (Inl e, s, d') \<Rightarrow> Some (Inl e, s, d')
           | Some (Inr (_, Some e), s, d') \<Rightarrow> Some (Inl e, s, d')
           | Some (Inr (records, None), s, d') \<Rightarrow>
               Some (Inr \<lparr>sr_signed = length records, sr_skipped = sk, sr_errors = er,
                 sr_first_sequence = (case records of [] \<Rightarrow> None | r # _ \<Rightarrow> Some (sequence r)),
                 sr_last_sequence = (if records = [] then None else Some (sequence (last records))),
                 sr_node_id = sg_node_id sg, sr_key_id = sg_key_id sg, sr_backend = b_name (sg_backend sg),
                 sr_real_pqc = sg_real_pqc sg\<rparr>, s, d')))"

definition repair_state_from_log ::
  "lock_file \<Rightarrow> lock_env \<Rightarrow> osenv \<Rightarrow> EvidenceSigner \<Rightarrow> disk \<Rightarrow> (pydict res \<times> EvidenceStore option \<times> disk) option"
where
  "repair_state_from_log lf le env sg d =
     (case signer_store sg of
        Inl e \<Rightarrow> Some (Inl e, None, d)
      | Inr s \<Rightarrow>
          (case es_acquire lf le s of
             None \<Rightarrow> None
           | Some (Inl e, s1) \<Rightarrow> Some (Inl e, Some s1, d)
           | Some (Inr _, s1) \<Rightarrow>
               (case repair_from_log env (snd (recover env (s1, d))) of
                  (r, s2, d2) \<Rightarrow>
                    Some (rbind r (\<lambda>st. Inr (state_dict (utc_now env) st)), Some (es_release s2), d2))))"

section \<open>The size of an envelope\<close>

definition ulen :: "pystr \<Rightarrow> nat" where
  "ulen t = length (concat (map utf8_char t))"

lemma ulen_simps [simp]: "ulen [] = 0" "ulen (c # t) = length (utf8_char c) + ulen t" "ulen (a @ b) = ulen a + ulen b"
  by (simp_all add: ulen_def)

lemma ulen_bound: "ulen t \<le> 4 * length t"
  using utf8_length by (simp add: ulen_def)

lemma ulen_join: "ulen (join sep ts) \<le> sum_list (map (\<lambda>t. ulen t + ulen sep) ts)"
  by (induction sep ts rule: join.induct) auto

lemma ulen_quote: "ulen (quote False s) \<le> 24 * length s + 8"
  using ulen_bound [of "quote False s"] Canonicalizer.quote_length [of s] by simp

text \<open>Text that needs no escapes and one byte per character.\<close>

definition plain :: "pystr \<Rightarrow> bool" where
  "plain s \<longleftrightarrow> (\<forall>c\<in>set s. 32 \<le> c \<and> c < 127 \<and> c \<noteq> 34 \<and> c \<noteq> 92)"

lemma ulen_plain: "plain s \<Longrightarrow> ulen (quote False s) = length s + 2"
proof -
  assume p: "plain s"
  have "concat (map (esc_char False) s) = s" using p
    by (induction s) (auto simp: plain_def esc_char_def)
  moreover have "ulen s = length s" using p by (induction s) (auto simp: plain_def utf8_char_def)
  ultimately show ?thesis by (simp add: quote_def utf8_char_def)
qed

lemma b64_char_plain: "32 \<le> b64_char v \<and> b64_char v < 127 \<and> b64_char v \<noteq> 34 \<and> b64_char v \<noteq> 92"
  by (auto simp: b64_char_def)

lemma b64encode_plain: "plain (b64encode bs)"
  by (induction bs rule: b64encode.induct) (simp_all add: plain_def b64_char_plain)

lemma b64encode_length: "3 * length (b64encode bs) \<le> 4 * length bs + 8"
  by (induction bs rule: b64encode.induct) simp_all

lemma timestamp_length:
  assumes "normalize_timestamp v = Inr t"
  shows "length t \<le> 27"
proof -
  obtain w x off where x: "fromisoformat w = Some x" "rbind (to_utc x off) (\<lambda>u. Inr (strftime_utc u)) = Inr t"
    using assms by (auto simp: normalize_timestamp_def split: pyval.splits if_splits option.splits)
  then obtain u where u: "to_utc x off = Inr u" "t = strftime_utc u" by (auto simp: rbind_Inr_iff)
  have "valid_dt u" using to_utc_valid [OF fromisoformat_valid [OF x(1)] u(1)] by simp
  then have "dt_year u < 10 ^ 4" by (auto simp: valid_dt_def valid_date_def)
  then have "length (dec_nat (dt_year u)) \<le> 4" by (rule dec_nat_length) simp
  then show ?thesis using u(2) by (simp add: strftime_utc_def)
qed

lemma id_length: "validate_identifier (PyStr s) = Inr s \<Longrightarrow> length s \<le> 129 \<and> list_all scalar s \<and> s \<noteq> []"
proof -
  assume "validate_identifier (PyStr s) = Inr s"
  then have p: "ID_PATTERN s" by (auto simp: validate_identifier_def require_Inr_iff)
  then have "length (dollar_core s) \<le> 128" "dollar_core s \<noteq> []" "\<forall>c\<in>set (dollar_core s). c < 128"
    by (auto simp: ID_PATTERN_def id_char_def id_alnum_def list_all_iff split: list.splits)
  moreover have "set s \<subseteq> insert 10 (set (dollar_core s))"
    by (cases s rule: rev_cases) (auto simp: dollar_core_def)
  ultimately have "\<forall>c\<in>set s. c < 128" by fastforce
  then have "list_all scalar s" by (fastforce simp: list_all_iff scalar_def)
  with \<open>length (dollar_core s) \<le> 128\<close> \<open>dollar_core s \<noteq> []\<close> show ?thesis
    by (auto simp: dollar_core_def split: if_splits)
qed

lemma hash_length: "SHA3_256_HEX h \<Longrightarrow> length h \<le> 65"
  by (auto simp: SHA3_256_HEX_def dollar_core_def split: if_splits)

lemma hex_hash: "\<lbrakk>length h = 64; list_all hex_lower h\<rbrakk> \<Longrightarrow> SHA3_256_HEX h"
  by (cases h rule: rev_cases) (auto simp: SHA3_256_HEX_def dollar_core_def hex_lower_def)

lemma sequence_length:
  assumes "1 \<le> i" "i \<le> 2 ^ 63 - (1 :: int)"
  shows "ulen (dec_int i) \<le> 80 \<and> int_digits_ok i"
proof -
  have "nat i < 10 ^ 20" using assms by simp
  then have "length (dec_nat (nat i)) \<le> 20" by (rule dec_nat_length) simp
  then show ?thesis using assms ulen_bound [of "dec_int i"]
    by (simp add: dec_int_def int_digits_ok_def MAX_STR_DIGITS_def)
qed

lemma algorithm_length:
  "a \<in> set SUPPORTED_FORMAT_VERSIONS \<union> set SUPPORTED_SIGNATURE_ALGORITHMS \<union> set SUPPORTED_HASH_ALGORITHMS
   \<Longrightarrow> length a \<le> 16"
  by (auto simp: SUPPORTED_FORMAT_VERSIONS_def SUPPORTED_SIGNATURE_ALGORITHMS_def SUPPORTED_HASH_ALGORITHMS_def)

text \<open>The fields of an envelope that was built by the program.\<close>

definition built_fields :: "SignedEvent \<Rightarrow> bool" where
  "built_fields e \<longleftrightarrow> format_version e \<in> set SUPPORTED_FORMAT_VERSIONS
     \<and> signature_algorithm e \<in> set SUPPORTED_SIGNATURE_ALGORITHMS \<and> hash_algorithm e \<in> set SUPPORTED_HASH_ALGORITHMS
     \<and> (\<exists>v. normalize_timestamp v = Inr (timestamp e)) \<and> validate_event (PyDict (event e)) = Inr (event e)
     \<and> validate_identifier (PyStr (node_id e)) = Inr (node_id e) \<and> 1 \<le> sequence e \<and> sequence e \<le> 2 ^ 63 - 1
     \<and> SHA3_256_HEX (previous_event_hash e) \<and> SHA3_256_HEX (event_hash e)
     \<and> validate_identifier (PyStr (key_id e)) = Inr (key_id e)
     \<and> signature e = b64encode (signature_bytes e) \<and> signature_bytes e \<noteq> []"

lemma envelope_size:
  assumes "built_fields e" "length (signature_bytes e) \<le> 16384" "canonical_bytes (PyDict (to_dict e True)) = Inr b"
  shows "length b \<le> 120000"
proof -
  obtain t where t: "dumps canonical_style (PyDict (to_dict e True)) = Inr t" "b = concat (map utf8_char t)"
    using assms(3) by (auto simp: canonical_bytes_Inr utf8_encode_Inr)
  obtain b0 where "canonical_bytes (PyDict (event e)) = Inr b0" "length b0 \<le> MAX_EVENT_BYTES"
    using assms(1) by (auto simp: built_fields_def validate_event_Inr)
  then obtain te where te: "dumps canonical_style (PyDict (event e)) = Inr te" "ulen te \<le> 65536"
    by (auto simp: canonical_bytes_Inr utf8_encode_Inr ulen_def MAX_EVENT_BYTES_def)
  let ?q = "quote False"
  let ?us = "[(lit ''format_version'', ?q (format_version e)), (lit ''node_id'', ?q (node_id e)),
    (lit ''sequence'', dec_int (sequence e)), (lit ''timestamp'', ?q (timestamp e)),
    (lit ''previous_event_hash'', ?q (previous_event_hash e)), (lit ''event_hash'', ?q (event_hash e)),
    (lit ''event'', te), (lit ''signature_algorithm'', ?q (signature_algorithm e)),
    (lit ''hash_algorithm'', ?q (hash_algorithm e)), (lit ''key_id'', ?q (key_id e)), (lit ''signature'', ?q (signature e))]"
  have st: "\<not> ensure_ascii canonical_style" "item_sep canonical_style = [44]" "key_sep canonical_style = [58]"
    by (simp_all add: canonical_style_def)
  have sq: "ulen (dec_int (sequence e)) \<le> 80" "int_digits_ok (sequence e)"
    using sequence_length assms(1) by (auto simp: built_fields_def)
  have "dumps_items canonical_style (to_dict e True) = Inr ?us"
    using te(1) sq(2) st(1) by (simp add: to_dict_def del: lit_simps dumps.simps(8))
  then have tt: "t = 123 # join [44] (map (member_text canonical_style) (order_items canonical_style ?us)) @ [125]"
    using t(1) st(2) by simp
  let ?m = "\<lambda>u. ulen (member_text canonical_style u) + 1"
  have "ulen t \<le> 2 + sum_list (map ?m (order_items canonical_style ?us))"
    using ulen_join [of "[44]" "map (member_text canonical_style) (order_items canonical_style ?us)"] unfolding tt
    by (simp add: utf8_char_def comp_def)
  also have "sum_list (map ?m (order_items canonical_style ?us)) = sum_list (map ?m ?us)"
    unfolding order_items_def by (simp only: sum_list_sort_key split: if_split) simp
  finally have total: "ulen t \<le> 2 + sum_list (map ?m ?us)" .
  have m: "?m (lit k, v) \<le> 24 * length k + 10 + ulen v" for k v
    using ulen_quote [of "lit k"] st by (simp add: member_text_def utf8_char_def)
  have q: "ulen (?q s) \<le> 24 * n + 8" if "length s \<le> n" for s n
    using ulen_quote [of s] that by linarith
  have f: "ulen (?q (format_version e)) \<le> 392" "ulen (?q (signature_algorithm e)) \<le> 392" "ulen (?q (hash_algorithm e)) \<le> 392"
    "ulen (?q (node_id e)) \<le> 3104" "ulen (?q (key_id e)) \<le> 3104" "ulen (?q (timestamp e)) \<le> 656"
    "ulen (?q (previous_event_hash e)) \<le> 1568" "ulen (?q (event_hash e)) \<le> 1568"
    using q [of _ 16] q [of _ 129] q [of _ 27] q [of _ 65] algorithm_length id_length hash_length timestamp_length assms(1)
    by (auto simp: built_fields_def)
  have "plain (signature e)" "length (signature e) \<le> 21850"
    using assms(1,2) b64encode_plain b64encode_length [of "signature_bytes e"] by (auto simp: built_fields_def)
  then have g: "ulen (?q (signature e)) \<le> 21852" using ulen_plain by simp
  have "ulen t \<le> 120000"
    using total f g sq(1) te(2) m [of "''format_version''" "?q (format_version e)"] m [of "''node_id''" "?q (node_id e)"]
      m [of "''sequence''" "dec_int (sequence e)"] m [of "''timestamp''" "?q (timestamp e)"]
      m [of "''previous_event_hash''" "?q (previous_event_hash e)"] m [of "''event_hash''" "?q (event_hash e)"]
      m [of "''event''" te] m [of "''signature_algorithm''" "?q (signature_algorithm e)"]
      m [of "''hash_algorithm''" "?q (hash_algorithm e)"] m [of "''key_id''" "?q (key_id e)"]
      m [of "''signature''" "?q (signature e)"]
    by (simp del: lit_simps)
  then show ?thesis using t(2) by (simp add: ulen_def)
qed

section \<open>What the signer builds\<close>

text \<open>
  What the signer relies on: SHA3-256 digests are 64 lowercase hex digits, an event is a dict
  without repeated keys, and a signature has at most 16 KiB (ML-DSA-87: 4627 bytes).
\<close>

definition signer_ready :: "digest \<Rightarrow> EvidenceSigner \<Rightarrow> pydict \<Rightarrow> bool" where
  "signer_ready sha3 sg ev \<longleftrightarrow> hex_digest sha3 \<and> dicts_ok (PyDict ev)
     \<and> (\<forall>msg sig. sign (sg_backend sg) (sg_private_key sg) msg (sg_algorithm sg) = Inr sig \<longrightarrow> length sig \<le> 16384)"

lemma signing_payload_ignores: "signing_payload (with_signature e s b) = signing_payload e"
  by (simp add: signing_payload_def to_dict_def SIGNATURE_EXCLUDED_def with_signature_def)

definition built_for :: "digest \<Rightarrow> EvidenceSigner \<Rightarrow> pydict \<Rightarrow> pystr \<Rightarrow> int \<Rightarrow> pystr \<Rightarrow> SignedEvent \<Rightarrow> bool" where
  "built_for sha3 sg ev ts sq prev e \<longleftrightarrow>
     node_id e = sg_node_id sg \<and> key_id e = sg_key_id sg \<and> sequence e = sq \<and> previous_event_hash e = prev
     \<and> event e = ev \<and> signature_algorithm e = sg_algorithm sg \<and> normalize_timestamp (PyStr ts) = Inr (timestamp e)
     \<and> compute_event_hash sha3 e = Inr (event_hash e) \<and> length (event_hash e) = 64 \<and> list_all hex_lower (event_hash e)
     \<and> (\<exists>msg. signing_payload e = Inr msg
          \<and> sign (sg_backend sg) (sg_private_key sg) msg (sg_algorithm sg) = Inr (signature_bytes e))"

lemma build_and_sign_built:
  assumes "hex_digest sha3" "build_and_sign sha3 sg ev ts sq prev = Inr e"
  shows "built_fields e \<and> built_for sha3 sg ev ts sq prev e"
proof -
  obtain u h raw where u: "build_unsigned (PyStr (sg_node_id sg)) (PyInt sq) (PyStr ts) (PyStr prev) (PyDict ev)
        (PyStr (sg_key_id sg)) (sg_algorithm sg) (sg_hash_algorithm sg) EVIDENCE_FORMAT_VERSION = Inr u"
      "compute_event_hash sha3 u = Inr h"
      "rbind (signing_payload (with_event_hash u h)) (\<lambda>payload.
         sign (sg_backend sg) (sg_private_key sg) payload (sg_algorithm sg)) = Inr raw" "raw \<noteq> []"
      "e = with_signature (with_event_hash u h) (b64encode raw) raw"
    using assms(2) by (auto simp: build_and_sign_def res_iff Let_def)
  have f: "EVIDENCE_FORMAT_VERSION \<in> set SUPPORTED_FORMAT_VERSIONS" "sg_algorithm sg \<in> set SUPPORTED_SIGNATURE_ALGORITHMS"
    "sg_hash_algorithm sg \<in> set SUPPORTED_HASH_ALGORITHMS" "normalize_timestamp (PyStr ts) = Inr (timestamp u)"
    "validate_identifier (PyStr (sg_node_id sg)) = Inr (node_id u)" "validate_sequence (PyInt sq) = Inr (sequence u)"
    "validate_hash (PyStr prev) = Inr (previous_event_hash u)" "validate_event (PyDict ev) = Inr (event u)"
    "validate_identifier (PyStr (sg_key_id sg)) = Inr (key_id u)" "format_version u = EVIDENCE_FORMAT_VERSION"
    "signature_algorithm u = sg_algorithm sg" "hash_algorithm u = sg_hash_algorithm sg"
    using u(1) by (auto simp: build_unsigned_def res_iff checked_timestamp_Inr)
  have h: "length h = 64" "list_all hex_lower h"
    using u(2) assms(1) by (auto simp: compute_event_hash_def rbind_Inr_iff hex_digest_def)
  have ids: "node_id u = sg_node_id sg" "key_id u = sg_key_id sg" "sequence u = sq" "previous_event_hash u = prev" "event u = ev"
    using f(5-9) by (auto simp: validator_simps dest: validate_identifier_Inr [THEN iffD1])
  have e: "format_version e = format_version u" "node_id e = node_id u" "sequence e = sequence u" "timestamp e = timestamp u"
    "previous_event_hash e = previous_event_hash u" "event_hash e = h" "event e = event u"
    "signature_algorithm e = signature_algorithm u" "hash_algorithm e = hash_algorithm u" "key_id e = key_id u"
    "signature e = b64encode raw" "signature_bytes e = raw"
    using u(5) by (simp_all add: with_signature_def with_event_hash_def)
  have p: "\<exists>msg. signing_payload e = Inr msg \<and> sign (sg_backend sg) (sg_private_key sg) msg (sg_algorithm sg) = Inr raw"
    using u(3,5) by (auto simp: rbind_Inr_iff signing_payload_ignores)
  have c: "compute_event_hash sha3 e = Inr h" using u(2,5) by (simp add: compute_event_hash_ignores)
  show ?thesis
    unfolding built_fields_def built_for_def e
    using f ids h hex_hash [OF h] p c u(4) by (auto simp: validator_simps)
qed

lemma signed_line_record:
  assumes "signer_ready sha3 sg ev" "signed_line sha3 sg ev ts sq prev = Inr (l, h)"
  shows "\<exists>e. build_and_sign sha3 sg ev ts sq prev = Inr e \<and> to_json_line e = Inr l \<and> h = event_hash e
    \<and> record_line (sg_node_id sg) sq h l \<and> length (line_bytes l) \<le> 150000"
proof -
  obtain e where e: "build_and_sign sha3 sg ev ts sq prev = Inr e" "to_json_line e = Inr l" "h = event_hash e"
    using assms(2) by (auto simp: signed_line_def rbind_Inr_iff)
  have r: "hex_digest sha3" "dicts_ok (PyDict ev)" using assms(1) by (simp_all add: signer_ready_def)
  have b: "built_fields e" "built_for sha3 sg ev ts sq prev e" using build_and_sign_built [OF r(1) e(1)] by simp_all
  obtain c where c: "canonical_bytes (PyDict (to_dict e True)) = Inr c" "utf8_decode c = Inr l"
    using e(2) by (auto simp: to_json_line_def rbind_Inr_iff)
  obtain line where l: "to_json_line e = Inr line" "utf8_encode line = Inr c" "\<forall>x\<in>set line. 32 \<le> x"
      "line \<noteq> []" "hd line = 123" "last line = 125"
    using json_line_shape [OF c(1)] by blast
  with e(2) have ll: "line = l" by simp
  have d: "dicts_ok (PyDict (to_dict e True))"
    using r(2) b(2) to_dict_distinct [of e] by (simp add: dicts_ok_items_all to_dict_def built_for_def)
  have "json_loads l = Inr (PyDict (order_dict canonical_style (to_dict (canon_event e) True)))"
    using canonical_bytes_loads [OF dict_of_pairs_ok d c(1), of python_constant] c(2) canon_items_to_dict
    by (simp add: json_loads_def)
  moreover have "is_record (sg_node_id sg) (PyDict (order_dict canonical_style (to_dict (canon_event e) True))) = Some (sq, h)"
  proof -
    have g: "dict_get (order_dict canonical_style (to_dict (canon_event e) True)) k = dict_get (to_dict (canon_event e) True) k" for k
      using to_dict_distinct by (rule dict_get_order)
    show ?thesis using b(2) e(3) unfolding is_record_def built_for_def by (simp add: g) (simp add: to_dict_def)
  qed
  ultimately have pos: "line_position (sg_node_id sg) (l @ [10]) = Some (sq, h)"
    using strip_line [OF l(4-6)] l(4) ll by (simp add: line_position_def Let_def)
  have sc: "list_all scalar l" "c = concat (map utf8_char l)" using l(2) ll by (simp_all add: utf8_encode_Inr)
  obtain msg where "sign (sg_backend sg) (sg_private_key sg) msg (sg_algorithm sg) = Inr (signature_bytes e)"
    using b(2) by (auto simp: built_for_def)
  with assms(1) have "length (signature_bytes e) \<le> 16384" by (auto simp: signer_ready_def)
  from envelope_size [OF b(1) this c(1)] have "length (line_bytes l) \<le> 150000"
    using sc(2) by (simp add: line_bytes_def utf8_char_def)
  moreover have "10 \<notin> set l" "13 \<notin> set l" using l(3) ll by auto
  ultimately show ?thesis
    using e b(2) pos sc(1) by (intro exI [of _ e]) (simp add: record_line_def built_for_def)
qed

interpretation signing: record_builder "signed_line sha3 sg ev ts" "sg_node_id sg" "signer_ready sha3 sg ev" for sha3 sg ev ts
  by unfold_locales (use signed_line_record in blast)

end
