(* ===== verification/Pipeline.thy ===== *)
theory Pipeline
  imports Signer
begin

text \<open>
  The signing pipeline as a whole: the signer on the evidence store, and the collector on the
  log they wrote. Shown: a transaction is atomic under every fault; a batch extends the node's
  chain; the log of any batch is accepted by a collector that trusts the key; the private key
  files; and the lock that \<^verbatim>\<open>__enter__\<close> keeps when recovery fails.
\<close>

section \<open>Transactions of a signer\<close>

definition signer_ids :: "EvidenceSigner \<Rightarrow> bool" where
  "signer_ids sg \<longleftrightarrow> validate_identifier (PyStr (sg_node_id sg)) = Inr (sg_node_id sg)
     \<and> validate_identifier (PyStr (sg_key_id sg)) = Inr (sg_key_id sg)"

definition clock_ok :: "osenv \<Rightarrow> bool" where
  "clock_ok env \<longleftrightarrow> list_all scalar (utc_now env) \<and> length (utc_now env) \<le> 256"

definition store_of :: "EvidenceSigner \<Rightarrow> EvidenceStore \<Rightarrow> bool" where
  "store_of sg s \<longleftrightarrow> es_node_id s = sg_node_id sg \<and> es_key_id s = sg_key_id sg"

lemma signer_named: "\<lbrakk>signer_ids sg; store_of sg s\<rbrakk> \<Longrightarrow> named s"
  using id_length by (simp add: signer_ids_def store_of_def named_def)

lemma signer_ids_fit: "\<lbrakk>signer_ids sg; store_of sg s; clock_ok env\<rbrakk> \<Longrightarrow> ids_fit env s (Some (sg_key_id sg))"
  using id_length [of "sg_node_id sg"] id_length [of "sg_key_id sg"]
  by (auto simp: signer_ids_def store_of_def clock_ok_def ids_fit_def)

definition last_hash :: "log_record list \<Rightarrow> pystr option" where
  "last_hash rs = (if rs = [] then None else Some (snd (last rs)))"

text \<open>
  What one call of \<^verbatim>\<open>append_signed\<close> with the signer's callback leaves: nothing new when the
  event is refused, otherwise a stage of the transaction.
\<close>

definition txn_outcome ::
  "osenv \<Rightarrow> EvidenceSigner \<Rightarrow> (pystr \<Rightarrow> bool) \<Rightarrow> EvidenceStore \<Rightarrow> log_record list \<Rightarrow> SignedEvent \<Rightarrow> pystr \<Rightarrow> 'a res
   \<Rightarrow> EvidenceStore \<Rightarrow> disk \<Rightarrow> disk \<Rightarrow> bool"
where
  "txn_outcome env sg fault s rs e l r s' d d' \<longleftrightarrow>
     (\<exists>jb complete. journal_of env s (Some (sg_key_id sg)) rs l (event_hash e) jb
        \<and> stage (conv env) (sg_node_id sg) jb rs l (event_hash e) d complete d' \<and> (is_ok r \<longrightarrow> complete)
        \<and> (is_ok r \<and> unlink_ok env \<longrightarrow> opened (conv env) s' d' (rs @ [(l, event_hash e)]) \<and> store_of sg s')
        \<and> (fault = (\<lambda>_. False) \<and> journal_io env = None \<and> append_io env = None \<and> state_io env \<longrightarrow> is_ok r))"

lemma transact_exits:
  assumes o: "opened (conv env) s d rs" "store_of sg s" "countable_log rs"
    and g: "signer_ids sg" "signer_ready (digest_of env) sg ev" "clock_ok env"
    and run: "transact env sg ev ts fault (s, d) = (r, s', d')"
  shows "\<exists>prev. expected_previous_hash (digest_of env) (sg_node_id sg) (int (length rs) + 1) (last_hash rs) = Inr prev
    \<and> (case signed_line (digest_of env) sg ev ts (int (length rs) + 1) prev of
         Inl x \<Rightarrow> \<not> is_ok r \<and> d' = d \<and> opened (conv env) s' d' rs
       | Inr (l, h) \<Rightarrow> \<exists>e. build_and_sign (digest_of env) sg ev ts (int (length rs) + 1) prev = Inr e
           \<and> to_json_line e = Inr l \<and> h = event_hash e \<and> (\<forall>x. r = Inr x \<longrightarrow> x = e)
           \<and> txn_outcome env sg fault s rs e l r s' d d')"
proof -
  let ?sha3 = "digest_of env" and ?nid = "sg_node_id sg" and ?sq = "int (length rs) + 1"
  have op: "es_locked s" "named s" "consistent (conv env) (es_node_id s) d rs" "cache_at s rs"
    using o(1) by (auto simp: opened_def)
  obtain st where st: "at_position st rs" "read_state env (s, d) = (Inr st, s\<lparr>es_state := Some st\<rparr>, d)"
    using read_state_at [OF op(1,2) _ op(4), of env d] op(3) by (auto simp: consistent_def)
  let ?s = "s\<lparr>es_state := Some st\<rparr>"
  obtain r1 where app: "append_signed env (signed_line ?sha3 sg ev ts) (Some (sg_key_id sg)) fault (?s, d) = (r1, s', d')"
    and r: "r = rbind r1 (\<lambda>(sq, _). rbind (expected_previous_hash ?sha3 ?nid sq (last_hash rs)) (build_and_sign ?sha3 sg ev ts sq))"
    using run st by (auto simp: transact_def abind_def at_position_def last_hash_def split: prod.splits sum.splits)
  have o': "opened (conv env) ?s d rs" "es_node_id ?s = ?nid" "es_key_id ?s = sg_key_id sg" "store_of sg ?s"
    using o(1,2) st(1) by (simp_all add: opened_def cache_at_def named_def store_of_def)
  have t: "list_all scalar (utc_now env)" "\<forall>k. Some (sg_key_id sg) = Some k \<longrightarrow> list_all scalar k"
    "ids_fit env ?s (Some (sg_key_id sg))"
    using g(1,3) id_length signer_ids_fit [OF g(1) o'(4) g(3)] by (auto simp: clock_ok_def signer_ids_def)
  obtain prev where prev: "expected_previous_hash ?sha3 ?nid ?sq (last_hash rs) = Inr prev"
    and b: "case signed_line ?sha3 sg ev ts ?sq prev of
         Inl e \<Rightarrow> is_ok r1 = False \<and> d' = d \<and> opened (conv env) s' d' rs
       | Inr (l, h) \<Rightarrow> \<exists>jb complete. journal_of env ?s (Some (sg_key_id sg)) rs l h jb \<and> stage (conv env) ?nid jb rs l h d complete d'
           \<and> (\<forall>x. r1 = Inr x \<longrightarrow> complete \<and> x = (?sq, h))
           \<and> (is_ok r1 \<and> unlink_ok env \<longrightarrow> opened (conv env) s' d' (rs @ [(l, h)]) \<and> es_node_id s' = ?nid \<and> es_key_id s' = es_key_id ?s)
           \<and> (fault = (\<lambda>_. False) \<and> journal_io env = None \<and> append_io env = None \<and> state_io env \<longrightarrow> is_ok r1)"
    using signing.append_exits [OF o'(1,2) o(3) g(2) t app] by (auto simp: last_hash_def)
  show ?thesis
  proof (cases "signed_line ?sha3 sg ev ts ?sq prev")
    case (Inl x)
    with b prev r show ?thesis by (intro exI [of _ prev]) (cases r1, auto)
  next
    case (Inr lh)
    obtain l h where lh: "lh = (l, h)" by (cases lh)
    obtain e where e: "build_and_sign ?sha3 sg ev ts ?sq prev = Inr e" "to_json_line e = Inr l" "h = event_hash e"
      using signed_line_record [OF g(2) Inr [unfolded lh]] by blast
    from b Inr lh obtain jb complete where c: "journal_of env s (Some (sg_key_id sg)) rs l h jb"
        "stage (conv env) ?nid jb rs l h d complete d'" "\<forall>x. r1 = Inr x \<longrightarrow> complete \<and> x = (?sq, h)"
        "is_ok r1 \<and> unlink_ok env \<longrightarrow> opened (conv env) s' d' (rs @ [(l, h)]) \<and> es_node_id s' = ?nid \<and> es_key_id s' = es_key_id ?s"
        "fault = (\<lambda>_. False) \<and> journal_io env = None \<and> append_io env = None \<and> state_io env \<longrightarrow> is_ok r1"
      by auto
    have same: "is_ok r = is_ok r1 \<and> (\<forall>x. r = Inr x \<longrightarrow> x = e)"
    proof (cases r1)
      case (Inr x)
      with c(3) have "x = (?sq, h)" by simp
      with Inr r prev e(1) show ?thesis by simp
    qed (simp add: r)
    have "complete" if "is_ok r1" using that c(3) unfolding is_ok_iff by blast
    with c e(3) same o'(3) have "txn_outcome env sg fault s rs e l r s' d d'"
      unfolding txn_outcome_def store_of_def by (intro exI [of _ jb] exI [of _ complete]) simp
    with prev Inr lh e same show ?thesis by (intro exI [of _ prev]) simp
  qed
qed



section \<open>Batches\<close>

text \<open>The records of a log, as the envelopes the signer built.\<close>

definition written_by :: "digest \<Rightarrow> EvidenceSigner \<Rightarrow> SignedEvent \<Rightarrow> bool" where
  "written_by sha3 sg e \<longleftrightarrow> built_fields e \<and> dicts_ok (PyDict (event e)) \<and> length (signature_bytes e) \<le> 16384
     \<and> (\<exists>ev ts sq prev. built_for sha3 sg ev ts sq prev e)"

definition signer_log :: "digest \<Rightarrow> EvidenceSigner \<Rightarrow> log_record list \<Rightarrow> SignedEvent list \<Rightarrow> bool" where
  "signer_log sha3 sg rs es \<longleftrightarrow> chain sha3 (sg_node_id sg) es
     \<and> list_all2 (\<lambda>r e. to_json_line e = Inr (fst r) \<and> snd r = event_hash e \<and> written_by sha3 sg e) rs es"

lemma build_and_sign_written:
  assumes "signer_ready sha3 sg ev" "build_and_sign sha3 sg ev ts sq prev = Inr e"
  shows "written_by sha3 sg e" "sequence e = sq" "previous_event_hash e = prev" "compute_event_hash sha3 e = Inr (event_hash e)"
proof -
  have b: "built_fields e" "built_for sha3 sg ev ts sq prev e"
    using build_and_sign_built [OF _ assms(2)] assms(1) by (simp_all add: signer_ready_def)
  obtain msg where "sign (sg_backend sg) (sg_private_key sg) msg (sg_algorithm sg) = Inr (signature_bytes e)"
    using b(2) by (auto simp: built_for_def)
  with assms(1) have "length (signature_bytes e) \<le> 16384" by (auto simp: signer_ready_def)
  with b assms(1) show "written_by sha3 sg e" by (auto simp: written_by_def signer_ready_def built_for_def)
  show "sequence e = sq" "previous_event_hash e = prev" "compute_event_hash sha3 e = Inr (event_hash e)"
    using b(2) by (simp_all add: built_for_def)
qed

lemma signer_log_snoc:
  assumes "signer_log sha3 sg rs es" "signer_ready sha3 sg ev"
    and "expected_previous_hash sha3 (sg_node_id sg) (int (length rs) + 1) (last_hash rs) = Inr prev"
    and "build_and_sign sha3 sg ev ts (int (length rs) + 1) prev = Inr e" "to_json_line e = Inr l"
  shows "signer_log sha3 sg (rs @ [(l, event_hash e)]) (es @ [e])"
proof -
  note w = build_and_sign_written [OF assms(2,4)]
  have len: "length rs = length es" and all: "list_all2 (\<lambda>r e. snd r = event_hash e) rs es"
    using assms(1) by (auto simp: signer_log_def list_all2_lengthD elim: list_all2_mono)
  obtain g where g: "genesis_previous_hash sha3 (sg_node_id sg) = Inr g" "chain_from sha3 g 0 es"
    using assms(1) by (auto simp: signer_log_def chain_def split: sum.splits)
  have "prev = tip g es"
  proof (cases es rule: rev_cases)
    case Nil
    with assms(3) len g(1) show ?thesis by (simp add: expected_previous_hash_def FIRST_SEQUENCE_def last_hash_def)
  next
    case (snoc es' x)
    with all obtain rs' y where "rs = rs' @ [y]" "snd y = event_hash x"
      by (auto simp: list_all2_append2 list_all2_Cons2)
    with snoc assms(3) show ?thesis
      by (auto simp: expected_previous_hash_def FIRST_SEQUENCE_def last_hash_def split: if_splits)
  qed
  with g w len have "chain sha3 (sg_node_id sg) (es @ [e])"
    by (simp add: chain_def chain_from_append)
  with assms(1,5) w(1) len show ?thesis by (simp add: signer_log_def list_all2_append)
qed

text \<open>
  Nothing goes wrong while a batch is signed, every event is one the signer can handle, and the
  log stays small enough for its size to be written down (10 to the 4300 bytes).
\<close>

definition faultless :: "osenv \<Rightarrow> bool" where
  "faultless env \<longleftrightarrow> clock_ok env \<and> journal_io env = None \<and> append_io env = None \<and> state_io env \<and> unlink_ok env"

definition batch_ok :: "conversions \<Rightarrow> digest \<Rightarrow> EvidenceSigner \<Rightarrow> batch \<Rightarrow> bool" where
  "batch_ok cv sha3 sg events \<longleftrightarrow>
     list_all (\<lambda>(env, ev, _). faultless env \<and> conv env = cv \<and> digest_of env = sha3 \<and> signer_ready sha3 sg ev) events"

definition room :: "log_record list \<Rightarrow> nat \<Rightarrow> bool" where
  "room rs n \<longleftrightarrow> length rs + n < 10 ^ MAX_STR_DIGITS \<and> length (log_bytes rs) + 150000 * n < 10 ^ MAX_STR_DIGITS"

lemma room_countable: "room rs (Suc n) \<Longrightarrow> countable_log rs"
proof -
  assume a: "room rs (Suc n)"
  have pos: "0 < MAX_STR_DIGITS" by (simp add: MAX_STR_DIGITS_def)
  have "length rs + 1 < 10 ^ MAX_STR_DIGITS" "length (log_bytes rs) < 10 ^ MAX_STR_DIGITS"
    using a by (auto simp: room_def)
  from this [THEN dec_nat_length [OF _ pos]] show ?thesis by (simp add: countable_log_def int_digits_ok_def nat_add_distrib)
qed

lemma room_step: "\<lbrakk>room rs (Suc n); length (line_bytes l) \<le> 150000\<rbrakk> \<Longrightarrow> room (rs @ [(l, h)]) n"
  by (simp add: room_def log_bytes_snoc)

lemma sign_batch_extends:
  assumes "opened cv s d rs" "store_of sg s" "signer_ids sg" "signer_log sha3 sg rs es"
    and "batch_ok cv sha3 sg events" "room rs (length events)"
  shows "\<exists>rs' es' oe s' d'. sign_batch sg events acc (s, d) = (Inr (acc @ es', oe), s', d')
    \<and> opened cv s' d' (rs @ rs') \<and> signer_log sha3 sg (rs @ rs') (es @ es')"
  using assms
proof (induction events arbitrary: s d rs es acc)
  case Nil
  then show ?case by (intro exI [of _ "[]"] exI [of _ None]) auto
next
  case (Cons x events)
  obtain env ev ts where x: "x = (env, ev, ts)" by (cases x)
  obtain r s1 d1 where run: "transact env sg ev ts (\<lambda>_. False) (s, d) = (r, s1, d1)" by (cases "transact env sg ev ts (\<lambda>_. False) (s, d)")
  have env: "faultless env" "conv env = cv" "digest_of env = sha3" "signer_ready sha3 sg ev" "batch_ok cv sha3 sg events"
    using Cons.prems(5) x by (simp_all add: batch_ok_def)
  have room: "countable_log rs" "room rs (Suc (length events))" using Cons.prems(6) room_countable by auto
  obtain prev where prev: "expected_previous_hash sha3 (sg_node_id sg) (int (length rs) + 1) (last_hash rs) = Inr prev"
    and p: "case signed_line sha3 sg ev ts (int (length rs) + 1) prev of
         Inl x \<Rightarrow> \<not> is_ok r \<and> d1 = d \<and> opened cv s1 d1 rs
       | Inr (l, h) \<Rightarrow> \<exists>e. build_and_sign sha3 sg ev ts (int (length rs) + 1) prev = Inr e
           \<and> to_json_line e = Inr l \<and> h = event_hash e \<and> (\<forall>x. r = Inr x \<longrightarrow> x = e)
           \<and> txn_outcome env sg (\<lambda>_. False) s rs e l r s1 d d1"
    using transact_exits [OF _ Cons.prems(2) room(1) Cons.prems(3) _ _ run] env Cons.prems(1) by (auto simp: faultless_def)
  show ?case
  proof (cases "signed_line sha3 sg ev ts (int (length rs) + 1) prev")
    case (Inl y)
    with p obtain z where "r = Inl z" "opened cv s1 d1 rs" by (cases r) auto
    with run x Cons.prems(4) show ?thesis by (intro exI [of _ "[]"] exI [of _ "Some z"]) auto
  next
    case (Inr lh)
    with p obtain e l where e: "lh = (l, event_hash e)" "build_and_sign sha3 sg ev ts (int (length rs) + 1) prev = Inr e"
        "to_json_line e = Inr l" "\<forall>x. r = Inr x \<longrightarrow> x = e" "txn_outcome env sg (\<lambda>_. False) s rs e l r s1 d d1"
      by (cases lh) auto
    with env(1,2) have ok: "is_ok r" "opened cv s1 d1 (rs @ [(l, event_hash e)])" "store_of sg s1"
      by (auto simp: txn_outcome_def faultless_def)
    then have r: "r = Inr e" using e(4) unfolding is_ok_iff by blast
    have "length (line_bytes l) \<le> 150000" using signed_line_record [OF env(4)] Inr e(1) by blast
    note room' = room_step [OF room(2) this, of "event_hash e"]
    have sl: "signer_log sha3 sg (rs @ [(l, event_hash e)]) (es @ [e])"
      by (rule signer_log_snoc [OF Cons.prems(4) env(4) prev e(2,3)])
    from Cons.IH [OF ok(2,3) Cons.prems(3) sl env(5) room', of "acc @ [e]"]
    obtain rs' es' oe s' d' where "sign_batch sg events (acc @ [e]) (s1, d1) = (Inr (acc @ e # es', oe), s', d')"
      "opened cv s' d' (rs @ (l, event_hash e) # rs')" "signer_log sha3 sg (rs @ (l, event_hash e) # rs') (es @ e # es')"
      by auto
    with run r x show ?thesis by (intro exI [of _ "(l, event_hash e) # rs'"] exI [of _ "e # es'"]) auto
  qed
qed

section \<open>Signed logs verify\<close>

text \<open>
  What the collector must know of a signer: the key's record is usable at the time of every
  record (with a year of four digits), and its public key verifies what the private key signs.
\<close>

definition trusts :: "platform \<Rightarrow> EvidenceVerifier \<Rightarrow> EvidenceSigner \<Rightarrow> SignedEvent list \<Rightarrow> bool" where
  "trusts pf v sg es \<longleftrightarrow> (\<forall>e\<in>set es. key_ok v e \<and> length (timestamp e) = 27)
     \<and> (\<exists>rec pk be. map_of (v_registry v) (sg_key_id sg) = Some rec \<and> public_key_bytes rec = Inr pk
          \<and> backend_for pf v (sg_algorithm sg) = Inr be
          \<and> (\<forall>msg sig. sign (sg_backend sg) (sg_private_key sg) msg (sg_algorithm sg) = Inr sig
               \<longrightarrow> verify be pk msg sig (sg_algorithm sg) = Inr True))"

lemma written_wf:
  assumes "written_by sha3 sg e" "length (timestamp e) = 27" "to_json_line e = Inr l" "120000 \<le> mb"
  shows "wf_signed mb e"
proof -
  have b: "built_fields e" "length (signature_bytes e) \<le> 16384" using assms(1) by (simp_all add: written_by_def)
  obtain c where c: "canonical_bytes (PyDict (to_dict e True)) = Inr c"
    using assms(3) by (auto simp: to_json_line_def rbind_Inr_iff)
  have "length c \<le> mb" using envelope_size [OF b c] assms(4) by simp
  moreover have "normalize_timestamp (PyStr (timestamp e)) = Inr (timestamp e)"
    using b(1) normalize_fixpoint assms(2) by (auto simp: built_fields_def)
  moreover have "validate_signature (PyStr (signature e)) = Inr (signature_bytes e)"
    using b(1) by (simp add: built_fields_def validate_signature_def b64decode_encode)
  ultimately show ?thesis using b(1) c by (auto simp: wf_signed_def built_fields_def)
qed

lemma written_verified:
  assumes "written_by sha3 sg e" "trusts pf v sg es" "e \<in> set es" "sha3_256 pf = sha3"
  shows "record_verified pf v e"
proof -
  obtain ev ts sq prev where b: "built_for sha3 sg ev ts sq prev e" using assms(1) by (auto simp: written_by_def)
  then have "signature_ok pf v e"
    using assms(2) by (fastforce simp: signature_ok_def trusts_def built_for_def)
  with b assms(2-4) show ?thesis by (simp add: record_verified_def trusts_def built_for_def)
qed

lemma chain_map_canon: "chain sha3 nid es \<Longrightarrow> chain sha3 nid (map canon_event es)"
proof -
  have c: "compute_event_hash sha3 (canon_event e) = Inr h" if "compute_event_hash sha3 e = Inr h" for e h
    using that payload_canon_event(1) by (fastforce simp: compute_event_hash_def rbind_Inr_iff)
  have "chain_from sha3 g n es \<Longrightarrow> chain_from sha3 g n (map canon_event es)" for g n
    by (induction es arbitrary: g n) (simp_all add: c)
  then show "chain sha3 nid es \<Longrightarrow> ?thesis" by (auto simp: chain_def split: sum.splits)
qed

lemma written_node: "written_by sha3 sg e \<Longrightarrow> node_id e = sg_node_id sg"
  by (auto simp: written_by_def built_for_def)

lemma signer_log_sound:
  assumes "signer_log sha3 sg rs es" "trusts pf v sg es" "sha3_256 pf = sha3"
    and "distinct (map event_hash es)" "length es \<le> MAX_TRACKED_HASHES"
  shows "sound_stream pf v (map canon_event es)"
proof -
  have w: "\<forall>e\<in>set es. written_by sha3 sg e"
    using assms(1) by (auto simp: signer_log_def list_all2_conv_all_nth in_set_conv_nth)
  have one: "of_node n (map canon_event es) = (if n = sg_node_id sg then map canon_event es else [])" for n
    using w written_node by (force simp: of_node_def filter_id_conv filter_empty_conv)
  have "map event_hash (map canon_event es) = map event_hash es" by simp
  with assms(4) have d: "distinct (map event_hash (map canon_event es))" by (simp only:)
  have "record_verified pf v (canon_event e)" if "e \<in> set es" for e
    using record_verified_canon [OF written_verified [OF _ assms(2) that assms(3)]] w that by simp
  moreover have "chain (sha3_256 pf) (sg_node_id sg) (map canon_event es)"
    using assms(1,3) chain_map_canon by (simp add: signer_log_def)
  ultimately show ?thesis
    unfolding sound_stream_def evidence_ok_def one using d assms(5) w written_node by auto
qed

lemma signer_log_records:
  assumes "signer_log sha3 sg rs es" "trusts pf v sg es" "120000 \<le> mb"
  shows "stream_records mb (map PyStr (map (\<lambda>r. fst r @ [10]) rs)) (map canon_event es)"
proof -
  have ll: "\<not> blank (PyStr (l @ [10])) \<and> line_record mb (PyStr (l @ [10])) (canon_event e)"
    if "to_json_line e = Inr l" "written_by sha3 sg e" "e \<in> set es" for l e
    using line_of_event [OF written_wf [OF that(2) _ that(1) assms(3)]] that assms(2)
    by (auto simp: trusts_def written_by_def)
  have "list_all2 (\<lambda>r e. to_json_line e = Inr (fst r) \<and> written_by sha3 sg e) rs es"
    using assms(1) by (auto simp: signer_log_def elim: list_all2_mono)
  then have "list_all2 (\<lambda>r e. \<not> blank (PyStr (fst r @ [10])) \<and> line_record mb (PyStr (fst r @ [10])) (canon_event e)) rs es"
    using ll by (auto simp: list_all2_conv_all_nth)
  moreover from this have "filter (\<lambda>l. \<not> blank l) (map PyStr (map (\<lambda>r. fst r @ [10]) rs)) = map PyStr (map (\<lambda>r. fst r @ [10]) rs)"
    by (fastforce simp: filter_id_conv list_all2_conv_all_nth in_set_conv_nth)
  ultimately show ?thesis
    by (simp add: stream_records_def list_all2_map1 list_all2_map2 comp_def list_all2_conv_all_nth)
qed

lemma enter_consistent:
  assumes "enter_store lf le env (s, d) = Some (Inr rep, w)" "consistent (conv env) (es_node_id s) d rs" "named s" "es_state s = None"
  shows "\<exists>s' d'. w = (s', d') \<and> opened (conv env) s' d' rs \<and> es_node_id s' = es_node_id s \<and> es_key_id s' = es_key_id s"
proof -
  obtain s1 where a: "es_acquire lf le s = Some (Inr (), s1)" "recover env (s1, d) = (Inr rep, w)"
    using assms(1) by (auto simp: enter_store_def split: option.splits prod.splits sum.splits)
  then have s1: "s1 = s \<or> s1 = s\<lparr>es_locked := True\<rparr>" "es_locked s1"
    by (auto simp: es_acquire_def verify_lock_file_def split: if_splits lock_file.splits option.splits sum.splits)
  then have "opened (conv env) s1 d rs" using assms(2-4) by (auto simp: opened_def cache_at_def named_def)
  from recover_clean [OF this] a(2) s1(1) show ?thesis by (auto simp: recovered_def)
qed

text \<open>
  \<^bold>\<open>C8\<close>. The end-to-end guarantee. A signer opens its store on a disk that holds the records
  it has written so far (none on an empty disk), and signs a batch. Whatever prefix of the batch
  was signed, the collector's \<^verbatim>\<open>verify_file\<close> accepts the resulting log in full: every record is
  counted and verified and the report is valid, provided the registry trusts the key, no hash
  repeats and the log is within the collector's limits.
\<close>

theorem signed_batch_verifies:
  assumes "consistent (conv env) (sg_node_id sg) d rs" "signer_log sha3 sg rs es"
    and "sign_events lf le env sg events d = Some (Inr (records, oe), so, d')" "es @ records \<noteq> []"
    and "signer_ids sg" "batch_ok (conv env) sha3 sg events" "room rs (length events)"
    and "trusts pf (c_verifier c) sg (es @ records)" "sha3_256 pf = sha3"
    and "max_record_bytes (c_verifier c) = c_max_record_bytes c" "120000 \<le> max_record_bytes (c_verifier c)"
    and "distinct (map event_hash (es @ records))" "length (es @ records) \<le> MAX_TRACKED_HASHES"
  shows "\<exists>rep. verify_file pf c (evidence_log d') = Inr rep \<and> sr_valid rep
    \<and> total rep = length (es @ records) \<and> verified rep = length (es @ records) \<and> failed rep = 0"
proof -
  obtain s0 where s0: "signer_store sg = Inr s0"
    using assms(3) by (cases "signer_store sg") (auto simp: sign_events_def with_store_def)
  then have st: "store_of sg s0" "es_state s0 = None"
    by (auto simp: signer_store_def new_store_def require_Inr_iff store_of_def)
  obtain rep0 w where en: "enter_store lf le env (s0, d) = Some (Inr rep0, w)"
      "Some (Inr (records, oe), so, d') = (case sign_batch sg events [] w of (r, w') \<Rightarrow> Some (r, Some (fst (exit_store w')), snd w'))"
    using assms(3) s0 by (auto simp: sign_events_def with_store_def split: option.splits sum.splits prod.splits)
  have nid: "es_node_id s0 = sg_node_id sg" using st(1) by (simp add: store_of_def)
  obtain s1 d1 where w: "w = (s1, d1)" "opened (conv env) s1 d1 rs" "store_of sg s1"
    using enter_consistent [OF en(1) assms(1) [folded nid] signer_named [OF assms(5) st(1)] st(2)] st(1)
    by (auto simp: store_of_def)
  obtain rs' es' oe' s2 d2 where b: "sign_batch sg events [] (s1, d1) = (Inr (es', oe'), s2, d2)"
      "opened (conv env) s2 d2 (rs @ rs')" "signer_log sha3 sg (rs @ rs') (es @ es')"
    using sign_batch_extends [OF w(2,3) assms(5,2,6,7), of "[]"] by auto
  then have out: "es' = records" "d' = d2" using en(2) w(1) by simp_all
  have ne: "rs @ rs' \<noteq> []" using b(3) assms(4) out by (auto simp: signer_log_def)
  have lg: "evidence_log d' = Some (log_bytes (rs @ rs'))" "log_of (es_node_id s2) (rs @ rs')"
    using b(2) ne out by (auto simp: opened_def consistent_def log_at_def)
  let ?ls = "map PyStr (text_lines (utf8_decode_replace (log_bytes (rs @ rs'))))"
  have "stream_records (nat (max_record_bytes (c_verifier c))) ?ls (map canon_event (es @ records))"
    using signer_log_records [OF b(3) [unfolded out] assms(8)] assms(11) log_lines [OF lg(2)] by simp
  from stream_accepted [OF assms(10) this signer_log_sound [OF b(3) [unfolded out] assms(8,9,12,13)]]
  show ?thesis using lg(1) by (simp add: verify_file_def)
qed

section \<open>Key files and the lock\<close>

text \<open>
  Private key files: an existing file is never touched; after a successful write the key
  is read back, also under the permission check; and when writing fails midway the partial file
  stays, so that every later attempt to write the key is refused.
\<close>

theorem private_key_files:
  assumes "write_private_key file open_ok io key = (r, file')"
  shows "(\<forall>old. file = Some old \<longrightarrow> r = Inl SignerError \<and> file' = file)
    \<and> (r = Inr () \<and> private_bytes key \<noteq> [] \<longrightarrow> load_private_key file' strict = Inr (private_bytes key))
    \<and> (file = None \<and> open_ok \<and> io \<noteq> None \<longrightarrow> r = Inl SignerError
         \<and> (\<forall>ok io' key'. write_private_key file' ok io' key' = (Inl SignerError, file')))"
  using assms by (auto simp: write_private_key_def load_private_key_def split: option.splits if_splits)

text \<open>
  A signer whose state claims records that its log does not hold refuses to sign:
  opening the store raises \<^verbatim>\<open>EvidenceStateDivergence\<close> and nothing on the disk changes. The
  exception leaves \<^verbatim>\<open>__enter__\<close>, so Python never calls \<^verbatim>\<open>__exit__\<close>, and the process keeps
  the lock.
\<close>

theorem diverged_store_keeps_lock:
  assumes "signer_store sg = Inr s" "es_acquire lf le s = Some (Inr (), s1)"
    and "journal_file d = None" "evidence_log d = None" "state_file d = Some raw"
    and "load_state (conv env) (sg_node_id sg) raw = Inr st" "0 < ns_last_sequence st"
  shows "\<exists>s2. sign_events lf le env sg events d = Some (Inl EvidenceStateDivergence, Some s2, d) \<and> es_locked s2"
proof -
  have s: "es_node_id s = sg_node_id sg" "es_state s = None" "\<not> es_locked s"
    using assms(1) by (auto simp: signer_store_def new_store_def require_Inr_iff)
  with assms(2) have s1: "s1 = s\<lparr>es_locked := True\<rparr>"
    by (auto simp: es_acquire_def split: lock_file.splits option.splits sum.splits)
  have "recover env (s1, d) = (Inl EvidenceStateDivergence, s1\<lparr>es_state := Some st\<rparr>, d)"
    using assms(3-7) s s1
    by (simp add: recover_def check_state_against_log_def read_state_def abind_def require_lock_def last_logged_record_def)
  then have "enter_store lf le env (s, d) = Some (Inl EvidenceStateDivergence, s1\<lparr>es_state := Some st\<rparr>, d)"
    using assms(2) by (simp add: enter_store_def)
  with assms(1) s1 show ?thesis by (simp add: sign_events_def with_store_def)
qed

section \<open>A concrete signer\<close>

definition demo_osenv :: osenv where
  "demo_osenv = \<lparr>utc_now = lit ''2026-08-05T18:15:01.000000Z'', epoch = 0, conv = demo_conversions, digest_of = demo_sha3,
     journal_io = None, append_io = None, state_io = True, unlink_ok = True, preserve_ok = True\<rparr>"

definition demo_signer :: EvidenceSigner where
  "demo_signer = \<lparr>sg_node_id = lit ''plc-1'', sg_key_id = lit ''k1'', sg_algorithm = lit ''ML-DSA-65'',
     sg_hash_algorithm = lit ''SHA3-256'', sg_state_path = lit ''state.json'', sg_evidence_path = lit ''evidence.jsonl'',
     sg_timeout = 1000, sg_private_key = TEST_KEY_MARKER, sg_backend = demo_backend, sg_real_pqc = False\<rparr>"

definition empty_disk :: disk where
  "empty_disk = \<lparr>state_file = None, journal_file = None, evidence_log = None, side_files = []\<rparr>"

definition demo_es :: EvidenceStore where
  "demo_es = \<lparr>es_node_id = lit ''plc-1'', es_key_id = lit ''k1'', es_state_path = lit ''state.json'',
     es_evidence_path = lit ''evidence.jsonl'', es_timeout = 1000, es_locked = True, es_state = None, last_recovery = None\<rparr>"

lemma demo_signer_ids: "signer_ids demo_signer"
  by (simp add: signer_ids_def demo_signer_def field_eval list_all_iff)

lemma demo_sign: "sign demo_backend k m a = Inr [65, 66, 67]"
  by (simp add: demo_backend_def InsecureTestBackend_def Let_def production_mode_def demo_env_def strip_def)

lemma demo_ready: "signer_ready demo_sha3 demo_signer (event sample_event)"
  by (simp add: signer_ready_def demo_hex_digest demo_signer_def demo_sign sample_event_def)

lemma demo_faultless: "faultless demo_osenv" "healthy demo_osenv"
  by (simp_all add: faultless_def healthy_def clock_ok_def demo_osenv_def scalar_def)

lemma empty_opened: "opened (conv demo_osenv) demo_es empty_disk []"
  by (simp add: opened_def demo_es_def named_def scalar_def consistent_def empty_disk_def log_of_def log_at_def
      state_at_def cache_at_def)

lemma demo_store_of: "store_of demo_signer demo_es"
  by (simp add: store_of_def demo_signer_def demo_es_def)

lemma digits_large: "n < 1000000 \<Longrightarrow> n < (10 :: nat) ^ MAX_STR_DIGITS"
proof -
  assume "n < 1000000"
  also have "(1000000 :: nat) = 10 ^ 6" by simp
  also have "(10 :: nat) ^ 6 \<le> 10 ^ MAX_STR_DIGITS" by (rule power_increasing) (simp_all add: MAX_STR_DIGITS_def)
  finally show ?thesis .
qed

lemma empty_room: "room [] 1" "countable_log []"
proof -
  show "room [] 1" using digits_large [of 1] digits_large [of 150000] by (simp add: room_def log_bytes_def)
  then show "countable_log []" using room_countable [of "[]" 0] by simp
qed

lemma empty_signer_log: "signer_log demo_sha3 demo_signer [] []"
proof -
  have "\<exists>g. genesis_previous_hash demo_sha3 (lit ''plc-1'') = Inr g" by (subst demo_genesis) (simp_all add: scalar_def)
  then show ?thesis by (auto simp: signer_log_def chain_def demo_signer_def simp del: lit_simps)
qed

lemma demo_build:
  "build_and_sign demo_sha3 demo_signer (event sample_event) (timestamp sample_event) 1 (previous_event_hash sample_event)
   = Inr sample_event"
proof -
  let ?u = "with_event_hash (with_signature sample_event [] []) (replicate 64 48)"
  have v: "validate_event (PyDict (event sample_event)) = Inr (event sample_event)" using sample_wf by (simp add: wf_signed_def)
  have u: "build_unsigned (PyStr (sg_node_id demo_signer)) (PyInt 1) (PyStr (timestamp sample_event))
      (PyStr (previous_event_hash sample_event)) (PyDict (event sample_event)) (PyStr (sg_key_id demo_signer))
      (sg_algorithm demo_signer) (sg_hash_algorithm demo_signer) EVIDENCE_FORMAT_VERSION = Inr ?u"
    using v sample_timestamp
    by (simp add: build_unsigned_def checked_timestamp_def sample_event_def demo_signer_def field_eval list_all_iff
        EVIDENCE_FORMAT_VERSION_def validate_sequence_def validate_hash_def with_event_hash_def with_signature_def)
  have h: "compute_event_hash demo_sha3 ?u = Inr (event_hash sample_event)"
    using sample_hash by (simp add: compute_event_hash_ignores)
  have e: "with_signature (with_event_hash ?u (event_hash sample_event)) (b64encode [65, 66, 67]) [65, 66, 67] = sample_event"
    by (simp add: with_event_hash_def with_signature_def sample_event_def b64_char_def)
  have p: "\<exists>b. signing_payload (with_event_hash ?u (event_hash sample_event)) = Inr b"
    using sample_signing signing_payload_ignores [of "with_event_hash ?u (event_hash sample_event)"] e by metis
  have sg: "sg_backend demo_signer = demo_backend" by (simp add: demo_signer_def)
  show ?thesis using h e p unfolding build_and_sign_def u sg by (auto simp: demo_sign Let_def)
qed

definition demo_text :: pystr where
  "demo_text = projr (to_json_line sample_event)"

lemma demo_json_line: "to_json_line sample_event = Inr demo_text"
proof -
  obtain b where b: "canonical_bytes (PyDict (to_dict sample_event True)) = Inr b" using sample_wf by (auto simp: wf_signed_def)
  obtain line where "to_json_line sample_event = Inr line" using json_line_shape [OF b] by blast
  then show ?thesis by (simp add: demo_text_def)
qed

lemma demo_signed_line:
  "signed_line demo_sha3 demo_signer (event sample_event) (timestamp sample_event) 1 (previous_event_hash sample_event)
   = Inr (demo_text, event_hash sample_event)"
  by (simp add: signed_line_def demo_build demo_json_line)

lemma demo_transact:
  assumes "opened (conv demo_osenv) s d []" "store_of demo_signer s"
  shows "\<exists>s' d'. transact demo_osenv demo_signer (event sample_event) (timestamp sample_event) (\<lambda>_. False) (s, d)
      = (Inr sample_event, s', d')"
proof -
  obtain r s' d' where run: "transact demo_osenv demo_signer (event sample_event) (timestamp sample_event) (\<lambda>_. False) (s, d) = (r, s', d')"
    by (cases "transact demo_osenv demo_signer (event sample_event) (timestamp sample_event) (\<lambda>_. False) (s, d)")
  have env: "conv demo_osenv = demo_conversions" "digest_of demo_osenv = demo_sha3" by (simp_all add: demo_osenv_def)
  have g: "expected_previous_hash demo_sha3 (sg_node_id demo_signer) 1 None = Inr (previous_event_hash sample_event)"
  proof -
    have "list_all scalar (sg_node_id demo_signer)" by (simp add: demo_signer_def scalar_def)
    from demo_genesis [OF this] show ?thesis by (simp add: expected_previous_hash_def FIRST_SEQUENCE_def sample_event_def)
  qed
  have "\<exists>e. build_and_sign demo_sha3 demo_signer (event sample_event) (timestamp sample_event) 1 (previous_event_hash sample_event) = Inr e
      \<and> (\<forall>x. r = Inr x \<longrightarrow> x = e) \<and> txn_outcome demo_osenv demo_signer (\<lambda>_. False) s [] e demo_text r s' d d'"
    using transact_exits [OF assms(1,2) empty_room(2) demo_signer_ids _ _ run] demo_ready demo_faultless(1) g demo_signed_line
    by (auto simp: env faultless_def last_hash_def)
  then have "is_ok r" "\<forall>x. r = Inr x \<longrightarrow> x = sample_event"
    using demo_faultless(1) by (auto simp: demo_build txn_outcome_def faultless_def)
  then have "r = Inr sample_event" unfolding is_ok_iff by blast
  with run show ?thesis by blast
qed


theorem recovery_from_every_stage_witness:
  "\<exists>jb. recovered demo_osenv demo_es
     (empty_disk\<lparr>journal_file := Some jb, evidence_log := Some (log_bytes [] @ take 0 (line_bytes demo_text))\<rparr>) []"
proof -
  have n: "sg_node_id demo_signer = es_node_id demo_es" by (simp add: demo_signer_def demo_es_def)
  have r: "record_line (es_node_id demo_es) (int (length ([] :: log_record list)) + 1) (event_hash sample_event) demo_text"
      "length (line_bytes demo_text) \<le> 150000"
    using signed_line_record [OF demo_ready demo_signed_line] n by auto
  have o: "named demo_es" "list_all scalar (utc_now demo_osenv)" "ids_fit demo_osenv demo_es (Some (lit ''k1''))"
    using signer_named [OF demo_signer_ids demo_store_of] signer_ids_fit [OF demo_signer_ids demo_store_of] demo_faultless(1)
    by (auto simp: faultless_def clock_ok_def demo_signer_def)
  obtain jb where jb: "journal_of demo_osenv demo_es (Some (lit ''k1'')) [] demo_text (event_hash sample_event) jb"
    using journal_exists [OF o(1,2) _ r empty_room(2) o(3)] by (auto simp: scalar_def)
  have k: "0 < length (line_bytes demo_text)" by simp
  have c: "consistent (conv demo_osenv) (es_node_id demo_es) empty_disk []" using empty_opened by (simp add: opened_def)
  have "recovered demo_osenv demo_es
     (empty_disk\<lparr>journal_file := Some jb, evidence_log := Some (log_bytes [] @ take 0 (line_bytes demo_text))\<rparr>)
     (if False then [] @ [(demo_text, event_hash sample_event)] else [])"
    by (rule recovery_from_every_stage [OF stage.appending [OF k] jb refl c _ o(1) refl _ demo_faultless(2)])
      (simp_all add: demo_es_def)
  then show ?thesis by auto
qed

theorem signed_batch_verifies_witness:
  "\<exists>so d' rep. sign_events (LockFile True True) demo_lock demo_osenv demo_signer
      [(demo_osenv, event sample_event, timestamp sample_event)] empty_disk = Some (Inr ([sample_event], None), so, d')
    \<and> verify_file demo_platform demo_collector (evidence_log d') = Inr rep \<and> sr_valid rep \<and> total rep = 1"
proof -
  let ?b = "[(demo_osenv, event sample_event, timestamp sample_event)]"
  have lock: "lock_exclusive demo_lock 1000 = Some (Inr ())"
    by (simp add: lock_exclusive_def lock_loop.simps demo_lock_def)
  have st: "signer_store demo_signer = Inr (demo_es\<lparr>es_locked := False\<rparr>)"
    by (simp add: signer_store_def new_store_def demo_signer_def demo_es_def)
  obtain rep1 s1 d1 where en: "recover demo_osenv (demo_es, empty_disk) = (Inr rep1, s1, d1)" "opened (conv demo_osenv) s1 d1 []"
      "store_of demo_signer s1"
    using recover_clean [OF empty_opened] demo_store_of by (auto simp: recovered_def store_of_def)
  have "enter_store (LockFile True True) demo_lock demo_osenv (demo_es\<lparr>es_locked := False\<rparr>, empty_disk) = Some (Inr rep1, s1, d1)"
    using en(1) lock by (simp add: enter_store_def es_acquire_def verify_lock_file_def demo_es_def)
  moreover obtain s2 d2 where "transact demo_osenv demo_signer (event sample_event) (timestamp sample_event) (\<lambda>_. False) (s1, d1)
      = (Inr sample_event, s2, d2)"
    using demo_transact [OF en(2,3)] by blast
  ultimately have run: "sign_events (LockFile True True) demo_lock demo_osenv demo_signer ?b empty_disk
      = Some (Inr ([sample_event], None), Some (fst (exit_store (s2, d2))), d2)"
    using st by (simp add: sign_events_def with_store_def)
  have c: "consistent (conv demo_osenv) (sg_node_id demo_signer) empty_disk []"
    using empty_opened by (simp add: opened_def demo_es_def demo_signer_def)
  have b: "batch_ok (conv demo_osenv) demo_sha3 demo_signer ?b"
    using demo_faultless(1) demo_ready by (simp add: batch_ok_def demo_osenv_def)
  have tr: "trusts demo_platform (c_verifier demo_collector) demo_signer ([] @ [sample_event])"
  proof -
    have v: "v_registry demo_verifier = sample_reg" "backend_for demo_platform demo_verifier a = Inr demo_backend" for a
      by (simp_all add: demo_verifier_def backend_for_def)
    have "key_ok demo_verifier sample_event" using sample_verified by (simp add: record_verified_def)
    moreover have "public_key_bytes sample_key = Inr [65, 66, 67]"
      by (simp add: public_key_bytes_def sample_key_def b64_val_def byte_of_def)
    moreover have "verify demo_backend k m [65, 66, 67] a = Inr True" for k m a
      by (simp add: demo_backend_def InsecureTestBackend_def Let_def production_mode_def demo_env_def strip_def)
    moreover have "length (timestamp sample_event) = 27" by (simp add: sample_event_def)
    ultimately show ?thesis
      by (simp add: trusts_def demo_collector_def v demo_signer_def demo_sign) (simp add: sample_reg_def)
  qed
  have "\<exists>rep. verify_file demo_platform demo_collector (evidence_log d2) = Inr rep \<and> sr_valid rep
      \<and> total rep = length ([] @ [sample_event]) \<and> verified rep = length ([] @ [sample_event]) \<and> failed rep = 0"
    by (rule signed_batch_verifies [OF c empty_signer_log run _ demo_signer_ids b _ tr])
      (use empty_room(1) in \<open>simp_all add: demo_platform_def demo_collector_def demo_verifier_def MAX_EVIDENCE_BYTES_def MAX_TRACKED_HASHES_def\<close>)
  with run show ?thesis by auto
qed

definition demo_key_pair :: KeyPair where
  "demo_key_pair = \<lparr>kp_algorithm = lit ''ML-DSA-65'', public_bytes = [66], private_bytes = [65], kp_backend = TEST_BACKEND\<rparr>"

theorem private_key_files_witness:
  "\<exists>f. write_private_key None True None demo_key_pair = (Inr (), f) \<and> load_private_key f True = Inr [65]"
proof -
  have "write_private_key None True None demo_key_pair = (Inr (), Some ([65], 384))"
    by (simp add: write_private_key_def demo_key_pair_def)
  with private_key_files [OF this, of True] show ?thesis by (auto simp: demo_key_pair_def)
qed

theorem diverged_store_keeps_lock_witness:
  "\<exists>raw s2. sign_events (LockFile True True) demo_lock demo_osenv demo_signer [] (empty_disk\<lparr>state_file := Some raw\<rparr>)
      = Some (Inl EvidenceStateDivergence, Some s2, empty_disk\<lparr>state_file := Some raw\<rparr>) \<and> es_locked s2"
proof -
  let ?st = "\<lparr>ns_node_id = lit ''plc-1'', ns_key_id = PyStr (lit ''k1''), ns_last_sequence = 1,
    ns_last_event_hash = Some (replicate 64 97), ns_format_version = EVIDENCE_FORMAT_VERSION, ns_updated_at = []\<rparr>"
  have v: "valid_state ?st"
    by (simp add: valid_state_def writable_def scalar_def truthy_def state_hash_ok_def hash_value_def list_all_iff hex_lower_def
        EVIDENCE_FORMAT_VERSION_def)
  then have "\<exists>raw. encode_state ?st = Inr raw"
    by (intro encode_state_total) (simp_all add: valid_state_def int_digits_ok_def MAX_STR_DIGITS_def dec_nat.simps)
  then obtain raw where "encode_state ?st = Inr raw" by blast
  from state_encode_load [OF v this] have l: "load_state (conv demo_osenv) (sg_node_id demo_signer) raw = Inr ?st"
    by (simp add: demo_signer_def demo_osenv_def)
  have st: "signer_store demo_signer = Inr (demo_es\<lparr>es_locked := False\<rparr>)"
    by (simp add: signer_store_def new_store_def demo_signer_def demo_es_def)
  have aq: "es_acquire (LockFile True True) demo_lock (demo_es\<lparr>es_locked := False\<rparr>) = Some (Inr (), demo_es)"
    by (simp add: es_acquire_def verify_lock_file_def demo_es_def lock_exclusive_def lock_loop.simps demo_lock_def)
  have "\<exists>s2. sign_events (LockFile True True) demo_lock demo_osenv demo_signer [] (empty_disk\<lparr>state_file := Some raw\<rparr>)
      = Some (Inl EvidenceStateDivergence, Some s2, empty_disk\<lparr>state_file := Some raw\<rparr>) \<and> es_locked s2"
    by (rule diverged_store_keeps_lock [OF st aq _ _ _ l]) (simp_all add: empty_disk_def)
  then show ?thesis by blast
qed

end
