(* ===== verification/Sessions.thy ===== *)
theory Sessions
  imports Pipeline "HOL-Library.Sublist"
begin

text \<open>
  The life of one node's evidence: signer processes come and go on one disk. A process opens the
  store (taking the lock and recovering), signs events, closes, leaves on an error, or is killed
  in the middle of a transaction with any prefix of its writes on the disk. The lock admits one
  process at a time, so a system state is the disk, the open store if there is one, and the
  records whose signing was acknowledged to a caller so far.
\<close>

record sys =
  sys_disk :: disk
  sys_session :: "EvidenceStore option"
  sys_acked :: "SignedEvent list"

text \<open>The log is small enough for its size to be written down in 4300 digits.\<close>

definition small_disk :: "disk \<Rightarrow> bool" where
  "small_disk d \<longleftrightarrow> log_size d + 1 < 10 ^ MAX_STR_DIGITS"

inductive session_step :: "conversions \<Rightarrow> digest \<Rightarrow> EvidenceSigner \<Rightarrow> sys \<Rightarrow> sys \<Rightarrow> bool"
  for cv sha3 sg
where
  open_session: "\<lbrakk>sys_session x = None; signer_store sg = Inr s; healthy env; conv env = cv;
      enter_store lf le env (s, sys_disk x) = Some (Inr rep, s', d')\<rbrakk>
    \<Longrightarrow> session_step cv sha3 sg x (x\<lparr>sys_disk := d', sys_session := Some s'\<rparr>)"
| sign_ok: "\<lbrakk>sys_session x = Some s; small_disk (sys_disk x); signer_ready sha3 sg ev; conv env = cv; digest_of env = sha3;
      clock_ok env; unlink_ok env; transact env sg ev ts fault (s, sys_disk x) = (Inr e, s', d')\<rbrakk>
    \<Longrightarrow> session_step cv sha3 sg x (x\<lparr>sys_disk := d', sys_session := Some s', sys_acked := sys_acked x @ [e]\<rparr>)"
| sign_error: "\<lbrakk>sys_session x = Some s; small_disk (sys_disk x); signer_ready sha3 sg ev; conv env = cv; digest_of env = sha3;
      clock_ok env; transact env sg ev ts fault (s, sys_disk x) = (Inl y, s', d')\<rbrakk>
    \<Longrightarrow> session_step cv sha3 sg x (x\<lparr>sys_disk := d', sys_session := None\<rparr>)"
| killed: "\<lbrakk>sys_session x = Some s; small_disk (sys_disk x); signer_ready sha3 sg ev; digest_of env = sha3; clock_ok env;
      consistent cv (sg_node_id sg) (sys_disk x) rs;
      expected_previous_hash sha3 (sg_node_id sg) (int (length rs) + 1) (last_hash rs) = Inr prev;
      signed_line sha3 sg ev ts (int (length rs) + 1) prev = Inr (l, h);
      journal_of env s (Some (sg_key_id sg)) rs l h jb; stage cv (sg_node_id sg) jb rs l h (sys_disk x) complete d'\<rbrakk>
    \<Longrightarrow> session_step cv sha3 sg x (x\<lparr>sys_disk := d', sys_session := None\<rparr>)"
| close_session: "sys_session x = Some s \<Longrightarrow> session_step cv sha3 sg x (x\<lparr>sys_session := None\<rparr>)"

inductive reachable :: "conversions \<Rightarrow> digest \<Rightarrow> EvidenceSigner \<Rightarrow> sys \<Rightarrow> bool"
  for cv sha3 sg
where
  start: "\<lbrakk>state_file d = None; journal_file d = None; evidence_log d = None\<rbrakk>
    \<Longrightarrow> reachable cv sha3 sg \<lparr>sys_disk = d, sys_session = None, sys_acked = []\<rparr>"
| step: "\<lbrakk>reachable cv sha3 sg x; session_step cv sha3 sg x y\<rbrakk> \<Longrightarrow> reachable cv sha3 sg y"

text \<open>Every store opened on the disk recovers to the records \<open>rs\<close>.\<close>

definition recoverable :: "conversions \<Rightarrow> EvidenceSigner \<Rightarrow> disk \<Rightarrow> log_record list \<Rightarrow> bool" where
  "recoverable cv sg d rs \<longleftrightarrow>
     (\<forall>env t. healthy env \<and> conv env = cv \<and> store_of sg t \<and> es_locked t \<and> es_state t = None \<longrightarrow> recovered env t d rs)"

definition sys_inv :: "conversions \<Rightarrow> digest \<Rightarrow> EvidenceSigner \<Rightarrow> sys \<Rightarrow> bool" where
  "sys_inv cv sha3 sg x \<longleftrightarrow>
     (\<exists>rs es. signer_log sha3 sg rs es \<and> subseq (sys_acked x) es
        \<and> (case sys_session x of
             Some s \<Rightarrow> opened cv s (sys_disk x) rs \<and> store_of sg s
           | None \<Rightarrow> recoverable cv sg (sys_disk x) rs))"

lemma sys_invI:
  assumes "signer_log sha3 sg rs es" "subseq (sys_acked x) es"
    and "case sys_session x of Some s \<Rightarrow> opened cv s (sys_disk x) rs \<and> store_of sg s | None \<Rightarrow> recoverable cv sg (sys_disk x) rs"
  shows "sys_inv cv sha3 sg x"
  using assms unfolding sys_inv_def by blast

lemma subseq_snoc: "subseq a b \<Longrightarrow> subseq a (b @ [x])"
  by (simp add: subseq_rev_drop_many)

lemma log_bytes_length: "length rs \<le> length (log_bytes rs)"
proof (induction rs)
  case (Cons r rs)
  then show ?case by (simp add: log_bytes_def line_bytes_def utf8_char_def)
qed (simp add: log_bytes_def)

lemma small_countable:
  assumes "opened cv s d rs" "small_disk d"
  shows "countable_log rs"
proof -
  have sz: "log_size d = length (log_bytes rs)"
    using assms(1) by (auto simp: opened_def consistent_def log_at_def log_size_def log_bytes_def)
  have b: "length rs + 1 < 10 ^ MAX_STR_DIGITS" "length (log_bytes rs) < 10 ^ MAX_STR_DIGITS"
    using assms(2) sz log_bytes_length [of rs] by (auto simp: small_disk_def)
  have pos: "0 < MAX_STR_DIGITS" by (simp add: MAX_STR_DIGITS_def)
  show ?thesis using b [THEN dec_nat_length [OF _ pos]] by (simp add: countable_log_def int_digits_ok_def nat_add_distrib)
qed

lemma opened_recoverable: "\<lbrakk>signer_ids sg; opened cv s d rs; store_of sg s\<rbrakk> \<Longrightarrow> recoverable cv sg d rs"
  unfolding recoverable_def
  by (auto simp: opened_def store_of_def cache_at_def intro!: recover_clean signer_named [of sg])

lemma stage_recoverable:
  assumes "signer_ids sg" "opened cv s d rs" "store_of sg s" "journal_of env s kid rs l h jb"
    and "stage cv (sg_node_id sg) jb rs l h d complete d'"
  shows "recoverable cv sg d' (if complete then rs @ [(l, h)] else rs)"
proof -
  have s: "es_node_id s = sg_node_id sg" "consistent cv (sg_node_id sg) d rs"
    using assms(2,3) by (simp_all add: opened_def store_of_def)
  have "recovered env' t d' (if complete then rs @ [(l, h)] else rs)"
    if "healthy env'" "conv env' = cv" "store_of sg t" "es_locked t" "es_state t = None" for env' t
    using stage_recovers [of env' "sg_node_id sg" jb rs l h d complete d', OF _ assms(4) s(1) _ that(4) signer_named [OF assms(1) that(3)] _ that(5,1)]
      that(2,3) assms(5) s(2) by (simp add: store_of_def)
  then show ?thesis by (auto simp: recoverable_def)
qed

text \<open>A transaction that ended in an exception, in whatever way.\<close>

lemma failed_transact:
  assumes "signer_ids sg" "opened cv s d rs" "store_of sg s" "signer_log sha3 sg rs es" "small_disk d"
    and "signer_ready sha3 sg ev" "conv env = cv" "digest_of env = sha3" "clock_ok env"
    and "transact env sg ev ts fault (s, d) = (r, s', d')"
  shows "\<exists>rs' es'. signer_log sha3 sg rs' es' \<and> subseq es es' \<and> recoverable cv sg d' rs'
    \<and> (\<forall>e. r = Inr e \<and> unlink_ok env \<longrightarrow> opened cv s' d' rs' \<and> store_of sg s' \<and> es' = es @ [e])"
proof -
  note small = small_countable [OF assms(2,5)]
  obtain prev where prev: "expected_previous_hash sha3 (sg_node_id sg) (int (length rs) + 1) (last_hash rs) = Inr prev"
    and p: "case signed_line sha3 sg ev ts (int (length rs) + 1) prev of
         Inl x \<Rightarrow> \<not> is_ok r \<and> d' = d \<and> opened cv s' d' rs
       | Inr (l, h) \<Rightarrow> \<exists>e. build_and_sign sha3 sg ev ts (int (length rs) + 1) prev = Inr e
           \<and> to_json_line e = Inr l \<and> h = event_hash e \<and> (\<forall>x. r = Inr x \<longrightarrow> x = e)
           \<and> txn_outcome env sg fault s rs e l r s' d d'"
    using transact_exits [OF _ assms(3) small assms(1) _ assms(9,10)] assms(2,6-8) by auto
  show ?thesis
  proof (cases "signed_line sha3 sg ev ts (int (length rs) + 1) prev")
    case (Inl x)
    with p assms(4) opened_recoverable [OF assms(1-3)] show ?thesis by (intro exI [of _ rs] exI [of _ es]) auto
  next
    case (Inr lh)
    with p obtain e l where e: "build_and_sign sha3 sg ev ts (int (length rs) + 1) prev = Inr e" "to_json_line e = Inr l"
        "\<forall>x. r = Inr x \<longrightarrow> x = e" "txn_outcome env sg fault s rs e l r s' d d'"
      by (cases lh) auto
    then obtain jb complete where j: "journal_of env s (Some (sg_key_id sg)) rs l (event_hash e) jb"
        "stage cv (sg_node_id sg) jb rs l (event_hash e) d complete d'" "is_ok r \<longrightarrow> complete"
        "is_ok r \<and> unlink_ok env \<longrightarrow> opened cv s' d' (rs @ [(l, event_hash e)]) \<and> store_of sg s'"
      using assms(7) by (auto simp: txn_outcome_def)
    note rec = stage_recoverable [OF assms(1-3) j(1,2)]
    note sl = signer_log_snoc [OF assms(4,6) prev e(1,2)]
    show ?thesis
    proof (cases complete)
      case True
      have "\<forall>x. r = Inr x \<and> unlink_ok env \<longrightarrow> opened cv s' d' (rs @ [(l, event_hash e)]) \<and> store_of sg s' \<and> es @ [e] = es @ [x]"
        using j(4) e(3) by (cases r) simp_all
      moreover have "recoverable cv sg d' (rs @ [(l, event_hash e)])" using rec True by simp
      moreover have "subseq es (es @ [e])" by (simp add: subseq_snoc)
      ultimately show ?thesis using sl by blast
    next
      case False
      with rec assms(4) j(3) show ?thesis by (intro exI [of _ rs] exI [of _ es]) (auto simp: is_ok_iff)
    qed
  qed
qed

text \<open>The bytes of a log determine its records.\<close>

lemma log_unique:
  assumes "log_of nid rs" "log_of nid rs'" "log_bytes rs = log_bytes rs'"
  shows "rs = rs'"
proof -
  have "map (\<lambda>r. fst r @ [10]) rs = map (\<lambda>r. fst r @ [10]) rs'"
    using log_lines [OF assms(1)] log_lines [OF assms(2)] assms(3) by simp
  from arg_cong [OF this, of "map butlast"] have m: "map fst rs = map fst rs'" by (simp add: comp_def)
  then have len: "length rs = length rs'" by (rule map_eq_imp_length_eq)
  show ?thesis
  proof (rule nth_equalityI [OF len])
    fix i assume i: "i < length rs"
    then have "fst (rs ! i) = fst (rs' ! i)" using m len by (metis nth_map)
    moreover from this have "snd (rs ! i) = snd (rs' ! i)"
      using assms(1,2) i len by (auto simp: log_of_def record_line_def)
    ultimately show "rs ! i = rs' ! i" by (simp add: prod_eq_iff)
  qed
qed

lemma consistent_unique: "\<lbrakk>consistent cv nid d rs; consistent cv nid d rs'\<rbrakk> \<Longrightarrow> rs = rs'"
proof -
  assume a: "consistent cv nid d rs" "consistent cv nid d rs'"
  have nil: "log_bytes x = [] \<Longrightarrow> x = []" for x using log_bytes_length [of x] by simp
  from a show "rs = rs'" using log_unique [of nid rs rs'] nil by (auto simp: consistent_def log_at_def)
qed

lemma session_step_inv:
  assumes "signer_ids sg" "session_step cv sha3 sg x y" "sys_inv cv sha3 sg x"
  shows "sys_inv cv sha3 sg y"
proof -
  obtain rs es where i: "signer_log sha3 sg rs es" "subseq (sys_acked x) es"
      "case sys_session x of Some s \<Rightarrow> opened cv s (sys_disk x) rs \<and> store_of sg s | None \<Rightarrow> recoverable cv sg (sys_disk x) rs"
    using assms(3) by (auto simp: sys_inv_def)
  show ?thesis using assms(2)
  proof cases
    case (open_session s env lf le rep s' d')
    then obtain s1 where a: "es_acquire lf le s = Some (Inr (), s1)" "recover env (s1, sys_disk x) = (Inr rep, s', d')"
      by (auto simp: enter_store_def split: option.splits prod.splits sum.splits)
    have "store_of sg s" "es_state s = None" "\<not> es_locked s"
      using open_session(3) by (auto simp: signer_store_def new_store_def require_Inr_iff store_of_def)
    then have t: "store_of sg s1" "es_state s1 = None" "es_locked s1" using a(1)
      by (auto simp: es_acquire_def store_of_def split: lock_file.splits option.splits sum.splits)
    have "recovered env s1 (sys_disk x) rs"
      using i(3) open_session(2,4,5) t by (auto simp: recoverable_def)
    with a(2) t(1) open_session(5) have "opened cv s' d' rs" "store_of sg s'" by (auto simp: recovered_def store_of_def)
    with i open_session(1) show ?thesis by (intro sys_invI [of sha3 sg rs es]) auto
  next
    case (sign_ok s ev env ts fault e s' d')
    then have o: "opened cv s (sys_disk x) rs" "store_of sg s" using i(3) by simp_all
    obtain rs' es' where f: "signer_log sha3 sg rs' es'" "opened cv s' d' rs'" "store_of sg s'" "es' = es @ [e]"
      using failed_transact [OF assms(1) o i(1) sign_ok(3-7,9)] sign_ok(8) by blast
    then show ?thesis using sign_ok(1) i(2)
      by (intro sys_invI [of sha3 sg rs' es']) (auto simp: subseq_append')
  next
    case (sign_error s ev env ts fault e s' d')
    then have o: "opened cv s (sys_disk x) rs" "store_of sg s" using i(3) by simp_all
    obtain rs' es' where f: "signer_log sha3 sg rs' es'" "subseq es es'" "recoverable cv sg d' rs'"
      using failed_transact [OF assms(1) o i(1) sign_error(3-8)] by blast
    then show ?thesis using sign_error(1) i(2) subseq_order.trans
      by (intro sys_invI [of sha3 sg rs' es']) auto
  next
    case (killed s ev env rs0 prev ts l h jb complete d')
    then have o: "opened cv s (sys_disk x) rs" "store_of sg s" using i(3) by simp_all
    then have "consistent cv (sg_node_id sg) (sys_disk x) rs" by (simp add: opened_def store_of_def)
    then have rs0: "rs0 = rs" using killed(7) consistent_unique by blast
    note rec = stage_recoverable [OF assms(1) o killed(10) [unfolded rs0] killed(11) [unfolded rs0]]
    obtain e where e: "build_and_sign sha3 sg ev ts (int (length rs) + 1) prev = Inr e" "to_json_line e = Inr l" "h = event_hash e"
      using signed_line_record [OF killed(4,9)] rs0 by blast
    have sl: "signer_log sha3 sg (rs @ [(l, h)]) (es @ [e])"
      using signer_log_snoc [OF i(1) killed(4) _ e(1,2)] killed(8) rs0 e(3) by simp
    show ?thesis
    proof (cases complete)
      case True
      with rec sl i(2) killed(1) show ?thesis
        by (intro sys_invI [of sha3 sg "rs @ [(l, h)]" "es @ [e]"]) (auto simp: subseq_snoc)
    next
      case False
      with rec i killed(1) show ?thesis by (intro sys_invI [of sha3 sg rs es]) auto
    qed
  next
    case (close_session s)
    with i opened_recoverable [OF assms(1)] show ?thesis by (intro sys_invI [of sha3 sg rs es]) auto
  qed
qed

lemma reachable_inv:
  assumes "signer_ids sg" "reachable cv sha3 sg x"
  shows "sys_inv cv sha3 sg x"
  using assms(2)
proof induction
  case (start d)
  obtain g where "genesis_previous_hash sha3 (sg_node_id sg) = Inr g"
    using id_length [of "sg_node_id sg"] assms(1) by (auto simp: signer_ids_def genesis_previous_hash_def utf8_encode_def)
  then have sl: "signer_log sha3 sg [] []" by (simp add: signer_log_def chain_def)
  have "recoverable cv sg d []"
    unfolding recoverable_def using start assms(1)
    by (auto intro!: recover_clean signer_named [of sg] simp: opened_def consistent_def log_of_def log_at_def state_at_def cache_at_def)
  with sl show ?case by (intro sys_invI [of sha3 sg "[]" "[]"]) auto
next
  case (step x y)
  with session_step_inv [OF assms(1)] show ?case by blast
qed


text \<open>A history: open the store and sign one event.\<close>

lemma demo_history:
  "\<exists>x. reachable demo_conversions demo_sha3 demo_signer x \<and> sys_acked x = [sample_event]"
proof -
  let ?x0 = "\<lparr>sys_disk = empty_disk, sys_session = None, sys_acked = []\<rparr>"
  have st: "signer_store demo_signer = Inr (demo_es\<lparr>es_locked := False\<rparr>)"
    by (simp add: signer_store_def new_store_def demo_signer_def demo_es_def)
  obtain rep s1 d1 where en: "recover demo_osenv (demo_es, empty_disk) = (Inr rep, s1, d1)" "opened (conv demo_osenv) s1 d1 []"
      "store_of demo_signer s1"
    using recover_clean [OF empty_opened] demo_store_of by (auto simp: recovered_def store_of_def)
  have e: "enter_store (LockFile True True) demo_lock demo_osenv (demo_es\<lparr>es_locked := False\<rparr>, empty_disk) = Some (Inr rep, s1, d1)"
    using en(1) by (simp add: enter_store_def es_acquire_def verify_lock_file_def demo_es_def lock_exclusive_def lock_loop.simps demo_lock_def)
  have env: "conv demo_osenv = demo_conversions" "digest_of demo_osenv = demo_sha3" by (simp_all add: demo_osenv_def)
  have "reachable demo_conversions demo_sha3 demo_signer ?x0"
    using reachable.start [of empty_disk] by (simp add: empty_disk_def)
  from reachable.step [OF this session_step.open_session [OF _ st demo_faultless(2) env(1)]] e
  have r1: "reachable demo_conversions demo_sha3 demo_signer (?x0\<lparr>sys_disk := d1, sys_session := Some s1\<rparr>)" by simp
  obtain s2 d2 where t: "transact demo_osenv demo_signer (event sample_event) (timestamp sample_event) (\<lambda>_. False) (s1, d1)
      = (Inr sample_event, s2, d2)"
    using demo_transact [OF en(2,3)] by blast
  have "log_size d1 = 0" using en(2) by (auto simp: opened_def consistent_def log_at_def log_size_def log_bytes_def)
  then have "small_disk d1" using digits_large [of 1] by (simp add: small_disk_def)
  with reachable.step [OF r1 session_step.sign_ok [OF _ _ demo_ready env _ _]] t demo_faultless(1)
  have "reachable demo_conversions demo_sha3 demo_signer
      (?x0\<lparr>sys_disk := d2, sys_session := Some s2, sys_acked := [sample_event]\<rparr>)"
    by (fastforce simp: faultless_def)
  then show ?thesis by (intro exI conjI) auto
qed


end
