(* ===== verification/Modbus.thy ===== *)
theory Modbus
  imports Prelude
begin

unbundle bit_operations_syntax

text \<open>
  \<^verbatim>\<open>common/modbus.py\<close>: the framing of Modbus/TCP. A header is seven bytes; its length field
  counts the unit identifier and the PDU. Shown: what is built is parsed back, every response is
  a valid frame of exactly the announced size, and building fails with \<^verbatim>\<open>OverflowError\<close> exactly
  when a field does not fit 16 bits.
\<close>

section \<open>Constants\<close>

definition MBAP_HEADER_LEN :: nat where "MBAP_HEADER_LEN = 7"
definition MODBUS_PROTOCOL_ID :: nat where "MODBUS_PROTOCOL_ID = 0"
definition MAX_PDU_LEN :: nat where "MAX_PDU_LEN = 253"
definition MAX_ADU_LEN :: nat where "MAX_ADU_LEN = MBAP_HEADER_LEN + MAX_PDU_LEN"
definition MIN_MBAP_LENGTH :: nat where "MIN_MBAP_LENGTH = 2"
definition MAX_MBAP_LENGTH :: nat where "MAX_MBAP_LENGTH = MAX_PDU_LEN + 1"

definition FC_READ_HOLDING_REGISTERS :: nat where "FC_READ_HOLDING_REGISTERS = 3"
definition FC_WRITE_SINGLE_REGISTER :: nat where "FC_WRITE_SINGLE_REGISTER = 6"
definition EXC_ILLEGAL_FUNCTION :: nat where "EXC_ILLEGAL_FUNCTION = 1"
definition EXC_ILLEGAL_DATA_ADDRESS :: nat where "EXC_ILLEGAL_DATA_ADDRESS = 2"
definition EXC_ILLEGAL_DATA_VALUE :: nat where "EXC_ILLEGAL_DATA_VALUE = 3"

lemmas modbus_consts = MBAP_HEADER_LEN_def MODBUS_PROTOCOL_ID_def MAX_PDU_LEN_def MAX_ADU_LEN_def MIN_MBAP_LENGTH_def
  MAX_MBAP_LENGTH_def FC_READ_HOLDING_REGISTERS_def FC_WRITE_SINGLE_REGISTER_def EXC_ILLEGAL_FUNCTION_def
  EXC_ILLEGAL_DATA_ADDRESS_def EXC_ILLEGAL_DATA_VALUE_def

section \<open>Integers and bytes\<close>

text \<open>\<^verbatim>\<open>x.to_bytes(2, "big")\<close> and \<^verbatim>\<open>int.from_bytes(b, "big")\<close>.\<close>

definition to_bytes2 :: "int \<Rightarrow> bytes res" where
  "to_bytes2 x =
     require (0 \<le> x \<and> x < 65536) OverflowError (Inr [byte_of (nat x div 256), byte_of (nat x mod 256)])"

definition from_bytes :: "bytes \<Rightarrow> nat" where
  "from_bytes bs = foldl (\<lambda>n b. n * 256 + unat b) 0 bs"

text \<open>\<^verbatim>\<open>x & 0xFF\<close> as a byte.\<close>

definition low_byte :: "int \<Rightarrow> byte" where
  "low_byte x = byte_of (nat (x AND 255))"

section \<open>Headers and frames\<close>

record MbapHeader =
  transaction_id :: nat
  protocol_id :: nat
  mbap_length :: nat
  unit_id :: nat

definition total_frame_len :: "MbapHeader \<Rightarrow> nat" where
  "total_frame_len h = MBAP_HEADER_LEN - 1 + mbap_length h"

definition pdu_len :: "MbapHeader \<Rightarrow> int" where
  "pdu_len h = int (mbap_length h) - 1"

definition parse_mbap :: "bytes \<Rightarrow> MbapHeader option" where
  "parse_mbap bs =
     (if length bs < MBAP_HEADER_LEN then None
      else Some \<lparr>transaction_id = from_bytes (take 2 bs), protocol_id = from_bytes (take 2 (drop 2 bs)),
                 mbap_length = from_bytes (take 2 (drop 4 bs)), unit_id = unat (bs ! 6)\<rparr>)"

definition is_valid_mbap :: "MbapHeader \<Rightarrow> bool" where
  "is_valid_mbap h =
     (if protocol_id h \<noteq> MODBUS_PROTOCOL_ID then False
      else MIN_MBAP_LENGTH \<le> mbap_length h \<and> mbap_length h \<le> MAX_MBAP_LENGTH)"

definition build_response :: "int \<Rightarrow> int \<Rightarrow> bytes \<Rightarrow> bytes res" where
  "build_response tid uid pdu =
     rbind (to_bytes2 tid) (\<lambda>t.
     rbind (to_bytes2 (int MODBUS_PROTOCOL_ID)) (\<lambda>p.
     rbind (to_bytes2 (int (length pdu) + 1)) (\<lambda>l.
       Inr (t @ p @ l @ [low_byte uid] @ pdu))))"

definition build_exception_response :: "int \<Rightarrow> int \<Rightarrow> int \<Rightarrow> int \<Rightarrow> bytes res" where
  "build_exception_response tid uid function_code exception_code =
     build_response tid uid [low_byte (function_code OR 128), low_byte exception_code]"

definition build_read_holding_registers_request :: "int \<Rightarrow> int \<Rightarrow> int \<Rightarrow> int \<Rightarrow> bytes res" where
  "build_read_holding_registers_request tid uid address quantity =
     rbind (to_bytes2 address) (\<lambda>a.
     rbind (to_bytes2 quantity) (\<lambda>q.
       build_response tid uid ([byte_of FC_READ_HOLDING_REGISTERS] @ a @ q)))"

definition build_write_single_register_request :: "int \<Rightarrow> int \<Rightarrow> int \<Rightarrow> int \<Rightarrow> bytes res" where
  "build_write_single_register_request tid uid address value =
     rbind (to_bytes2 address) (\<lambda>a.
     rbind (to_bytes2 value) (\<lambda>v.
       build_response tid uid ([byte_of FC_WRITE_SINGLE_REGISTER] @ a @ v)))"

section \<open>What is built is parsed back\<close>

lemma to_bytes2_Inr: "to_bytes2 x = Inr bs \<longleftrightarrow> 0 \<le> x \<and> x < 65536 \<and> bs = [byte_of (nat x div 256), byte_of (nat x mod 256)]"
  by (auto simp: to_bytes2_def require_Inr_iff)

lemma to_bytes2_err: "to_bytes2 x = Inl e \<longleftrightarrow> \<not> (0 \<le> x \<and> x < 65536) \<and> e = OverflowError"
  by (auto simp: to_bytes2_def require_Inl_iff)

lemma from_to_bytes2 [simp]: "n < 65536 \<Longrightarrow> from_bytes [byte_of (n div 256), byte_of (n mod 256)] = n"
proof -
  assume "n < 65536"
  then have "unat (byte_of (n div 256)) = n div 256" "unat (byte_of (n mod 256)) = n mod 256" by simp_all
  then show ?thesis by (simp add: from_bytes_def)
qed

lemma byte_pair_less: "unat (a :: byte) * 256 + unat (b :: byte) < 65536"
  using unat_byte_less [of a] unat_byte_less [of b] by linarith

lemma from_bytes2_less [simp]: "from_bytes [a, b] < 65536"
  using byte_pair_less by (simp add: from_bytes_def)

lemma to_bytes2_nat: "n < 65536 \<Longrightarrow> to_bytes2 (int n) = Inr [byte_of (n div 256), byte_of (n mod 256)]"
  by (simp add: to_bytes2_def)

lemma to_from_bytes2 [simp]: "to_bytes2 (int (from_bytes [a, b])) = Inr [a, b]"
proof -
  have "from_bytes [a, b] div 256 = unat a" "from_bytes [a, b] mod 256 = unat b" by (simp_all add: from_bytes_def)
  with to_bytes2_nat [OF from_bytes2_less [of a b]] show ?thesis by simp
qed

lemma low_byte_unat: "unat (low_byte x) = nat (x mod 256)"
proof -
  have "x AND 255 = take_bit 8 x" by (simp add: take_bit_eq_mask mask_eq_exp_minus_1)
  then have m: "x AND 255 = x mod 256" by (simp add: take_bit_eq_mod)
  have "nat (x mod 256) < 256" by simp
  then show ?thesis by (simp add: low_byte_def m)
qed

lemma build_response_Inr:
  "build_response tid uid pdu = Inr bs \<longleftrightarrow>
   0 \<le> tid \<and> tid < 65536 \<and> length pdu + 1 < 65536 \<and>
   bs = [byte_of (nat tid div 256), byte_of (nat tid mod 256), 0, 0,
         byte_of ((length pdu + 1) div 256), byte_of ((length pdu + 1) mod 256), low_byte uid] @ pdu"
  by (auto simp: build_response_def rbind_Inr_iff to_bytes2_Inr MODBUS_PROTOCOL_ID_def byte_of_def nat_add_distrib)

lemma parse_mbap_Cons:
  "parse_mbap (a # b # c # d # e # f # g # pdu) =
   Some \<lparr>transaction_id = from_bytes [a, b], protocol_id = from_bytes [c, d], mbap_length = from_bytes [e, f], unit_id = unat g\<rparr>"
  by (simp add: parse_mbap_def MBAP_HEADER_LEN_def)

lemma build_response_parse:
  assumes "build_response tid uid pdu = Inr bs"
  shows "parse_mbap bs = Some \<lparr>transaction_id = nat tid, protocol_id = 0, mbap_length = length pdu + 1,
      unit_id = nat (uid mod 256)\<rparr> \<and> drop MBAP_HEADER_LEN bs = pdu \<and> length bs = MBAP_HEADER_LEN + length pdu"
proof -
  have b: "0 \<le> tid" "tid < 65536" "length pdu + 1 < 65536"
    "bs = [byte_of (nat tid div 256), byte_of (nat tid mod 256), 0, 0,
         byte_of ((length pdu + 1) div 256), byte_of ((length pdu + 1) mod 256), low_byte uid] @ pdu"
    using assms unfolding build_response_Inr by blast+
  have "from_bytes [byte_of (nat tid div 256), byte_of (nat tid mod 256)] = nat tid" using b(1,2) by simp
  moreover have "from_bytes [byte_of ((length pdu + 1) div 256), byte_of ((length pdu + 1) mod 256)] = length pdu + 1"
    using b(3) by (rule from_to_bytes2)
  moreover have "from_bytes [0, 0] = 0" by (simp add: from_bytes_def)
  ultimately show ?thesis unfolding b(4) append_Cons append_Nil parse_mbap_Cons by (simp add: MBAP_HEADER_LEN_def low_byte_unat)
qed

text \<open>
  Framing round trip: a response that is built is parsed back to its transaction, the
  Modbus protocol identifier, its unit (modulo 256) and exactly its PDU; the frame is valid
  exactly for PDUs of 1 to 253 bytes, and the announced size is the size of the frame. Building
  raises \<^verbatim>\<open>OverflowError\<close> exactly when the transaction identifier or the length does not fit
  16 bits.
\<close>

theorem modbus_framing_roundtrip:
  "(case build_response tid uid pdu of
      Inl e \<Rightarrow> e = OverflowError \<and> \<not> (0 \<le> tid \<and> tid < 65536 \<and> length pdu + 1 < 65536)
    | Inr bs \<Rightarrow> \<exists>h. parse_mbap bs = Some h \<and> int (transaction_id h) = tid \<and> protocol_id h = MODBUS_PROTOCOL_ID
        \<and> int (unit_id h) = uid mod 256 \<and> drop MBAP_HEADER_LEN bs = pdu \<and> length bs = total_frame_len h
        \<and> pdu_len h = int (length pdu) \<and> (is_valid_mbap h \<longleftrightarrow> 1 \<le> length pdu \<and> length pdu \<le> MAX_PDU_LEN))"
proof (cases "build_response tid uid pdu")
  case (Inl e)
  then have "e = OverflowError"
    by (auto simp: build_response_def rbind_Inl_iff to_bytes2_err to_bytes2_Inr)
  moreover have "\<not> (0 \<le> tid \<and> tid < 65536 \<and> length pdu + 1 < 65536)"
    using Inl build_response_Inr [of tid uid pdu] by auto
  ultimately show ?thesis using Inl by simp
next
  case (Inr bs)
  have "0 \<le> tid" using Inr unfolding build_response_Inr by blast
  with build_response_parse [OF Inr] Inr show ?thesis
    by (auto simp: total_frame_len_def pdu_len_def is_valid_mbap_def modbus_consts)
qed

end
