(* ===== verification/ModbusServer.thy ===== *)
theory ModbusServer
  imports Modbus
begin

text \<open>
  \<^verbatim>\<open>honeypots/modbus_server.py\<close>: the register bank, the dispatch of a request, and the
  connection handler with its stream reassembly. A connection is a sequence of receive outcomes;
  \<^verbatim>\<open>send\<close> may write less than it is given. What the handler publishes is the list of its
  \<^verbatim>\<open>publisher.emit\<close> calls. Threads, sockets and the argument parser are not modelled: one
  handler runs with the bank as it finds it.
\<close>

section \<open>Registers\<close>

definition MAX_BUFFER :: nat where
  "MAX_BUFFER = 4 * MAX_ADU_LEN"

record RegisterBank =
  bank_size :: nat
  critical_start :: nat
  critical_end :: nat
  registers :: "nat list"

definition new_bank :: "nat \<Rightarrow> nat \<Rightarrow> nat \<Rightarrow> RegisterBank" where
  "new_bank n cs ce = \<lparr>bank_size = n, critical_start = cs, critical_end = ce, registers = replicate n 0\<rparr>"

definition is_critical :: "RegisterBank \<Rightarrow> nat \<Rightarrow> bool" where
  "is_critical b address \<longleftrightarrow> critical_start b \<le> address \<and> address \<le> critical_end b"

definition bank_read :: "RegisterBank \<Rightarrow> nat \<Rightarrow> nat \<Rightarrow> nat list" where
  "bank_read b address quantity = take quantity (drop address (registers b))"

text \<open>An index out of range raises; the value is reduced to 16 bits.\<close>

definition bank_write :: "RegisterBank \<Rightarrow> nat \<Rightarrow> nat \<Rightarrow> RegisterBank res" where
  "bank_write b address value =
     require (address < length (registers b)) IndexError
       (Inr (b\<lparr>registers := (registers b)[address := value AND 65535]\<rparr>))"

section \<open>Requests\<close>

text \<open>An \<^verbatim>\<open>emit\<close> call: the event type and the details. Every one of them names the peer.\<close>

type_synonym emission = "pystr \<times> pydict"

record peer =
  peer_ip :: pystr
  peer_port :: int

definition emission :: "peer \<Rightarrow> string \<Rightarrow> (string \<times> pyval) list \<Rightarrow> emission" where
  "emission p event_type details =
     (lit event_type, [(KStr (lit ''client_ip''), PyStr (peer_ip p)), (KStr (lit ''client_port''), PyInt (peer_port p))]
        @ map (\<lambda>(k, v). (KStr (lit k), v)) details)"

definition exception_for :: "MbapHeader \<Rightarrow> nat \<Rightarrow> nat \<Rightarrow> bytes res" where
  "exception_for h fc code = build_exception_response (int (transaction_id h)) (int (unit_id h)) (int fc) (int code)"

fun join_registers :: "nat list \<Rightarrow> bytes res" where
  "join_registers [] = Inr []"
| "join_registers (v # vs) = rbind (to_bytes2 (int v)) (\<lambda>b. rbind (join_registers vs) (\<lambda>bs. Inr (b @ bs)))"

definition read_holding_registers :: "RegisterBank \<Rightarrow> MbapHeader \<Rightarrow> bytes \<Rightarrow> bytes res" where
  "read_holding_registers bank h pdu =
     (if length pdu \<noteq> 5 then exception_for h FC_READ_HOLDING_REGISTERS EXC_ILLEGAL_DATA_VALUE
      else
        (let address = from_bytes (take 2 (drop 1 pdu)); quantity = from_bytes (take 2 (drop 3 pdu)) in
         if quantity = 0 \<or> quantity > 125 then exception_for h FC_READ_HOLDING_REGISTERS EXC_ILLEGAL_DATA_VALUE
         else if address + quantity > bank_size bank
         then exception_for h FC_READ_HOLDING_REGISTERS EXC_ILLEGAL_DATA_ADDRESS
         else
           rbind (join_registers (bank_read bank address quantity)) (\<lambda>payload.
           require (length payload < 256) ValueError
             (build_response (int (transaction_id h)) (int (unit_id h))
               ([byte_of FC_READ_HOLDING_REGISTERS, byte_of (length payload)] @ payload)))))"

definition write_single_register ::
  "RegisterBank \<Rightarrow> peer \<Rightarrow> MbapHeader \<Rightarrow> bytes \<Rightarrow> bytes res \<times> RegisterBank \<times> emission list"
where
  "write_single_register bank p h pdu =
     (if length pdu \<noteq> 5 then (exception_for h FC_WRITE_SINGLE_REGISTER EXC_ILLEGAL_DATA_VALUE, bank, [])
      else
        (let address = from_bytes (take 2 (drop 1 pdu)); val = from_bytes (take 2 (drop 3 pdu)) in
         if address \<ge> bank_size bank then (exception_for h FC_WRITE_SINGLE_REGISTER EXC_ILLEGAL_DATA_ADDRESS, bank, [])
         else
           (case bank_write bank address val of
              Inl e \<Rightarrow> (Inl e, bank, [])
            | Inr bank' \<Rightarrow>
                (build_response (int (transaction_id h)) (int (unit_id h)) pdu, bank',
                 if is_critical bank' address
                 then [emission p ''sabotage_detected''
                         [(''function_code'', PyInt (int FC_WRITE_SINGLE_REGISTER)), (''address'', PyInt (int address)),
                          (''value'', PyInt (int val)), (''alert'', PyStr (lit ''write_to_critical_register''))]]
                 else []))))"

definition dispatch :: "RegisterBank \<Rightarrow> peer \<Rightarrow> MbapHeader \<Rightarrow> bytes \<Rightarrow> bytes res \<times> RegisterBank \<times> emission list" where
  "dispatch bank p h pdu =
     (case pdu of
        [] \<Rightarrow> (Inl IndexError, bank, [])
      | fc # _ \<Rightarrow>
          if unat fc = FC_READ_HOLDING_REGISTERS then (read_holding_registers bank h pdu, bank, [])
          else if unat fc = FC_WRITE_SINGLE_REGISTER then write_single_register bank p h pdu
          else (exception_for h (unat fc) EXC_ILLEGAL_FUNCTION, bank,
                [emission p ''modbus_unsupported_function'' [(''function_code'', PyInt (int (unat fc)))]]))"

section \<open>Connections\<close>

text \<open>
  \<^verbatim>\<open>_send_all\<close>: \<open>snd_env k\<close> is what the \<open>k\<close>-th call of \<^verbatim>\<open>send\<close> does, an exception or a number of
  bytes written. The result: what went out, the number of calls so far, and the exception.
\<close>

type_synonym send_env = "nat \<Rightarrow> nat res"

function send_all :: "send_env \<Rightarrow> nat \<Rightarrow> bytes \<Rightarrow> bytes \<times> nat \<times> exn option" where
  "send_all snd_env k view =
     (if view = [] then ([], k, None)
      else
        (case snd_env k of
           Inl e \<Rightarrow> ([], Suc k, Some e)
         | Inr sent \<Rightarrow>
             if sent = 0 then ([], Suc k, Some OSError)
             else (case send_all snd_env (Suc k) (drop sent view) of
                     (out, k', r) \<Rightarrow> (take sent view @ out, k', r))))"
  by pat_completeness auto
termination by (relation "measure (\<lambda>(_, _, view). length view)") auto

declare send_all.simps [simp del]

record conn =
  c_buffer :: bytes
  c_bank :: RegisterBank
  c_out :: bytes
  c_sends :: nat
  c_events :: "emission list"

datatype flow = Go | Leave | Raised exn

definition publish :: "emission list \<Rightarrow> conn \<Rightarrow> conn" where
  "publish es c = c\<lparr>c_events := c_events c @ es\<rparr>"

text \<open>One complete frame: the request event, the dispatch, the reply and the response event.\<close>

definition serve_frame :: "send_env \<Rightarrow> peer \<Rightarrow> MbapHeader \<Rightarrow> bytes \<Rightarrow> conn \<Rightarrow> conn \<times> flow" where
  "serve_frame snd_env p h frame c =
     (case drop MBAP_HEADER_LEN frame of
        [] \<Rightarrow> (c, Raised IndexError)
      | fc # rest \<Rightarrow>
          (let c1 = publish [emission p ''modbus_request'' [(''unit_id'', PyInt (int (unit_id h))),
                      (''function_code'', PyInt (int (unat fc))), (''bytes_in'', PyInt (int (length frame)))]] c
           in case dispatch (c_bank c1) p h (fc # rest) of
                (Inl e, bank', es) \<Rightarrow> ((publish es c1)\<lparr>c_bank := bank'\<rparr>, Raised e)
              | (Inr response, bank', es) \<Rightarrow>
                  (case send_all snd_env (c_sends c1) response of
                     (out, k, failed) \<Rightarrow>
                       (let c2 = (publish es c1)\<lparr>c_bank := bank', c_out := c_out c1 @ out, c_sends := k\<rparr> in
                        case failed of
                          Some e \<Rightarrow> (c2, Raised e)
                        | None \<Rightarrow>
                            if length response \<le> MBAP_HEADER_LEN then (c2, Raised IndexError)
                            else (publish [emission p ''modbus_response'' [(''unit_id'', PyInt (int (unit_id h))),
                                    (''function_code'', PyInt (int (unat (response ! MBAP_HEADER_LEN)))),
                                    (''bytes_out'', PyInt (int (length response)))]] c2, Go)))))"

definition malformed_frame :: "peer \<Rightarrow> string \<Rightarrow> string \<Rightarrow> nat \<Rightarrow> conn \<Rightarrow> conn" where
  "malformed_frame p why field n c =
     (publish [emission p ''modbus_malformed'' [(''reason'', PyStr (lit why)), (field, PyInt (int n))]] c)\<lparr>c_buffer := []\<rparr>"

lemma serve_frame_buffer [simp]: "c_buffer (fst (serve_frame snd_env p h frame c)) = c_buffer c"
  by (auto simp: serve_frame_def publish_def Let_def split: list.splits prod.splits sum.splits option.splits)

text \<open>The inner loop: every complete frame in the buffer.\<close>

function drain :: "send_env \<Rightarrow> peer \<Rightarrow> conn \<Rightarrow> conn \<times> flow" where
  "drain snd_env p c =
     (case parse_mbap (c_buffer c) of
        None \<Rightarrow> (c, Go)
      | Some h \<Rightarrow>
          if protocol_id h \<noteq> MODBUS_PROTOCOL_ID
          then (malformed_frame p ''bad_protocol_id'' ''protocol_id'' (protocol_id h) c, Leave)
          else if \<not> (MIN_MBAP_LENGTH \<le> mbap_length h \<and> mbap_length h \<le> MAX_MBAP_LENGTH)
          then (malformed_frame p ''bad_mbap_length'' ''length'' (mbap_length h) c, Leave)
          else if length (c_buffer c) < total_frame_len h then (c, Go)
          else
            (let r = serve_frame snd_env p h (take (total_frame_len h) (c_buffer c))
                       (c\<lparr>c_buffer := drop (total_frame_len h) (c_buffer c)\<rparr>)
             in if snd r = Go then drain snd_env p (fst r) else r))"
  by pat_completeness auto
termination
  by (relation "measure (\<lambda>(_, _, c). length (c_buffer c))") (auto simp: total_frame_len_def modbus_consts)

declare drain.simps [simp del]

text \<open>
  What \<^verbatim>\<open>recv\<close> yields: bytes (none at the end of the stream), a timeout, another error. The list
  ends when the server is stopping.
\<close>

datatype received = Chunk bytes | RecvTimeout | RecvError pystr

fun receive :: "send_env \<Rightarrow> peer \<Rightarrow> received list \<Rightarrow> conn \<Rightarrow> conn \<times> exn option" where
  "receive snd_env p [] c = (c, None)"
| "receive snd_env p (RecvTimeout # _) c = (publish [emission p ''modbus_timeout'' []] c, None)"
| "receive snd_env p (RecvError msg # _) c =
     (publish [emission p ''modbus_connection_error'' [(''error'', PyStr msg)]] c, None)"
| "receive snd_env p (Chunk bs # rest) c =
     (if bs = [] then (c, None)
      else
        (let c1 = c\<lparr>c_buffer := c_buffer c @ bs\<rparr> in
         if length (c_buffer c1) > MAX_BUFFER
         then (publish [emission p ''modbus_malformed'' [(''reason'', PyStr (lit ''buffer_overflow'')),
                 (''buffered'', PyInt (int (length (c_buffer c1))))]] c1, None)
         else
           (case drain snd_env p c1 of
              (c2, Go) \<Rightarrow> receive snd_env p rest c2
            | (c2, Leave) \<Rightarrow> (c2, None)
            | (c2, Raised e) \<Rightarrow> (c2, Some e))))"

definition handle_connection :: "send_env \<Rightarrow> peer \<Rightarrow> received list \<Rightarrow> RegisterBank \<Rightarrow> conn \<times> exn option" where
  "handle_connection snd_env p rs bank =
     (case receive snd_env p rs \<lparr>c_buffer = [], c_bank = bank, c_out = [], c_sends = 0,
             c_events = [emission p ''modbus_connection'' []]\<rparr> of
        (c, r) \<Rightarrow> (publish [emission p ''modbus_connection_closed'' []] c, r))"

section \<open>Responses\<close>

definition bank_ok :: "RegisterBank \<Rightarrow> bool" where
  "bank_ok b \<longleftrightarrow> length (registers b) = bank_size b \<and> (\<forall>v\<in>set (registers b). v < 65536)"

definition header_ok :: "MbapHeader \<Rightarrow> bool" where
  "header_ok h \<longleftrightarrow> transaction_id h < 65536 \<and> unit_id h < 256"

text \<open>A frame that answers a header: same transaction and unit, valid, exactly as long as it says.\<close>

definition answers :: "MbapHeader \<Rightarrow> bytes \<Rightarrow> bytes \<Rightarrow> bool" where
  "answers h pdu resp \<longleftrightarrow> (\<exists>h'. parse_mbap resp = Some h' \<and> is_valid_mbap h' \<and> transaction_id h' = transaction_id h
     \<and> unit_id h' = unit_id h \<and> length resp = total_frame_len h' \<and> drop MBAP_HEADER_LEN resp = pdu)"

lemma build_answers:
  assumes "header_ok h" "pdu \<noteq> []" "length pdu \<le> MAX_PDU_LEN"
  shows "\<exists>resp. build_response (int (transaction_id h)) (int (unit_id h)) pdu = Inr resp \<and> answers h pdu resp"
proof -
  have "\<exists>resp. build_response (int (transaction_id h)) (int (unit_id h)) pdu = Inr resp"
    unfolding build_response_Inr using assms by (simp add: header_ok_def MAX_PDU_LEN_def)
  then obtain resp where r: "build_response (int (transaction_id h)) (int (unit_id h)) pdu = Inr resp" by blast
  have "nat (int (unit_id h) mod 256) = unit_id h" using assms(1) by (simp add: header_ok_def)
  with build_response_parse [OF r] have p: "parse_mbap resp = Some \<lparr>transaction_id = transaction_id h, protocol_id = 0,
        mbap_length = length pdu + 1, unit_id = unit_id h\<rparr>" "drop MBAP_HEADER_LEN resp = pdu" "length resp = MBAP_HEADER_LEN + length pdu"
    by simp_all
  have "answers h pdu resp"
    unfolding answers_def p(1) using p(2,3) assms(2,3)
    by (simp add: is_valid_mbap_def total_frame_len_def MBAP_HEADER_LEN_def MODBUS_PROTOCOL_ID_def MIN_MBAP_LENGTH_def
        MAX_MBAP_LENGTH_def Suc_le_eq)
  with r show ?thesis by blast
qed

definition exception_pdu :: "nat \<Rightarrow> nat \<Rightarrow> bytes" where
  "exception_pdu fc code = [low_byte (int fc OR 128), low_byte (int code)]"

lemma exception_answers:
  "header_ok h \<Longrightarrow> \<exists>resp. exception_for h fc code = Inr resp \<and> answers h (exception_pdu fc code) resp"
  using build_answers [of h "exception_pdu fc code"]
  by (simp add: exception_for_def build_exception_response_def exception_pdu_def MAX_PDU_LEN_def)

definition big_endian :: "nat list \<Rightarrow> bytes" where
  "big_endian vs = concat (map (\<lambda>v. [byte_of (v div 256), byte_of (v mod 256)]) vs)"

lemma join_registers_ok: "\<forall>v\<in>set vs. v < 65536 \<Longrightarrow> join_registers vs = Inr (big_endian vs)"
  by (induction vs) (simp_all add: big_endian_def to_bytes2_nat)

lemma big_endian_length [simp]: "length (big_endian vs) = 2 * length vs"
  by (induction vs) (simp_all add: big_endian_def)

lemma read_values:
  assumes "bank_ok bank" "address + quantity \<le> bank_size bank"
  shows "length (bank_read bank address quantity) = quantity" "\<forall>v\<in>set (bank_read bank address quantity). v < 65536"
  using assms by (auto simp: bank_read_def bank_ok_def dest: in_set_takeD in_set_dropD)

text \<open>The PDU of the reply to a read request, as a function of the bank.\<close>

definition read_reply :: "RegisterBank \<Rightarrow> bytes \<Rightarrow> bytes" where
  "read_reply bank pdu =
     (let address = from_bytes (take 2 (drop 1 pdu)); quantity = from_bytes (take 2 (drop 3 pdu)) in
      if length pdu \<noteq> 5 \<or> quantity = 0 \<or> quantity > 125 then exception_pdu FC_READ_HOLDING_REGISTERS EXC_ILLEGAL_DATA_VALUE
      else if address + quantity > bank_size bank then exception_pdu FC_READ_HOLDING_REGISTERS EXC_ILLEGAL_DATA_ADDRESS
      else [byte_of FC_READ_HOLDING_REGISTERS, byte_of (2 * quantity)] @ big_endian (bank_read bank address quantity))"

lemma read_answers:
  assumes "bank_ok bank" "header_ok h"
  shows "\<exists>resp. read_holding_registers bank h pdu = Inr resp \<and> answers h (read_reply bank pdu) resp"
proof -
  let ?a = "from_bytes (take 2 (drop 1 pdu))" and ?q = "from_bytes (take 2 (drop 3 pdu))"
  note ex = exception_answers [OF assms(2)]
  consider (bad) "length pdu \<noteq> 5 \<or> ?q = 0 \<or> ?q > 125"
    | (range) "length pdu = 5" "\<not> (?q = 0 \<or> ?q > 125)" "?a + ?q > bank_size bank"
    | (ok) "length pdu = 5" "\<not> (?q = 0 \<or> ?q > 125)" "?a + ?q \<le> bank_size bank" by linarith
  then show ?thesis
  proof cases
    case bad
    then show ?thesis using ex [of FC_READ_HOLDING_REGISTERS EXC_ILLEGAL_DATA_VALUE]
      unfolding read_holding_registers_def read_reply_def Let_def by (simp only: if_True if_False simp_thms split: if_split) blast
  next
    case range
    then show ?thesis using ex [of FC_READ_HOLDING_REGISTERS EXC_ILLEGAL_DATA_ADDRESS]
      unfolding read_holding_registers_def read_reply_def Let_def by simp
  next
    case ok
    let ?vs = "bank_read bank ?a ?q" and ?pdu = "[byte_of FC_READ_HOLDING_REGISTERS, byte_of (2 * ?q)] @ big_endian (bank_read bank ?a ?q)"
    have v: "length ?vs = ?q" "join_registers ?vs = Inr (big_endian ?vs)"
      using read_values [OF assms(1) ok(3)] join_registers_ok by auto
    have "\<exists>resp. build_response (int (transaction_id h)) (int (unit_id h)) ?pdu = Inr resp \<and> answers h ?pdu resp"
      by (rule build_answers [OF assms(2)]) (use v(1) ok(2) in \<open>simp_all add: MAX_PDU_LEN_def\<close>)
    then obtain resp where resp: "build_response (int (transaction_id h)) (int (unit_id h)) ?pdu = Inr resp" "answers h ?pdu resp"
      by blast
    have "read_holding_registers bank h pdu = Inr resp"
      using ok v resp(1) unfolding read_holding_registers_def Let_def by simp
    moreover have "read_reply bank pdu = ?pdu" using ok unfolding read_reply_def Let_def by simp
    ultimately show ?thesis using resp(2) by simp
  qed
qed

lemma read_reply_code:
  "hd (read_reply bank pdu) = byte_of FC_READ_HOLDING_REGISTERS \<or> hd (read_reply bank pdu) = low_byte (int FC_READ_HOLDING_REGISTERS OR 128)"
  by (simp add: read_reply_def exception_pdu_def Let_def)

lemma and_16bit: "(n :: nat) AND 65535 = n mod 65536"
proof -
  have "n AND 65535 = take_bit 16 n" by (simp add: take_bit_eq_mask mask_eq_exp_minus_1)
  then show ?thesis by (simp add: take_bit_eq_mod)
qed

lemma from_bytes_pair [simp]:
  assumes "length pdu = 5"
  shows "from_bytes (take 2 (drop 1 pdu)) < 65536" "from_bytes (take 2 (drop 3 pdu)) < 65536"
proof -
  obtain a b c d e where "pdu = [a, b, c, d, e]" using assms by (auto simp: numeral_eq_Suc length_Suc_conv)
  then show "from_bytes (take 2 (drop 1 pdu)) < 65536" "from_bytes (take 2 (drop 3 pdu)) < 65536" by simp_all
qed

text \<open>The write a PDU asks for, when it is one the bank can perform.\<close>

definition write_of :: "RegisterBank \<Rightarrow> bytes \<Rightarrow> (nat \<times> nat) option" where
  "write_of bank pdu =
     (if length pdu = 5 \<and> unat (hd pdu) = FC_WRITE_SINGLE_REGISTER \<and> from_bytes (take 2 (drop 1 pdu)) < bank_size bank
      then Some (from_bytes (take 2 (drop 1 pdu)), from_bytes (take 2 (drop 3 pdu))) else None)"

lemma write_single_register_ok:
  assumes "bank_ok bank" "header_ok h" "length pdu \<le> MAX_PDU_LEN" "pdu \<noteq> []" "unat (hd pdu) = FC_WRITE_SINGLE_REGISTER"
  shows "\<exists>resp pdu' es. write_single_register bank p h pdu
      = (Inr resp, (case write_of bank pdu of None \<Rightarrow> bank | Some (a, v) \<Rightarrow> bank\<lparr>registers := (registers bank)[a := v]\<rparr>), es)
    \<and> answers h pdu' resp \<and> (pdu' = pdu \<or> (\<exists>code. pdu' = exception_pdu FC_WRITE_SINGLE_REGISTER code))
    \<and> (es \<noteq> [] \<longleftrightarrow> (\<exists>a v. write_of bank pdu = Some (a, v) \<and> is_critical bank a))
    \<and> (\<forall>e\<in>set es. fst e = lit ''sabotage_detected'')"
proof (cases "write_of bank pdu")
  case None
  from exception_answers [OF assms(2)] obtain r1 r2 where
    "exception_for h FC_WRITE_SINGLE_REGISTER EXC_ILLEGAL_DATA_VALUE = Inr r1"
    "answers h (exception_pdu FC_WRITE_SINGLE_REGISTER EXC_ILLEGAL_DATA_VALUE) r1"
    "exception_for h FC_WRITE_SINGLE_REGISTER EXC_ILLEGAL_DATA_ADDRESS = Inr r2"
    "answers h (exception_pdu FC_WRITE_SINGLE_REGISTER EXC_ILLEGAL_DATA_ADDRESS) r2" by blast
  then show ?thesis using None assms(5)
    by (cases "length pdu = 5") (auto simp: write_single_register_def write_of_def Let_def split: if_splits)
next
  case (Some av)
  obtain a v where av: "av = (a, v)" by (cases av)
  with Some have w: "length pdu = 5" "a = from_bytes (take 2 (drop 1 pdu))" "v = from_bytes (take 2 (drop 3 pdu))" "a < bank_size bank"
    by (auto simp: write_of_def split: if_splits)
  have "v < 65536" using from_bytes_pair(2) [OF w(1)] w(3) by simp
  with w(4) have "bank_write bank a v = Inr (bank\<lparr>registers := (registers bank)[a := v]\<rparr>)"
    using assms(1) by (simp add: bank_write_def bank_ok_def and_16bit)
  moreover obtain resp where "build_response (int (transaction_id h)) (int (unit_id h)) pdu = Inr resp" "answers h pdu resp"
    using build_answers [OF assms(2,4,3)] by blast
  moreover have "is_critical (bank\<lparr>registers := x\<rparr>) a = is_critical bank a" for x by (simp add: is_critical_def)
  ultimately show ?thesis using w Some av
    unfolding write_single_register_def Let_def w(2,3) [symmetric] by (auto simp: emission_def simp del: lit_simps)
qed

lemma dispatch_ok:
  assumes "bank_ok bank" "header_ok h" "length pdu \<le> MAX_PDU_LEN" "pdu \<noteq> []"
  shows "\<exists>resp pdu' es. dispatch bank p h pdu
      = (Inr resp, (case write_of bank pdu of None \<Rightarrow> bank | Some (a, v) \<Rightarrow> bank\<lparr>registers := (registers bank)[a := v]\<rparr>), es)
    \<and> answers h pdu' resp \<and> (hd pdu' = hd pdu \<or> hd pdu' = low_byte (int (unat (hd pdu)) OR 128))
    \<and> (lit ''sabotage_detected'' \<in> fst ` set es \<longleftrightarrow> (\<exists>a v. write_of bank pdu = Some (a, v) \<and> is_critical bank a))"
proof -
  obtain fc rest where pdu: "pdu = fc # rest" using assms(4) by (cases pdu) auto
  consider (r) "unat fc = FC_READ_HOLDING_REGISTERS" | (w) "unat fc = FC_WRITE_SINGLE_REGISTER"
    | (u) "unat fc \<noteq> FC_READ_HOLDING_REGISTERS" "unat fc \<noteq> FC_WRITE_SINGLE_REGISTER" by blast
  then show ?thesis
  proof cases
    case r
    then have none: "write_of bank pdu = None" by (simp add: write_of_def pdu modbus_consts)
    have fc: "byte_of FC_READ_HOLDING_REGISTERS = fc" using r by (metis byte_of_unat)
    obtain resp where x: "read_holding_registers bank h pdu = Inr resp" "answers h (read_reply bank pdu) resp"
      using read_answers [OF assms(1,2), of pdu] by blast
    have "dispatch bank p h pdu = (Inr resp, bank, [])" using x(1) r by (simp add: dispatch_def pdu)
    moreover have "hd (read_reply bank pdu) = hd pdu \<or> hd (read_reply bank pdu) = low_byte (int (unat (hd pdu)) OR 128)"
      using read_reply_code [of bank pdu] fc r pdu by simp
    ultimately show ?thesis using x(2) none by (intro exI [of _ resp] exI [of _ "read_reply bank pdu"] exI [of _ "[]"]) (simp del: lit_simps)
  next
    case w
    obtain resp pdu' es where x: "write_single_register bank p h pdu
        = (Inr resp, (case write_of bank pdu of None \<Rightarrow> bank | Some (a, v) \<Rightarrow> bank\<lparr>registers := (registers bank)[a := v]\<rparr>), es)"
      "answers h pdu' resp" "pdu' = pdu \<or> (\<exists>code. pdu' = exception_pdu FC_WRITE_SINGLE_REGISTER code)"
      "es \<noteq> [] \<longleftrightarrow> (\<exists>a v. write_of bank pdu = Some (a, v) \<and> is_critical bank a)"
      "\<forall>e\<in>set es. fst e = lit ''sabotage_detected''"
      using write_single_register_ok [OF assms, of p] w unfolding pdu list.sel by blast
    have "lit ''sabotage_detected'' \<in> fst ` set es \<longleftrightarrow> es \<noteq> []"
      using x(5) by (cases es) (auto simp del: lit_simps)
    moreover have "hd pdu' = hd pdu \<or> hd pdu' = low_byte (int (unat (hd pdu)) OR 128)"
      using x(3) w pdu by (auto simp: exception_pdu_def)
    moreover have "dispatch bank p h pdu = write_single_register bank p h pdu"
      using w by (simp add: dispatch_def pdu modbus_consts)
    ultimately show ?thesis using x(1,2,4) by (intro exI [of _ resp] exI [of _ pdu'] exI [of _ es]) (simp del: lit_simps)
  next
    case u
    then have none: "write_of bank pdu = None" by (simp add: write_of_def pdu)
    obtain resp where "exception_for h (unat fc) EXC_ILLEGAL_FUNCTION = Inr resp" "answers h (exception_pdu (unat fc) EXC_ILLEGAL_FUNCTION) resp"
      using exception_answers [OF assms(2)] by blast
    moreover have "lit ''sabotage_detected'' \<noteq> lit ''modbus_unsupported_function''" by (simp add: lit_inj del: lit_simps)
    ultimately show ?thesis using u none pdu
      by (intro exI [of _ resp] exI [of _ "exception_pdu (unat fc) EXC_ILLEGAL_FUNCTION"])
        (auto simp: dispatch_def exception_pdu_def emission_def simp del: lit_simps)
  qed
qed

lemma bank_ok_update: "\<lbrakk>bank_ok bank; v < 65536\<rbrakk> \<Longrightarrow> bank_ok (bank\<lparr>registers := (registers bank)[a := v]\<rparr>)"
  by (auto simp: bank_ok_def dest: set_update_subset_insert [THEN subsetD])

lemma dispatch_bank_ok:
  assumes "bank_ok bank"
  shows "bank_ok (case write_of bank pdu of None \<Rightarrow> bank | Some (a, v) \<Rightarrow> bank\<lparr>registers := (registers bank)[a := v]\<rparr>)"
proof (cases "write_of bank pdu")
  case (Some av)
  then have "snd av < 65536" using from_bytes_pair(2) [of pdu] by (auto simp: write_of_def split: if_splits)
  with Some assms show ?thesis by (cases av) (simp add: bank_ok_update)
qed (simp add: assms)

section \<open>Reassembly\<close>

lemma serve_frame_extend:
  "serve_frame snd_env p h frame (c\<lparr>c_buffer := b\<rparr>)
   = ((fst (serve_frame snd_env p h frame c))\<lparr>c_buffer := b\<rparr>, snd (serve_frame snd_env p h frame c))"
  by (auto simp: serve_frame_def publish_def Let_def split: list.splits prod.splits sum.splits option.splits)

lemma parse_mbap_append: "parse_mbap a = Some h \<Longrightarrow> parse_mbap (a @ b) = Some h"
  by (auto simp: parse_mbap_def MBAP_HEADER_LEN_def nth_append split: if_splits)

text \<open>More bytes behind the buffer only matter when the loop waits for them.\<close>

lemma drain_append:
  "drain snd_env p (c\<lparr>c_buffer := c_buffer c @ b\<rparr>) =
   (case drain snd_env p c of
      (c', Go) \<Rightarrow> drain snd_env p (c'\<lparr>c_buffer := c_buffer c' @ b\<rparr>)
    | (c', Leave) \<Rightarrow> (c', Leave)
    | (c', Raised e) \<Rightarrow> (c'\<lparr>c_buffer := c_buffer c' @ b\<rparr>, Raised e))"
proof (induction snd_env p c rule: drain.induct)
  case (1 snd_env p c)
  show ?case
  proof (cases "parse_mbap (c_buffer c)")
    case None
    then have "drain snd_env p c = (c, Go)" by (simp add: drain.simps)
    then show ?thesis by simp
  next
    case (Some h)
    note ext = parse_mbap_append [OF Some, of b]
    let ?n = "total_frame_len h" and ?ok = "MIN_MBAP_LENGTH \<le> mbap_length h \<and> mbap_length h \<le> MAX_MBAP_LENGTH"
    consider "protocol_id h \<noteq> MODBUS_PROTOCOL_ID" | "protocol_id h = MODBUS_PROTOCOL_ID" "\<not> ?ok"
      | (short) "protocol_id h = MODBUS_PROTOCOL_ID" ?ok "length (c_buffer c) < ?n"
      | (full) "protocol_id h = MODBUS_PROTOCOL_ID" ?ok "?n \<le> length (c_buffer c)" by fastforce
    then show ?thesis
    proof cases
      case short
      then have "drain snd_env p c = (c, Go)" using Some by (simp add: drain.simps [of snd_env p c])
      then show ?thesis by simp
    next
      case full
      let ?c = "c\<lparr>c_buffer := drop ?n (c_buffer c)\<rparr>"
      let ?r = "serve_frame snd_env p h (take ?n (c_buffer c)) ?c"
      have d: "drain snd_env p c = (if snd ?r = Go then drain snd_env p (fst ?r) else ?r)"
        using full Some by (simp add: drain.simps [of snd_env p c] Let_def)
      have r': "serve_frame snd_env p h (take ?n (c_buffer c)) (c\<lparr>c_buffer := drop ?n (c_buffer c) @ b\<rparr>)
          = ((fst ?r)\<lparr>c_buffer := c_buffer (fst ?r) @ b\<rparr>, snd ?r)"
        using serve_frame_extend [of snd_env p h "take ?n (c_buffer c)" "drop ?n (c_buffer c) @ b" ?c] by simp
      have "drain snd_env p (c\<lparr>c_buffer := c_buffer c @ b\<rparr>)
          = (if snd ?r = Go then drain snd_env p ((fst ?r)\<lparr>c_buffer := c_buffer (fst ?r) @ b\<rparr>)
             else ((fst ?r)\<lparr>c_buffer := c_buffer (fst ?r) @ b\<rparr>, snd ?r))"
        using full ext r' by (simp add: drain.simps [of snd_env p "c\<lparr>c_buffer := c_buffer c @ b\<rparr>"] Let_def)
      moreover have "snd ?r \<noteq> Leave"
        by (auto simp: serve_frame_def Let_def split: list.splits prod.splits sum.splits option.splits)
      moreover have "drain snd_env p ((fst ?r)\<lparr>c_buffer := c_buffer (fst ?r) @ b\<rparr>) =
          (case drain snd_env p (fst ?r) of
             (c', Go) \<Rightarrow> drain snd_env p (c'\<lparr>c_buffer := c_buffer c' @ b\<rparr>)
           | (c', Leave) \<Rightarrow> (c', Leave)
           | (c', Raised e) \<Rightarrow> (c'\<lparr>c_buffer := c_buffer c' @ b\<rparr>, Raised e))" if "snd ?r = Go"
        using 1 [OF Some _ _ _ refl] full that by simp
      ultimately show ?thesis using d by (cases ?r; cases "snd ?r") simp_all
    qed (use Some ext in \<open>simp_all add: drain.simps malformed_frame_def publish_def\<close>)
  qed
qed

lemma drain_leftover:
  "drain snd_env p c = (c', Go) \<Longrightarrow> length (c_buffer c') < MAX_ADU_LEN \<and> drain snd_env p c' = (c', Go)"
proof (induction snd_env p c rule: drain.induct)
  case (1 snd_env p c)
  show ?case
  proof (cases "parse_mbap (c_buffer c)")
    case None
    with 1(2) have "c' = c" by (simp add: drain.simps [of snd_env p c])
    with None 1(2) show ?thesis by (auto simp: parse_mbap_def modbus_consts split: if_splits)
  next
    case (Some h)
    let ?n = "total_frame_len h"
    let ?r = "serve_frame snd_env p h (take ?n (c_buffer c)) (c\<lparr>c_buffer := drop ?n (c_buffer c)\<rparr>)"
    have ok: "\<not> protocol_id h \<noteq> MODBUS_PROTOCOL_ID" "\<not> \<not> (MIN_MBAP_LENGTH \<le> mbap_length h \<and> mbap_length h \<le> MAX_MBAP_LENGTH)"
      using 1(2) Some by (auto simp: drain.simps [of snd_env p c] split: if_splits)
    show ?thesis
    proof (cases "length (c_buffer c) < ?n")
      case True
      with 1(2) Some ok have "c' = c" by (simp add: drain.simps [of snd_env p c])
      with True 1(2) ok show ?thesis by (auto simp: total_frame_len_def modbus_consts)
    next
      case False
      with 1(2) Some ok have d: "(if snd ?r = Go then drain snd_env p (fst ?r) else ?r) = (c', Go)"
        by (simp add: drain.simps [of snd_env p c] Let_def)
      then have "snd ?r = Go" by (cases "snd ?r = Go") auto
      with d 1(1) [OF Some ok False refl] show ?thesis by simp
    qed
  qed
qed

text \<open>What the peer and the log see of a connection.\<close>

definition observed :: "conn \<times> exn option \<Rightarrow> bytes \<times> RegisterBank \<times> emission list \<times> exn option" where
  "observed x = (c_out (fst x), c_bank (fst x), c_events (fst x), snd x)"

definition ended :: "conn \<times> flow \<Rightarrow> conn \<times> exn option" where
  "ended x = (fst x, case snd x of Raised e \<Rightarrow> Some e | _ \<Rightarrow> None)"

text \<open>Chunks that cannot overflow the buffer, whatever incomplete frame precedes them.\<close>

definition fits :: "bytes list \<Rightarrow> bool" where
  "fits cs \<longleftrightarrow> (\<forall>b\<in>set cs. b \<noteq> [] \<and> length b \<le> MAX_BUFFER - MAX_ADU_LEN + 1)"

lemma receive_chunks:
  assumes "fits cs" "drain snd_env p c = (c, Go)"
  shows "observed (receive snd_env p (map Chunk cs) c)
    = observed (ended (drain snd_env p (c\<lparr>c_buffer := c_buffer c @ concat cs\<rparr>)))"
  using assms
proof (induction cs arbitrary: c)
  case Nil
  then show ?case by (simp add: ended_def)
next
  case (Cons b cs)
  let ?c1 = "c\<lparr>c_buffer := c_buffer c @ b\<rparr>"
  have b: "b \<noteq> []" "length b \<le> MAX_BUFFER - MAX_ADU_LEN + 1" "fits cs" using Cons.prems(1) by (simp_all add: fits_def)
  have "length (c_buffer c) < MAX_ADU_LEN" using drain_leftover [OF Cons.prems(2)] by simp
  with b(2) have len: "\<not> length (c_buffer ?c1) > MAX_BUFFER" by (simp add: MAX_BUFFER_def modbus_consts)
  obtain c2 f where d: "drain snd_env p ?c1 = (c2, f)" by (cases "drain snd_env p ?c1")
  have all: "drain snd_env p (c\<lparr>c_buffer := c_buffer c @ b @ concat cs\<rparr>) =
      (case (c2, f) of
         (c', Go) \<Rightarrow> drain snd_env p (c'\<lparr>c_buffer := c_buffer c' @ concat cs\<rparr>)
       | (c', Leave) \<Rightarrow> (c', Leave)
       | (c', Raised e) \<Rightarrow> (c'\<lparr>c_buffer := c_buffer c' @ concat cs\<rparr>, Raised e))"
    using drain_append [of snd_env p ?c1 "concat cs"] d by simp
  show ?case
  proof (cases f)
    case Go
    with d drain_leftover have "drain snd_env p c2 = (c2, Go)" by blast
    from Cons.IH [OF b(3) this] show ?thesis using Go d b(1) len by (simp add: all)
  qed (use d b(1) len in \<open>simp_all add: all observed_def ended_def\<close>)
qed

definition new_conn :: "peer \<Rightarrow> RegisterBank \<Rightarrow> conn" where
  "new_conn p bank = \<lparr>c_buffer = [], c_bank = bank, c_out = [], c_sends = 0, c_events = [emission p ''modbus_connection'' []]\<rparr>"

lemma drain_empty: "c_buffer c = [] \<Longrightarrow> drain snd_env p c = (c, Go)"
  by (simp add: drain.simps parse_mbap_def MBAP_HEADER_LEN_def)

lemma handle_chunks:
  assumes "fits cs"
  shows "observed (handle_connection snd_env p (map Chunk cs) bank)
    = (case observed (ended (drain snd_env p ((new_conn p bank)\<lparr>c_buffer := concat cs\<rparr>))) of
         (out, bank', es, r) \<Rightarrow> (out, bank', es @ [emission p ''modbus_connection_closed'' []], r))"
proof -
  have "drain snd_env p (new_conn p bank) = (new_conn p bank, Go)" by (rule drain_empty) (simp add: new_conn_def)
  from receive_chunks [OF assms this] have "observed (receive snd_env p (map Chunk cs) (new_conn p bank))
      = observed (ended (drain snd_env p ((new_conn p bank)\<lparr>c_buffer := concat cs\<rparr>)))" by (simp add: new_conn_def)
  then show ?thesis
    by (cases "receive snd_env p (map Chunk cs) (new_conn p bank)")
      (simp add: handle_connection_def observed_def publish_def new_conn_def [symmetric] del: lit_simps)
qed

section \<open>Pipelined requests\<close>

definition reliable :: "send_env \<Rightarrow> bool" where
  "reliable snd_env \<longleftrightarrow> (\<forall>k. \<exists>n>0. snd_env k = Inr n)"

lemma send_all_reliable: "reliable snd_env \<Longrightarrow> \<exists>k'. send_all snd_env k view = (view, k', None)"
proof (induction snd_env k view rule: send_all.induct)
  case (1 snd_env k view)
  show ?case
  proof (cases "view = []")
    case False
    from 1(2) obtain n where n: "snd_env k = Inr n" "0 < n" unfolding reliable_def by blast
    with 1(1) [OF False n(1)] 1(2) obtain k' where "send_all snd_env (Suc k) (drop n view) = (drop n view, k', None)" by blast
    with n False show ?thesis by (simp add: send_all.simps [of snd_env k])
  qed (simp add: send_all.simps)
qed

text \<open>
  The reference: requests answered one by one. A request is a transaction identifier, a unit and
  a PDU of 1 to 253 bytes.
\<close>

type_synonym request = "nat \<times> nat \<times> bytes"

definition request_ok :: "request \<Rightarrow> bool" where
  "request_ok r = (case r of (t, u, pdu) \<Rightarrow> t < 65536 \<and> u < 256 \<and> pdu \<noteq> [] \<and> length pdu \<le> MAX_PDU_LEN)"

definition request_header :: "request \<Rightarrow> MbapHeader" where
  "request_header r = (case r of (t, u, pdu) \<Rightarrow>
     \<lparr>transaction_id = t, protocol_id = MODBUS_PROTOCOL_ID, mbap_length = length pdu + 1, unit_id = u\<rparr>)"

definition request_frame :: "request \<Rightarrow> bytes" where
  "request_frame r = (case r of (t, u, pdu) \<Rightarrow> projr (build_response (int t) (int u) pdu))"

fun answer_all :: "peer \<Rightarrow> RegisterBank \<Rightarrow> request list \<Rightarrow> bytes list \<times> RegisterBank" where
  "answer_all p bank [] = ([], bank)"
| "answer_all p bank (r # rs) =
     (case dispatch bank p (request_header r) (snd (snd r)) of
        (resp, bank', _) \<Rightarrow> (case answer_all p bank' rs of (outs, b) \<Rightarrow> (projr resp # outs, b)))"

lemma request_frame_ok:
  assumes "request_ok r"
  shows "build_response (int (fst r)) (int (fst (snd r))) (snd (snd r)) = Inr (request_frame r)"
    and "parse_mbap (request_frame r) = Some (request_header r)" "drop MBAP_HEADER_LEN (request_frame r) = snd (snd r)"
    and "length (request_frame r) = total_frame_len (request_header r)" "header_ok (request_header r)"
proof -
  obtain t u pdu where r: "r = (t, u, pdu)" by (cases r)
  have ok: "t < 65536" "u < 256" "pdu \<noteq> []" "length pdu \<le> MAX_PDU_LEN" using assms by (simp_all add: request_ok_def r)
  then show "header_ok (request_header r)" by (simp add: header_ok_def request_header_def r)
  have "\<exists>resp. build_response (int t) (int u) pdu = Inr resp"
    unfolding build_response_Inr using ok by (simp add: MAX_PDU_LEN_def)
  then obtain resp where b: "build_response (int t) (int u) pdu = Inr resp" by blast
  then have f: "request_frame r = resp" by (simp add: request_frame_def r)
  show "build_response (int (fst r)) (int (fst (snd r))) (snd (snd r)) = Inr (request_frame r)" using b f by (simp add: r)
  have "nat (int u mod 256) = u" using ok(2) by simp
  with build_response_parse [OF b] show "parse_mbap (request_frame r) = Some (request_header r)"
    "drop MBAP_HEADER_LEN (request_frame r) = snd (snd r)" "length (request_frame r) = total_frame_len (request_header r)"
    unfolding f by (simp_all add: r request_header_def MODBUS_PROTOCOL_ID_def total_frame_len_def MBAP_HEADER_LEN_def)
qed

lemma serve_frame_request:
  assumes "reliable snd_env" "request_ok r" "bank_ok (c_bank c)" "dispatch (c_bank c) p (request_header r) (snd (snd r)) = (Inr resp, bank', es)"
  shows "\<exists>c'. serve_frame snd_env p (request_header r) (request_frame r) c = (c', Go)
    \<and> c_bank c' = bank' \<and> c_out c' = c_out c @ resp \<and> c_buffer c' = c_buffer c"
proof -
  obtain fc rest where pdu: "snd (snd r) = fc # rest" using assms(2) by (cases "snd (snd r)") (auto simp: request_ok_def)
  have len: "length (snd (snd r)) \<le> MAX_PDU_LEN" using assms(2) by (auto simp: request_ok_def)
  have "\<exists>pdu'. answers (request_header r) pdu' resp"
    using dispatch_ok [OF assms(3) request_frame_ok(5) [OF assms(2)] len, of p] assms(4) pdu by auto
  then have "\<not> length resp \<le> MBAP_HEADER_LEN"
    by (auto simp: answers_def is_valid_mbap_def total_frame_len_def modbus_consts split: if_splits)
  moreover obtain k' where "send_all snd_env (c_sends c) resp = (resp, k', None)" using send_all_reliable [OF assms(1)] by blast
  ultimately show ?thesis
    using assms(4) request_frame_ok(3) [OF assms(2)] pdu by (simp add: serve_frame_def publish_def Let_def)
qed

lemma drain_requests:
  assumes "reliable snd_env" "list_all request_ok rs" "bank_ok (c_bank c)" "c_buffer c = concat (map request_frame rs)"
  shows "\<exists>c'. drain snd_env p c = (c', Go) \<and> c_buffer c' = []
    \<and> c_out c' = c_out c @ concat (fst (answer_all p (c_bank c) rs)) \<and> c_bank c' = snd (answer_all p (c_bank c) rs)"
  using assms
proof (induction rs arbitrary: c)
  case Nil
  then show ?case by (simp add: drain_empty)
next
  case (Cons r rs)
  let ?h = "request_header r" and ?c = "c\<lparr>c_buffer := concat (map request_frame rs)\<rparr>"
  have r: "request_ok r" "list_all request_ok rs" using Cons.prems(2) by simp_all
  note fr = request_frame_ok [OF r(1)]
  have pdu: "snd (snd r) \<noteq> []" "length (snd (snd r)) \<le> MAX_PDU_LEN" using r(1) by (auto simp: request_ok_def)
  obtain resp es bank' where d: "dispatch (c_bank c) p ?h (snd (snd r)) = (Inr resp, bank', es)" "bank_ok bank'"
    using dispatch_ok [OF Cons.prems(3) fr(5) pdu(2,1), of p] dispatch_bank_ok [OF Cons.prems(3)] by metis
  obtain c1 where s: "serve_frame snd_env p ?h (request_frame r) ?c = (c1, Go)" "c_bank c1 = bank'" "c_out c1 = c_out c @ resp"
      "c_buffer c1 = concat (map request_frame rs)"
    using serve_frame_request [OF Cons.prems(1) r(1), of ?c p resp bank' es] Cons.prems(3) d(1) by auto
  have h: "protocol_id ?h = MODBUS_PROTOCOL_ID" "MIN_MBAP_LENGTH \<le> mbap_length ?h" "mbap_length ?h \<le> MAX_MBAP_LENGTH"
    using r(1) by (auto simp: request_header_def request_ok_def modbus_consts Suc_le_eq split: prod.splits)
  have "drain snd_env p c = drain snd_env p c1"
    using s(1) h Cons.prems(4) parse_mbap_append [OF fr(2)] fr(4)
    by (simp add: drain.simps [of snd_env p c] Let_def)
  with Cons.IH [OF Cons.prems(1) r(2) _ s(4)] s d show ?case
    by (auto simp: split: prod.splits)
qed

section \<open>Properties\<close>


lemma handle_requests:
  assumes "reliable snd_env" "list_all request_ok rs" "bank_ok bank" "concat cs = concat (map request_frame rs)" "fits cs"
  shows "\<exists>es. observed (handle_connection snd_env p (map Chunk cs) bank)
    = (concat (fst (answer_all p bank rs)), snd (answer_all p bank rs), es, None)"
proof -
  let ?c = "(new_conn p bank)\<lparr>c_buffer := concat (map request_frame rs)\<rparr>"
  obtain c' where "drain snd_env p ?c = (c', Go)" "c_out c' = concat (fst (answer_all p bank rs))"
      "c_bank c' = snd (answer_all p bank rs)"
    using drain_requests [OF assms(1,2), of ?c p] assms(3) by (auto simp: new_conn_def)
  then show ?thesis using handle_chunks [OF assms(5), of snd_env p bank] assms(4)
    by (simp add: observed_def ended_def del: lit_simps)
qed


text \<open>
  \<^bold>\<open>C26\<close>. Every request gets one well-formed answer: dispatching a PDU of legal size never
  raises; the reply is a valid frame of exactly the announced size that carries the transaction
  and unit of the request and its function code, or that code with the exception bit; and the
  bank keeps its size and 16-bit registers.
\<close>

theorem dispatch_answers:
  assumes "bank_ok bank" "header_ok h" "length pdu \<le> MAX_PDU_LEN" "pdu \<noteq> []" "dispatch bank p h pdu = (r, bank', es)"
  shows "bank_ok bank' \<and> (\<exists>resp pdu'. r = Inr resp \<and> answers h pdu' resp \<and> length resp \<le> MAX_ADU_LEN
    \<and> (hd pdu' = hd pdu \<or> hd pdu' = low_byte (int (unat (hd pdu)) OR 128)))"
proof -
  obtain resp pdu' es' where d: "dispatch bank p h pdu
      = (Inr resp, (case write_of bank pdu of None \<Rightarrow> bank | Some (a, v) \<Rightarrow> bank\<lparr>registers := (registers bank)[a := v]\<rparr>), es')"
    "answers h pdu' resp" "hd pdu' = hd pdu \<or> hd pdu' = low_byte (int (unat (hd pdu)) OR 128)"
    using dispatch_ok [OF assms(1-4), of p] by blast
  then have "length resp \<le> MAX_ADU_LEN"
    by (auto simp: answers_def is_valid_mbap_def total_frame_len_def modbus_consts split: if_splits)
  with d assms(5) dispatch_bank_ok [OF assms(1), of pdu] show ?thesis by auto
qed

text \<open>
  \<^bold>\<open>C27\<close>. Registers change only by a well-formed write in range, which changes exactly the
  addressed register to the value sent; and \<^verbatim>\<open>sabotage_detected\<close> is published exactly when
  such a write hits the critical range.
\<close>

theorem writes_are_reported:
  assumes "bank_ok bank" "header_ok h" "length pdu \<le> MAX_PDU_LEN" "pdu \<noteq> []" "dispatch bank p h pdu = (r, bank', es)"
  shows "registers bank' = (case write_of bank pdu of None \<Rightarrow> registers bank | Some (a, v) \<Rightarrow> (registers bank)[a := v])
    \<and> (lit ''sabotage_detected'' \<in> fst ` set es \<longleftrightarrow> (\<exists>a v. write_of bank pdu = Some (a, v) \<and> is_critical bank a))"
proof -
  obtain resp pdu' es' where d: "dispatch bank p h pdu
      = (Inr resp, (case write_of bank pdu of None \<Rightarrow> bank | Some (a, v) \<Rightarrow> bank\<lparr>registers := (registers bank)[a := v]\<rparr>), es')"
    "lit ''sabotage_detected'' \<in> fst ` set es' \<longleftrightarrow> (\<exists>a v. write_of bank pdu = Some (a, v) \<and> is_critical bank a)"
    using dispatch_ok [OF assms(1-4), of p] by blast
  with assms(5) show ?thesis by (auto split: option.splits simp del: lit_simps)
qed

text \<open>
  The overflow guard runs before the buffer is drained: a single receive of more than
  1040 bytes ends the connection without an answer, although the bytes may be complete,
  well-formed requests.
\<close>

theorem pipelined_burst_dropped:
  assumes "list_all request_ok rs" "length (concat (map request_frame rs)) > MAX_BUFFER"
  shows "\<exists>es. observed (handle_connection snd_env p [Chunk (concat (map request_frame rs))] bank) = ([], bank, es, None)"
  using assms by (auto simp: handle_connection_def observed_def publish_def)

section \<open>Witnesses\<close>

definition demo_peer :: peer where
  "demo_peer = \<lparr>peer_ip = lit ''127.0.0.1'', peer_port = 40000\<rparr>"

definition demo_bank :: RegisterBank where
  "demo_bank = new_bank 256 100 110"

definition demo_request :: request where
  "demo_request = (1, 1, [6, 0, 100, 0, 7])"

lemma demo_modbus: "bank_ok demo_bank" "request_ok demo_request" "reliable (\<lambda>_. Inr 1)" "header_ok (request_header demo_request)"
  by (simp_all add: bank_ok_def demo_bank_def new_bank_def request_ok_def demo_request_def MAX_PDU_LEN_def reliable_def
      header_ok_def request_header_def)

lemma demo_frame: "request_frame demo_request = [0, 1, 0, 0, 0, 6, 1, 6, 0, 100, 0, 7]"
proof -
  have "build_response (int 1) (int 1) [6, 0, 100, 0, 7] = Inr [0, 1, 0, 0, 0, 6, 1, 6, 0, 100, 0, 7]"
    by (simp add: build_response_def to_bytes2_def MODBUS_PROTOCOL_ID_def low_byte_def byte_of_def)
  then show ?thesis by (simp add: request_frame_def demo_request_def)
qed



theorem dispatch_answers_witness:
  "\<exists>r bank' es. dispatch demo_bank demo_peer (request_header demo_request) [6, 0, 100, 0, 7] = (r, bank', es)
    \<and> bank_ok bank' \<and> is_ok r"
proof -
  obtain r bank' es where d: "dispatch demo_bank demo_peer (request_header demo_request) [6, 0, 100, 0, 7] = (r, bank', es)"
    by (cases "dispatch demo_bank demo_peer (request_header demo_request) [6, 0, 100, 0, 7]")
  with dispatch_answers [OF demo_modbus(1,4) _ _ d] show ?thesis by (auto simp: MAX_PDU_LEN_def)
qed

theorem writes_are_reported_witness:
  "\<exists>r bank' es. dispatch demo_bank demo_peer (request_header demo_request) [6, 0, 100, 0, 7] = (r, bank', es)
    \<and> registers bank' = (registers demo_bank)[100 := 7] \<and> lit ''sabotage_detected'' \<in> fst ` set es"
proof -
  obtain r bank' es where d: "dispatch demo_bank demo_peer (request_header demo_request) [6, 0, 100, 0, 7] = (r, bank', es)"
    by (cases "dispatch demo_bank demo_peer (request_header demo_request) [6, 0, 100, 0, 7]")
  have w: "write_of demo_bank [6, 0, 100, 0, 7] = Some (100, 7)" "is_critical demo_bank 100"
    by (simp_all add: write_of_def demo_bank_def new_bank_def is_critical_def FC_WRITE_SINGLE_REGISTER_def from_bytes_def)
  with writes_are_reported [OF demo_modbus(1,4) _ _ d] d show ?thesis by (auto simp: MAX_PDU_LEN_def simp del: lit_simps)
qed

theorem pipelined_burst_dropped_witness:
  "\<exists>es. observed (handle_connection (\<lambda>_. Inr 1) demo_peer [Chunk (concat (map request_frame (replicate 100 demo_request)))] demo_bank)
    = ([], demo_bank, es, None)"
  by (rule pipelined_burst_dropped)
    (simp_all add: demo_modbus demo_frame list_all_iff MAX_BUFFER_def modbus_consts length_concat sum_list_replicate)

end
