(* ===== verification/Dnp3.thy ===== *)
theory Dnp3
  imports ModbusServer PyJson
begin

text \<open>
  \<^verbatim>\<open>honeypots/dnp3_sensor.py\<close>: the connection handler of the interaction sensor. It greets,
  records a bounded sample of whatever arrives, answers with a fixed prefix and closes a session
  that exceeds its limit. Shown: what one connection can put into the log and make the sensor
  send is bounded, and every connection ends with exactly one closing event.
\<close>

definition LINK_START :: bytes where "LINK_START = [5, 100]"
definition MAX_SESSION_BYTES :: nat where "MAX_SESSION_BYTES = 64 * 1024"
definition MAX_SAMPLE_BYTES :: nat where "MAX_SAMPLE_BYTES = 32"

text \<open>\<^verbatim>\<open>bytes.hex()\<close>.\<close>

definition hex_of :: "bytes \<Rightarrow> pystr" where
  "hex_of bs = concat (map (\<lambda>b. [hex_digit (unat b div 16), hex_digit (unat b mod 16)]) bs)"

record dnp3_conn =
  session_bytes :: nat
  d_out :: bytes
  d_sends :: nat
  d_events :: "emission list"

definition d_publish :: "emission \<Rightarrow> dnp3_conn \<Rightarrow> dnp3_conn" where
  "d_publish e c = c\<lparr>d_events := d_events c @ [e]\<rparr>"

definition dnp3_send :: "send_env \<Rightarrow> bytes \<Rightarrow> dnp3_conn \<Rightarrow> dnp3_conn \<times> exn option" where
  "dnp3_send snd_env payload c =
     (case send_all snd_env (d_sends c) payload of
        (out, k, failed) \<Rightarrow> (c\<lparr>d_out := d_out c @ out, d_sends := k\<rparr>, failed))"

text \<open>What is published and counted for one received piece.\<close>

definition interaction :: "peer \<Rightarrow> bytes \<Rightarrow> dnp3_conn \<Rightarrow> dnp3_conn" where
  "interaction p bs c =
     (let n = session_bytes c + length bs in
      d_publish (emission p ''dnp3_interaction''
        [(''length'', PyInt (int (length bs))), (''session_bytes'', PyInt (int n)),
         (''hex_sample'', PyStr (hex_of (take MAX_SAMPLE_BYTES bs))), (''truncated'', PyBool (length bs > MAX_SAMPLE_BYTES))])
        (c\<lparr>session_bytes := n\<rparr>))"

fun dnp3_loop :: "send_env \<Rightarrow> peer \<Rightarrow> received list \<Rightarrow> dnp3_conn \<Rightarrow> dnp3_conn \<times> exn option" where
  "dnp3_loop snd_env p [] c = (c, None)"
| "dnp3_loop snd_env p (RecvTimeout # _) c = (d_publish (emission p ''dnp3_timeout'' []) c, None)"
| "dnp3_loop snd_env p (RecvError msg # _) c =
     (d_publish (emission p ''dnp3_connection_error'' [(''error'', PyStr msg)]) c, None)"
| "dnp3_loop snd_env p (Chunk bs # rest) c =
     (if bs = [] then (c, None)
      else
        (let c1 = interaction p bs c in
         if session_bytes c1 > MAX_SESSION_BYTES
         then (d_publish (emission p ''dnp3_session_limit'' [(''session_bytes'', PyInt (int (session_bytes c1)))]) c1, None)
         else
           (case dnp3_send snd_env (LINK_START @ [11, 68] @ take 4 bs) c1 of
              (c2, Some e) \<Rightarrow> (c2, Some e)
            | (c2, None) \<Rightarrow> dnp3_loop snd_env p rest c2)))"

definition dnp3_handle :: "send_env \<Rightarrow> (exn \<Rightarrow> pystr) \<Rightarrow> peer \<Rightarrow> received list \<Rightarrow> dnp3_conn \<times> exn option" where
  "dnp3_handle snd_env error_text p rs =
     (case dnp3_send snd_env (LINK_START @ [5, 196, 1, 2, 3, 4])
             \<lparr>session_bytes = 0, d_out = [], d_sends = 0, d_events = [emission p ''dnp3_connection'' []]\<rparr> of
        (c0, failed) \<Rightarrow>
          (case (case failed of Some e \<Rightarrow> (c0, Some e) | None \<Rightarrow> dnp3_loop snd_env p rs c0) of
             (c, r) \<Rightarrow>
               (case (if r = Some OSError
                      then (d_publish (emission p ''dnp3_connection_error'' [(''error'', PyStr (error_text OSError))]) c, None)
                      else (c, r)) of
                  (c', r') \<Rightarrow>
                    (d_publish (emission p ''dnp3_connection_closed'' [(''session_bytes'', PyInt (int (session_bytes c')))]) c', r'))))"

section \<open>Bounds\<close>

lemma hex_of_length [simp]: "length (hex_of bs) = 2 * length bs"
  by (induction bs) (simp_all add: hex_of_def)

text \<open>An event whose sample, if it has one, is short.\<close>

definition bounded_event :: "emission \<Rightarrow> bool" where
  "bounded_event e \<longleftrightarrow> (\<forall>s. dict_get (snd e) (lit ''hex_sample'') = Some (PyStr s) \<longrightarrow> length s \<le> 2 * MAX_SAMPLE_BYTES)"

lemma send_all_length: "length (fst (send_all snd_env k view)) \<le> length view"
proof (induction snd_env k view rule: send_all.induct)
  case (1 snd_env k view)
  show ?case
  proof (cases "view = [] \<or> (\<exists>e. snd_env k = Inl e) \<or> snd_env k = Inr 0")
    case False
    then obtain n where n: "snd_env k = Inr n" "0 < n" "view \<noteq> []" by (cases "snd_env k") auto
    with 1 [OF n(3,1)] show ?thesis
      by (auto simp: send_all.simps [of snd_env k view] split: prod.splits)
  qed (auto simp: send_all.simps [of snd_env k view])
qed

lemma dnp3_send_facts:
  assumes "dnp3_send snd_env payload c = (c', r)"
  shows "session_bytes c' = session_bytes c" "d_events c' = d_events c" "length (d_out c') \<le> length (d_out c) + length payload"
  using assms send_all_length [of snd_env "d_sends c" payload] by (auto simp: dnp3_send_def split: prod.splits)

lemma sample_bounded: "bounded_event (emission p ''dnp3_interaction''
   [(''length'', a), (''session_bytes'', b), (''hex_sample'', PyStr (hex_of (take MAX_SAMPLE_BYTES bs))), (''truncated'', t)])"
  by (simp add: bounded_event_def emission_def)

lemma no_sample_bounded:
  "bounded_event (emission p ''dnp3_timeout'' [])" "bounded_event (emission p ''dnp3_connection'' [])"
  "bounded_event (emission p ''dnp3_connection_error'' [(''error'', v)])"
  "bounded_event (emission p ''dnp3_session_limit'' [(''session_bytes'', v)])"
  "bounded_event (emission p ''dnp3_connection_closed'' [(''session_bytes'', v)])"
  by (simp_all add: bounded_event_def emission_def)

lemma interaction_facts [simp]:
  "session_bytes (interaction p bs c) = session_bytes c + length bs"
  "d_out (interaction p bs c) = d_out c"
  by (simp_all add: interaction_def Let_def d_publish_def)

lemma interaction_bounded: "list_all bounded_event (d_events c) \<Longrightarrow> list_all bounded_event (d_events (interaction p bs c))"
  using sample_bounded by (simp add: interaction_def Let_def d_publish_def del: lit_simps)

text \<open>The session so far: samples bounded, at most 8 bytes sent per received piece.\<close>

lemma dnp3_loop_bounds:
  assumes "dnp3_loop snd_env p rs c = (c', r)" "list_all bounded_event (d_events c)" "session_bytes c \<le> MAX_SESSION_BYTES"
    and "\<forall>bs. Chunk bs \<in> set rs \<longrightarrow> length bs \<le> 4096"
  shows "list_all bounded_event (d_events c') \<and> session_bytes c' \<le> MAX_SESSION_BYTES + 4096
    \<and> length (d_out c') \<le> length (d_out c) + 8 * length rs"
  using assms
proof (induction snd_env p rs c rule: dnp3_loop.induct)
  case (4 snd_env p bs rest c)
  let ?c1 = "interaction p bs c"
  have len: "length bs \<le> 4096" using 4(5) by auto
  show ?case
  proof (cases "bs = []")
    case True
    with 4(2-4) show ?thesis by simp
  next
    case False
    note ev = interaction_bounded [OF 4(3), of p bs]
    show ?thesis
    proof (cases "session_bytes ?c1 > MAX_SESSION_BYTES")
      case True
      with False 4(2) have "c' = d_publish (emission p ''dnp3_session_limit'' [(''session_bytes'', PyInt (int (session_bytes ?c1)))]) ?c1"
        by (simp add: Let_def del: lit_simps)
      with ev no_sample_bounded(4) len 4(4) show ?thesis by (simp add: d_publish_def del: lit_simps)
    next
      case ok: False
      obtain c2 r2 where s: "dnp3_send snd_env (LINK_START @ [11, 68] @ take 4 bs) ?c1 = (c2, r2)"
        by (cases "dnp3_send snd_env (LINK_START @ [11, 68] @ take 4 bs) ?c1")
      note f = dnp3_send_facts [OF s]
      have out: "length (d_out c2) \<le> length (d_out c) + 8" using f(3) by (simp add: LINK_START_def)
      show ?thesis
      proof (cases r2)
        case None
        with ok False 4(2) s have "dnp3_loop snd_env p rest c2 = (c', r)" by (simp add: Let_def)
        with 4(1) [OF False refl ok s [symmetric] None] ev f ok 4(5) out show ?thesis by auto
      next
        case (Some e)
        with ok False 4(2) s have "c' = c2" by (simp add: Let_def)
        with ev f ok out show ?thesis by simp
      qed
    qed
  qed
qed (use no_sample_bounded in \<open>auto simp: d_publish_def simp del: lit_simps\<close>)

text \<open>
  \<^bold>\<open>C28\<close>. What one peer can make the sensor record and send is bounded: with reads of at most
  4096 bytes, a session ends at most 4096 bytes above the limit of 64 KiB, no event carries more
  than 64 hex digits of payload, the sensor sends at most 8 bytes plus 8 per read, and the last
  event is \<^verbatim>\<open>dnp3_connection_closed\<close> with the number of bytes received, also when sending
  fails.
\<close>

theorem dnp3_session_bounded:
  assumes "dnp3_handle snd_env error_text p rs = (c, r)" "\<forall>bs. Chunk bs \<in> set rs \<longrightarrow> length bs \<le> 4096"
  shows "list_all bounded_event (d_events c) \<and> session_bytes c \<le> MAX_SESSION_BYTES + 4096
    \<and> length (d_out c) \<le> 8 + 8 * length rs
    \<and> last (d_events c) = emission p ''dnp3_connection_closed'' [(''session_bytes'', PyInt (int (session_bytes c)))]"
proof -
  let ?start = "\<lparr>session_bytes = 0, d_out = [], d_sends = 0, d_events = [emission p ''dnp3_connection'' []]\<rparr>"
  obtain c0 f where s: "dnp3_send snd_env (LINK_START @ [5, 196, 1, 2, 3, 4]) ?start = (c0, f)"
    by (cases "dnp3_send snd_env (LINK_START @ [5, 196, 1, 2, 3, 4]) ?start")
  note f0 = dnp3_send_facts [OF s]
  have c0: "session_bytes c0 = 0" "list_all bounded_event (d_events c0)" "length (d_out c0) \<le> 8"
    using f0 no_sample_bounded(2) by (simp_all add: LINK_START_def del: lit_simps)
  obtain c1 r1 where l: "(case f of Some e \<Rightarrow> (c0, Some e) | None \<Rightarrow> dnp3_loop snd_env p rs c0) = (c1, r1)"
    by (cases "case f of Some e \<Rightarrow> (c0, Some e) | None \<Rightarrow> dnp3_loop snd_env p rs c0")
  have b: "list_all bounded_event (d_events c1) \<and> session_bytes c1 \<le> MAX_SESSION_BYTES + 4096 \<and> length (d_out c1) \<le> 8 + 8 * length rs"
  proof (cases f)
    case None
    with l have run: "dnp3_loop snd_env p rs c0 = (c1, r1)" by simp
    have "session_bytes c0 \<le> MAX_SESSION_BYTES" using c0(1) by simp
    from dnp3_loop_bounds [OF run c0(2) this assms(2)] c0(3) show ?thesis by auto
  qed (use l c0 in auto)
  then show ?thesis using assms(1) s l no_sample_bounded(3,5)
    by (cases "r1 = Some OSError") (auto simp: dnp3_handle_def d_publish_def simp del: lit_simps)
qed

theorem dnp3_session_bounded_witness:
  "\<exists>c r. dnp3_handle (\<lambda>_. Inr 4) (\<lambda>_. []) demo_peer [Chunk [5, 100, 5, 192]] = (c, r)
    \<and> list_all bounded_event (d_events c) \<and> length (d_out c) \<le> 16"
proof -
  obtain c r where run: "dnp3_handle (\<lambda>_. Inr 4) (\<lambda>_. []) demo_peer [Chunk [5, 100, 5, 192]] = (c, r)"
    by (cases "dnp3_handle (\<lambda>_. Inr 4) (\<lambda>_. []) demo_peer [Chunk [5, 100, 5, 192]]")
  with dnp3_session_bounded [OF run] show ?thesis by auto
qed

end
