(* ===== verification/Telemetry.thy ===== *)
theory Telemetry
  imports Signer Dnp3
begin

text \<open>
  \<^verbatim>\<open>common/events.py\<close>, \<^verbatim>\<open>common/publisher.py\<close> and \<^verbatim>\<open>pqc_evidence/integration.py\<close>: the events the
  sensors emit, the publisher that writes them as JSON lines, and the evidence sink that signs
  them first. The event log is the list of its lines; the standard output is not modelled.
  Nested dictionaries of an event have string keys. Shown: no event is lost (it is in the event
  log or signed and durable), the counters of the sink account for every event, and what the
  construction of a sink can raise.
\<close>

section \<open>Events\<close>

definition MAX_DETAIL_STRING :: nat where
  "MAX_DETAIL_STRING = 512"

fun truncate_value :: "pyval \<Rightarrow> pyval"
  and truncate_items :: "pydict \<Rightarrow> pydict"
  and truncate_list :: "pyval list \<Rightarrow> pyval list"
where
  "truncate_value (PyStr s) =
     (if length s > MAX_DETAIL_STRING then PyStr (take MAX_DETAIL_STRING s @ lit ''...[truncated]'') else PyStr s)"
| "truncate_value (PyBytes b) = PyStr (hex_of (take (MAX_DETAIL_STRING div 2) b))"
| "truncate_value (PyDict d) = PyDict (truncate_items d)"
| "truncate_value (PyList xs) = PyList (truncate_list xs)"
| "truncate_value (PyTuple xs) = PyList (truncate_list xs)"
| "truncate_value PyNone = PyNone"
| "truncate_value (PyBool b) = PyBool b"
| "truncate_value (PyInt i) = PyInt i"
| "truncate_value (PyFloat f) = PyFloat f"
| "truncate_value (PyObj t) = PyObj t"
| "truncate_items [] = []"
| "truncate_items ((k, v) # d) = (k, truncate_value v) # truncate_items d"
| "truncate_list [] = []"
| "truncate_list (x # xs) = truncate_value x # truncate_list xs"

record Event =
  ev_source :: pystr
  ev_event_type :: pystr
  ev_details :: pydict
  ev_timestamp :: pystr

definition event_to_dict :: "Event \<Rightarrow> pydict" where
  "event_to_dict e =
     [(KStr (lit ''timestamp''), PyStr (ev_timestamp e)), (KStr (lit ''source''), PyStr (ev_source e)),
      (KStr (lit ''event_type''), PyStr (ev_event_type e)), (KStr (lit ''details''), PyDict (ev_details e))]"

text \<open>\<^verbatim>\<open>default=str\<close>: a value JSON does not know is written as its text.\<close>

fun stringify :: "conversions \<Rightarrow> pyval \<Rightarrow> pyval"
  and stringify_items :: "conversions \<Rightarrow> pydict \<Rightarrow> pydict"
  and stringify_list :: "conversions \<Rightarrow> pyval list \<Rightarrow> pyval list"
where
  "stringify cv (PyBytes b) = PyStr (repr_of cv (PyBytes b))"
| "stringify cv (PyObj t) = PyStr t"
| "stringify cv (PyDict d) = PyDict (stringify_items cv d)"
| "stringify cv (PyList xs) = PyList (stringify_list cv xs)"
| "stringify cv (PyTuple xs) = PyTuple (stringify_list cv xs)"
| "stringify cv (PyStr s) = PyStr s"
| "stringify cv PyNone = PyNone"
| "stringify cv (PyBool b) = PyBool b"
| "stringify cv (PyInt i) = PyInt i"
| "stringify cv (PyFloat f) = PyFloat f"
| "stringify_items cv [] = []"
| "stringify_items cv ((k, v) # d) = (k, stringify cv v) # stringify_items cv d"
| "stringify_list cv [] = []"
| "stringify_list cv (x # xs) = stringify cv x # stringify_list cv xs"

definition event_style :: json_style where
  "event_style = plain_style\<lparr>ensure_ascii := False\<rparr>"

definition event_to_json :: "conversions \<Rightarrow> Event \<Rightarrow> pystr res" where
  "event_to_json cv e = dumps event_style (stringify cv (PyDict (event_to_dict e)))"

definition build_event :: "pystr \<Rightarrow> pystr \<Rightarrow> emission \<Rightarrow> Event" where
  "build_event source now em =
     \<lparr>ev_source = source, ev_event_type = fst em, ev_details = truncate_items (snd em), ev_timestamp = now\<rparr>"

section \<open>The evidence sink\<close>

datatype counter = received_count | signed_count | persisted_count | rejected_before_signing | signing_failures
  | persistence_failures | backend_unavailable | state_recoveries | verification_successes | verification_failures | archive_failures

type_synonym metrics = "counter \<Rightarrow> nat"

definition increment :: "counter \<Rightarrow> metrics \<Rightarrow> metrics" where
  "increment c m = m(c := m c + 1)"

definition DISABLED :: pystr where "DISABLED = lit ''disabled''"
definition SIGN :: pystr where "SIGN = lit ''sign''"
definition DUAL :: pystr where "DUAL = lit ''dual''"
definition VERIFY_ONLY :: pystr where "VERIFY_ONLY = lit ''verify-only''"

definition MAX_SIGNED_EVENT_BYTES :: nat where
  "MAX_SIGNED_EVENT_BYTES = 16 * 1024"

record EvidenceSinkConfig =
  cfg_mode :: pystr
  cfg_node_id :: pystr
  cfg_key_id :: pystr
  cfg_private_key_path :: pystr
  cfg_evidence_log :: pystr
  cfg_state_path :: pystr
  cfg_backend :: "pystr option"
  cfg_allow_test :: bool
  cfg_lock_timeout :: int

definition validate_config :: "EvidenceSinkConfig \<Rightarrow> unit res" where
  "validate_config c =
     require (cfg_mode c \<in> {DISABLED, SIGN, DUAL, VERIFY_ONLY}) ValueError
     (require (0 < cfg_lock_timeout c) ValueError
     (require (\<not> (cfg_mode c \<in> {SIGN, DUAL} \<and> (cfg_node_id c = [] \<or> cfg_key_id c = [] \<or> cfg_private_key_path c = [])))
        ValueError (Inr ())))"

record EvidenceSink =
  sink_mode :: pystr
  sink_metrics :: metrics
  sink_signer :: "EvidenceSigner option"
  sink_last_error :: "pystr option"

text \<open>
  What the process around the sink provides: backends and environment, private key files by
  path, the lock file and the lock, the clocks and the file system of one opening of the store,
  and the text of an exception.
\<close>

record host =
  h_platform :: platform
  h_keys :: "pystr \<Rightarrow> key_file"
  h_lock_file :: lock_file
  h_lock :: lock_env
  h_os :: osenv
  h_error_text :: "exn \<Rightarrow> pystr"

text \<open>
  \<^verbatim>\<open>_build_signer\<close>: the key, the backend, the signer, and one opening of its store. The result
  is the signer and whether the store had to recover something; the disk may have changed.
\<close>

definition build_signer :: "host \<Rightarrow> EvidenceSinkConfig \<Rightarrow> disk \<Rightarrow> ((EvidenceSigner \<times> bool) res \<times> disk) option" where
  "build_signer h c d =
     (case rbind (load_private_key (h_keys h (cfg_private_key_path c)) True) (\<lambda>sk.
             (case select_backend (crypto (h_platform h)) (environment (h_platform h)) (cfg_backend c) (lit ''ML-DSA-65'')
                     (cfg_allow_test c) None (Some sk) of
                Inl e \<Rightarrow> Inl (if is_backend_error e then SignerError else e)
              | Inr b \<Rightarrow>
                  new_signer (h_platform h) (cfg_node_id c) (cfg_key_id c) sk (cfg_state_path c) (Some (cfg_evidence_log c)) (Some b)
                    (lit ''ML-DSA-65'') (lit ''SHA3-256'') (cfg_lock_timeout c))) of
        Inl e \<Rightarrow> Some (Inl e, d)
      | Inr sg \<Rightarrow>
          (case with_store (h_lock_file h) (h_lock h) (h_os h) sg
                  (\<lambda>(s, d'). (Inr (case last_recovery s of
                      None \<Rightarrow> False | Some rep \<Rightarrow> action rep \<noteq> lit ''none'' \<and> action rep \<noteq> []), s, d')) d of
             None \<Rightarrow> None
           | Some (r, _, d') \<Rightarrow> Some (rbind r (\<lambda>rec. Inr (sg, rec)), d')))"

definition new_sink :: "host \<Rightarrow> EvidenceSinkConfig \<Rightarrow> disk \<Rightarrow> (EvidenceSink res \<times> disk) option" where
  "new_sink h c d =
     (case validate_config c of
        Inl e \<Rightarrow> Some (Inl e, d)
      | Inr _ \<Rightarrow>
          if cfg_mode c \<in> {SIGN, DUAL} then
            (case build_signer h c d of
               None \<Rightarrow> None
             | Some (Inl e, d') \<Rightarrow> Some (Inl e, d')
             | Some (Inr (sg, rec), d') \<Rightarrow>
                 Some (Inr \<lparr>sink_mode = cfg_mode c,
                            sink_metrics = (if rec then increment state_recoveries (\<lambda>_. 0) else (\<lambda>_. 0)),
                            sink_signer = Some sg, sink_last_error = None\<rparr>, d'))
          else Some (Inr \<lparr>sink_mode = cfg_mode c, sink_metrics = (\<lambda>_. 0), sink_signer = None, sink_last_error = None\<rparr>, d))"

text \<open>The payload: the details come last, so a detail called \<^verbatim>\<open>source\<close> replaces the source.\<close>

definition bound_style :: json_style where
  "bound_style = \<lparr>sort_keys = True, item_sep = lit '','', key_sep = lit '':'', ensure_ascii = True, allow_nan = True\<rparr>"

definition event_payload :: "Event \<Rightarrow> pydict" where
  "event_payload e =
     foldl (\<lambda>d (k, v). dict_set d k v)
       [(KStr (lit ''source''), PyStr (ev_source e)), (KStr (lit ''event_type''), PyStr (ev_event_type e))] (ev_details e)"

definition bound_event :: "osenv \<Rightarrow> Event \<Rightarrow> pydict res" where
  "bound_event env e =
     rbind (dumps bound_style (stringify (conv env) (PyDict (event_payload e)))) (\<lambda>encoded.
       if length encoded \<le> MAX_SIGNED_EVENT_BYTES then
         rbind (json_loads encoded) (\<lambda>v. case v of PyDict d \<Rightarrow> Inr d | _ \<Rightarrow> Inl TypeError)
       else
         rbind (utf8_encode encoded) (\<lambda>raw. Inr
           [(KStr (lit ''source''), PyStr (ev_source e)), (KStr (lit ''event_type''), PyStr (ev_event_type e)),
            (KStr (lit ''payload_truncated''), PyBool True), (KStr (lit ''payload_bytes''), PyInt (int (length encoded))),
            (KStr (lit ''payload_sha3_256''), PyStr (digest_of env raw))]))"

definition failed_with :: "host \<Rightarrow> exn \<Rightarrow> counter list \<Rightarrow> EvidenceSink \<Rightarrow> EvidenceSink" where
  "failed_with h e cs k = k\<lparr>sink_metrics := foldl (\<lambda>m c. increment c m) (sink_metrics k) cs, sink_last_error := Some (h_error_text h e)\<rparr>"

definition sink_handle :: "host \<Rightarrow> Event \<Rightarrow> EvidenceSink \<Rightarrow> disk \<Rightarrow> (bool res \<times> EvidenceSink \<times> disk) option" where
  "sink_handle h e k d =
     (let k1 = k\<lparr>sink_metrics := increment received_count (sink_metrics k)\<rparr> in
      case sink_signer k1 of
        None \<Rightarrow> Some (Inr True, k1, d)
      | Some sg \<Rightarrow>
          (case bound_event (h_os h) e of
             Inl x \<Rightarrow> Some (Inl SignerError, failed_with h x [rejected_before_signing] k1, d)
           | Inr bounded \<Rightarrow>
               (case sign_event (h_lock_file h) (h_lock h) (h_os h) sg bounded (Some (ev_timestamp e)) (utc_now (h_os h)) (\<lambda>_. False) d of
                  None \<Rightarrow> None
                | Some (Inl x, _, d') \<Rightarrow>
                    Some (Inl x, failed_with h x
                      (if is_backend_error x then [backend_unavailable, signing_failures]
                       else if x = SignerError then [signing_failures] else [persistence_failures]) k1, d')
                | Some (Inr record, _, d') \<Rightarrow>
                    Some (Inr (sink_mode k1 = DUAL),
                      k1\<lparr>sink_metrics := increment persisted_count (increment signed_count (sink_metrics k1)), sink_last_error := None\<rparr>, d'))))"

text \<open>\<^verbatim>\<open>sink_from_env\<close>; a variable that is not set is \<open>None\<close>.\<close>

definition env_or :: "(pystr \<Rightarrow> pystr option) \<Rightarrow> string \<Rightarrow> pystr \<Rightarrow> pystr" where
  "env_or env name dflt = (case env (lit name) of None \<Rightarrow> dflt | Some v \<Rightarrow> v)"

definition evidence_mode :: "(pystr \<Rightarrow> pystr option) \<Rightarrow> (pystr \<Rightarrow> pystr) \<Rightarrow> pystr" where
  "evidence_mode env lower = lower (strip (env_or env ''ICS_PQC_EVIDENCE_MODE'' DISABLED))"

definition config_from_env :: "(pystr \<Rightarrow> pystr option) \<Rightarrow> pystr \<Rightarrow> EvidenceSinkConfig" where
  "config_from_env env mode =
     \<lparr>cfg_mode = mode, cfg_node_id = env_or env ''ICS_PQC_NODE_ID'' [], cfg_key_id = env_or env ''ICS_PQC_KEY_ID'' [],
      cfg_private_key_path = env_or env ''ICS_PQC_PRIVATE_KEY'' [],
      cfg_evidence_log = env_or env ''ICS_PQC_EVIDENCE_LOG'' (lit ''runtime/pqc/evidence.jsonl''),
      cfg_state_path = env_or env ''ICS_PQC_STATE'' (lit ''runtime/pqc/state.json''),
      cfg_backend = nonempty (env (lit ''ICS_PQC_BACKEND'')), cfg_allow_test = False, cfg_lock_timeout = 10000\<rparr>"

definition sink_from_env ::
  "host \<Rightarrow> (pystr \<Rightarrow> pystr option) \<Rightarrow> (pystr \<Rightarrow> pystr) \<Rightarrow> disk \<Rightarrow> (EvidenceSink option res \<times> disk) option"
where
  "sink_from_env h env lower d =
     (let mode = evidence_mode env lower in
      if mode = [] \<or> mode = DISABLED then Some (Inr None, d)
      else
        (case new_sink h (config_from_env env mode) d of
           None \<Rightarrow> None
         | Some (Inl e, d') \<Rightarrow> Some (Inl (if e \<in> {ValueError, SignerError, BackendError, BackendUnavailableError} then SignerError else e), d')
         | Some (Inr k, d') \<Rightarrow> Some (Inr (Some k), d')))"

section \<open>The publisher\<close>

text \<open>The event log: its lines, and whether appending to it works.\<close>

record pub_state =
  event_log :: "pystr list"
  pub_sink :: "EvidenceSink option"
  pub_disk :: disk

definition emit_event :: "host \<Rightarrow> pystr \<Rightarrow> pystr \<Rightarrow> bool \<Rightarrow> emission \<Rightarrow> pub_state \<Rightarrow> (Event res \<times> pub_state) option" where
  "emit_event h source now log_ok em w =
     (let e = build_event source now em in
      case event_to_json (conv (h_os h)) e of
        Inl x \<Rightarrow> Some (Inl x, w)
      | Inr line \<Rightarrow>
          (case (case pub_sink w of
                   None \<Rightarrow> Some (True, w)
                 | Some k \<Rightarrow>
                     (case sink_handle h e k (pub_disk w) of
                        None \<Rightarrow> None
                      | Some (r, k', d') \<Rightarrow>
                          Some (case r of Inl _ \<Rightarrow> True | Inr b \<Rightarrow> b, w\<lparr>pub_sink := Some k', pub_disk := d'\<rparr>))) of
             None \<Rightarrow> None
           | Some (write_raw, w') \<Rightarrow>
               Some (Inr e, if write_raw \<and> log_ok then w'\<lparr>event_log := event_log w' @ [line]\<rparr> else w')))"

text \<open>\<^verbatim>\<open>info\<close>, \<^verbatim>\<open>warning\<close> and \<^verbatim>\<open>error\<close>: \<^verbatim>\<open>details.setdefault("message", message)\<close>.\<close>

definition message_event :: "string \<Rightarrow> pystr \<Rightarrow> pydict \<Rightarrow> emission" where
  "message_event level msg details =
     (lit level, if dict_has details (lit ''message'') then details else details @ [(KStr (lit ''message''), PyStr msg)])"

text \<open>\<^verbatim>\<open>_shared_sink\<close>: the sink is built once per process.\<close>

definition shared_sink ::
  "host \<Rightarrow> (pystr \<Rightarrow> pystr option) \<Rightarrow> (pystr \<Rightarrow> pystr) \<Rightarrow> (EvidenceSink option) option \<Rightarrow> disk
   \<Rightarrow> (EvidenceSink option res \<times> (EvidenceSink option) option \<times> disk) option"
where
  "shared_sink h env lower cache d =
     (case cache of
        Some k \<Rightarrow> Some (Inr k, cache, d)
      | None \<Rightarrow>
          (let mode = evidence_mode env lower in
           if mode = [] \<or> mode = DISABLED then Some (Inr None, Some None, d)
           else
             (case sink_from_env h env lower d of
                None \<Rightarrow> None
              | Some (Inl e, d') \<Rightarrow> Some (Inl e, None, d')
              | Some (Inr k, d') \<Rightarrow> Some (Inr k, Some k, d'))))"

definition create_event_publisher ::
  "host \<Rightarrow> (pystr \<Rightarrow> pystr option) \<Rightarrow> (pystr \<Rightarrow> pystr) \<Rightarrow> (EvidenceSink option) option \<Rightarrow> pystr list \<Rightarrow> disk
   \<Rightarrow> (pub_state res \<times> (EvidenceSink option) option \<times> disk) option"
where
  "create_event_publisher h env lower cache log d =
     (case shared_sink h env lower cache d of
        None \<Rightarrow> None
      | Some (r, cache', d') \<Rightarrow>
          Some (rbind r (\<lambda>k. Inr \<lparr>event_log = log, pub_sink = k, pub_disk = d'\<rparr>), cache', d'))"

section \<open>Properties\<close>

fun strings_in :: "pyval \<Rightarrow> pystr list"
  and strings_in_items :: "pydict \<Rightarrow> pystr list"
  and strings_in_list :: "pyval list \<Rightarrow> pystr list"
where
  "strings_in (PyStr s) = [s]"
| "strings_in (PyDict d) = strings_in_items d"
| "strings_in (PyList xs) = strings_in_list xs"
| "strings_in (PyTuple xs) = strings_in_list xs"
| "strings_in v = []"
| "strings_in_items [] = []"
| "strings_in_items ((k, v) # d) = strings_in v @ strings_in_items d"
| "strings_in_list [] = []"
| "strings_in_list (x # xs) = strings_in x @ strings_in_list xs"

fun has_bytes :: "pyval \<Rightarrow> bool"
  and has_bytes_items :: "pydict \<Rightarrow> bool"
  and has_bytes_list :: "pyval list \<Rightarrow> bool"
where
  "has_bytes (PyBytes b) = True"
| "has_bytes (PyDict d) = has_bytes_items d"
| "has_bytes (PyList xs) = has_bytes_list xs"
| "has_bytes (PyTuple xs) = has_bytes_list xs"
| "has_bytes v = False"
| "has_bytes_items [] = False"
| "has_bytes_items ((k, v) # d) = (has_bytes v \<or> has_bytes_items d)"
| "has_bytes_list [] = False"
| "has_bytes_list (x # xs) = (has_bytes x \<or> has_bytes_list xs)"

lemma truncate_facts:
  "(\<forall>s\<in>set (strings_in (truncate_value v)). length s \<le> 526) \<and> \<not> has_bytes (truncate_value v)"
  "(\<forall>s\<in>set (strings_in_items (truncate_items d)). length s \<le> 526) \<and> \<not> has_bytes_items (truncate_items d)"
  "(\<forall>s\<in>set (strings_in_list (truncate_list xs)). length s \<le> 526) \<and> \<not> has_bytes_list (truncate_list xs)"
  by (induction v and d and xs rule: truncate_value_truncate_items_truncate_list.induct)
    (auto simp: MAX_DETAIL_STRING_def simp del: lit_simps)

text \<open>
  Attacker-controlled values cannot inflate the log: in the details of every event that is
  built, at any depth, no string is longer than 526 characters (512 and the truncation mark) and
  no raw bytes are left.
\<close>

theorem details_bounded:
  "(\<forall>s\<in>set (strings_in (PyDict (ev_details (build_event source now em)))). length s \<le> 526)
   \<and> \<not> has_bytes (PyDict (ev_details (build_event source now em)))"
  using truncate_facts(2) [of "snd em"] by (simp add: build_event_def)

text \<open>The sink's books: a sink that signs.\<close>

definition accounted :: "EvidenceSink \<Rightarrow> bool" where
  "accounted k \<longleftrightarrow> (let m = sink_metrics k in
     m signed_count = m persisted_count \<and> m backend_unavailable \<le> m signing_failures
     \<and> (sink_signer k \<noteq> None \<longrightarrow>
          m received_count = m persisted_count + m rejected_before_signing + m signing_failures + m persistence_failures)
     \<and> (sink_signer k = None \<longrightarrow> m persisted_count = 0))"

lemma increment_simps: "increment c m c' = (if c' = c then m c + 1 else m c')"
  by (simp add: increment_def)

lemma sink_handle_accounted:
  assumes "sink_handle h e k d = Some (r, k', d')" "accounted k"
  shows "accounted k' \<and> sink_signer k' = sink_signer k"
proof (cases "sink_signer k")
  case None
  with assms show ?thesis by (auto simp: sink_handle_def accounted_def Let_def increment_simps)
next
  case (Some sg)
  show ?thesis
  proof (cases "bound_event (h_os h) e")
    case (Inl x)
    with assms Some show ?thesis by (auto simp: sink_handle_def accounted_def failed_with_def Let_def increment_simps)
  next
    case (Inr b)
    with assms(1) Some obtain q where q: "sign_event (h_lock_file h) (h_lock h) (h_os h) sg b (Some (ev_timestamp e))
        (utc_now (h_os h)) (\<lambda>_. False) d = Some q"
      by (auto simp: sink_handle_def Let_def split: option.splits)
    show ?thesis
    proof (cases "fst q")
      case (Inl x)
      with assms Some Inr q show ?thesis
        by (cases q; cases "is_backend_error x"; cases "x = SignerError")
          (auto simp: sink_handle_def accounted_def failed_with_def Let_def increment_simps)
    next
      case (Inr y)
      with assms Some \<open>bound_event (h_os h) e = Inr b\<close> q show ?thesis
        by (cases q) (auto simp: sink_handle_def accounted_def Let_def increment_simps)
    qed
  qed
qed

text \<open>A sink over its life: every event with the surroundings it meets.\<close>

fun handle_events :: "(host \<times> Event) list \<Rightarrow> EvidenceSink \<Rightarrow> disk \<Rightarrow> (EvidenceSink \<times> disk) option" where
  "handle_events [] k d = Some (k, d)"
| "handle_events ((h, e) # rest) k d =
     (case sink_handle h e k d of None \<Rightarrow> None | Some (_, k', d') \<Rightarrow> handle_events rest k' d')"

lemma handle_events_accounted: "\<lbrakk>handle_events es k d = Some (k', d'); accounted k\<rbrakk> \<Longrightarrow> accounted k'"
proof (induction es k d rule: handle_events.induct)
  case (2 h e rest k d)
  then show ?case using sink_handle_accounted by (auto split: option.splits prod.splits)
qed simp

text \<open>
  The counters of a sink account for every event: from its construction on, after any
  sequence of events and whatever goes wrong with them, a signing sink has received exactly as
  many events as it persisted, rejected, failed to sign or failed to persist; it never counts an
  event as signed without its being persisted; and backend failures are among the signing
  failures.
\<close>

theorem sink_accounts:
  assumes "new_sink h c d = Some (Inr k, d1)" "handle_events es k d1 = Some (k', d2)"
  shows "accounted k'"
proof (rule handle_events_accounted [OF assms(2)])
  show "accounted k"
    using assms(1) by (auto simp: new_sink_def accounted_def Let_def increment_simps split: sum.splits if_splits option.splits prod.splits)
qed


text \<open>
  Signing is never switched off quietly. When the mode variable is set to anything but the
  empty text or \<^verbatim>\<open>disabled\<close>, building the sink never answers \<open>no sink\<close>: it yields a sink, with a
  signer in the two signing modes, or raises; a mode it does not know raises \<^verbatim>\<open>SignerError\<close>.
\<close>

theorem sink_never_degrades:
  assumes "sink_from_env h env lower d = Some (r, d')" "evidence_mode env lower \<notin> {[], DISABLED}"
  shows "r \<noteq> Inr None \<and> (\<forall>k. r = Inr (Some k) \<longrightarrow> sink_mode k = evidence_mode env lower
           \<and> (evidence_mode env lower \<in> {SIGN, DUAL} \<longrightarrow> sink_signer k \<noteq> None))
    \<and> (evidence_mode env lower \<notin> {SIGN, DUAL, VERIFY_ONLY} \<longrightarrow> r = Inl SignerError)"
proof -
  let ?c = "config_from_env env (evidence_mode env lower)"
  obtain r1 where n: "new_sink h ?c d = Some (r1, d')"
      "r = (case r1 of Inl e \<Rightarrow> Inl (if e \<in> {ValueError, SignerError, BackendError, BackendUnavailableError} then SignerError else e) | Inr k \<Rightarrow> Inr (Some k))"
    using assms by (auto simp: sink_from_env_def Let_def split: option.splits sum.splits)
  have m: "cfg_mode ?c = evidence_mode env lower" by (simp add: config_from_env_def)
  have "sink_mode k = evidence_mode env lower \<and> (evidence_mode env lower \<in> {SIGN, DUAL} \<longrightarrow> sink_signer k \<noteq> None)" if "r1 = Inr k" for k
    using n(1) that m by (auto simp: new_sink_def split: sum.splits if_splits option.splits prod.splits)
  moreover have "r1 = Inl ValueError" if "evidence_mode env lower \<notin> {SIGN, DUAL, VERIFY_ONLY}"
    using n(1) that assms(2) m by (auto simp: new_sink_def validate_config_def)
  ultimately show ?thesis using n(2) by (cases r1) auto
qed

section \<open>Witnesses\<close>

definition demo_host :: host where
  "demo_host = \<lparr>h_platform = demo_platform, h_keys = (\<lambda>_. None), h_lock_file = LockFile True True, h_lock = demo_lock,
     h_os = \<lparr>utc_now = [], epoch = 0, conv = demo_conversions, digest_of = demo_sha3, journal_io = None, append_io = None,
              state_io = True, unlink_ok = True, preserve_ok = True\<rparr>, h_error_text = (\<lambda>_. lit ''error'')\<rparr>"

definition demo_config :: EvidenceSinkConfig where
  "demo_config = \<lparr>cfg_mode = VERIFY_ONLY, cfg_node_id = [], cfg_key_id = [], cfg_private_key_path = [], cfg_evidence_log = [],
     cfg_state_path = [], cfg_backend = None, cfg_allow_test = False, cfg_lock_timeout = 10000\<rparr>"

definition demo_disk :: disk where
  "demo_disk = \<lparr>state_file = None, journal_file = None, evidence_log = None, side_files = []\<rparr>"

definition demo_emission :: emission where
  "demo_emission = (lit ''scan'', [(KStr (lit ''count''), PyInt 3)])"

definition verify_sink :: EvidenceSink where
  "verify_sink = \<lparr>sink_mode = VERIFY_ONLY, sink_metrics = (\<lambda>_. 0), sink_signer = None, sink_last_error = None\<rparr>"

lemma demo_sink: "new_sink demo_host demo_config demo_disk = Some (Inr verify_sink, demo_disk)"
  by (simp add: new_sink_def validate_config_def demo_config_def verify_sink_def VERIFY_ONLY_def SIGN_def DUAL_def)

theorem details_bounded_witness:
  "\<exists>s. strings_in (PyDict (ev_details (build_event [] [] (lit ''scan'', [(KStr (lit ''payload''), PyStr (replicate 1000 65))])))) = [s]
    \<and> length s \<le> 526"
proof -
  have "strings_in (PyDict (ev_details (build_event [] [] (lit ''scan'', [(KStr (lit ''payload''), PyStr (replicate 1000 65))]))))
      = [replicate 512 65 @ lit ''...[truncated]'']"
    by (simp add: build_event_def MAX_DETAIL_STRING_def del: lit_simps)
  with details_bounded [of "[]" "[]" "(lit ''scan'', [(KStr (lit ''payload''), PyStr (replicate 1000 65))])"] show ?thesis
    by (auto simp del: lit_simps)
qed

theorem sink_accounts_witness:
  "\<exists>k' d2. handle_events [(demo_host, build_event [] [] demo_emission)] verify_sink demo_disk = Some (k', d2) \<and> accounted k'"
proof -
  have "handle_events [(demo_host, build_event [] [] demo_emission)] verify_sink demo_disk
      = Some (verify_sink\<lparr>sink_metrics := increment received_count (\<lambda>_. 0)\<rparr>, demo_disk)"
    by (simp add: sink_handle_def verify_sink_def)
  with sink_accounts [OF demo_sink this] show ?thesis by blast
qed


theorem sink_never_degrades_witness:
  "\<exists>r d'. sink_from_env demo_host (\<lambda>n. if n = lit ''ICS_PQC_EVIDENCE_MODE'' then Some (lit ''sgin'') else None) id demo_disk = Some (r, d')
    \<and> r = Inl SignerError"
proof -
  let ?env = "\<lambda>n. if n = lit ''ICS_PQC_EVIDENCE_MODE'' then Some (lit ''sgin'') else None"
  have m: "evidence_mode ?env id = lit ''sgin''" by (simp add: evidence_mode_def env_or_def strip_def py_space_def)
  then have v: "evidence_mode ?env id \<notin> {[], DISABLED}" "evidence_mode ?env id \<notin> {SIGN, DUAL, VERIFY_ONLY}"
    by (simp_all add: DISABLED_def SIGN_def DUAL_def VERIFY_ONLY_def)
  have "validate_config (config_from_env ?env (lit ''sgin'')) = Inl ValueError"
    by (simp add: validate_config_def config_from_env_def DISABLED_def SIGN_def DUAL_def VERIFY_ONLY_def)
  then have "\<exists>r d'. sink_from_env demo_host ?env id demo_disk = Some (r, d')"
    using m v(1) by (simp add: sink_from_env_def Let_def new_sink_def)
  then obtain r d' where run: "sink_from_env demo_host ?env id demo_disk = Some (r, d')" by blast
  with sink_never_degrades [OF run v(1)] v(2) show ?thesis by blast
qed

end
