(* ===== verification/FakePlc.thy ===== *)
theory FakePlc
  imports ModbusServer PyJson
begin

unbundle bit_operations_syntax

text \<open>
  \<^verbatim>\<open>iot_nodes/fake_plc.py\<close>: the node that polls the Modbus server with FC03 requests and keeps
  its last reading in a state file. The network is a function from the request to what arrives,
  in pieces; the state file is the document that was last written completely (the replacement is
  atomic), not its text. Shown: against the server of \<open>ModbusServer\<close> a poll returns exactly the
  registers of the bank; a poll raises only what its documentation says; transaction identifiers
  stay in range.
\<close>

section \<open>Polling\<close>

text \<open>\<^verbatim>\<open>recv\<close> takes at most the bytes asked for from the next piece; an empty piece is the end.\<close>

type_synonym arrivals = "bytes res list"

function recv_exact :: "arrivals \<Rightarrow> nat \<Rightarrow> (bytes \<times> arrivals) res" where
  "recv_exact sock remaining =
     (if remaining = 0 then Inr ([], sock)
      else
        (case sock of
           [] \<Rightarrow> Inl OSError
         | Inl e # _ \<Rightarrow> Inl e
         | Inr piece # rest \<Rightarrow>
             if piece = [] then Inl OSError
             else
               (let chunk = take remaining piece; left = drop remaining piece in
                rbind (recv_exact (if left = [] then rest else Inr left # rest) (remaining - length chunk))
                  (\<lambda>(bs, sock'). Inr (chunk @ bs, sock')))))"
  by pat_completeness auto
termination by (relation "measure snd") auto

declare recv_exact.simps [simp del]

lemma recv_exact_simps:
  "recv_exact sock 0 = Inr ([], sock)"
  "0 < n \<Longrightarrow> recv_exact [] n = Inl OSError"
  "0 < n \<Longrightarrow> recv_exact (Inl e # rest) n = Inl e"
  "0 < n \<Longrightarrow> recv_exact (Inr piece # rest) n =
     (if piece = [] then Inl OSError
      else rbind (recv_exact (if drop n piece = [] then rest else Inr (drop n piece) # rest) (n - length (take n piece)))
             (\<lambda>(bs, sock'). Inr (take n piece @ bs, sock')))"
  by (subst recv_exact.simps, simp add: Let_def)+

record poll_result =
  pr_ok :: bool
  pr_function_code :: nat
  pr_exception_code :: "nat option"
  pr_registers :: "nat list"

fun register_pairs :: "bytes \<Rightarrow> nat list" where
  "register_pairs (a # b # r) = from_bytes [a, b] # register_pairs r"
| "register_pairs [a] = [from_bytes [a]]"
| "register_pairs [] = []"

definition read_pdu :: "bytes \<Rightarrow> poll_result res" where
  "read_pdu pdu =
     (case pdu of
        [] \<Rightarrow> Inl IndexError
      | fc # rest \<Rightarrow>
          if unat fc AND 128 \<noteq> 0 then
            Inr \<lparr>pr_ok = False, pr_function_code = unat fc AND 127,
                 pr_exception_code = (case rest of [] \<Rightarrow> None | code # _ \<Rightarrow> Some (unat code)), pr_registers = []\<rparr>
          else
            require (unat fc = FC_READ_HOLDING_REGISTERS \<and> rest \<noteq> []) ValueError
              (let byte_count = unat (hd rest); payload = take byte_count (tl rest) in
               require (length payload = byte_count) ValueError
                 (Inr \<lparr>pr_ok = True, pr_function_code = unat fc, pr_exception_code = None,
                       pr_registers = register_pairs payload\<rparr>)))"

definition poll_once :: "(bytes \<Rightarrow> arrivals res) \<Rightarrow> int \<Rightarrow> int \<Rightarrow> int \<Rightarrow> int \<Rightarrow> poll_result res" where
  "poll_once exchange uid address quantity tid =
     rbind (build_read_holding_registers_request tid uid address quantity) (\<lambda>req.
     rbind (exchange req) (\<lambda>sock.
     rbind (recv_exact sock MBAP_HEADER_LEN) (\<lambda>(header_bytes, sock1).
       (case parse_mbap header_bytes of
          None \<Rightarrow> Inl ValueError
        | Some h \<Rightarrow>
            require (protocol_id h = MODBUS_PROTOCOL_ID) ValueError
            (require (\<not> mbap_length h < 2) ValueError
            (rbind (recv_exact sock1 (nat (pdu_len h))) (\<lambda>(pdu, _). read_pdu pdu)))))))"

section \<open>The loop\<close>

record plc_args =
  target_host :: pystr
  target_port :: int
  arg_unit_id :: int
  arg_address :: int
  arg_quantity :: int

text \<open>
  One round. \<open>exchange\<close>, the error text, the timestamp of the published event and whether the state
  file could be replaced come from outside. The result: the next transaction identifier, the
  exit code, the state file and the published events.
\<close>

record plc_world =
  plc_exchange :: "bytes \<Rightarrow> arrivals res"
  error_text :: "exn \<Rightarrow> pystr"
  event_time :: pystr
  write_ok :: bool

definition next_transaction :: "nat \<Rightarrow> nat" where
  "next_transaction tid = (let t = (tid + 1) mod 65535 in if t = 0 then 1 else t)"

definition plc_target :: "plc_args \<Rightarrow> pystr" where
  "plc_target a = target_host a @ lit '':'' @ dec_int (target_port a)"

definition base_state :: "plc_args \<Rightarrow> pydict" where
  "base_state a =
     [(KStr (lit ''timestamp''), PyNone), (KStr (lit ''target''), PyStr (plc_target a)),
      (KStr (lit ''unit_id''), PyInt (arg_unit_id a)), (KStr (lit ''address''), PyInt (arg_address a)),
      (KStr (lit ''quantity''), PyInt (arg_quantity a))]"

definition register_list :: "nat list \<Rightarrow> pyval" where
  "register_list vs = PyList (map (\<lambda>v. PyInt (int v)) vs)"

definition result_fields :: "poll_result \<Rightarrow> pydict" where
  "result_fields r =
     [(KStr (lit ''ok''), PyBool (pr_ok r)), (KStr (lit ''function_code''), PyInt (int (pr_function_code r))),
      (KStr (lit ''exception_code''), (case pr_exception_code r of None \<Rightarrow> PyNone | Some c \<Rightarrow> PyInt (int c))),
      (KStr (lit ''registers''), register_list (pr_registers r)), (KStr (lit ''error''), PyNone)]"

definition plc_round ::
  "plc_world \<Rightarrow> plc_args \<Rightarrow> nat \<Rightarrow> pydict option \<Rightarrow> (nat \<times> nat \<times> pydict option \<times> emission list) res"
where
  "plc_round w a tid file =
     (let tid' = next_transaction tid;
          finish = (\<lambda>fields code event.
            (let state = dict_set (foldl (\<lambda>d (k, v). dict_set d k v) (base_state a) fields) (KStr (lit ''timestamp'')) (PyStr (event_time w)) in
             if write_ok w then Inr (tid', code, Some state, [event])
             else Inr (tid', code, file, [event, (lit ''error'', [(KStr (lit ''error''), PyStr (error_text w OSError)),
                    (KStr (lit ''message''), PyStr (lit ''fake_plc_state_write_failed''))])])))
      in case poll_once (plc_exchange w) (arg_unit_id a) (arg_address a) (arg_quantity a) (int tid') of
           Inr r \<Rightarrow>
             finish (result_fields r) 0
               (lit ''fake_plc_poll'', [(KStr (lit ''target''), PyStr (plc_target a)), (KStr (lit ''ok''), PyBool (pr_ok r)),
                  (KStr (lit ''registers''), register_list (pr_registers r))])
         | Inl e \<Rightarrow>
             if e = OSError \<or> e = ValueError then
               finish [(KStr (lit ''ok''), PyBool False), (KStr (lit ''registers''), PyList []),
                       (KStr (lit ''error''), PyStr (error_text w e))] 1
                 (lit ''fake_plc_poll_failed'', [(KStr (lit ''target''), PyStr (plc_target a)), (KStr (lit ''error''), PyStr (error_text w e))])
             else Inl e)"

section \<open>Reading a stream\<close>

lemma recv_exact_stream:
  assumes "[] \<notin> set cs" "n \<le> length (concat cs)"
  shows "\<exists>cs'. recv_exact (map Inr cs) n = Inr (take n (concat cs), map Inr cs') \<and> concat cs' = drop n (concat cs) \<and> [] \<notin> set cs'"
  using assms
proof (induction n arbitrary: cs rule: less_induct)
  case (less n)
  show ?case
  proof (cases "n = 0")
    case True
    with less.prems show ?thesis by (intro exI [of _ cs]) (simp add: recv_exact.simps)
  next
    case False
    with less.prems obtain c cs1 where cs: "cs = c # cs1" "c \<noteq> []" by (cases cs) auto
    let ?rest = "if drop n c = [] then cs1 else drop n c # cs1"
    let ?m = "n - length (take n c)"
    have m: "?m < n" "[] \<notin> set ?rest" "concat ?rest = drop n c @ concat cs1" "?m \<le> length (concat ?rest)"
      using False cs less.prems by auto
    from less.IH [OF m(1,2,4)] obtain cs' where r: "recv_exact (map Inr ?rest) ?m = Inr (take ?m (concat ?rest), map Inr cs')"
        "concat cs' = drop ?m (concat ?rest)" "[] \<notin> set cs'" by blast
    have "recv_exact (map Inr cs) n = Inr (take n c @ take ?m (concat ?rest), map Inr cs')"
      using False cs r(1) by (simp add: recv_exact.simps [of _ n] Let_def split: if_splits)
    moreover have "take n c @ take ?m (concat ?rest) = take n (concat cs)" "drop ?m (concat ?rest) = drop n (concat cs)"
      unfolding m(3) cs(1) by (cases "n \<le> length c"; simp)+
    ultimately show ?thesis using r(2,3) by (intro exI [of _ cs']) simp
  qed
qed

lemma parse_mbap_take: "MBAP_HEADER_LEN \<le> length bs \<Longrightarrow> parse_mbap (take MBAP_HEADER_LEN bs) = parse_mbap bs"
  by (simp add: parse_mbap_def MBAP_HEADER_LEN_def drop_take min_def)

lemma poll_answered:
  assumes "build_read_holding_registers_request tid uid address quantity = Inr req" "exchange req = Inr (map Inr cs)"
    and "[] \<notin> set cs" "concat cs = resp" "answers h pdu resp"
  shows "poll_once exchange uid address quantity tid = read_pdu pdu"
proof -
  obtain h' where h: "parse_mbap resp = Some h'" "is_valid_mbap h'" "length resp = total_frame_len h'" "drop MBAP_HEADER_LEN resp = pdu"
    using assms(5) by (auto simp: answers_def)
  have v: "protocol_id h' = MODBUS_PROTOCOL_ID" "2 \<le> mbap_length h'"
    using h(2) by (auto simp: is_valid_mbap_def MIN_MBAP_LENGTH_def split: if_splits)
  have len: "MBAP_HEADER_LEN \<le> length resp" "nat (pdu_len h') = length pdu"
    using h(3,4) v(2) by (auto simp: total_frame_len_def pdu_len_def MBAP_HEADER_LEN_def)
  from recv_exact_stream [OF assms(3), of MBAP_HEADER_LEN] len(1) assms(4) obtain cs1 where r1:
    "recv_exact (map Inr cs) MBAP_HEADER_LEN = Inr (take MBAP_HEADER_LEN resp, map Inr cs1)" "concat cs1 = pdu" "[] \<notin> set cs1"
    using h(4) by auto
  from recv_exact_stream [OF r1(3), of "length pdu"] r1(2) obtain cs2 where r2:
    "recv_exact (map Inr cs1) (length pdu) = Inr (pdu, map Inr cs2)" by auto
  show ?thesis
    using assms(1,2) r1(1) r2 h(1) v len parse_mbap_take [OF len(1)] by (simp add: poll_once_def)
qed

lemma register_pairs_big_endian: "\<forall>v\<in>set vs. v < 65536 \<Longrightarrow> register_pairs (big_endian vs) = vs"
  by (induction vs) (simp_all add: big_endian_def)

lemma read_pdu_exception: "read_pdu (exception_pdu FC_READ_HOLDING_REGISTERS EXC_ILLEGAL_DATA_ADDRESS)
   = Inr \<lparr>pr_ok = False, pr_function_code = 3, pr_exception_code = Some 2, pr_registers = []\<rparr>"
  by (simp add: read_pdu_def exception_pdu_def modbus_consts low_byte_unat)

lemma read_pdu_registers:
  assumes "length vs \<le> 125" "\<forall>v\<in>set vs. v < 65536"
  shows "read_pdu ([byte_of FC_READ_HOLDING_REGISTERS, byte_of (2 * length vs)] @ big_endian vs)
    = Inr \<lparr>pr_ok = True, pr_function_code = 3, pr_exception_code = None, pr_registers = vs\<rparr>"
proof -
  have u: "unat (byte_of (2 * length vs)) = 2 * length vs" "unat (byte_of 3) = 3" using assms(1) by simp_all
  show ?thesis
    unfolding read_pdu_def FC_READ_HOLDING_REGISTERS_def by (simp add: u register_pairs_big_endian [OF assms(2)])
qed

section \<open>Properties\<close>

text \<open>
  \<^bold>\<open>C19\<close>. The PLC node reads the server correctly. Let the network carry the request to the
  server's connection handler and bring back what it sent, in pieces of any size. A poll within
  the legal range then returns exactly the addressed registers of the bank, and one beyond the
  bank reports exception 2 for function 3.
\<close>

theorem plc_reads_server:
  assumes "bank_ok bank" "reliable snd_env" "t < 65536" "u < 256" "a < 65536" "1 \<le> q" "q \<le> 125"
    and "\<And>req. \<exists>cs. exchange req = Inr (map Inr cs) \<and> [] \<notin> set cs
           \<and> concat cs = c_out (fst (handle_connection snd_env p [Chunk req] bank))"
  shows "poll_once exchange (int u) (int a) (int q) (int t) =
    Inr (if a + q \<le> bank_size bank
         then \<lparr>pr_ok = True, pr_function_code = 3, pr_exception_code = None, pr_registers = bank_read bank a q\<rparr>
         else \<lparr>pr_ok = False, pr_function_code = 3, pr_exception_code = Some 2, pr_registers = []\<rparr>)"
proof -
  let ?pdu = "[byte_of FC_READ_HOLDING_REGISTERS, byte_of (a div 256), byte_of (a mod 256), byte_of (q div 256), byte_of (q mod 256)]"
  let ?r = "(t, u, ?pdu)"
  have q: "q < 65536" using assms(7) by simp
  have ok: "request_ok ?r" using assms(3,4) by (simp add: request_ok_def MAX_PDU_LEN_def)
  note fr = request_frame_ok [OF ok]
  have req: "build_read_holding_registers_request (int t) (int u) (int a) (int q) = Inr (request_frame ?r)"
    using fr(1) by (simp add: build_read_holding_registers_request_def to_bytes2_nat [OF assms(5)] to_bytes2_nat [OF q])
  obtain resp where resp: "read_holding_registers bank (request_header ?r) ?pdu = Inr resp"
      "answers (request_header ?r) (read_reply bank ?pdu) resp"
    using read_answers [OF assms(1) fr(5)] by blast
  have "unat (byte_of FC_READ_HOLDING_REGISTERS) = FC_READ_HOLDING_REGISTERS" by (simp add: FC_READ_HOLDING_REGISTERS_def)
  with resp(1) have ans: "answer_all p bank [?r] = ([resp], bank)" by (simp add: dispatch_def)
  have "length (request_frame ?r) = 12" using fr(4) by (simp add: total_frame_len_def request_header_def MBAP_HEADER_LEN_def)
  then have "fits [request_frame ?r]" by (auto simp: fits_def MAX_BUFFER_def modbus_consts)
  with handle_requests [OF assms(2), of "[?r]" bank "[request_frame ?r]" p] ok assms(1) ans
  have out: "c_out (fst (handle_connection snd_env p [Chunk (request_frame ?r)] bank)) = resp"
    by (auto simp: observed_def)
  obtain cs where cs: "exchange (request_frame ?r) = Inr (map Inr cs)" "[] \<notin> set cs" "concat cs = resp"
    using assms(8) [of "request_frame ?r"] out by auto
  have poll: "poll_once exchange (int u) (int a) (int q) (int t) = read_pdu (read_reply bank ?pdu)"
    by (rule poll_answered [where exchange = exchange, OF req cs resp(2)])
  have f: "from_bytes (take 2 (drop 1 ?pdu)) = a" "from_bytes (take 2 (drop 3 ?pdu)) = q"
    using from_to_bytes2 [OF assms(5)] from_to_bytes2 [OF q] by simp_all
  show ?thesis
  proof (cases "a + q \<le> bank_size bank")
    case True
    note v = read_values [OF assms(1) True]
    have "read_reply bank ?pdu = [byte_of FC_READ_HOLDING_REGISTERS, byte_of (2 * length (bank_read bank a q))] @ big_endian (bank_read bank a q)"
      unfolding read_reply_def Let_def f using True assms(6,7) v(1) by simp
    with poll read_pdu_registers [OF _ v(2)] v(1) assms(7) True show ?thesis by simp
  next
    case False
    then have "read_reply bank ?pdu = exception_pdu FC_READ_HOLDING_REGISTERS EXC_ILLEGAL_DATA_ADDRESS"
      unfolding read_reply_def Let_def f using assms(6,7) by simp
    with poll False read_pdu_exception show ?thesis by simp
  qed
qed

lemma recv_exact_errors: "\<lbrakk>recv_exact sock n = Inl e; \<forall>x\<in>set sock. \<forall>e. x = Inl e \<longrightarrow> e = OSError\<rbrakk> \<Longrightarrow> e = OSError"
proof (induction n arbitrary: sock rule: less_induct)
  case (less n)
  show ?case
  proof (cases "n = 0 \<or> sock = []")
    case True
    with less.prems(1) show ?thesis by (cases "n = 0") (auto simp: recv_exact_simps)
  next
    case False
    then obtain x rest where s: "sock = x # rest" "0 < n" by (cases sock) auto
    show ?thesis
    proof (cases x)
      case (Inr piece)
      let ?sock' = "if drop n piece = [] then rest else Inr (drop n piece) # rest"
      have "\<forall>x\<in>set ?sock'. \<forall>e. x = Inl e \<longrightarrow> e = OSError" using less.prems(2) s by auto
      moreover from less.prems(1) s Inr have "e = OSError \<or> piece \<noteq> [] \<and> recv_exact ?sock' (n - length (take n piece)) = Inl e"
        by (auto simp: recv_exact_simps rbind_Inl_iff split: if_splits)
      ultimately show ?thesis using less.IH [of "n - length (take n piece)" ?sock'] s(2) by auto
    qed (use less.prems s in \<open>auto simp: recv_exact_simps\<close>)
  qed
qed

lemma recv_exact_length: "recv_exact sock n = Inr (bs, sock') \<Longrightarrow> length bs = n \<and> set sock' \<subseteq> set sock \<union> range Inr"
proof (induction n arbitrary: sock bs sock' rule: less_induct)
  case (less n)
  show ?case
  proof (cases "n = 0")
    case True
    with less.prems show ?thesis by (auto simp: recv_exact_simps)
  next
    case False
    with less.prems obtain x rest where s: "sock = x # rest" by (cases sock) (auto simp: recv_exact_simps)
    with less.prems False obtain piece where x: "x = Inr piece" "piece \<noteq> []" by (cases x) (auto simp: recv_exact_simps split: if_splits)
    let ?sock' = "if drop n piece = [] then rest else Inr (drop n piece) # rest"
    from less.prems s x False obtain bs1 where r: "recv_exact ?sock' (n - length (take n piece)) = Inr (bs1, sock')" "bs = take n piece @ bs1"
      by (auto simp: recv_exact_simps rbind_Inr_iff)
    have "length bs1 = n - length (take n piece) \<and> set sock' \<subseteq> set ?sock' \<union> range Inr"
      using less.IH [OF _ r(1)] x(2) False by simp
    with r(2) s x show ?thesis by (auto split: if_splits)
  qed
qed

text \<open>
  A poll raises what its documentation says: whatever the network delivers, with the
  request's fields in range and connection problems as \<^verbatim>\<open>OSError\<close>, the only exceptions are
  \<^verbatim>\<open>OSError\<close> and \<^verbatim>\<open>ValueError\<close>; so a round of the polling loop never ends in an exception.
\<close>

theorem poll_errors:
  assumes "\<And>req e. exchange req = Inl e \<Longrightarrow> e = OSError"
    and "\<And>req sock e. \<lbrakk>exchange req = Inr sock; Inl e \<in> set sock\<rbrakk> \<Longrightarrow> e = OSError"
    and "0 \<le> address" "address < 65536" "0 \<le> quantity" "quantity < 65536" "0 \<le> tid" "tid < 65536"
    and "poll_once exchange uid address quantity tid = Inl e"
  shows "e = OSError \<or> e = ValueError"
proof -
  have "\<exists>req. build_read_holding_registers_request tid uid address quantity = Inr req"
    unfolding build_read_holding_registers_request_def using assms(3-8)
    by (auto simp: to_bytes2_def build_response_Inr)
  then obtain req where req: "build_read_holding_registers_request tid uid address quantity = Inr req" by blast
  show ?thesis
  proof (cases "exchange req")
    case (Inl x)
    with req assms(1,9) show ?thesis by (simp add: poll_once_def)
  next
    case (Inr sock)
    have safe: "\<forall>x\<in>set sock. \<forall>e. x = Inl e \<longrightarrow> e = OSError" using assms(2) [OF Inr] by blast
    show ?thesis
    proof (cases "recv_exact sock MBAP_HEADER_LEN")
      case (Inl x)
      with req Inr assms(9) recv_exact_errors [OF Inl safe] show ?thesis by (simp add: poll_once_def)
    next
      case (Inr hs)
      obtain hb sock1 where hs: "hs = (hb, sock1)" by (cases hs)
      note l1 = recv_exact_length [OF Inr [unfolded hs]]
      have safe1: "\<forall>x\<in>set sock1. \<forall>e. x = Inl e \<longrightarrow> e = OSError" using l1 safe by blast
      obtain h where h: "parse_mbap hb = Some h" using l1 by (auto simp: parse_mbap_def)
      have run: "poll_once exchange uid address quantity tid =
          require (protocol_id h = MODBUS_PROTOCOL_ID) ValueError (require (\<not> mbap_length h < 2) ValueError
            (rbind (recv_exact sock1 (nat (pdu_len h))) (\<lambda>(pdu, _). read_pdu pdu)))"
        using req \<open>exchange req = Inr sock\<close> Inr hs h by (simp add: poll_once_def)
      show ?thesis
      proof (cases "recv_exact sock1 (nat (pdu_len h))")
        case (Inl x)
        with run assms(9) recv_exact_errors [OF Inl safe1] show ?thesis by (auto simp: require_def split: if_splits)
      next
        case (Inr ps)
        obtain pdu sock2 where ps: "ps = (pdu, sock2)" by (cases ps)
        have "length pdu = nat (pdu_len h)" using recv_exact_length Inr ps by blast
        then have "mbap_length h < 2 \<or> pdu \<noteq> []" by (auto simp: pdu_len_def)
        with run Inr ps assms(9) show ?thesis
          by (auto simp: require_def read_pdu_def Let_def split: if_splits list.splits)
      qed
    qed
  qed
qed

text \<open>
  Transaction identifiers of the polling loop, from the first round on, lie in 1 to 65534,
  so they always fit the header, never are 0, and two consecutive ones differ.
\<close>

theorem transaction_ids_in_range:
  "1 \<le> (next_transaction ^^ Suc n) 0 \<and> (next_transaction ^^ Suc n) 0 \<le> 65534
   \<and> (next_transaction ^^ Suc (Suc n)) 0 \<noteq> (next_transaction ^^ Suc n) 0"
proof -
  have range: "1 \<le> next_transaction t \<and> next_transaction t \<le> 65534" for t
    using mod_less_divisor [of 65535 "t + 1"] by (auto simp: next_transaction_def Let_def)
  have neq: "next_transaction t \<noteq> t" if "1 \<le> t" "t \<le> 65534" for t
    using that by (cases "t = 65534") (auto simp: next_transaction_def Let_def)
  show ?thesis using range [of "(next_transaction ^^ n) 0"] neq [of "(next_transaction ^^ Suc n) 0"] by simp
qed

definition demo_exchange :: "bytes \<Rightarrow> arrivals res" where
  "demo_exchange req =
     (let out = c_out (fst (handle_connection (\<lambda>_. Inr 1) demo_peer [Chunk req] demo_bank))
      in Inr (map (\<lambda>b. Inr [b]) out))"

theorem plc_reads_server_witness:
  "poll_once demo_exchange 1 100 8 1
   = Inr \<lparr>pr_ok = True, pr_function_code = 3, pr_exception_code = None, pr_registers = bank_read demo_bank 100 8\<rparr>"
proof -
  have net: "\<exists>cs. demo_exchange req = Inr (map Inr cs) \<and> [] \<notin> set cs
      \<and> concat cs = c_out (fst (handle_connection (\<lambda>_. Inr 1) demo_peer [Chunk req] demo_bank))" for req
    by (rule exI [of _ "map (\<lambda>b. [b]) (c_out (fst (handle_connection (\<lambda>_. Inr 1) demo_peer [Chunk req] demo_bank)))"])
      (auto simp: demo_exchange_def Let_def)
  have "100 + 8 \<le> bank_size demo_bank" by (simp add: demo_bank_def new_bank_def)
  with plc_reads_server [of demo_bank "\<lambda>_. Inr 1" 1 1 100 8 demo_exchange demo_peer, OF demo_modbus(1,3) _ _ _ _ _ net]
  show ?thesis by simp
qed

theorem poll_errors_witness:
  "\<exists>e. poll_once (\<lambda>_. Inr [Inr [0, 1, 0, 0, 0, 3]]) 1 0 8 1 = Inl e \<and> (e = OSError \<or> e = ValueError)"
proof -
  have "poll_once (\<lambda>_. Inr [Inr [0, 1, 0, 0, 0, 3]]) 1 0 8 1 = Inl OSError"
    by (simp add: poll_once_def build_read_holding_registers_request_def to_bytes2_def build_response_def MODBUS_PROTOCOL_ID_def
        MBAP_HEADER_LEN_def recv_exact_simps)
  with poll_errors [OF _ _ _ _ _ _ _ _ this] show ?thesis by auto
qed

end
