(* ===== verification/PathLib.thy ===== *)
theory PathLib
  imports PyText "HOL-Library.Sublist"
begin

text \<open>
  What the source uses of \<^verbatim>\<open>pathlib\<close>: parsing, \<^verbatim>\<open>suffix\<close>, \<^verbatim>\<open>parents\<close> and \<^verbatim>\<open>resolve\<close> on POSIX paths, over
  a file system with symbolic links. The file system is the finite list of its entries, keyed by the
  absolute path. Shown: a resolved path passes through no link, so a prefix of it is a directory it
  really lies in.
\<close>

section \<open>Paths\<close>

record path =
  p_abs :: bool
  p_parts :: "pystr list"

fun split_on :: "nat \<Rightarrow> pystr \<Rightarrow> pystr list" where
  "split_on sep [] = [[]]"
| "split_on sep (c # s) =
     (if c = sep then [] # split_on sep s
      else (case split_on sep s of [] \<Rightarrow> [[c]] | w # ws \<Rightarrow> (c # w) # ws))"

abbreviation dot :: pystr where "dot \<equiv> [46]"
abbreviation dotdot :: pystr where "dotdot \<equiv> [46, 46]"

definition parse_path :: "pystr \<Rightarrow> path" where
  "parse_path s = \<lparr>p_abs = take 1 s = [47], p_parts = filter (\<lambda>w. w \<noteq> [] \<and> w \<noteq> dot) (split_on 47 s)\<rparr>"

text \<open>\<^verbatim>\<open>str(path)\<close> of an absolute path.\<close>

definition path_str :: "pystr list \<Rightarrow> pystr" where
  "path_str q = (if q = [] then [47] else concat (map (\<lambda>w. 47 # w) q))"

text \<open>\<^verbatim>\<open>Path.suffix\<close>: from the last dot of the last component, unless it starts or ends the name.\<close>

definition name_suffix :: "pystr \<Rightarrow> pystr" where
  "name_suffix name =
     (let ext = takeWhile (\<lambda>c. c \<noteq> 46) (rev name); i = length name - length ext - 1
      in if length ext < length name \<and> 0 < i \<and> ext \<noteq> [] then drop i name else [])"

definition path_suffix :: "path \<Rightarrow> pystr" where
  "path_suffix p = (if p_parts p = [] then [] else name_suffix (last (p_parts p)))"

text \<open>\<^verbatim>\<open>str.lower\<close> on the ASCII letters; no other character becomes one of them, except for \<^verbatim>\<open>k\<close>.\<close>

definition ascii_lower :: "pystr \<Rightarrow> pystr" where
  "ascii_lower s = map (\<lambda>c. if 65 \<le> c \<and> c \<le> 90 then c + 32 else c) s"

section \<open>The file system\<close>

datatype node = RegFile bool | Directory | Symlink pystr

type_synonym fs = "(pystr list \<times> node) list"

record posix =
  px_fs :: fs
  px_cwd :: "pystr list"
  px_expanduser :: "path \<Rightarrow> path res"

fun is_link :: "node \<Rightarrow> bool" where
  "is_link (Symlink t) = True"
| "is_link _ = False"

definition link_paths :: "fs \<Rightarrow> pystr list list" where
  "link_paths f = map fst (filter (\<lambda>e. is_link (snd e)) f)"

lemma link_path_in: "map_of f p = Some (Symlink t) \<Longrightarrow> p \<in> set (link_paths f)"
  by (force dest: map_of_SomeD simp: link_paths_def)

lemma fewer_links:
  assumes "map_of f l = Some (Symlink t)" "l \<notin> set active"
  shows "length (filter (\<lambda>k. k \<notin> set (l # active)) (link_paths f)) < length (filter (\<lambda>k. k \<notin> set active) (link_paths f))"
proof -
  have "filter (\<lambda>k. k \<notin> set (l # active)) (link_paths f) = filter (\<lambda>k. k \<noteq> l) (filter (\<lambda>k. k \<notin> set active) (link_paths f))"
    by (simp add: conj_commute)
  moreover have "l \<in> set (filter (\<lambda>k. k \<notin> set active) (link_paths f))" using link_path_in [OF assms(1)] assms(2) by simp
  ultimately show ?thesis by (metis (mono_tags, lifting) length_filter_less)
qed

text \<open>
  \<^verbatim>\<open>os.path.realpath\<close>: components are taken one by one; a link is resolved relative to the directory
  it is in, and a link met again while it is being resolved is a loop (\<open>None\<close>).
\<close>

function realpath :: "fs \<Rightarrow> pystr list list \<Rightarrow> pystr list \<Rightarrow> pystr list \<Rightarrow> pystr list option" where
  "realpath f active p [] = Some p"
| "realpath f active p (name # rest) =
     (if name = [] \<or> name = dot then realpath f active p rest
      else if name = dotdot then realpath f active (butlast p) rest
      else
        (case map_of f (p @ [name]) of
           Some (Symlink t) \<Rightarrow>
             if p @ [name] \<in> set active then None
             else (case realpath f ((p @ [name]) # active) (if p_abs (parse_path t) then [] else p) (p_parts (parse_path t)) of
                     None \<Rightarrow> None
                   | Some q \<Rightarrow> realpath f active q rest)
         | _ \<Rightarrow> realpath f active (p @ [name]) rest))"
  by pat_completeness auto
termination
proof (relation "measures [\<lambda>(f, active, p, rest). length (filter (\<lambda>k. k \<notin> set active) (link_paths f)), \<lambda>(f, active, p, rest). length rest]")
  show "((f, (p @ [name]) # active, if p_abs (parse_path x) then [] else p, p_parts (parse_path x)), f, active, p, name # rest)
      \<in> measures [\<lambda>(f, active, p, rest). length (filter (\<lambda>k. k \<notin> set active) (link_paths f)), \<lambda>(f, active, p, rest). length rest]"
    if "map_of f (p @ [name]) = Some a" "a = Symlink x" "p @ [name] \<notin> set active" for f active p name rest a x
    using fewer_links [of f "p @ [name]" x active] that by simp
qed auto

declare realpath.simps(2) [simp del]

text \<open>\<^verbatim>\<open>Path.resolve()\<close>, which raises \<^verbatim>\<open>RuntimeError\<close> for a loop.\<close>

definition resolve :: "posix \<Rightarrow> path \<Rightarrow> pystr list res" where
  "resolve px p =
     (case realpath (px_fs px) [] (if p_abs p then [] else px_cwd px) (p_parts p) of
        None \<Rightarrow> Inl RuntimeError
      | Some q \<Rightarrow> Inr q)"

text \<open>\<^verbatim>\<open>is_file\<close> and the execute permission, of a path that passes through no link.\<close>

definition is_file :: "posix \<Rightarrow> pystr list \<Rightarrow> bool" where
  "is_file px q \<longleftrightarrow> (case map_of (px_fs px) q of Some (RegFile _) \<Rightarrow> True | _ \<Rightarrow> False)"

definition is_executable :: "posix \<Rightarrow> pystr list \<Rightarrow> bool" where
  "is_executable px q \<longleftrightarrow> (case map_of (px_fs px) q of Some (RegFile x) \<Rightarrow> x | Some Directory \<Rightarrow> True | _ \<Rightarrow> False)"

definition is_dir :: "posix \<Rightarrow> pystr list \<Rightarrow> bool" where
  "is_dir px q \<longleftrightarrow> q = [] \<or> map_of (px_fs px) q = Some Directory"

section \<open>Runtime paths\<close>

text \<open>
  \<^verbatim>\<open>common/paths.py\<close>: the environment variables override the defaults; an empty one counts as absent.
\<close>

record path_env =
  ICS_DECEPTION_RUNTIME_DIR :: "pystr option"
  ICS_DECEPTION_EVENT_LOG :: "pystr option"
  ICS_DECEPTION_PCAP_DIR :: "pystr option"

definition overridden :: "posix \<Rightarrow> pystr option \<Rightarrow> pystr list res \<Rightarrow> pystr list res" where
  "overridden px override otherwise =
     (case override of
        None \<Rightarrow> otherwise
      | Some t \<Rightarrow> if t = [] then otherwise else rbind (px_expanduser px (parse_path t)) (resolve px))"

definition runtime_dir :: "posix \<Rightarrow> path_env \<Rightarrow> pystr list res" where
  "runtime_dir px pe =
     overridden px (ICS_DECEPTION_RUNTIME_DIR pe) (resolve px \<lparr>p_abs = True, p_parts = px_cwd px @ [lit ''runtime'']\<rparr>)"

definition event_log_path :: "posix \<Rightarrow> path_env \<Rightarrow> pystr list res" where
  "event_log_path px pe =
     overridden px (ICS_DECEPTION_EVENT_LOG pe) (rbind (runtime_dir px pe) (\<lambda>d. Inr (d @ [lit ''events.jsonl''])))"

definition plc_state_path :: "posix \<Rightarrow> path_env \<Rightarrow> pystr list res" where
  "plc_state_path px pe = rbind (runtime_dir px pe) (\<lambda>d. Inr (d @ [lit ''plc_state.json'']))"

definition pcap_dir :: "posix \<Rightarrow> path_env \<Rightarrow> pystr list res" where
  "pcap_dir px pe =
     overridden px (ICS_DECEPTION_PCAP_DIR pe) (resolve px \<lparr>p_abs = True, p_parts = px_cwd px @ [lit ''data'', lit ''pcaps'']\<rparr>)"

section \<open>Resolved paths\<close>

definition canonical :: "fs \<Rightarrow> pystr list \<Rightarrow> bool" where
  "canonical f q \<longleftrightarrow> (\<forall>w\<in>set q. w \<noteq> [] \<and> w \<noteq> dot \<and> w \<noteq> dotdot) \<and>
     (\<forall>p. prefix p q \<longrightarrow> p \<noteq> [] \<longrightarrow> (\<forall>t. map_of f p \<noteq> Some (Symlink t)))"

lemma canonical_Nil [simp]: "canonical f []"
  by (simp add: canonical_def)

lemma canonical_snoc:
  "canonical f (q @ [n]) \<longleftrightarrow> canonical f q \<and> n \<noteq> [] \<and> n \<noteq> dot \<and> n \<noteq> dotdot \<and> (\<forall>t. map_of f (q @ [n]) \<noteq> Some (Symlink t))"
  by (auto simp: canonical_def prefix_snoc)

lemma canonical_prefix: "\<lbrakk>canonical f q; prefix p q\<rbrakk> \<Longrightarrow> canonical f p"
  by (auto simp: canonical_def dest: set_mono_prefix prefix_order.trans)

lemma canonical_butlast: "canonical f q \<Longrightarrow> canonical f (butlast q)"
  by (rule canonical_prefix) (auto simp: prefixeq_butlast)

lemma realpath_canonical:
  "\<lbrakk>realpath f active p rest = Some q; canonical f p\<rbrakk> \<Longrightarrow> canonical f q"
proof (induction f active p rest arbitrary: q rule: realpath.induct)
  case (2 f active p name rest)
  note eq = "2.prems"(1) [unfolded realpath.simps(2) [of f active p name rest]]
  consider "name = [] \<or> name = dot" | "name = dotdot"
    | t where "map_of f (p @ [name]) = Some (Symlink t)" "name \<noteq> []" "name \<noteq> dot" "name \<noteq> dotdot"
    | "\<forall>t. map_of f (p @ [name]) \<noteq> Some (Symlink t)" "name \<noteq> []" "name \<noteq> dot" "name \<noteq> dotdot" by blast
  then show ?case
  proof cases
    case 1
    with 2 eq show ?thesis by auto
  next
    case 2
    with "2.IH"(2) "2.prems"(2) eq canonical_butlast show ?thesis by auto
  next
    case 3
    then obtain r where r: "p @ [name] \<notin> set active"
        "realpath f ((p @ [name]) # active) (if p_abs (parse_path t) then [] else p) (p_parts (parse_path t)) = Some r"
        "realpath f active r rest = Some q"
      using eq by (auto split: if_splits option.splits)
    have "canonical f r" using "2.IH"(6) [OF _ _ 3(1) refl r(1,2)] 3 "2.prems"(2) by auto
    with "2.IH"(7) 3 r show ?thesis by auto
  next
    case 4
    then have "canonical f (p @ [name])" using "2.prems"(2) by (simp add: canonical_snoc)
    moreover have "realpath f active (p @ [name]) rest = Some q"
      using eq 4 by (auto split: option.splits node.splits)
    ultimately show ?thesis using "2.IH"(3-5) 4 by (cases "map_of f (p @ [name])"; cases "the (map_of f (p @ [name]))") auto
  qed
qed auto

lemma realpath_same:
  "canonical f (p @ rest) \<Longrightarrow> realpath f active p rest = Some (p @ rest)"
proof (induction rest arbitrary: p)
  case (Cons n rest)
  have c: "canonical f ((p @ [n]) @ rest)" using Cons.prems by simp
  then have "canonical f (p @ [n])" by (rule canonical_prefix) simp
  then have "n \<noteq> []" "n \<noteq> dot" "n \<noteq> dotdot" "\<forall>t. map_of f (p @ [n]) \<noteq> Some (Symlink t)" by (simp_all add: canonical_snoc)
  with Cons.IH [OF c] show ?case by (auto simp: realpath.simps(2) split: option.split node.split)
qed simp

lemma resolve_canonical: "\<lbrakk>resolve px p = Inr q; canonical (px_fs px) (px_cwd px)\<rbrakk> \<Longrightarrow> canonical (px_fs px) q"
  by (auto simp: resolve_def split: option.splits if_splits elim: realpath_canonical)

lemma resolve_again:
  assumes "resolve px p = Inr q" "canonical (px_fs px) (px_cwd px)"
  shows "resolve px \<lparr>p_abs = True, p_parts = q\<rparr> = Inr q"
  using realpath_same [of "px_fs px" "[]" q "[]"] resolve_canonical [OF assms] by (simp add: resolve_def)

lemma overridden_canonical:
  assumes "canonical (px_fs px) (px_cwd px)" "overridden px override otherwise = Inr q"
    and "\<And>r. otherwise = Inr r \<Longrightarrow> canonical (px_fs px) r"
  shows "canonical (px_fs px) q"
  using assms resolve_canonical by (auto simp: overridden_def rbind_Inr_iff split: option.splits if_splits)

lemma pcap_dir_canonical:
  assumes "canonical (px_fs px) (px_cwd px)" "pcap_dir px pe = Inr q"
  shows "canonical (px_fs px) q"
  using overridden_canonical [OF assms(1) assms(2) [unfolded pcap_dir_def]] resolve_canonical [OF _ assms(1)] by blast

end
