(* ===== verification/ArgTypes.thy ===== *)
theory ArgTypes
  imports PyJson Complex_Main
begin

text \<open>
  \<^verbatim>\<open>common/argtypes.py\<close>: the validators of numeric options, over \<^verbatim>\<open>int(text, 10)\<close> as the language
  defines it (surrounding white space, a sign, single underscores between digits, decimal digits of
  any script, at most 4300 of them). What Unicode says of a character is the record \<open>unicode\<close>;
  \<^verbatim>\<open>float(text)\<close> is a parameter. Shown: an accepted value is in its range, and the only failure is
  \<^verbatim>\<open>ArgumentTypeError\<close>.
\<close>

section \<open>Characters and integers\<close>

record unicode =
  u_isdigit :: "nat \<Rightarrow> bool"
  u_decimal :: "nat \<Rightarrow> nat option"
  u_isalnum :: "nat \<Rightarrow> bool"

text \<open>What is relied on: the ASCII characters, and that a decimal digit is a digit below ten.\<close>

definition unicode_ok :: "unicode \<Rightarrow> bool" where
  "unicode_ok u \<longleftrightarrow>
     (\<forall>c<128. u_decimal u c = (if is_digit c then Some (c - 48) else None) \<and> u_isdigit u c = is_digit c \<and>
        u_isalnum u c = (is_digit c \<or> 65 \<le> c \<and> c \<le> 90 \<or> 97 \<le> c \<and> c \<le> 122)) \<and>
     (\<forall>c d. u_decimal u c = Some d \<longrightarrow> d < 10 \<and> u_isdigit u c \<and> u_isalnum u c)"

fun int_digits :: "unicode \<Rightarrow> bool \<Rightarrow> pystr \<Rightarrow> nat list option" where
  "int_digits u after_digit [] = (if after_digit then Some [] else None)"
| "int_digits u after_digit (c # s) =
     (if c = 95 then (if after_digit then int_digits u False s else None)
      else (case u_decimal u c of
              None \<Rightarrow> None
            | Some d \<Rightarrow> map_option ((#) d) (int_digits u True s)))"

definition decimal_value :: "nat list \<Rightarrow> nat" where
  "decimal_value ds = foldl (\<lambda>a d. 10 * a + d) 0 ds"

definition int_of_str :: "unicode \<Rightarrow> pystr \<Rightarrow> int res" where
  "int_of_str u s =
     (let t = strip s; negative = take 1 t = [45]; body = (if negative \<or> take 1 t = [43] then drop 1 t else t)
      in case int_digits u False body of
           None \<Rightarrow> Inl ValueError
         | Some ds \<Rightarrow>
             require (length ds \<le> MAX_STR_DIGITS) ValueError
               (Inr (if negative then - int (decimal_value ds) else int (decimal_value ds))))"

lemma int_digits_dec: "unicode_ok u \<Longrightarrow> list_all is_digit s \<Longrightarrow> after_digit \<or> s \<noteq> [] \<Longrightarrow>
  int_digits u after_digit s = Some (map (\<lambda>c. c - 48) s)"
proof (induction s arbitrary: after_digit)
  case (Cons c s)
  then have "u_decimal u c = Some (c - 48)" "c \<noteq> 95" by (auto simp: unicode_ok_def is_digit_def)
  with Cons show ?case by simp
qed simp

lemma decimal_value_digits: "decimal_value (map (\<lambda>c. c - 48) s) = digits_val s"
  by (simp add: decimal_value_def digits_val_def foldl_map)

lemma int_of_str_dec:
  assumes "unicode_ok u" "int_digits_ok i"
  shows "int_of_str u (dec_int i) = Inr i"
proof -
  let ?n = "nat \<bar>i\<bar>"
  obtain d ds where d: "dec_nat ?n = d # ds" "is_digit d" using dec_nat_hd by blast
  have all: "list_all is_digit (dec_nat ?n)" using dec_nat_digits by (auto simp: list_all_iff)
  have "last (dec_nat ?n) \<in> set (dec_nat ?n)" using d(1) by simp
  then have l: "is_digit (last (dec_nat ?n))" using dec_nat_digits by blast
  have nsp: "is_digit c \<Longrightarrow> \<not> py_space c" for c by (auto simp: is_digit_def py_space_def)
  have "strip (dec_int i) = dec_int i"
  proof (rule strip_id)
    have "hd (dec_int i) = 45 \<or> hd (dec_int i) = d" "last (dec_int i) = last (dec_nat ?n)"
      using d(1) by (auto simp: dec_int_def)
    moreover have "\<not> py_space 45" by (simp add: py_space_def)
    ultimately show "dec_int i = [] \<or> \<not> py_space (hd (dec_int i)) \<and> \<not> py_space (last (dec_int i))"
      using nsp [OF d(2)] nsp [OF l] by metis
  qed
  moreover have "int_digits u False (dec_nat ?n) = Some (map (\<lambda>c. c - 48) (dec_nat ?n))"
    using int_digits_dec [OF assms(1) all] d(1) by auto
  moreover have "decimal_value (map (\<lambda>c. c - 48) (dec_nat ?n)) = ?n" by (simp only: decimal_value_digits digits_val_dec_nat)
  moreover have "d \<noteq> 45" "d \<noteq> 43" using d(2) by (auto simp: is_digit_def)
  ultimately show ?thesis
    using assms(2) d(1) by (cases "i < 0") (simp_all add: int_of_str_def Let_def dec_int_def int_digits_ok_def require_def)
qed

section \<open>Validators\<close>

definition bounded_int :: "int \<Rightarrow> int option \<Rightarrow> unicode \<Rightarrow> pystr \<Rightarrow> int res" where
  "bounded_int minimum maximum u s =
     (case int_of_str u s of
        Inl _ \<Rightarrow> Inl ArgumentTypeError
      | Inr v \<Rightarrow> require (\<not> (v < minimum \<or> (case maximum of None \<Rightarrow> False | Some m \<Rightarrow> v > m))) ArgumentTypeError (Inr v))"

datatype fval = NaN | Infinite bool | Finite rat

definition bounded_float :: "(pystr \<Rightarrow> fval option) \<Rightarrow> rat \<Rightarrow> rat option \<Rightarrow> pystr \<Rightarrow> fval res" where
  "bounded_float to_float minimum maximum s =
     (case to_float s of
        Some (Finite v) \<Rightarrow>
          require (\<not> (v < minimum \<or> (case maximum of None \<Rightarrow> False | Some m \<Rightarrow> v > m))) ArgumentTypeError (Inr (Finite v))
      | _ \<Rightarrow> Inl ArgumentTypeError)"

definition positive_int :: "unicode \<Rightarrow> pystr \<Rightarrow> int res" where
  "positive_int = bounded_int 1 None"

definition non_negative_int :: "unicode \<Rightarrow> pystr \<Rightarrow> int res" where
  "non_negative_int = bounded_int 0 None"

definition positive_float :: "(pystr \<Rightarrow> fval option) \<Rightarrow> pystr \<Rightarrow> fval res" where
  "positive_float to_float s =
     rbind (bounded_float to_float 0 None s) (\<lambda>v. require (v \<noteq> Finite 0) ArgumentTypeError (Inr v))"

definition port_number :: "unicode \<Rightarrow> pystr \<Rightarrow> int res" where
  "port_number = bounded_int 1 (Some 65535)"

definition register_address :: "unicode \<Rightarrow> pystr \<Rightarrow> int res" where
  "register_address = bounded_int 0 (Some 65535)"

lemma bounded_int_Inr:
  "bounded_int lo hi u s = Inr i \<longleftrightarrow> int_of_str u s = Inr i \<and> lo \<le> i \<and> (\<forall>m. hi = Some m \<longrightarrow> i \<le> m)"
  by (auto simp: bounded_int_def require_Inr_iff split: sum.splits option.splits)

lemma bounded_int_Inl: "bounded_int lo hi u s = Inl e \<Longrightarrow> e = ArgumentTypeError"
  by (auto simp: bounded_int_def require_def split: sum.splits if_splits)

lemma positive_float_Inr:
  "positive_float to_float s = Inr v \<longleftrightarrow> (\<exists>r. to_float s = Some (Finite r) \<and> v = Finite r \<and> 0 < r)"
  by (auto simp: positive_float_def bounded_float_def rbind_Inr_iff require_Inr_iff split: option.splits fval.splits)

lemma positive_float_Inl: "positive_float to_float s = Inl e \<Longrightarrow> e = ArgumentTypeError"
  by (auto simp: positive_float_def bounded_float_def require_def split: option.splits fval.splits if_splits)

text \<open>
  A bounded option takes the decimal text of exactly the integers of its range: the text of
  any integer within the interpreter's digit limit is accepted if and only if the integer is in
  range, with that value, and refused with \<^verbatim>\<open>ArgumentTypeError\<close> otherwise.
\<close>

theorem bounded_option_exact:
  assumes "unicode_ok u" "int_digits_ok i"
  shows "bounded_int lo hi u (dec_int i)
    = (if lo \<le> i \<and> (\<forall>m. hi = Some m \<longrightarrow> i \<le> m) then Inr i else Inl ArgumentTypeError)"
  using int_of_str_dec [OF assms] by (auto simp: bounded_int_def require_def split: option.splits)

definition ascii_unicode :: unicode where
  "ascii_unicode = \<lparr>u_isdigit = is_digit, u_decimal = (\<lambda>c. if is_digit c then Some (c - 48) else None),
     u_isalnum = (\<lambda>c. is_digit c \<or> 65 \<le> c \<and> c \<le> 90 \<or> 97 \<le> c \<and> c \<le> 122)\<rparr>"

lemma ascii_unicode_ok: "unicode_ok ascii_unicode"
  by (auto simp: unicode_ok_def ascii_unicode_def is_digit_def)

theorem bounded_option_exact_witness:
  "bounded_int 1 (Some 65535) ascii_unicode (dec_int 65536) = Inl ArgumentTypeError"
  using bounded_option_exact [OF ascii_unicode_ok, of 65536 1 "Some 65535"]
  by (simp add: int_digits_ok_def MAX_STR_DIGITS_def dec_nat.simps)

end
