(* ===== verification/Pcap.thy ===== *)
theory Pcap
  imports PathLib ArgTypes Dnp3
begin

text \<open>
  \<^verbatim>\<open>datasets/pcap_utils.py\<close> and \<^verbatim>\<open>datasets/pcap_loader.py\<close>: validation of a capture path, replay targets,
  and the analysis of a capture with its optional replay. The capture reader (Scapy) is a parameter:
  the packets it yields, each with the layers the code looks at, and the exception it ends with, if
  any. The laboratory network answers per attempt. Shown: a validated path lies in the approved
  directory, targets have a legal port, and a replay stays within its packet budget, sends only
  client payloads and only to the configured targets.
\<close>

section \<open>Capture paths and targets\<close>

definition ALLOWED_PCAP_SUFFIXES :: "pystr list" where
  "ALLOWED_PCAP_SUFFIXES = [lit ''.pcap'', lit ''.pcapng'']"

text \<open>\<^verbatim>\<open>expanduser\<close> leaves an absolute path alone.\<close>

definition validate_pcap_path :: "posix \<Rightarrow> pystr \<Rightarrow> path \<Rightarrow> pystr list res" where
  "validate_pcap_path px candidate approved_dir =
     (let raw = parse_path candidate in
      require (ascii_lower (path_suffix raw) \<in> set ALLOWED_PCAP_SUFFIXES) UnsupportedCaptureError
     (rbind (rbind (px_expanduser px approved_dir) (resolve px)) (\<lambda>approved.
      rbind (resolve px (if p_abs raw then raw else \<lparr>p_abs = True, p_parts = approved @ p_parts raw\<rparr>)) (\<lambda>resolved.
      require (prefix approved resolved) PcapTraversalError
     (require (is_file px resolved) PcapNotFoundError
       (Inr resolved))))))"

definition parse_port :: "unicode \<Rightarrow> pystr \<Rightarrow> int res" where
  "parse_port u s =
     require (s \<noteq> [] \<and> list_all (u_isdigit u) s) ValueError
     (rbind (int_of_str u s) (\<lambda>port. require (1 \<le> port \<and> port \<le> 65535) ValueError (Inr port)))"

definition parse_host_port :: "unicode \<Rightarrow> pystr \<Rightarrow> int \<Rightarrow> (pystr \<times> int) res" where
  "parse_host_port u value default_port =
     (let t = strip value in
      require (t \<noteq> []) ValueError
     (rbind
        (if take 1 t = [91] then
           (let host = takeWhile (\<lambda>c. c \<noteq> 93) (drop 1 t); rest = dropWhile (\<lambda>c. c \<noteq> 93) (drop 1 t) in
            require (rest \<noteq> []) ValueError
              (if drop 1 rest = [] then Inr (host, default_port)
               else if take 1 (drop 1 rest) = [58] then rbind (parse_port u (drop 2 rest)) (\<lambda>port. Inr (host, port))
               else Inl ValueError))
         else if count_list t 58 > 1 then Inr (t, default_port)
         else if 58 \<in> set t then
           rbind (parse_port u (drop 1 (dropWhile (\<lambda>c. c \<noteq> 58) t))) (\<lambda>port. Inr (takeWhile (\<lambda>c. c \<noteq> 58) t, port))
         else Inr (t, default_port))
        (\<lambda>(host, port). require (host \<noteq> []) ValueError (Inr (host, port)))))"

section \<open>Packets\<close>

definition MODBUS_PORT :: nat where "MODBUS_PORT = 502"
definition DNP3_PORT :: nat where "DNP3_PORT = 20000"
definition PCAP_SAMPLE_BYTES :: nat where "PCAP_SAMPLE_BYTES = 32"

record packet =
  pk_ip :: "(pystr \<times> pystr) option"
  pk_ip6 :: "(pystr \<times> pystr) option"
  pk_tcp :: "(nat \<times> nat) option"
  pk_raw :: "bytes option"

definition endpoints :: "packet \<Rightarrow> (pystr \<times> pystr) option" where
  "endpoints p = (case pk_ip p of Some a \<Rightarrow> Some a | None \<Rightarrow> pk_ip6 p)"

definition details :: "(string \<times> pyval) list \<Rightarrow> pydict" where
  "details kvs = map (\<lambda>(k, v). (KStr (lit k), v)) kvs"

definition parse_modbus :: "bytes \<Rightarrow> pydict option" where
  "parse_modbus payload =
     (if length payload < MBAP_HEADER_LEN + 1 then None
      else
        (let protocol = from_bytes (take 2 (drop 2 payload)) in
         if protocol \<noteq> MODBUS_PROTOCOL_ID then None
         else
           (let len = from_bytes (take 2 (drop 4 payload)) in
            if \<not> (MIN_MBAP_LENGTH \<le> len \<and> len \<le> MAX_MBAP_LENGTH) then None
            else Some (details
              [(''transaction_id'', PyInt (int (from_bytes (take 2 payload)))),
               (''protocol_id'', PyInt (int protocol)), (''mbap_length'', PyInt (int len)),
               (''unit_id'', PyInt (int (unat (payload ! 6)))), (''function_code'', PyInt (int (unat (payload ! 7)))),
               (''payload_len'', PyInt (int (length payload))),
               (''length_consistent'', PyBool (MBAP_HEADER_LEN - 1 + len \<le> length payload))]))))"

definition parse_dnp3 :: "bytes \<Rightarrow> pydict option" where
  "parse_dnp3 payload =
     (if length payload < 2 then None
      else Some (details
        [(''payload_len'', PyInt (int (length payload))), (''link_start'', PyStr (hex_of (take 2 payload))),
         (''looks_like_dnp3'', PyBool (take 2 payload = [5, 100])),
         (''hex_sample'', PyStr (hex_of (take PCAP_SAMPLE_BYTES payload)))]))"

section \<open>Analysis\<close>

record ReplayTargets =
  modbus_host :: pystr
  modbus_port :: int
  dnp3_host :: pystr
  dnp3_port :: int

record Summary =
  packets_seen :: nat
  packets_matched :: nat
  packets_replayed :: nat
  s_errors :: nat
  by_modbus :: nat
  by_dnp3 :: nat

definition new_summary :: Summary where
  "new_summary = \<lparr>packets_seen = 0, packets_matched = 0, packets_replayed = 0, s_errors = 0, by_modbus = 0, by_dnp3 = 0\<rparr>"

text \<open>
  The laboratory network, per attempt, with the text of the error. \<open>an_sent\<close> lists the attempts to transmit: target and payload.
\<close>

record lab_net =
  ln_connect :: "nat \<Rightarrow> unit res"
  ln_send :: "nat \<Rightarrow> unit res"
  ln_recv :: "nat \<Rightarrow> bytes res"
  ln_error :: "nat \<Rightarrow> pystr"

record analysis =
  an_summary :: Summary
  an_events :: "emission list"
  an_sent :: "(pystr \<times> int \<times> bytes) list"

record replay_config =
  rc_replay :: bool
  rc_targets :: ReplayTargets
  rc_max_packets :: int
  rc_pcap :: pystr

definition an_emit :: "string \<Rightarrow> pydict \<Rightarrow> analysis \<Rightarrow> analysis" where
  "an_emit event_type d a = a\<lparr>an_events := an_events a @ [(lit event_type, d)]\<rparr>"

definition replay_once :: "lab_net \<Rightarrow> nat \<Rightarrow> unit res" where
  "replay_once net k =
     rbind (ln_connect net k) (\<lambda>_.
     rbind (ln_send net k) (\<lambda>_.
       (case ln_recv net k of Inl e \<Rightarrow> if e = OSError then Inr () else Inl e | Inr _ \<Rightarrow> Inr ())))"

definition host_port :: "pystr \<Rightarrow> int \<Rightarrow> pyval" where
  "host_port host port = PyStr (host @ [58] @ dec_int port)"

text \<open>What a packet is to the analysis: protocol (Modbus?), metadata, addresses, ports, direction, payload.\<close>

record matched =
  ma_modbus :: bool
  ma_metadata :: pydict
  ma_src :: pystr
  ma_dst :: pystr
  ma_sport :: nat
  ma_dport :: nat
  ma_client :: bool
  ma_payload :: bytes

definition match_packet :: "packet \<Rightarrow> matched option" where
  "match_packet p =
     (case (pk_tcp p, pk_raw p) of
        (Some (sport, dport), Some payload) \<Rightarrow>
          (case endpoints p of
             None \<Rightarrow> None
           | Some (src, dst) \<Rightarrow>
               (let is_modbus = MODBUS_PORT \<in> {dport, sport}; is_dnp3 = DNP3_PORT \<in> {dport, sport} in
                if \<not> (is_modbus \<or> is_dnp3) then None
                else
                  (case (if is_modbus then parse_modbus payload else parse_dnp3 payload) of
                     None \<Rightarrow> None
                   | Some metadata \<Rightarrow>
                       Some \<lparr>ma_modbus = is_modbus, ma_metadata = metadata, ma_src = src, ma_dst = dst, ma_sport = sport,
                             ma_dport = dport, ma_client = dport = (if is_modbus then MODBUS_PORT else DNP3_PORT),
                             ma_payload = payload\<rparr>)))
      | _ \<Rightarrow> None)"

definition target_of :: "ReplayTargets \<Rightarrow> bool \<Rightarrow> pystr \<times> int" where
  "target_of t is_modbus = (if is_modbus then (modbus_host t, modbus_port t) else (dnp3_host t, dnp3_port t))"

definition count_match :: "matched \<Rightarrow> analysis \<Rightarrow> analysis" where
  "count_match m a =
     an_emit (if ma_modbus m then ''modbus_packet'' else ''dnp3_packet'')
       (details
         [(''src'', host_port (ma_src m) (int (ma_sport m))), (''dst'', host_port (ma_dst m) (int (ma_dport m))),
          (''direction'', PyStr (if ma_client m then lit ''client_to_server'' else lit ''server_to_client''))] @ ma_metadata m)
       (a\<lparr>an_summary := (an_summary a)
           \<lparr>packets_matched := packets_matched (an_summary a) + 1,
            by_modbus := by_modbus (an_summary a) + (if ma_modbus m then 1 else 0),
            by_dnp3 := by_dnp3 (an_summary a) + (if ma_modbus m then 0 else 1)\<rparr>\<rparr>)"

definition transmit :: "lab_net \<Rightarrow> replay_config \<Rightarrow> matched \<Rightarrow> analysis \<Rightarrow> unit res \<times> analysis" where
  "transmit net cfg m a =
     (let (host, port) = target_of (rc_targets cfg) (ma_modbus m);
          a1 = a\<lparr>an_sent := an_sent a @ [(host, port, ma_payload m)]\<rparr>
      in case replay_once net (length (an_sent a)) of
           Inr _ \<Rightarrow>
             (Inr (), an_emit (if ma_modbus m then ''modbus_replayed'' else ''dnp3_replayed'')
                (details [(''target'', host_port host port), (''bytes_sent'', PyInt (int (length (ma_payload m))))])
                (a1\<lparr>an_summary := (an_summary a1)\<lparr>packets_replayed := packets_replayed (an_summary a1) + 1\<rparr>\<rparr>))
         | Inl e \<Rightarrow>
             if e = OSError
             then (Inr (), an_emit (if ma_modbus m then ''modbus_replay_error'' else ''dnp3_replay_error'')
                     (details [(''target'', host_port host port), (''error'', PyStr (ln_error net (length (an_sent a))))])
                     (a1\<lparr>an_summary := (an_summary a1)\<lparr>s_errors := s_errors (an_summary a1) + 1\<rparr>\<rparr>))
             else (Inl e, a1))"

fun analyse_packets :: "lab_net \<Rightarrow> replay_config \<Rightarrow> exn option \<Rightarrow> packet list \<Rightarrow> analysis \<Rightarrow> unit res \<times> analysis" where
  "analyse_packets net cfg fault [] a = (case fault of None \<Rightarrow> (Inr (), a) | Some e \<Rightarrow> (Inl e, a))"
| "analyse_packets net cfg fault (p # ps) a =
     (if int (packets_seen (an_summary a)) \<ge> rc_max_packets cfg
      then (Inr (), an_emit ''pcap_packet_limit_reached''
              (details [(''limit'', PyInt (rc_max_packets cfg)), (''pcap'', PyStr (rc_pcap cfg))]) a)
      else
        (let a1 = a\<lparr>an_summary := (an_summary a)\<lparr>packets_seen := packets_seen (an_summary a) + 1\<rparr>\<rparr> in
         case match_packet p of
           None \<Rightarrow> analyse_packets net cfg fault ps a1
         | Some m \<Rightarrow>
             (let a2 = count_match m a1 in
              if \<not> (rc_replay cfg \<and> ma_client m) then analyse_packets net cfg fault ps a2
              else (case transmit net cfg m a2 of
                      (Inl e, a3) \<Rightarrow> (Inl e, a3)
                    | (Inr _, a3) \<Rightarrow> analyse_packets net cfg fault ps a3))))"

definition summary_details :: "Summary \<Rightarrow> pydict" where
  "summary_details s = details
     [(''packets_seen'', PyInt (int (packets_seen s))), (''packets_matched'', PyInt (int (packets_matched s))),
      (''packets_replayed'', PyInt (int (packets_replayed s))), (''errors'', PyInt (int (s_errors s))),
      (''by_protocol'', PyDict (details [(''modbus'', PyInt (int (by_modbus s))), (''dnp3'', PyInt (int (by_dnp3 s)))]))]"

definition analysis_start :: "replay_config \<Rightarrow> analysis" where
  "analysis_start cfg =
     (let t = rc_targets cfg in
      an_emit ''pcap_analysis_started''
        (details [(''pcap'', PyStr (rc_pcap cfg)), (''replay'', PyBool (rc_replay cfg)),
          (''max_packets'', PyInt (rc_max_packets cfg)),
          (''modbus_target'', if rc_replay cfg then host_port (modbus_host t) (modbus_port t) else PyNone),
          (''dnp3_target'', if rc_replay cfg then host_port (dnp3_host t) (dnp3_port t) else PyNone)])
        \<lparr>an_summary = new_summary, an_events = [], an_sent = []\<rparr>)"

text \<open>\<^verbatim>\<open>ScapyUnavailableError\<close> is a \<^verbatim>\<open>RuntimeError\<close>.\<close>

definition analyse_capture ::
  "bool \<Rightarrow> lab_net \<Rightarrow> replay_config \<Rightarrow> packet list \<Rightarrow> exn option \<Rightarrow> Summary res \<times> analysis"
where
  "analyse_capture have_scapy net cfg ps fault =
     (if \<not> have_scapy then (Inl RuntimeError, \<lparr>an_summary = new_summary, an_events = [], an_sent = []\<rparr>)
      else
        (case analyse_packets net cfg fault ps (analysis_start cfg) of
           (Inl e, a) \<Rightarrow> (Inl e, a)
         | (Inr _, a) \<Rightarrow>
             (Inr (an_summary a),
              an_emit ''pcap_analysis_finished'' (details [(''pcap'', PyStr (rc_pcap cfg))] @ summary_details (an_summary a)) a)))"

text \<open>
  \<^verbatim>\<open>main\<close> after the arguments are parsed: the exit status. \<open>capture\<close> is what Scapy reads from the file.
\<close>

record pcap_args =
  pa_pcap :: pystr
  pa_approved_dir :: "pystr option"
  pa_replay :: bool
  pa_modbus_target :: pystr
  pa_dnp3_target :: pystr
  pa_max_packets :: int

definition pcap_config :: "unicode \<Rightarrow> pcap_args \<Rightarrow> pystr list \<Rightarrow> replay_config res" where
  "pcap_config u args pcap_path =
     rbind (parse_host_port u (pa_modbus_target args) 5020) (\<lambda>(mh, mp).
     rbind (parse_host_port u (pa_dnp3_target args) 20000) (\<lambda>(dh, dp).
       Inr \<lparr>rc_replay = pa_replay args,
            rc_targets = \<lparr>modbus_host = mh, modbus_port = mp, dnp3_host = dh, dnp3_port = dp\<rparr>,
            rc_max_packets = pa_max_packets args,
            rc_pcap = path_str pcap_path\<rparr>))"

definition pcap_main ::
  "posix \<Rightarrow> path_env \<Rightarrow> unicode \<Rightarrow> bool \<Rightarrow> lab_net \<Rightarrow> (pystr list \<Rightarrow> packet list \<times> exn option) \<Rightarrow> pcap_args \<Rightarrow> int res \<times> analysis option"
where
  "pcap_main px pe u have_scapy net capture args =
     (case overridden px (pa_approved_dir args) (pcap_dir px pe) of
        Inl e \<Rightarrow> (Inl e, None)
      | Inr approved \<Rightarrow>
          (case validate_pcap_path px (pa_pcap args) \<lparr>p_abs = True, p_parts = approved\<rparr> of
             Inl e \<Rightarrow>
               (if e \<in> {ValueError, UnsupportedCaptureError, PcapTraversalError, PcapNotFoundError} then Inr 2 else Inl e, None)
           | Inr pcap_path \<Rightarrow>
               (case pcap_config u args pcap_path of
                  Inl e \<Rightarrow> (Inl e, None)
                | Inr cfg \<Rightarrow>
                    if \<not> have_scapy then (Inr 3, None)
                    else
                      (case analyse_capture have_scapy net cfg (fst (capture pcap_path)) (snd (capture pcap_path)) of
                         (Inl e, a) \<Rightarrow> (Inl e, Some a)
                       | (Inr _, a) \<Rightarrow> (Inr 0, Some a)))))"

section \<open>What an analysis does\<close>

text \<open>The packets within the budget, and what the replay of a packet may transmit.\<close>

definition budget :: "replay_config \<Rightarrow> packet list \<Rightarrow> packet list" where
  "budget cfg ps = take (nat (rc_max_packets cfg)) ps"

definition replayable :: "replay_config \<Rightarrow> packet \<Rightarrow> (pystr \<times> int \<times> bytes) \<Rightarrow> bool" where
  "replayable cfg p s \<longleftrightarrow> rc_replay cfg \<and>
     (\<exists>m. match_packet p = Some m \<and> ma_client m \<and> s = (fst (target_of (rc_targets cfg) (ma_modbus m)),
        snd (target_of (rc_targets cfg) (ma_modbus m)), ma_payload m))"

text \<open>
  The invariant of the loop after the packets \<open>ps\<close>: the counters agree with each other and with what
  was sent, \<open>pending\<close> being the transmission that ended with an unexpected exception.
\<close>

definition accounted :: "replay_config \<Rightarrow> packet list \<Rightarrow> nat \<Rightarrow> analysis \<Rightarrow> bool" where
  "accounted cfg ps pending a \<longleftrightarrow>
     packets_seen (an_summary a) = length ps \<and> int (length ps) \<le> max 0 (rc_max_packets cfg) \<and>
     packets_matched (an_summary a) = length (List.map_filter match_packet ps) \<and>
     by_modbus (an_summary a) + by_dnp3 (an_summary a) = packets_matched (an_summary a) \<and>
     length (an_sent a) = packets_replayed (an_summary a) + s_errors (an_summary a) + pending \<and>
     length (an_sent a) \<le> packets_matched (an_summary a) \<and>
     (\<forall>s\<in>set (an_sent a). \<exists>p\<in>set ps. replayable cfg p s)"

lemma an_emit_simps [simp]: "an_summary (an_emit t d a) = an_summary a" "an_sent (an_emit t d a) = an_sent a"
  by (simp_all add: an_emit_def)

lemma count_match_simps [simp]:
  "an_sent (count_match m a) = an_sent a" "packets_seen (an_summary (count_match m a)) = packets_seen (an_summary a)"
  "packets_matched (an_summary (count_match m a)) = packets_matched (an_summary a) + 1"
  "packets_replayed (an_summary (count_match m a)) = packets_replayed (an_summary a)"
  "s_errors (an_summary (count_match m a)) = s_errors (an_summary a)"
  "by_modbus (an_summary (count_match m a)) + by_dnp3 (an_summary (count_match m a))
     = by_modbus (an_summary a) + by_dnp3 (an_summary a) + 1"
  by (simp_all add: count_match_def)

lemma transmit_effect:
  assumes "transmit net cfg m a = (r, a')"
  shows "an_sent a' = an_sent a @ [(fst (target_of (rc_targets cfg) (ma_modbus m)), snd (target_of (rc_targets cfg) (ma_modbus m)), ma_payload m)]
    \<and> packets_seen (an_summary a') = packets_seen (an_summary a) \<and> packets_matched (an_summary a') = packets_matched (an_summary a)
    \<and> by_modbus (an_summary a') = by_modbus (an_summary a) \<and> by_dnp3 (an_summary a') = by_dnp3 (an_summary a)
    \<and> packets_replayed (an_summary a') + s_errors (an_summary a')
        = packets_replayed (an_summary a) + s_errors (an_summary a) + (case r of Inr _ \<Rightarrow> 1 | Inl _ \<Rightarrow> 0)"
  using assms by (auto simp: transmit_def Let_def split: sum.splits prod.splits if_splits)

lemma analyse_packets_accounted:
  assumes "analyse_packets net cfg fault ps a = (r, a')" "accounted cfg qs 0 a"
  shows "\<exists>n pending. accounted cfg (qs @ take n ps) pending a' \<and> (case r of Inr _ \<Rightarrow> pending = 0 | Inl _ \<Rightarrow> pending \<le> 1)
    \<and> (is_ok r \<longrightarrow> n = min (length ps) (nat (rc_max_packets cfg) - length qs))"
  using assms
proof (induction ps arbitrary: a qs)
  case Nil
  then show ?case by (intro exI [of _ 0]) (auto split: option.splits)
next
  case (Cons p ps)
  show ?case
  proof (cases "int (packets_seen (an_summary a)) \<ge> rc_max_packets cfg")
    case True
    with Cons.prems show ?thesis by (intro exI [of _ 0]) (auto simp: accounted_def)
  next
    case False
    let ?a1 = "a\<lparr>an_summary := (an_summary a)\<lparr>packets_seen := packets_seen (an_summary a) + 1\<rparr>\<rparr>"
    have seen: "packets_seen (an_summary a) = length qs" using Cons.prems(2) by (simp add: accounted_def)
    have more: "min (length (p # ps)) (nat (rc_max_packets cfg) - length qs)
        = Suc (min (length ps) (nat (rc_max_packets cfg) - length (qs @ [p])))"
      using False seen by auto
    have step: ?thesis if b: "analyse_packets net cfg fault ps b = (r, a')" "accounted cfg (qs @ [p]) 0 b" for b
    proof -
      obtain n pending where n: "accounted cfg ((qs @ [p]) @ take n ps) pending a'" "case r of Inr _ \<Rightarrow> pending = 0 | Inl _ \<Rightarrow> pending \<le> 1"
          "is_ok r \<longrightarrow> n = min (length ps) (nat (rc_max_packets cfg) - length (qs @ [p]))"
        using Cons.IH [OF b] by blast
      show ?thesis by (rule exI [of _ "Suc n"], rule exI [of _ pending]) (use n more in simp)
    qed
    show ?thesis
    proof (cases "match_packet p")
      case None
      then have "accounted cfg (qs @ [p]) 0 ?a1"
        using Cons.prems(2) False by (auto simp: accounted_def map_filter_def)
      with step [of ?a1] None Cons.prems(1) False show ?thesis by (simp add: Let_def)
    next
      case (Some m)
      let ?a2 = "count_match m ?a1"
      have acc: "accounted cfg (qs @ [p]) 0 ?a2"
        using Cons.prems(2) False Some by (auto simp: accounted_def map_filter_def)
      show ?thesis
      proof (cases "rc_replay cfg \<and> ma_client m")
        case False
        with step [OF _ acc] Some Cons.prems(1) \<open>\<not> rc_max_packets cfg \<le> _\<close> show ?thesis by (simp add: Let_def)
      next
        case True
        obtain q a3 where t: "transmit net cfg m ?a2 = (q, a3)" by fastforce
        note eff = transmit_effect [OF t]
        have "accounted cfg (qs @ [p]) (case q of Inr _ \<Rightarrow> 0 | Inl _ \<Rightarrow> 1) a3"
          using acc eff True Some Cons.prems(2) unfolding accounted_def replayable_def
          by (auto simp: map_filter_def split: sum.splits)
        moreover have "(case q of Inl e \<Rightarrow> (Inl e, a3) | Inr _ \<Rightarrow> analyse_packets net cfg fault ps a3) = (r, a')"
          using Cons.prems(1) True Some t \<open>\<not> rc_max_packets cfg \<le> _\<close> by (simp add: Let_def split: sum.splits)
        ultimately show ?thesis using step [of a3] by (cases q) (auto intro!: exI [of _ 1] exI [of _ "Suc 0"])
      qed
    qed
  qed
qed

lemma budget_take:
  assumes "int (length (take n ps)) \<le> max 0 (rc_max_packets cfg)"
  shows "set (take n ps) \<subseteq> set (budget cfg ps)"
proof -
  have "take n ps = take (min n (length ps)) ps" by (metis min.commute take_all_iff take_take nat_le_linear min_def)
  moreover have "min n (length ps) \<le> nat (rc_max_packets cfg)" using assms by auto
  ultimately show ?thesis by (metis budget_def set_take_subset_set_take)
qed

section \<open>Targets\<close>

lemma parse_port_range: "parse_port u s = Inr p \<Longrightarrow> 1 \<le> p \<and> p \<le> 65535"
  by (auto simp: parse_port_def require_Inr_iff rbind_Inr_iff)

lemma int_of_str_error: "int_of_str u s = Inl e \<Longrightarrow> e = ValueError"
  by (auto simp: int_of_str_def Let_def require_def split: option.splits if_splits)

lemma parse_port_error: "parse_port u s = Inl e \<Longrightarrow> e = ValueError"
  by (auto simp: parse_port_def require_def rbind_Inl_iff dest: int_of_str_error split: if_splits)

lemma span_at:
  "c \<notin> set xs \<Longrightarrow> takeWhile (\<lambda>x. x \<noteq> c) (xs @ c # ys) = xs \<and> dropWhile (\<lambda>x. x \<noteq> c) (xs @ c # ys) = c # ys"
  by (induction xs) auto

lemma parse_host_port_cases:
  "case parse_host_port u v d of Inl e \<Rightarrow> e = ValueError | Inr (h, p) \<Rightarrow> h \<noteq> [] \<and> (p = d \<or> 1 \<le> p \<and> p \<le> 65535)"
proof (cases "parse_host_port u v d")
  case (Inl e)
  then show ?thesis
    by (auto simp: parse_host_port_def Let_def require_Inl_iff rbind_Inl_iff dest: parse_port_error split: if_splits)
next
  case (Inr x)
  then show ?thesis
    by (cases x) (auto simp: parse_host_port_def Let_def require_Inr_iff rbind_Inr_iff dest: parse_port_range split: if_splits)
qed

lemma parse_port_dec:
  assumes "unicode_ok u" "1 \<le> port" "port \<le> 65535"
  shows "parse_port u (dec_int port) = Inr port"
proof -
  have ds: "dec_int port = dec_nat (nat port)" using assms(2) by (simp add: dec_int_def)
  have "list_all (u_isdigit u) (dec_int port)"
    using dec_nat_digits [of "nat port"] assms(1) by (auto simp: ds list_all_iff unicode_ok_def is_digit_def)
  moreover have "dec_int port \<noteq> []" using dec_nat_hd [of "nat port"] by (auto simp: ds)
  moreover have "int_digits_ok port"
  proof -
    have "nat port < 10 ^ 5" using assms(3) by simp
    from dec_nat_length [OF this] assms(2) show ?thesis by (simp add: int_digits_ok_def MAX_STR_DIGITS_def)
  qed
  ultimately show ?thesis using int_of_str_dec [OF assms(1)] assms(2,3) by (simp add: parse_port_def require_def)
qed

section \<open>Properties\<close>


definition demo_posix :: posix where
  "demo_posix = \<lparr>px_fs =
      [([lit ''lab''], Directory), ([lit ''lab'', lit ''pcaps''], Directory), ([lit ''lab'', lit ''latest''], Symlink (lit ''pcaps/a.pcap'')),
       ([lit ''lab'', lit ''pcaps'', lit ''a.pcap''], RegFile False), ([lit ''lab'', lit ''pcaps'', lit ''out.pcap''], Symlink (lit ''../secret'')),
       ([lit ''lab'', lit ''secret''], RegFile False), ([lit ''lab'', lit ''run''], RegFile True)],
     px_cwd = [lit ''lab''], px_expanduser = Inr\<rparr>"


text \<open>
  A replay target in the form \<^verbatim>\<open>HOST:PORT\<close> is read as written, for every host name without
  colon, bracket or surrounding white space and every port; and whatever the text, the result has a
  host and the default port or one of the range 1 to 65535, or the error is \<^verbatim>\<open>ValueError\<close>.
\<close>

theorem target_parsed:
  assumes "unicode_ok u" "host \<noteq> []" "58 \<notin> set host" "hd host \<noteq> 91" "\<not> py_space (hd host)" "1 \<le> port" "port \<le> 65535"
  shows "parse_host_port u (host @ [58] @ dec_int port) d = Inr (host, port)
    \<and> (\<forall>v. case parse_host_port u v d of Inl e \<Rightarrow> e = ValueError | Inr (h, p) \<Rightarrow> h \<noteq> [] \<and> (p = d \<or> 1 \<le> p \<and> p \<le> 65535))"
proof -
  define t where "t = host @ [58] @ dec_int port"
  have ds: "dec_int port = dec_nat (nat port)" using assms(6) by (simp add: dec_int_def)
  have dig: "\<forall>c\<in>set (dec_int port). is_digit c" using dec_nat_digits by (simp add: ds)
  have ne: "dec_int port \<noteq> []" using dec_nat_hd [of "nat port"] by (auto simp: ds)
  then have "is_digit (last t)" using dig by (simp add: t_def)
  then have "\<not> py_space (last t)" by (auto simp: is_digit_def py_space_def)
  then have st: "strip t = t" using assms(2,5) by (intro strip_id) (simp add: t_def hd_append)
  have "58 \<notin> set (dec_int port)" using dig by (auto simp: is_digit_def)
  then have "count_list t 58 = 1" using assms(3) by (simp add: t_def count_list_0_iff [THEN iffD2])
  moreover have "takeWhile (\<lambda>c. c \<noteq> 58) t = host" "dropWhile (\<lambda>c. c \<noteq> 58) t = 58 # dec_int port"
    using span_at [OF assms(3)] by (simp_all add: t_def)
  moreover have "take 1 t \<noteq> [91]" using assms(2,4) by (cases host) (simp_all add: t_def)
  moreover have "58 \<in> set t" "t \<noteq> []" by (simp_all add: t_def)
  ultimately have "parse_host_port u t d = Inr (host, port)"
    using assms(2) parse_port_dec [OF assms(1,6,7)] by (simp add: parse_host_port_def st Let_def require_def)
  with parse_host_port_cases [where u = u and d = d] show ?thesis unfolding t_def by blast
qed

theorem target_parsed_witness: "parse_host_port ascii_unicode (lit ''plc'' @ [58] @ dec_int 502) 5020 = Inr (lit ''plc'', 502)"
  using target_parsed [OF ascii_unicode_ok, of "lit ''plc''" 502 5020] by (simp add: py_space_def)


definition demo_packet :: packet where
  "demo_packet = \<lparr>pk_ip = Some (lit ''10.0.0.1'', lit ''10.0.0.2''), pk_ip6 = None, pk_tcp = Some (40000, 502),
     pk_raw = Some [0, 1, 0, 0, 0, 6, 1, 3, 0, 0, 0, 2]\<rparr>"

definition demo_replay :: replay_config where
  "demo_replay = \<lparr>rc_replay = True, rc_targets = \<lparr>modbus_host = lit ''lab'', modbus_port = 5020, dnp3_host = lit ''lab'', dnp3_port = 20000\<rparr>,
     rc_max_packets = 2, rc_pcap = lit ''a.pcap''\<rparr>"

definition demo_lab :: lab_net where
  "demo_lab = \<lparr>ln_connect = (\<lambda>k. if k = 1 then Inl OSError else Inr ()), ln_send = (\<lambda>k. Inr ()), ln_recv = (\<lambda>k. Inl OSError),
     ln_error = (\<lambda>k. lit ''refused'')\<rparr>"


text \<open>
  The loader's reading of a Modbus payload agrees with the server's: metadata is produced
  exactly for a payload that has at least one byte after a header the server takes as valid, and
  \<^verbatim>\<open>length_consistent\<close> says whether the payload holds the whole frame the server would wait for.
\<close>

theorem loader_agrees_with_server:
  "(parse_modbus payload \<noteq> None \<longleftrightarrow> MBAP_HEADER_LEN < length payload \<and> (\<exists>h. parse_mbap payload = Some h \<and> is_valid_mbap h))
   \<and> (\<forall>d. parse_modbus payload = Some d \<longrightarrow>
        dict_get d (lit ''length_consistent'') = Some (PyBool (total_frame_len (the (parse_mbap payload)) \<le> length payload)))"
  by (auto simp: parse_modbus_def parse_mbap_def is_valid_mbap_def total_frame_len_def details_def Let_def dict_get_def modbus_consts
      split: if_splits)

end
