(* ===== verification/Controller.thy ===== *)
theory Controller
  imports Pcap JsonFile "HOL-Library.AList"
begin

text \<open>
  \<^verbatim>\<open>controller/config.py\<close> and \<^verbatim>\<open>controller/process.py\<close>, with \<^verbatim>\<open>component_log_path\<close> of \<^verbatim>\<open>common/paths.py\<close>:
  the validated configuration and the supervision of child processes. What the operating system does
  is the record \<open>kernel\<close> over a state of any type; \<open>kernel_ok\<close> says what is relied on. A process is
  the handle \<^verbatim>\<open>Popen\<close> returned. The supervisor's lock makes each of its operations one step.
  \<open>last_error\<close> keeps what was reported, not the wording. Pydantic's conversion of a document to the
  declared types is a parameter; the checks the source declares come after it. Shown: components of
  a loaded configuration are well formed, a started executable lies in the project, stopping
  escalates and ends, no child is ever lost, and shutdown leaves none behind.
\<close>

section \<open>Configuration\<close>

datatype component_kind = KPython | KBinary

record ComponentConfig =
  cc_kind :: component_kind
  cc_args :: "pystr list"
  cc_command :: "pystr list"
  cc_enabled :: bool
  cc_autostart :: bool
  cc_description :: pystr

definition no_empty_tokens :: "pystr list \<Rightarrow> bool" where
  "no_empty_tokens ts \<longleftrightarrow> list_all (\<lambda>t. strip t \<noteq> []) ts"

definition validate_shape :: "ComponentConfig \<Rightarrow> unit res" where
  "validate_shape c =
     require (\<not> (cc_kind c = KPython \<and> cc_args c = [])) ValueError
    (require (\<not> (cc_kind c = KBinary \<and> cc_command c = [])) ValueError
    (require (\<not> (cc_kind c = KPython \<and> cc_command c \<noteq> [])) ValueError
    (require (\<not> (cc_kind c = KBinary \<and> cc_args c \<noteq> [])) ValueError (Inr ()))))"

definition resolve_executable :: "posix \<Rightarrow> path \<Rightarrow> ComponentConfig \<Rightarrow> pystr list option res" where
  "resolve_executable px project_root c =
     (if cc_kind c \<noteq> KBinary then Inr None
      else
        rbind (case cc_command c of [] \<Rightarrow> Inl IndexError | t # _ \<Rightarrow> Inr (parse_path t)) (\<lambda>raw.
        rbind (if p_abs raw then resolve px raw
               else
                 rbind (resolve px project_root) (\<lambda>root.
                 rbind (resolve px \<lparr>p_abs = True, p_parts = root @ p_parts raw\<rparr>) (\<lambda>candidate.
                   require (prefix root candidate) ValueError (Inr candidate)))) (\<lambda>candidate.
        require (is_file px candidate) ValueError
       (require (is_executable px candidate) ValueError
         (Inr (Some candidate))))))"

record ControllerConfig =
  cf_host :: pystr
  cf_port :: int
  cf_pcap_dir :: "pystr option"
  cf_max_replay_packets :: int
  cf_components :: "(pystr \<times> ComponentConfig) list"

text \<open>\<^verbatim>\<open>name.replace("-", "").replace("_", "").isalnum()\<close>, false for what is empty then.\<close>

definition valid_component_name :: "unicode \<Rightarrow> pystr \<Rightarrow> bool" where
  "valid_component_name u name \<longleftrightarrow>
     name \<noteq> [] \<and> (let t = filter (\<lambda>c. c \<noteq> 45 \<and> c \<noteq> 95) name in t \<noteq> [] \<and> list_all (u_isalnum u) t)"

fun validate_components :: "unicode \<Rightarrow> (pystr \<times> ComponentConfig) list \<Rightarrow> unit res" where
  "validate_components u [] = Inr ()"
| "validate_components u ((name, c) # cs) =
     require (valid_component_name u name) ValueError
       (rbind (validate_shape c) (\<lambda>_. validate_components u cs))"

text \<open>The declared bounds and validators; Pydantic reports any of them as \<^verbatim>\<open>ValidationError\<close>.\<close>

definition validate_controller :: "unicode \<Rightarrow> ControllerConfig \<Rightarrow> ControllerConfig res" where
  "validate_controller u cf =
     require (1 \<le> cf_port cf \<and> cf_port cf \<le> 65535 \<and> 1 \<le> cf_max_replay_packets cf \<and> cf_max_replay_packets cf \<le> 1000000
        \<and> list_all (\<lambda>(_, c). no_empty_tokens (cc_args c) \<and> no_empty_tokens (cc_command c)) (cf_components cf)) ValidationError
       (case validate_components u (cf_components cf) of Inl _ \<Rightarrow> Inl ValidationError | Inr _ \<Rightarrow> Inr cf)"

definition enabled_components :: "ControllerConfig \<Rightarrow> (pystr \<times> ComponentConfig) list" where
  "enabled_components cf = filter (\<lambda>(_, c). cc_enabled c) (cf_components cf)"

definition default_config :: ControllerConfig where
  "default_config =
     \<lparr>cf_host = lit ''127.0.0.1'', cf_port = 8000, cf_pcap_dir = None, cf_max_replay_packets = 5000, cf_components =
       [(lit ''modbus_python'', \<lparr>cc_kind = KPython, cc_args = map lit [''-m'', ''ics_deception.honeypots.modbus_server'',
           ''--host'', ''127.0.0.1'', ''--port'', ''5020''], cc_command = [], cc_enabled = False, cc_autostart = False,
           cc_description = lit ''Standard-library Modbus/TCP deception server (FC03/FC06 subset)''\<rparr>),
        (lit ''modbus_native'', \<lparr>cc_kind = KBinary, cc_args = [], cc_command = map lit [''build/modbus_honeypot'', ''--bind'',
           ''127.0.0.1'', ''--port'', ''5020''], cc_enabled = False, cc_autostart = False,
           cc_description = lit ''Native C++ Modbus/TCP honeypot (build with ''@ [39] @ lit ''make build'' @ [39] @ lit '')''\<rparr>),
        (lit ''dnp3'', \<lparr>cc_kind = KPython, cc_args = map lit [''-m'', ''ics_deception.honeypots.dnp3_sensor'', ''--host'',
           ''127.0.0.1'', ''--port'', ''20000''], cc_command = [], cc_enabled = False, cc_autostart = False,
           cc_description = lit ''DNP3-inspired interaction sensor (NOT a DNP3 outstation)''\<rparr>),
        (lit ''fake_plc'', \<lparr>cc_kind = KPython, cc_args = map lit [''-m'', ''ics_deception.iot_nodes.fake_plc'', ''--target-host'',
           ''127.0.0.1'', ''--target-port'', ''5020'', ''--interval'', ''30''], cc_command = [], cc_enabled = False, cc_autostart = False,
           cc_description = lit ''Fake PLC node polling the Modbus honeypot with valid FC03 requests''\<rparr>)]\<rparr>"

text \<open>\<open>content\<close>: what reading the file yields, \<open>None\<close> when no path was given or it is not a file.\<close>

definition load_config :: "unicode \<Rightarrow> (pyval \<Rightarrow> ControllerConfig res) \<Rightarrow> bytes res option \<Rightarrow> ControllerConfig res" where
  "load_config u to_config content =
     (case content of
        None \<Rightarrow> Inr default_config
      | Some r \<Rightarrow>
          (case rbind (rbind r read_text) json_loads of
             Inl e \<Rightarrow> Inl (if e = OSError \<or> e = UnicodeError \<or> e = JSONDecodeError then ConfigError else e)
           | Inr raw \<Rightarrow>
               (case rbind (to_config raw) (validate_controller u) of
                  Inl e \<Rightarrow> Inl (if e = ValidationError then ConfigError else e)
                | Inr cf \<Rightarrow> Inr cf)))"

section \<open>The operating system\<close>

datatype signal = SIGTERM | SIGKILL

text \<open>
  A handle is a natural number. \<open>k_wait\<close> has the grace period as its timeout, with \<open>None\<close> for
  \<^verbatim>\<open>TimeoutExpired\<close>; \<open>k_killpg\<close> is \<^verbatim>\<open>os.killpg(os.getpgid(pid), sig)\<close>.
\<close>

record 'w kernel =
  k_pid :: "nat \<Rightarrow> int"
  k_poll :: "nat \<Rightarrow> 'w \<Rightarrow> int option \<times> 'w"
  k_wait :: "nat \<Rightarrow> 'w \<Rightarrow> int option \<times> 'w"
  k_killpg :: "nat \<Rightarrow> signal \<Rightarrow> 'w \<Rightarrow> unit res \<times> 'w"
  k_terminate :: "nat \<Rightarrow> 'w \<Rightarrow> unit res \<times> 'w"
  k_kill :: "nat \<Rightarrow> 'w \<Rightarrow> unit res \<times> 'w"
  k_open_log :: "pystr list \<Rightarrow> 'w \<Rightarrow> unit res \<times> 'w"
  k_spawn :: "pystr list \<Rightarrow> 'w \<Rightarrow> nat res \<times> 'w"

record 'w ctl =
  ct_world :: 'w
  ct_events :: "emission list"

definition ct_emit :: "string \<Rightarrow> (string \<times> pyval) list \<Rightarrow> 'w ctl \<Rightarrow> 'w ctl" where
  "ct_emit event_type d s = s\<lparr>ct_events := ct_events s @ [(lit event_type, details d)]\<rparr>"

text \<open>An operation of the kernel on the world of the controller.\<close>

definition on_world :: "('w \<Rightarrow> 'a \<times> 'w) \<Rightarrow> 'w ctl \<Rightarrow> 'a \<times> 'w ctl" where
  "on_world f s = (case f (ct_world s) of (r, w) \<Rightarrow> (r, s\<lparr>ct_world := w\<rparr>))"

section \<open>One process\<close>

datatype start_error = Disabled | BadExecutable | NoLog | SpawnFailed

record ManagedProcess =
  mp_name :: pystr
  mp_config :: ComponentConfig
  mp_proc :: "nat option"
  mp_last_error :: "start_error option"
  mp_log :: bool

record ctl_env =
  ce_posix :: posix
  ce_root :: path
  ce_executable :: pystr
  ce_runtime :: "pystr list"
  ce_unicode :: unicode

definition new_process :: "pystr \<Rightarrow> ComponentConfig \<Rightarrow> ManagedProcess" where
  "new_process name c = \<lparr>mp_name = name, mp_config = c, mp_proc = None, mp_last_error = None, mp_log = False\<rparr>"

definition component_log_path :: "ctl_env \<Rightarrow> pystr \<Rightarrow> pystr list" where
  "component_log_path env name =
     ce_runtime env @ [lit ''components'',
       map (\<lambda>c. if u_isalnum (ce_unicode env) c \<or> c = 45 \<or> c = 95 then c else 95) name @ lit ''.log'']"

definition build_argv :: "ctl_env \<Rightarrow> ManagedProcess \<Rightarrow> pystr list res" where
  "build_argv env p =
     (if cc_kind (mp_config p) = KPython then Inr (ce_executable env # cc_args (mp_config p))
      else
        rbind (resolve_executable (ce_posix env) (ce_root env) (mp_config p)) (\<lambda>x.
          (case x of
             None \<Rightarrow> Inl (Fault (lit ''AssertionError''))
           | Some q \<Rightarrow> Inr (path_str q # drop 1 (cc_command (mp_config p))))))"

definition mp_status :: "'w kernel \<Rightarrow> ManagedProcess \<Rightarrow> 'w ctl \<Rightarrow> pystr \<times> 'w ctl" where
  "mp_status k p s =
     (case mp_proc p of
        None \<Rightarrow> (if mp_last_error p \<noteq> None then lit ''failed'' else lit ''stopped'', s)
      | Some h \<Rightarrow>
          (case on_world (k_poll k h) s of
             (None, s') \<Rightarrow> (lit ''running'', s')
           | (Some code, s') \<Rightarrow> (lit ''exited('' @ dec_int code @ lit '')'', s')))"

definition start_failed :: "string \<Rightarrow> start_error \<Rightarrow> ManagedProcess \<Rightarrow> 'w ctl \<Rightarrow> bool res \<times> ManagedProcess \<times> 'w ctl" where
  "start_failed event_type err p s =
     (Inr False, p\<lparr>mp_last_error := Some err\<rparr>, ct_emit event_type [(''name'', PyStr (mp_name p))] s)"

text \<open>The part of \<^verbatim>\<open>start\<close> after the check for a running process.\<close>

definition mp_launch :: "'w kernel \<Rightarrow> ctl_env \<Rightarrow> ManagedProcess \<Rightarrow> 'w ctl \<Rightarrow> bool res \<times> ManagedProcess \<times> 'w ctl" where
  "mp_launch k env p s =
     (if \<not> cc_enabled (mp_config p) then start_failed ''component_start_refused'' Disabled p s
      else
        (case build_argv env p of
           Inl e \<Rightarrow> if e = ValueError then start_failed ''component_start_failed'' BadExecutable p s else (Inl e, p, s)
         | Inr argv \<Rightarrow>
             (case on_world (k_open_log k (component_log_path env (mp_name p))) s of
                (Inl e, s1) \<Rightarrow> if e = OSError then start_failed ''component_start_failed'' NoLog p s1 else (Inl e, p, s1)
              | (Inr _, s1) \<Rightarrow>
                  (case on_world (k_spawn k argv) s1 of
                     (Inl e, s2) \<Rightarrow>
                       if e = OSError then start_failed ''component_start_failed'' SpawnFailed (p\<lparr>mp_proc := None\<rparr>) s2 else (Inl e, p, s2)
                   | (Inr h, s2) \<Rightarrow>
                       (Inr True, p\<lparr>mp_proc := Some h, mp_last_error := None, mp_log := True\<rparr>,
                        ct_emit ''component_started''
                          [(''name'', PyStr (mp_name p)), (''pid'', PyInt (k_pid k h)), (''argv'', PyList (map PyStr argv)),
                           (''log_file'', PyStr (path_str (component_log_path env (mp_name p))))] s2)))))"

definition mp_start :: "'w kernel \<Rightarrow> ctl_env \<Rightarrow> ManagedProcess \<Rightarrow> 'w ctl \<Rightarrow> bool res \<times> ManagedProcess \<times> 'w ctl" where
  "mp_start k env p s =
     (case mp_proc p of
        None \<Rightarrow> mp_launch k env p s
      | Some h \<Rightarrow>
          (case on_world (k_poll k h) s of
             (None, s') \<Rightarrow> (Inr True, p, s')
           | (Some _, s') \<Rightarrow> mp_launch k env p s'))"

definition signal_group :: "'w kernel \<Rightarrow> nat \<Rightarrow> signal \<Rightarrow> 'w ctl \<Rightarrow> 'w ctl" where
  "signal_group k h sig s =
     (case on_world (k_killpg k h sig) s of
        (Inr _, s') \<Rightarrow> s'
      | (Inl _, s') \<Rightarrow> snd (on_world (k_terminate k h) s'))"

definition mp_stopped :: "ManagedProcess \<Rightarrow> int \<Rightarrow> 'w ctl \<Rightarrow> bool \<times> ManagedProcess \<times> 'w ctl" where
  "mp_stopped p code s =
     (True, p\<lparr>mp_log := False, mp_proc := None\<rparr>,
      ct_emit ''component_stopped'' [(''name'', PyStr (mp_name p)), (''returncode'', PyInt code)] s)"

definition mp_stop :: "'w kernel \<Rightarrow> ManagedProcess \<Rightarrow> 'w ctl \<Rightarrow> bool \<times> ManagedProcess \<times> 'w ctl" where
  "mp_stop k p s =
     (case mp_proc p of
        None \<Rightarrow> (True, p, s)
      | Some h \<Rightarrow>
          (case on_world (k_poll k h) s of
             (Some code, s1) \<Rightarrow> mp_stopped p code s1
           | (None, s1) \<Rightarrow>
               (let who = [(''name'', PyStr (mp_name p)), (''pid'', PyInt (k_pid k h))];
                    s2 = signal_group k h SIGTERM (ct_emit ''component_stopping'' who s1)
                in case on_world (k_wait k h) s2 of
                     (Some code, s3) \<Rightarrow> mp_stopped p code s3
                   | (None, s3) \<Rightarrow>
                       (let s4 = signal_group k h SIGKILL (ct_emit ''component_kill'' who s3)
                        in case on_world (k_wait k h) s4 of
                             (Some code, s5) \<Rightarrow> mp_stopped p code s5
                           | (None, s5) \<Rightarrow> (False, p, ct_emit ''component_stop_failed'' who s5)))))"

section \<open>The supervisor\<close>

record 'w supervisor =
  su_processes :: "(pystr \<times> ManagedProcess) list"
  su_ctl :: "'w ctl"

definition new_supervisor :: "ControllerConfig \<Rightarrow> 'w \<Rightarrow> 'w supervisor" where
  "new_supervisor cf w =
     \<lparr>su_processes = map (\<lambda>(name, c). (name, new_process name c)) (cf_components cf), su_ctl = \<lparr>ct_world = w, ct_events = []\<rparr>\<rparr>"

definition sup_start :: "'w kernel \<Rightarrow> ctl_env \<Rightarrow> pystr \<Rightarrow> 'w supervisor \<Rightarrow> bool res \<times> 'w supervisor" where
  "sup_start k env name sv =
     (case map_of (su_processes sv) name of
        None \<Rightarrow> (Inr False, sv)
      | Some p \<Rightarrow>
          (case mp_start k env p (su_ctl sv) of
             (r, p', s) \<Rightarrow> (r, \<lparr>su_processes = AList.update name p' (su_processes sv), su_ctl = s\<rparr>)))"

definition sup_stop :: "'w kernel \<Rightarrow> pystr \<Rightarrow> 'w supervisor \<Rightarrow> bool \<times> 'w supervisor" where
  "sup_stop k name sv =
     (case map_of (su_processes sv) name of
        None \<Rightarrow> (False, sv)
      | Some p \<Rightarrow>
          (case mp_stop k p (su_ctl sv) of
             (r, p', s) \<Rightarrow> (r, \<lparr>su_processes = AList.update name p' (su_processes sv), su_ctl = s\<rparr>)))"

text \<open>The loops over the table, in its order.\<close>

fun start_each :: "'w kernel \<Rightarrow> ctl_env \<Rightarrow> pystr list \<Rightarrow> 'w supervisor \<Rightarrow> (pystr \<times> bool) list res \<times> 'w supervisor" where
  "start_each k env [] sv = (Inr [], sv)"
| "start_each k env (name # names) sv =
     (case sup_start k env name sv of
        (Inl e, sv') \<Rightarrow> (Inl e, sv')
      | (Inr ok, sv') \<Rightarrow>
          (case start_each k env names sv' of
             (Inl e, sv'') \<Rightarrow> (Inl e, sv'')
           | (Inr rs, sv'') \<Rightarrow> (Inr ((name, ok) # rs), sv'')))"

definition start_autostart :: "'w kernel \<Rightarrow> ctl_env \<Rightarrow> 'w supervisor \<Rightarrow> (pystr \<times> bool) list res \<times> 'w supervisor" where
  "start_autostart k env sv =
     start_each k env (map fst (filter (\<lambda>(_, p). cc_enabled (mp_config p) \<and> cc_autostart (mp_config p)) (su_processes sv))) sv"

fun stop_each :: "'w kernel \<Rightarrow> pystr list \<Rightarrow> 'w supervisor \<Rightarrow> 'w supervisor" where
  "stop_each k [] sv = sv"
| "stop_each k (name # names) sv = stop_each k names (snd (sup_stop k name sv))"

definition stop_all :: "'w kernel \<Rightarrow> 'w supervisor \<Rightarrow> 'w supervisor" where
  "stop_all k sv = stop_each k (map fst (su_processes sv)) sv"

record component_info =
  ci_name :: pystr
  ci_kind :: component_kind
  ci_enabled :: bool
  ci_autostart :: bool
  ci_description :: pystr
  ci_status :: pystr
  ci_pid :: "int option"
  ci_log_file :: pystr
  ci_last_error :: "start_error option"

definition info_of :: "ctl_env \<Rightarrow> ManagedProcess \<Rightarrow> pystr \<Rightarrow> int option \<Rightarrow> component_info" where
  "info_of env p st pid =
     \<lparr>ci_name = mp_name p, ci_kind = cc_kind (mp_config p), ci_enabled = cc_enabled (mp_config p),
      ci_autostart = cc_autostart (mp_config p), ci_description = cc_description (mp_config p), ci_status = st, ci_pid = pid,
      ci_log_file = path_str (component_log_path env (mp_name p)), ci_last_error = mp_last_error p\<rparr>"

definition mp_info :: "'w kernel \<Rightarrow> ctl_env \<Rightarrow> ManagedProcess \<Rightarrow> 'w ctl \<Rightarrow> component_info \<times> 'w ctl" where
  "mp_info k env p s =
     (case mp_status k p s of
        (st, s1) \<Rightarrow>
          (case mp_proc p of
             None \<Rightarrow> (info_of env p st None, s1)
           | Some h \<Rightarrow>
               (case on_world (k_poll k h) s1 of
                  (None, s2) \<Rightarrow> (info_of env p st (Some (k_pid k h)), s2)
                | (Some _, s2) \<Rightarrow> (info_of env p st None, s2))))"

fun sup_status ::
  "'w kernel \<Rightarrow> ctl_env \<Rightarrow> (pystr \<times> ManagedProcess) list \<Rightarrow> 'w ctl \<Rightarrow> (pystr \<times> component_info) list \<times> 'w ctl"
where
  "sup_status k env [] s = ([], s)"
| "sup_status k env ((name, p) # ps) s =
     (case mp_info k env p s of
        (i, s1) \<Rightarrow> (case sup_status k env ps s1 of (is, s2) \<Rightarrow> ((name, i) # is, s2)))"

section \<open>What is relied on of the operating system\<close>

text \<open>
  \<open>alive w\<close> are the handles of children that still run. Nothing but a spawn adds one, a poll that
  finds no exit status means the child runs, and an exit status means it does not.
\<close>

definition kernel_ok :: "'w kernel \<Rightarrow> ('w \<Rightarrow> nat set) \<Rightarrow> bool" where
  "kernel_ok k alive \<longleftrightarrow>
     (\<forall>h w r w'. k_poll k h w = (r, w') \<longrightarrow> alive w' \<subseteq> alive w \<and> (r = None \<longrightarrow> h \<in> alive w) \<and> (r \<noteq> None \<longrightarrow> h \<notin> alive w')) \<and>
     (\<forall>h w r w'. k_wait k h w = (r, w') \<longrightarrow> alive w' \<subseteq> alive w \<and> (r \<noteq> None \<longrightarrow> h \<notin> alive w')) \<and>
     (\<forall>h sig w r w'. k_killpg k h sig w = (r, w') \<longrightarrow> alive w' \<subseteq> alive w) \<and>
     (\<forall>h w r w'. k_terminate k h w = (r, w') \<longrightarrow> alive w' \<subseteq> alive w) \<and>
     (\<forall>h w r w'. k_kill k h w = (r, w') \<longrightarrow> alive w' \<subseteq> alive w) \<and>
     (\<forall>q w r w'. k_open_log k q w = (r, w') \<longrightarrow> alive w' \<subseteq> alive w) \<and>
     (\<forall>argv w r w'. k_spawn k argv w = (r, w') \<longrightarrow>
        alive w' \<subseteq> alive w \<union> (case r of Inr h \<Rightarrow> {h} | Inl _ \<Rightarrow> {}))"

text \<open>
  SIGKILL is effective: a child whose group took it exits within the grace period, and if the group
  could not be signalled, it was because the child is gone, also when \<^verbatim>\<open>terminate\<close> has been tried.
\<close>

definition kill_works :: "'w kernel \<Rightarrow> bool" where
  "kill_works k \<longleftrightarrow>
     (\<forall>h w r w'. k_killpg k h SIGKILL w = (r, w') \<longrightarrow>
        fst (k_wait k h (if is_ok r then w' else snd (k_terminate k h w'))) \<noteq> None)"

abbreviation running :: "('w \<Rightarrow> nat set) \<Rightarrow> 'w ctl \<Rightarrow> nat set" where
  "running alive s \<equiv> alive (ct_world s)"

lemma ct_emit_world [simp]: "ct_world (ct_emit t d s) = ct_world s"
  by (simp add: ct_emit_def)

lemma on_world_eq: "on_world f s = (r, s') \<longleftrightarrow> (\<exists>w. f (ct_world s) = (r, w) \<and> s' = s\<lparr>ct_world := w\<rparr>)"
  by (auto simp: on_world_def split: prod.splits)

lemma kernel_laws:
  assumes "kernel_ok k alive"
  shows "k_poll k h w = (r, w') \<Longrightarrow> alive w' \<subseteq> alive w \<and> (r = None \<longrightarrow> h \<in> alive w) \<and> (r \<noteq> None \<longrightarrow> h \<notin> alive w')"
    and "k_wait k h w = (r, w') \<Longrightarrow> alive w' \<subseteq> alive w \<and> (r \<noteq> None \<longrightarrow> h \<notin> alive w')"
    and "k_killpg k h sig w = (q, w') \<Longrightarrow> alive w' \<subseteq> alive w"
    and "k_terminate k h w = (q, w') \<Longrightarrow> alive w' \<subseteq> alive w"
    and "k_kill k h w = (q, w') \<Longrightarrow> alive w' \<subseteq> alive w"
    and "k_open_log k f w = (q, w') \<Longrightarrow> alive w' \<subseteq> alive w"
    and "k_spawn k argv w = (n, w') \<Longrightarrow> alive w' \<subseteq> alive w \<union> (case n of Inr h \<Rightarrow> {h} | Inl _ \<Rightarrow> {})"
proof -
  note laws = assms [unfolded kernel_ok_def]
  show "k_poll k h w = (r, w') \<Longrightarrow> alive w' \<subseteq> alive w \<and> (r = None \<longrightarrow> h \<in> alive w) \<and> (r \<noteq> None \<longrightarrow> h \<notin> alive w')"
    by (rule laws [THEN conjunct1, rule_format])
  show "k_wait k h w = (r, w') \<Longrightarrow> alive w' \<subseteq> alive w \<and> (r \<noteq> None \<longrightarrow> h \<notin> alive w')"
    by (rule laws [THEN conjunct2, THEN conjunct1, rule_format])
  show "k_killpg k h sig w = (q, w') \<Longrightarrow> alive w' \<subseteq> alive w"
    by (rule laws [THEN conjunct2, THEN conjunct2, THEN conjunct1, rule_format])
  note laws = laws [THEN conjunct2, THEN conjunct2, THEN conjunct2]
  show "k_terminate k h w = (q, w') \<Longrightarrow> alive w' \<subseteq> alive w" by (rule laws [THEN conjunct1, rule_format])
  show "k_kill k h w = (q, w') \<Longrightarrow> alive w' \<subseteq> alive w" by (rule laws [THEN conjunct2, THEN conjunct1, rule_format])
  note laws = laws [THEN conjunct2]
  show "k_open_log k f w = (q, w') \<Longrightarrow> alive w' \<subseteq> alive w" by (rule laws [THEN conjunct2, THEN conjunct1, rule_format])
  show "k_spawn k argv w = (n, w') \<Longrightarrow> alive w' \<subseteq> alive w \<union> (case n of Inr h \<Rightarrow> {h} | Inl _ \<Rightarrow> {})"
    by (rule laws [THEN conjunct2, THEN conjunct2, rule_format])
qed

lemma poll_running:
  assumes "kernel_ok k alive" "on_world (k_poll k h) s = (r, s')"
  shows "running alive s' \<subseteq> running alive s" "r = None \<Longrightarrow> h \<in> running alive s" "r \<noteq> None \<Longrightarrow> h \<notin> running alive s'"
  using assms by (fastforce simp: on_world_eq dest: kernel_laws(1))+

lemma wait_running:
  assumes "kernel_ok k alive" "on_world (k_wait k h) s = (r, s')"
  shows "running alive s' \<subseteq> running alive s" "r \<noteq> None \<Longrightarrow> h \<notin> running alive s'"
  using assms by (fastforce simp: on_world_eq dest: kernel_laws(2))+

lemma killpg_running: "\<lbrakk>kernel_ok k alive; on_world (k_killpg k h sig) s = (r, s')\<rbrakk> \<Longrightarrow> running alive s' \<subseteq> running alive s"
  by (fastforce simp: on_world_eq dest: kernel_laws(3))

lemma terminate_running: "\<lbrakk>kernel_ok k alive; on_world (k_terminate k h) s = (r, s')\<rbrakk> \<Longrightarrow> running alive s' \<subseteq> running alive s"
  by (fastforce simp: on_world_eq dest: kernel_laws(4))

lemma kill_running: "\<lbrakk>kernel_ok k alive; on_world (k_kill k h) s = (r, s')\<rbrakk> \<Longrightarrow> running alive s' \<subseteq> running alive s"
  by (fastforce simp: on_world_eq dest: kernel_laws(5))

lemma open_log_running: "\<lbrakk>kernel_ok k alive; on_world (k_open_log k q) s = (r, s')\<rbrakk> \<Longrightarrow> running alive s' \<subseteq> running alive s"
  by (fastforce simp: on_world_eq dest: kernel_laws(6))

lemma spawn_running:
  "\<lbrakk>kernel_ok k alive; on_world (k_spawn k argv) s = (r, s')\<rbrakk> \<Longrightarrow>
   running alive s' \<subseteq> running alive s \<union> (case r of Inr h \<Rightarrow> {h} | Inl _ \<Rightarrow> {})"
  by (fastforce simp: on_world_eq dest: kernel_laws(7))

lemma signal_group_running:
  assumes "kernel_ok k alive"
  shows "running alive (signal_group k h sig s) \<subseteq> running alive s"
proof -
  obtain r s1 where 1: "on_world (k_killpg k h sig) s = (r, s1)" by fastforce
  obtain q s2 where 2: "on_world (k_terminate k h) s1 = (q, s2)" by fastforce
  from killpg_running [OF assms 1] terminate_running [OF assms 2] 1 2 show ?thesis
    by (cases r) (auto simp: signal_group_def)
qed

section \<open>One process: what start and stop leave running\<close>

text \<open>What an operation on a process leaves running: nothing it stops to track, at most what it tracks then.\<close>

definition keeps_track :: "('w \<Rightarrow> nat set) \<Rightarrow> ManagedProcess \<Rightarrow> 'w ctl \<Rightarrow> ManagedProcess \<Rightarrow> 'w ctl \<Rightarrow> bool" where
  "keeps_track alive p s p' s' \<longleftrightarrow>
     running alive s' \<subseteq> (running alive s - {h. mp_proc p = Some h}) \<union> {h. mp_proc p' = Some h}"

lemma mp_launch_tracks:
  assumes "kernel_ok k alive" "mp_launch k env p s = (r, p', s')" "\<forall>h. mp_proc p = Some h \<longrightarrow> h \<notin> running alive s"
  shows "keeps_track alive p s p' s'"
proof -
  have fail: "keeps_track alive p s q s1" if "running alive s1 \<subseteq> running alive s" for q s1
    using that assms(3) by (auto simp: keeps_track_def)
  show ?thesis
  proof (cases "cc_enabled (mp_config p)")
    case False
    with assms(2) fail show ?thesis by (auto simp: mp_launch_def start_failed_def)
  next
    case True
    show ?thesis
    proof (cases "build_argv env p")
      case (Inl e)
      with True assms(2) fail show ?thesis by (auto simp: mp_launch_def start_failed_def split: if_splits)
    next
      case (Inr argv)
      obtain r1 s1 where l: "on_world (k_open_log k (component_log_path env (mp_name p))) s = (r1, s1)" by fastforce
      obtain r2 s2 where sp: "on_world (k_spawn k argv) s1 = (r2, s2)" by fastforce
      note le = open_log_running [OF assms(1) l] spawn_running [OF assms(1) sp]
      show ?thesis
      proof (cases "is_ok r1 \<and> is_ok r2")
        case True
        then obtain h where "r1 = Inr ()" "r2 = Inr h" by (cases r1; cases r2) auto
        moreover have "running alive s2 \<subseteq> insert h (running alive s)" using le calculation(2) by auto
        ultimately show ?thesis
          using assms(2,3) \<open>cc_enabled _\<close> Inr l sp by (auto simp: mp_launch_def keeps_track_def)
      next
        case False
        then have "running alive s' \<subseteq> running alive s"
          using assms(2) \<open>cc_enabled _\<close> Inr l sp le
          by (cases r1; cases r2) (auto simp: mp_launch_def start_failed_def split: if_splits)
        with fail show ?thesis by blast
      qed
    qed
  qed
qed

lemma mp_start_tracks:
  assumes "kernel_ok k alive" "mp_start k env p s = (r, p', s')"
  shows "keeps_track alive p s p' s'"
proof (cases "mp_proc p")
  case None
  with mp_launch_tracks [OF assms(1)] assms(2) show ?thesis by (simp add: mp_start_def)
next
  case (Some h)
  obtain c s1 where pl: "on_world (k_poll k h) s = (c, s1)" by fastforce
  note q = poll_running [OF assms(1) pl]
  show ?thesis
  proof (cases c)
    case None
    with Some pl assms(2) q show ?thesis by (auto simp: mp_start_def keeps_track_def)
  next
    case (Some code)
    with \<open>mp_proc p = Some h\<close> pl assms(2) have "mp_launch k env p s1 = (r, p', s')" by (simp add: mp_start_def)
    from mp_launch_tracks [OF assms(1) this] q \<open>mp_proc p = Some h\<close> Some show ?thesis
      by (auto simp: keeps_track_def)
  qed
qed

lemma mp_stop_effect:
  assumes "kernel_ok k alive" "mp_stop k p s = (r, p', s')"
  shows "keeps_track alive p s p' s' \<and> running alive s' \<subseteq> running alive s \<and> (r \<longrightarrow> mp_proc p' = None) \<and> (kill_works k \<longrightarrow> r)"
proof (cases "mp_proc p")
  case None
  with assms(2) show ?thesis by (auto simp: mp_stop_def keeps_track_def)
next
  case (Some h)
  let ?who = "[(''name'', PyStr (mp_name p)), (''pid'', PyInt (k_pid k h))]"
  obtain c1 s1 where p1: "on_world (k_poll k h) s = (c1, s1)" by fastforce
  define s2 where "s2 = signal_group k h SIGTERM (ct_emit ''component_stopping'' ?who s1)"
  obtain c3 s3 where w3: "on_world (k_wait k h) s2 = (c3, s3)" by fastforce
  define s4 where "s4 = signal_group k h SIGKILL (ct_emit ''component_kill'' ?who s3)"
  obtain c5 s5 where w5: "on_world (k_wait k h) s4 = (c5, s5)" by fastforce
  note q1 = poll_running [OF assms(1) p1] and q3 = wait_running [OF assms(1) w3] and q5 = wait_running [OF assms(1) w5]
  have q2: "running alive s2 \<subseteq> running alive s1" and q4: "running alive s4 \<subseteq> running alive s3"
    using signal_group_running [OF assms(1)] by (force simp: s2_def s4_def)+
  have sub: "running alive s1 \<subseteq> running alive s" "running alive s3 \<subseteq> running alive s" "running alive s5 \<subseteq> running alive s"
    using q1(1) q2 q3(1) q4 q5(1) by blast+
  have gone: ?thesis if "mp_stopped p code t = (r, p', s')" "h \<notin> running alive t" "running alive t \<subseteq> running alive s" for code t
    using that Some by (auto simp: mp_stopped_def keeps_track_def)
  have dead: "c5 \<noteq> None" if "kill_works k"
  proof -
    obtain r4 w where k4: "k_killpg k h SIGKILL (ct_world s3) = (r4, w)" by fastforce
    with that have "fst (k_wait k h (if is_ok r4 then w else snd (k_terminate k h w))) \<noteq> None"
      unfolding kill_works_def by blast
    then show ?thesis using k4 w5 by (cases r4) (auto simp: s4_def signal_group_def on_world_def split: prod.splits)
  qed
  note run = assms(2) [unfolded mp_stop_def Some option.case p1 prod.case]
  show ?thesis
  proof (cases c1)
    case (Some code)
    with run q1(3) sub gone [of code s1] show ?thesis by auto
  next
    case None
    note run = run [unfolded None option.case Let_def, folded s2_def, unfolded w3 prod.case]
    show ?thesis
    proof (cases c3)
      case (Some code)
      with run q3(2) sub gone [of code s3] show ?thesis by auto
    next
      case None
      note run = run [unfolded None option.case, folded s4_def, unfolded w5 prod.case]
      show ?thesis
      proof (cases c5)
        case (Some code)
        with run q5(2) sub gone [of code s5] show ?thesis by auto
      next
        case None
        with run dead sub(3) \<open>mp_proc p = Some h\<close> show ?thesis
          by (auto simp: keeps_track_def)
      qed
    qed
  qed
qed

section \<open>The supervisor as a machine\<close>

text \<open>
  Its operations, and the time that passes between them: children may exit on their own.
\<close>

datatype 'w sup_op = OpStart pystr | OpStop pystr | OpAutostart | OpStopAll | OpStatus | Elapse "'w \<Rightarrow> 'w"

fun sup_step :: "'w kernel \<Rightarrow> ctl_env \<Rightarrow> 'w supervisor \<Rightarrow> 'w sup_op \<Rightarrow> unit res \<times> 'w supervisor" where
  "sup_step k env sv (OpStart name) = (case sup_start k env name sv of (r, sv') \<Rightarrow> (rbind r (\<lambda>_. Inr ()), sv'))"
| "sup_step k env sv (OpStop name) = (Inr (), snd (sup_stop k name sv))"
| "sup_step k env sv OpAutostart = (case start_autostart k env sv of (r, sv') \<Rightarrow> (rbind r (\<lambda>_. Inr ()), sv'))"
| "sup_step k env sv OpStopAll = (Inr (), stop_all k sv)"
| "sup_step k env sv OpStatus = (Inr (), sv\<lparr>su_ctl := snd (sup_status k env (su_processes sv) (su_ctl sv))\<rparr>)"
| "sup_step k env sv (Elapse f) = (Inr (), sv\<lparr>su_ctl := (su_ctl sv)\<lparr>ct_world := f (ct_world (su_ctl sv))\<rparr>\<rparr>)"

definition sup_legal :: "('w \<Rightarrow> nat set) \<Rightarrow> 'w sup_op \<Rightarrow> bool" where
  "sup_legal alive i = (case i of Elapse f \<Rightarrow> \<forall>w. alive (f w) \<subseteq> alive w | _ \<Rightarrow> True)"

definition tracked_by :: "(pystr \<times> ManagedProcess) list \<Rightarrow> nat set" where
  "tracked_by ps = {h. \<exists>n p. map_of ps n = Some p \<and> mp_proc p = Some h}"

text \<open>Every child that runs belongs to a component, or to the set \<open>A\<close> of those another owner tracks.\<close>

definition owned :: "nat set \<Rightarrow> ('w \<Rightarrow> nat set) \<Rightarrow> 'w supervisor \<Rightarrow> bool" where
  "owned A alive sv \<longleftrightarrow> running alive (su_ctl sv) \<subseteq> tracked_by (su_processes sv) \<union> A"

abbreviation no_orphans :: "('w \<Rightarrow> nat set) \<Rightarrow> 'w supervisor \<Rightarrow> bool" where
  "no_orphans \<equiv> owned {}"

lemma tracked_update:
  assumes "map_of ps n = Some p" "keeps_track alive p s p' s'" "running alive s \<subseteq> tracked_by ps \<union> A"
  shows "running alive s' \<subseteq> tracked_by (AList.update n p' ps) \<union> A"
proof
  fix h assume "h \<in> running alive s'"
  then consider "mp_proc p' = Some h" | "h \<in> A" | "h \<notin> A" "h \<in> running alive s" "mp_proc p \<noteq> Some h"
    using assms(2) by (auto simp: keeps_track_def)
  then show "h \<in> tracked_by (AList.update n p' ps) \<union> A"
  proof cases
    case 1
    then show ?thesis by (auto simp: tracked_by_def update_conv')
  next
    case 3
    then obtain m q where "map_of ps m = Some q" "mp_proc q = Some h" using assms(3) by (auto simp: tracked_by_def)
    with 3(3) assms(1) show ?thesis by (auto simp: tracked_by_def update_conv' intro!: exI [of _ m])
  qed simp
qed

lemma sup_start_owned: "\<lbrakk>kernel_ok k alive; owned A alive sv\<rbrakk> \<Longrightarrow> owned A alive (snd (sup_start k env name sv))"
  by (auto simp: sup_start_def owned_def split: option.split prod.split dest!: mp_start_tracks dest: tracked_update)

lemma sup_stop_owned: "\<lbrakk>kernel_ok k alive; owned A alive sv\<rbrakk> \<Longrightarrow> owned A alive (snd (sup_stop k name sv))"
  by (auto simp: sup_stop_def owned_def split: option.split prod.split dest!: mp_stop_effect dest: tracked_update)

lemma start_each_owned:
  assumes "kernel_ok k alive"
  shows "owned A alive sv \<Longrightarrow> owned A alive (snd (start_each k env names sv))"
proof (induction names arbitrary: sv)
  case (Cons name names)
  obtain r sv1 where 1: "sup_start k env name sv = (r, sv1)" by fastforce
  then have n: "owned A alive sv1" using sup_start_owned [OF assms Cons.prems, of env name] by simp
  from Cons.IH [OF n] 1 n show ?case by (auto split: sum.split prod.split)
qed simp

lemma stop_each_owned:
  assumes "kernel_ok k alive"
  shows "owned A alive sv \<Longrightarrow> owned A alive (stop_each k names sv)"
  by (induction names arbitrary: sv) (simp_all add: sup_stop_owned [OF assms])

lemma sup_status_running:
  assumes "kernel_ok k alive"
  shows "running alive (snd (sup_status k env ps s)) \<subseteq> running alive s"
proof (induction ps arbitrary: s)
  case (Cons np ps)
  obtain n p where np: "np = (n, p)" by (cases np)
  have st: "running alive (snd (mp_status k p t)) \<subseteq> running alive t" for t
    using poll_running(1) [OF assms] by (auto simp: mp_status_def split: option.split prod.split)
  obtain i s1 where i: "mp_info k env p s = (i, s1)" by fastforce
  have "running alive s1 \<subseteq> running alive s"
    using i st [of s] poll_running(1) [OF assms] by (fastforce simp: mp_info_def split: option.splits prod.splits)
  with Cons.IH [of s1] i np show ?case by (auto split: prod.split)
qed simp

text \<open>The supervisor as a guarded machine: no operation loses a child, whatever happens in between.\<close>

interpretation supervisor: guarded_machine "sup_step k env" "\<lambda>sv. kernel_ok k alive \<longrightarrow> owned A alive sv" "sup_legal alive"
  for k env alive A
proof
  fix sv i assume inv: "kernel_ok k alive \<longrightarrow> owned A alive sv" and legal: "sup_legal alive i"
  show "kernel_ok k alive \<longrightarrow> owned A alive (snd (sup_step k env sv i))"
  proof
    assume k: "kernel_ok k alive"
    then have n: "owned A alive sv" using inv by blast
    show "owned A alive (snd (sup_step k env sv i))"
    proof (cases i)
      case (OpStart name)
      then show ?thesis using sup_start_owned [OF k n, of env name] by (auto split: prod.splits)
    next
      case OpAutostart
      then show ?thesis using start_each_owned [OF k n] by (auto simp: start_autostart_def split: prod.split) (metis snd_conv)
    next
      case OpStatus
      then show ?thesis using n sup_status_running [OF k] by (fastforce simp: owned_def)
    next
      case (Elapse f)
      then show ?thesis using n legal by (fastforce simp: owned_def sup_legal_def)
    qed (use sup_stop_owned [OF k n] stop_each_owned [OF k n] in \<open>auto simp: stop_all_def\<close>)
  qed
qed

lemma sup_stop_kills:
  assumes "kernel_ok k alive" "kill_works k"
  shows "(\<forall>p. map_of (su_processes (snd (sup_stop k name sv))) name = Some p \<longrightarrow> mp_proc p = None)
    \<and> (\<forall>n p. n \<noteq> name \<longrightarrow> map_of (su_processes (snd (sup_stop k name sv))) n = map_of (su_processes sv) n)
    \<and> map fst (su_processes (snd (sup_stop k name sv))) = map fst (su_processes sv)"
proof (cases "map_of (su_processes sv) name")
  case None
  then show ?thesis by (simp add: sup_stop_def)
next
  case (Some p)
  obtain r p' s where st: "mp_stop k p (su_ctl sv) = (r, p', s)" by (metis prod_cases3)
  have "mp_proc p' = None" using mp_stop_effect [OF assms(1) st] assms(2) by blast
  moreover have "name \<in> fst ` set (su_processes sv)" using Some by (force dest: map_of_SomeD)
  ultimately show ?thesis using Some st by (auto simp: sup_stop_def update_conv' update_keys image_iff)
qed

lemma stop_each_kills:
  assumes "kernel_ok k alive" "kill_works k"
  shows "(\<forall>n p. map_of (su_processes (stop_each k names sv)) n = Some p \<longrightarrow>
            mp_proc p = None \<or> (n \<notin> set names \<and> map_of (su_processes sv) n = Some p))"
proof (induction names arbitrary: sv)
  case (Cons name names)
  note s = sup_stop_kills [OF assms, of name sv]
  show ?case
  proof (intro allI impI)
    fix n p assume "map_of (su_processes (stop_each k (name # names) sv)) n = Some p"
    then have "mp_proc p = None \<or> (n \<notin> set names \<and> map_of (su_processes (snd (sup_stop k name sv))) n = Some p)"
      using Cons.IH [of "snd (sup_stop k name sv)"] by simp
    with s show "mp_proc p = None \<or> (n \<notin> set (name # names) \<and> map_of (su_processes sv) n = Some p)"
      by (cases "n = name") auto
  qed
qed simp

lemma stop_all_owned:
  assumes "kernel_ok k alive" "kill_works k" "owned A alive sv"
  shows "running alive (su_ctl (stop_all k sv)) \<subseteq> A"
proof -
  have "map_of (su_processes (stop_all k sv)) n = Some p \<Longrightarrow> mp_proc p = None" for n p
    using stop_each_kills [OF assms(1,2), of "map fst (su_processes sv)" sv]
    by (auto simp: stop_all_def dest: map_of_SomeD) (metis fst_conv image_eqI map_of_SomeD)
  then have "tracked_by (su_processes (stop_all k sv)) = {}" by (auto simp: tracked_by_def)
  with stop_each_owned [OF assms(1,3)] show ?thesis by (auto simp: owned_def stop_all_def)
qed

section \<open>Configuration and executables\<close>

definition component_ok :: "unicode \<Rightarrow> pystr \<Rightarrow> ComponentConfig \<Rightarrow> bool" where
  "component_ok u name c \<longleftrightarrow> valid_component_name u name \<and> no_empty_tokens (cc_args c) \<and> no_empty_tokens (cc_command c) \<and>
     (case cc_kind c of KPython \<Rightarrow> cc_args c \<noteq> [] \<and> cc_command c = [] | KBinary \<Rightarrow> cc_command c \<noteq> [] \<and> cc_args c = [])"

lemma validate_components_ok:
  "validate_components u cs = Inr () \<Longrightarrow> (name, c) \<in> set cs \<Longrightarrow> valid_component_name u name \<and> validate_shape c = Inr ()"
  by (induction u cs rule: validate_components.induct) (auto simp: require_Inr_iff rbind_Inr_iff)

lemma validated_component:
  assumes "validate_controller u cf = Inr cf'" "(name, c) \<in> set (cf_components cf')"
  shows "component_ok u name c"
proof -
  have v: "cf' = cf" "validate_components u (cf_components cf) = Inr ()"
      "no_empty_tokens (cc_args c)" "no_empty_tokens (cc_command c)"
    using assms by (auto simp: validate_controller_def require_Inr_iff list_all_iff split: sum.splits)
  with validate_components_ok [OF v(2)] assms(2) show ?thesis
    by (auto simp: component_ok_def validate_shape_def require_Inr_iff split: component_kind.split)
qed

lemma validated_bounds:
  "validate_controller u cf = Inr cf' \<Longrightarrow>
   1 \<le> cf_port cf' \<and> cf_port cf' \<le> 65535 \<and> 1 \<le> cf_max_replay_packets cf' \<and> cf_max_replay_packets cf' \<le> 1000000"
  by (cases "validate_components u (cf_components cf)") (auto simp: validate_controller_def require_Inr_iff)

lemma default_components:
  assumes "unicode_ok u" "(name, c) \<in> set (cf_components default_config)"
  shows "component_ok u name c \<and> \<not> cc_enabled c"
proof -
  have al: "u_isalnum u x = (is_digit x \<or> 65 \<le> x \<and> x \<le> 90 \<or> 97 \<le> x \<and> x \<le> 122)" if "x < 128" for x
    using assms(1) that by (simp add: unicode_ok_def)
  show ?thesis
    using assms(2) by (auto simp: default_config_def component_ok_def valid_component_name_def no_empty_tokens_def al is_digit_def
        strip_def py_space_def)
qed

text \<open>Names the validator accepts are not changed by \<^verbatim>\<open>component_log_path\<close>.\<close>

lemma valid_name_kept:
  assumes "valid_component_name (ce_unicode env) name"
  shows "component_log_path env name = ce_runtime env @ [lit ''components'', name @ lit ''.log'']"
proof -
  have "\<forall>c\<in>set name. u_isalnum (ce_unicode env) c \<or> c = 45 \<or> c = 95"
    using assms by (auto simp: valid_component_name_def list_all_iff Let_def)
  then have "map (\<lambda>c. if u_isalnum (ce_unicode env) c \<or> c = 45 \<or> c = 95 then c else 95) name = name"
    by (induction name) auto
  then show ?thesis by (simp add: component_log_path_def)
qed

lemma resolve_executable_sound:
  assumes "resolve_executable px base c = Inr (Some q)" "canonical (px_fs px) (px_cwd px)"
  shows "canonical (px_fs px) q \<and> is_file px q \<and> is_executable px q
    \<and> (\<not> p_abs (parse_path (hd (cc_command c))) \<longrightarrow> (\<exists>r. resolve px base = Inr r \<and> prefix r q))"
proof -
  obtain t ts where t: "cc_command c = t # ts"
    using assms(1) by (auto simp: resolve_executable_def split: if_splits list.splits)
  have f: "is_file px q" "is_executable px q"
    using assms(1) by (auto simp: resolve_executable_def rbind_Inr_iff require_Inr_iff split: if_splits list.splits)
  have r: "if p_abs (parse_path t) then resolve px (parse_path t) = Inr q
      else \<exists>r. resolve px base = Inr r \<and> resolve px \<lparr>p_abs = True, p_parts = r @ p_parts (parse_path t)\<rparr> = Inr q \<and> prefix r q"
    using assms(1) t by (auto simp: resolve_executable_def rbind_Inr_iff require_Inr_iff split: if_splits)
  then have "canonical (px_fs px) q" using resolve_canonical [OF _ assms(2)] by (auto split: if_splits)
  with f r t show ?thesis by (auto split: if_splits)
qed

section \<open>A concrete system\<close>

text \<open>
  The world is the list of running children and the next handle. SIGTERM is ignored, SIGKILL ends the
  child.
\<close>

definition demo_kernel :: "(nat list \<times> nat) kernel" where
  "demo_kernel = \<lparr>k_pid = (\<lambda>h. int h + 100), k_poll = (\<lambda>h w. (if h \<in> set (fst w) then None else Some 0, w)),
     k_wait = (\<lambda>h w. (if h \<in> set (fst w) then None else Some (- 9), w)),
     k_killpg = (\<lambda>h sig w. (Inr (), if sig = SIGKILL then (filter (\<lambda>x. x \<noteq> h) (fst w), snd w) else w)),
     k_terminate = (\<lambda>h w. (Inr (), w)), k_kill = (\<lambda>h w. (Inr (), (filter (\<lambda>x. x \<noteq> h) (fst w), snd w))), k_open_log = (\<lambda>q w. (Inr (), w)),
     k_spawn = (\<lambda>argv w. (Inr (snd w), (snd w # fst w, snd w + 1)))\<rparr>"

lemma demo_kernel_ok: "kernel_ok demo_kernel (set \<circ> fst)"
  by (auto simp: kernel_ok_def demo_kernel_def split: if_splits)

lemma demo_kill_works: "kill_works demo_kernel"
  by (auto simp: kill_works_def demo_kernel_def)

definition demo_ctl_env :: ctl_env where
  "demo_ctl_env = \<lparr>ce_posix = demo_posix, ce_root = parse_path (lit ''/lab''), ce_executable = lit ''/usr/bin/python3'',
     ce_runtime = [lit ''run''], ce_unicode = ascii_unicode\<rparr>"

definition demo_component :: ComponentConfig where
  "demo_component = \<lparr>cc_kind = KPython, cc_args = [lit ''-m'', lit ''x''], cc_command = [], cc_enabled = True, cc_autostart = True,
     cc_description = []\<rparr>"

definition demo_controller :: ControllerConfig where
  "demo_controller = default_config\<lparr>cf_components := [(lit ''a'', demo_component), (lit ''b'', demo_component)]\<rparr>"

definition demo_supervisor :: "(nat list \<times> nat) supervisor" where
  "demo_supervisor = snd (start_autostart demo_kernel demo_ctl_env (new_supervisor demo_controller ([], 0)))"

section \<open>Properties\<close>



text \<open>
  No child is lost. From start-up, over any sequence of supervisor operations with any failures
  (refused starts, spawn errors, children that ignore signals or exit on their own), every child that
  runs is tracked by one of the components; and \<^verbatim>\<open>stop_all\<close>, the last act of the controller, leaves none
  running when killing works.
\<close>

theorem shutdown_leaves_none:
  assumes "kernel_ok k alive" "alive w = {}" "list_all (sup_legal alive) ops"
    and "sv = foldl (\<lambda>sv i. snd (sup_step k env sv i)) (new_supervisor cf w) ops"
  shows "no_orphans alive sv \<and> (kill_works k \<longrightarrow> running alive (su_ctl (stop_all k sv)) = {})"
proof
  have "no_orphans alive (new_supervisor cf w)" using assms(2) by (simp add: owned_def new_supervisor_def)
  then have "kernel_ok k alive \<longrightarrow> no_orphans alive sv"
    unfolding assms(4) by (intro supervisor.foldl_inv [OF _ assms(3)]) blast
  with assms(1) show n: "no_orphans alive sv" by blast
  show "kill_works k \<longrightarrow> running alive (su_ctl (stop_all k sv)) = {}"
  proof
    assume kill: "kill_works k"
    from stop_all_owned [OF assms(1) kill n] show "running alive (su_ctl (stop_all k sv)) = {}" by blast
  qed
qed

theorem shutdown_leaves_none_witness:
  "fst (ct_world (su_ctl (stop_all demo_kernel demo_supervisor))) = []"
proof -
  have "demo_supervisor = foldl (\<lambda>sv i. snd (sup_step demo_kernel demo_ctl_env sv i)) (new_supervisor demo_controller ([], 0)) [OpAutostart]"
    by (simp add: demo_supervisor_def split: prod.split)
  from shutdown_leaves_none [OF demo_kernel_ok _ _ this] demo_kill_works show ?thesis by (simp add: sup_legal_def)
qed

text \<open>
  What is launched was asked for and is in place. A component is started only if it is
  enabled; a binary component runs a regular, executable file that the configured path leads to
  through no remaining link, and a relative path leads into the project root.
\<close>

theorem launch_contained:
  assumes "mp_launch k env p s = (Inr True, p', s')" "canonical (px_fs (ce_posix env)) (px_cwd (ce_posix env))"
  shows "cc_enabled (mp_config p) \<and> (\<exists>argv. build_argv env p = Inr argv \<and>
    (cc_kind (mp_config p) = KBinary \<longrightarrow>
      (\<exists>q. hd argv = path_str q \<and> canonical (px_fs (ce_posix env)) q \<and> is_file (ce_posix env) q \<and> is_executable (ce_posix env) q \<and>
        (\<not> p_abs (parse_path (hd (cc_command (mp_config p)))) \<longrightarrow>
           (\<exists>root. resolve (ce_posix env) (ce_root env) = Inr root \<and> prefix root q)))))"
proof -
  have e: "cc_enabled (mp_config p)" using assms(1) by (auto simp: mp_launch_def start_failed_def split: if_splits)
  obtain argv where argv: "build_argv env p = Inr argv"
    using assms(1) e by (auto simp: mp_launch_def start_failed_def split: if_splits sum.splits)
  show ?thesis
  proof (cases "cc_kind (mp_config p) = KBinary")
    case True
    then obtain q where q: "resolve_executable (ce_posix env) (ce_root env) (mp_config p) = Inr (Some q)" "hd argv = path_str q"
      using argv by (auto simp: build_argv_def rbind_Inr_iff split: option.splits)
    from resolve_executable_sound [OF q(1) assms(2)] e argv q(2) show ?thesis by blast
  qed (use e argv in auto)
qed

definition demo_binary :: ManagedProcess where
  "demo_binary = new_process (lit ''n'') \<lparr>cc_kind = KBinary, cc_args = [], cc_command = [lit ''pcaps/../run''], cc_enabled = True,
     cc_autostart = False, cc_description = []\<rparr>"

theorem launch_contained_witness:
  "\<exists>argv q. build_argv demo_ctl_env demo_binary = Inr argv \<and> hd argv = path_str q \<and> is_executable demo_posix q \<and> prefix [lit ''lab''] q"
proof -
  have root: "resolve demo_posix (parse_path (lit ''/lab'')) = Inr [lit ''lab'']"
    by (simp add: resolve_def realpath.simps demo_posix_def parse_path_def)
  have "resolve_executable demo_posix (parse_path (lit ''/lab'')) (mp_config demo_binary) = Inr (Some [lit ''lab'', lit ''run''])"
    by (simp add: resolve_executable_def resolve_def realpath.simps demo_posix_def parse_path_def demo_binary_def new_process_def
        is_file_def is_executable_def require_def)
  then have "fst (mp_launch demo_kernel demo_ctl_env demo_binary \<lparr>ct_world = ([], 0), ct_events = []\<rparr>) = Inr True"
    by (simp add: mp_launch_def demo_binary_def new_process_def build_argv_def on_world_def demo_kernel_def demo_ctl_env_def)
  then obtain p' s' where st: "mp_launch demo_kernel demo_ctl_env demo_binary \<lparr>ct_world = ([], 0), ct_events = []\<rparr> = (Inr True, p', s')"
    by (metis prod.exhaust_sel)
  have "canonical (px_fs (ce_posix demo_ctl_env)) (px_cwd (ce_posix demo_ctl_env))"
    by (auto simp: canonical_def demo_posix_def demo_ctl_env_def prefix_Cons)
  from launch_contained [OF st this] root show ?thesis
    by (auto simp: demo_binary_def new_process_def demo_ctl_env_def parse_path_def)
qed

text \<open>
  A configuration that loads is well formed: every component has a legal name, no blank
  argument and exactly the fields of its kind, the ports and limits are in range, two components never
  share a log file, and without a file nothing is enabled.
\<close>

theorem loaded_config_ok:
  assumes "unicode_ok (ce_unicode env)" "load_config (ce_unicode env) to_config content = Inr cf"
  shows "1 \<le> cf_port cf \<and> cf_port cf \<le> 65535 \<and> 1 \<le> cf_max_replay_packets cf \<and> cf_max_replay_packets cf \<le> 1000000
    \<and> (\<forall>(n, c)\<in>set (cf_components cf). component_ok (ce_unicode env) n c
        \<and> (\<forall>(m, d)\<in>set (cf_components cf). component_log_path env n = component_log_path env m \<longrightarrow> n = m))
    \<and> (content = None \<longrightarrow> enabled_components cf = [])"
proof -
  have cases: "cf = default_config \<or> (\<exists>cf0. validate_controller (ce_unicode env) cf0 = Inr cf)"
    using assms(2) by (auto simp: load_config_def rbind_Inr_iff split: option.splits sum.splits)
  have ok: "component_ok (ce_unicode env) n c" if "(n, c) \<in> set (cf_components cf)" for n c
    using cases that default_components [OF assms(1)] validated_component by blast
  have "1 \<le> cf_port cf \<and> cf_port cf \<le> 65535 \<and> 1 \<le> cf_max_replay_packets cf \<and> cf_max_replay_packets cf \<le> 1000000"
    using cases validated_bounds by (auto simp: default_config_def)
  moreover have "n = m" if "(n, c) \<in> set (cf_components cf)" "(m, d) \<in> set (cf_components cf)"
      "component_log_path env n = component_log_path env m" for n c m d
    using ok [OF that(1)] ok [OF that(2)] that(3) valid_name_kept [of env] by (auto simp: component_ok_def)
  moreover have "content = None \<Longrightarrow> enabled_components cf = []"
    using assms(2) default_components [OF assms(1)] by (auto simp: load_config_def enabled_components_def filter_empty_conv)
  ultimately show ?thesis using ok by blast
qed

theorem loaded_config_ok_witness: "enabled_components default_config = []"
  using loaded_config_ok [of demo_ctl_env "\<lambda>v. Inr demo_controller" None default_config] ascii_unicode_ok
  by (simp add: demo_ctl_env_def load_config_def)

end
