(* ===== verification/Replay.thy ===== *)
theory Replay
  imports Controller
begin

text \<open>
  \<^verbatim>\<open>controller/app.py\<close>: the replay manager and the endpoints. The manager's critical sections are
  functions; the threads that interleave them (requests, one reaper per job, shutdown) are a step
  relation, in which children may also exit at any time. An endpoint returns its body or an
  \<^verbatim>\<open>HTTPException\<close> with its status code. Shown: at most one replay runs under every interleaving, the
  slot never gets stuck, and what the endpoint starts is a contained capture within the limit.
\<close>

section \<open>The replay manager\<close>

record 'w replay_manager =
  rm_ctl :: "'w ctl"
  rm_active :: "pydict option"
  rm_proc :: "nat option"
  rm_reapers :: "nat list"

definition new_manager :: "'w \<Rightarrow> 'w replay_manager" where
  "new_manager w = \<lparr>rm_ctl = \<lparr>ct_world = w, ct_events = []\<rparr>, rm_active = None, rm_proc = None, rm_reapers = []\<rparr>"

definition replay_active :: "'w kernel \<Rightarrow> 'w replay_manager \<Rightarrow> pydict option \<times> 'w replay_manager" where
  "replay_active k m =
     (let m1 = (case rm_proc m of
                  None \<Rightarrow> m
                | Some h \<Rightarrow>
                    (case on_world (k_poll k h) (rm_ctl m) of
                       (None, s) \<Rightarrow> m\<lparr>rm_ctl := s\<rparr>
                     | (Some _, s) \<Rightarrow> m\<lparr>rm_ctl := s, rm_active := None, rm_proc := None\<rparr>))
      in (case rm_active m1 of None \<Rightarrow> None | Some d \<Rightarrow> if d = [] then None else Some d, m1))"

text \<open>
  The part of \<^verbatim>\<open>start\<close> after the check for a running job: log, spawn, and the thread that waits for the
  job.
\<close>

definition replay_launch ::
  "'w kernel \<Rightarrow> pystr list \<Rightarrow> pystr list \<Rightarrow> pydict \<Rightarrow> 'w replay_manager \<Rightarrow> bool res \<times> 'w replay_manager"
where
  "replay_launch k argv log_path description m =
     (case on_world (k_open_log k log_path) (rm_ctl m) of
        (Inl e, s1) \<Rightarrow> (Inl e, m\<lparr>rm_ctl := s1\<rparr>)
      | (Inr _, s1) \<Rightarrow>
          (case on_world (k_spawn k argv) s1 of
             (Inl e, s2) \<Rightarrow> (Inl e, m\<lparr>rm_ctl := s2\<rparr>)
           | (Inr h, s2) \<Rightarrow>
               (Inr True,
                m\<lparr>rm_ctl := s2, rm_proc := Some h,
                  rm_active := Some (description @ details [(''pid'', PyInt (k_pid k h)), (''log_file'', PyStr (path_str log_path))]),
                  rm_reapers := rm_reapers m @ [h]\<rparr>)))"

definition replay_start ::
  "'w kernel \<Rightarrow> pystr list \<Rightarrow> pystr list \<Rightarrow> pydict \<Rightarrow> 'w replay_manager \<Rightarrow> bool res \<times> 'w replay_manager"
where
  "replay_start k argv log_path description m =
     (case rm_proc m of
        None \<Rightarrow> replay_launch k argv log_path description m
      | Some h \<Rightarrow>
          (case on_world (k_poll k h) (rm_ctl m) of
             (None, s) \<Rightarrow> (Inr False, m\<lparr>rm_ctl := s\<rparr>)
           | (Some _, s) \<Rightarrow> replay_launch k argv log_path description (m\<lparr>rm_ctl := s\<rparr>)))"

text \<open>\<^verbatim>\<open>_reap\<close> once \<^verbatim>\<open>proc.wait()\<close> has returned; until then there is no step.\<close>

definition replay_reap :: "'w kernel \<Rightarrow> nat \<Rightarrow> 'w replay_manager \<Rightarrow> 'w replay_manager option" where
  "replay_reap k h m =
     (case on_world (k_poll k h) (rm_ctl m) of
        (None, _) \<Rightarrow> None
      | (Some code, s) \<Rightarrow>
          (let m1 = m\<lparr>rm_ctl := ct_emit ''replay_finished'' [(''returncode'', PyInt code)] s, rm_reapers := remove1 h (rm_reapers m)\<rparr>
           in Some (if rm_proc m = Some h then m1\<lparr>rm_proc := None, rm_active := None\<rparr> else m1)))"

text \<open>\<^verbatim>\<open>stop\<close>, as it runs when nothing interleaves.\<close>

definition replay_stop :: "'w kernel \<Rightarrow> 'w replay_manager \<Rightarrow> unit res \<times> 'w replay_manager" where
  "replay_stop k m =
     (case rm_proc m of
        None \<Rightarrow> (Inr (), m)
      | Some h \<Rightarrow>
          (case on_world (k_poll k h) (rm_ctl m) of
             (Some _, s) \<Rightarrow> (Inr (), m\<lparr>rm_ctl := s\<rparr>)
           | (None, s) \<Rightarrow>
               (case on_world (k_terminate k h) s of
                  (Inl e, s1) \<Rightarrow> (Inl e, m\<lparr>rm_ctl := s1\<rparr>)
                | (Inr _, s1) \<Rightarrow>
                    (case on_world (k_wait k h) s1 of
                       (Some _, s2) \<Rightarrow> (Inr (), m\<lparr>rm_ctl := s2\<rparr>)
                     | (None, s2) \<Rightarrow> (case on_world (k_kill k h) s2 of (r, s3) \<Rightarrow> (r, m\<lparr>rm_ctl := s3\<rparr>))))))"

section \<open>Endpoints\<close>

record ReplayRequest =
  rq_pcap_path :: pystr
  rq_max_packets :: "int option"
  rq_modbus_target :: pystr
  rq_dnp3_target :: pystr

text \<open>The approved directory: the configured one, or else what \<^verbatim>\<open>pcap_dir()\<close> yields.\<close>

definition approved_directory :: "ctl_env \<Rightarrow> pystr list \<Rightarrow> ControllerConfig \<Rightarrow> pystr list res" where
  "approved_directory env env_dir cf =
     (case cf_pcap_dir cf of
        None \<Rightarrow> Inr env_dir
      | Some d \<Rightarrow>
          if d = [] then Inr env_dir
          else rbind (px_expanduser (ce_posix env) (parse_path d)) (\<lambda>p.
            if p_abs p then resolve (ce_posix env) p
            else rbind (resolve (ce_posix env) (ce_root env)) (\<lambda>base.
              resolve (ce_posix env) \<lparr>p_abs = True, p_parts = base @ p_parts p\<rparr>)))"

definition replay_budget :: "ControllerConfig \<Rightarrow> ReplayRequest \<Rightarrow> int" where
  "replay_budget cf rq =
     min (case rq_max_packets rq of None \<Rightarrow> cf_max_replay_packets cf | Some n \<Rightarrow> if n = 0 then cf_max_replay_packets cf else n)
       (cf_max_replay_packets cf)"

definition replay_argv :: "ctl_env \<Rightarrow> pystr list \<Rightarrow> pystr list \<Rightarrow> int \<Rightarrow> ReplayRequest \<Rightarrow> pystr list" where
  "replay_argv env approved capture n rq =
     [ce_executable env, lit ''-m'', lit ''ics_deception.datasets.pcap_loader'', lit ''--pcap'', path_str capture,
      lit ''--approved-dir'', path_str approved, lit ''--replay'', lit ''--max-packets'', dec_int n,
      lit ''--modbus-target'', rq_modbus_target rq, lit ''--dnp3-target'', rq_dnp3_target rq]"

definition replay_description :: "pystr list \<Rightarrow> int \<Rightarrow> ReplayRequest \<Rightarrow> pydict" where
  "replay_description capture n rq =
     details [(''pcap'', PyStr (path_str capture)), (''max_packets'', PyInt n),
       (''modbus_target'', PyStr (rq_modbus_target rq)), (''dnp3_target'', PyStr (rq_dnp3_target rq))]"

definition rm_emit :: "string \<Rightarrow> pydict \<Rightarrow> 'w replay_manager \<Rightarrow> 'w replay_manager" where
  "rm_emit event_type d m = m\<lparr>rm_ctl := (rm_ctl m)\<lparr>ct_events := ct_events (rm_ctl m) @ [(lit event_type, d)]\<rparr>\<rparr>"

definition capture_status :: "exn \<Rightarrow> exn" where
  "capture_status e =
     (if e = UnsupportedCaptureError then HTTPException 400
      else if e = PcapTraversalError then HTTPException 403
      else if e = PcapNotFoundError then HTTPException 404 else e)"

definition http_replay ::
  "'w kernel \<Rightarrow> ctl_env \<Rightarrow> pystr list \<Rightarrow> ControllerConfig \<Rightarrow> ReplayRequest \<Rightarrow> 'w replay_manager \<Rightarrow> pydict res \<times> 'w replay_manager"
where
  "http_replay k env approved cf rq m0 =
     (let m = rm_emit ''replay_requested'' (details [(''pcap_path'', PyStr (rq_pcap_path rq))]) m0 in
      case validate_pcap_path (ce_posix env) (rq_pcap_path rq) \<lparr>p_abs = True, p_parts = approved\<rparr> of
        Inl e \<Rightarrow> (Inl (capture_status e), m)
      | Inr capture \<Rightarrow>
          (let n = replay_budget cf rq; description = replay_description capture n rq in
           case replay_start k (replay_argv env approved capture n rq) (ce_runtime env @ [lit ''replay.log'']) description m of
             (Inl e, m1) \<Rightarrow> (Inl (if e = OSError then HTTPException 500 else e), m1)
           | (Inr accepted, m1) \<Rightarrow>
               if \<not> accepted then (Inl (HTTPException 409), m1)
               else
                 (case replay_active k (rm_emit ''replay_started'' description m1) of
                    (active, m2) \<Rightarrow>
                      (Inr (details [(''status'', PyStr (lit ''replay_started''))]
                              @ (case active of Some d \<Rightarrow> if d = [] then description else d | None \<Rightarrow> description)), m2))))"

definition http_start_component :: "'w kernel \<Rightarrow> ctl_env \<Rightarrow> pystr \<Rightarrow> 'w supervisor \<Rightarrow> component_info res \<times> 'w supervisor" where
  "http_start_component k env name sv =
     (case map_of (su_processes sv) name of
        None \<Rightarrow> (Inl (HTTPException 404), sv)
      | Some p \<Rightarrow>
          if \<not> cc_enabled (mp_config p) then (Inl (HTTPException 409), sv)
          else
            (case sup_start k env name sv of
               (Inl e, sv1) \<Rightarrow> (Inl e, sv1)
             | (Inr ok, sv1) \<Rightarrow>
                 if \<not> ok then (Inl (HTTPException 500), sv1)
                 else (case mp_info k env (the (map_of (su_processes sv1) name)) (su_ctl sv1) of
                         (info, s) \<Rightarrow> (Inr info, sv1\<lparr>su_ctl := s\<rparr>))))"

definition http_stop_component :: "'w kernel \<Rightarrow> ctl_env \<Rightarrow> pystr \<Rightarrow> 'w supervisor \<Rightarrow> component_info res \<times> 'w supervisor" where
  "http_stop_component k env name sv =
     (if map_of (su_processes sv) name = None then (Inl (HTTPException 404), sv)
      else
        (case sup_stop k name sv of
           (ok, sv1) \<Rightarrow>
             if \<not> ok then (Inl (HTTPException 500), sv1)
             else (case mp_info k env (the (map_of (su_processes sv1) name)) (su_ctl sv1) of
                     (info, s) \<Rightarrow> (Inr info, sv1\<lparr>su_ctl := s\<rparr>))))"

text \<open>
  \<^verbatim>\<open>GET /logs\<close>: the last \<open>limit\<close> lines of the event log, those that are not JSON objects wrapped. \<open>None\<close>
  stands for a missing file.
\<close>

definition unparsed :: "pystr \<Rightarrow> pydict" where
  "unparsed t = details [(''_unparsed'', PyStr (take 1000 t))]"

fun parse_log_lines :: "pystr list \<Rightarrow> pydict list res" where
  "parse_log_lines [] = Inr []"
| "parse_log_lines (l # ls) =
     (let t = strip l in
      if t = [] then parse_log_lines ls
      else
        rbind (case json_loads t of
                 Inl e \<Rightarrow> if e = JSONDecodeError then Inr (unparsed t) else Inl e
               | Inr (PyDict d) \<Rightarrow> Inr d
               | Inr _ \<Rightarrow> Inr (unparsed t)) (\<lambda>d.
        rbind (parse_log_lines ls) (\<lambda>ds. Inr (d # ds))))"

definition last_lines :: "nat \<Rightarrow> 'a list \<Rightarrow> 'a list" where
  "last_lines n xs = drop (length xs - n) xs"

definition http_logs :: "bytes res option \<Rightarrow> nat \<Rightarrow> pydict list res" where
  "http_logs content limit =
     (case content of
        None \<Rightarrow> Inr []
      | Some (Inl e) \<Rightarrow> Inl (if e = OSError then HTTPException 500 else e)
      | Some (Inr raw) \<Rightarrow> parse_log_lines (last_lines limit (text_lines (utf8_decode_replace raw))))"

text \<open>\<^verbatim>\<open>GET /ics-values\<close>.\<close>

definition http_ics_values :: "bytes res option \<Rightarrow> pyval res" where
  "http_ics_values content =
     (case content of
        None \<Rightarrow> Inl (HTTPException 404)
      | Some r \<Rightarrow>
          (case rbind (rbind r read_text) json_loads of
             Inl e \<Rightarrow> Inl (if e = OSError \<or> e = UnicodeError \<or> e = JSONDecodeError then HTTPException 503 else e)
           | Inr v \<Rightarrow> Inr v))"

section \<open>Interleaving\<close>

text \<open>
  One step of any thread. \<^verbatim>\<open>stop\<close> holds the lock only to read the handle, so each of its calls is a step
  of its own, on any handle.
\<close>

inductive replay_step :: "'w kernel \<Rightarrow> ('w \<Rightarrow> nat set) \<Rightarrow> 'w replay_manager \<Rightarrow> 'w replay_manager \<Rightarrow> bool"
  for k alive
where
  start_job: "replay_start k argv log_path d m = (r, m') \<Longrightarrow> replay_step k alive m m'"
| ask: "replay_active k m = (d, m') \<Longrightarrow> replay_step k alive m m'"
| reap: "\<lbrakk>h \<in> set (rm_reapers m); replay_reap k h m = Some m'\<rbrakk> \<Longrightarrow> replay_step k alive m m'"
| stop_poll: "on_world (k_poll k h) (rm_ctl m) = (c, s) \<Longrightarrow> replay_step k alive m (m\<lparr>rm_ctl := s\<rparr>)"
| stop_terminate: "on_world (k_terminate k h) (rm_ctl m) = (r, s) \<Longrightarrow> replay_step k alive m (m\<lparr>rm_ctl := s\<rparr>)"
| stop_wait: "on_world (k_wait k h) (rm_ctl m) = (c, s) \<Longrightarrow> replay_step k alive m (m\<lparr>rm_ctl := s\<rparr>)"
| stop_kill: "on_world (k_kill k h) (rm_ctl m) = (r, s) \<Longrightarrow> replay_step k alive m (m\<lparr>rm_ctl := s\<rparr>)"
| elapse: "alive w \<subseteq> running alive (rm_ctl m) \<Longrightarrow> replay_step k alive m (m\<lparr>rm_ctl := (rm_ctl m)\<lparr>ct_world := w\<rparr>\<rparr>)"

inductive_cases replay_stepE: "replay_step k alive m m'"

inductive replay_reachable :: "'w kernel \<Rightarrow> ('w \<Rightarrow> nat set) \<Rightarrow> 'w replay_manager \<Rightarrow> bool"
  for k alive
where
  initial: "alive w = {} \<Longrightarrow> replay_reachable k alive (new_manager w)"
| step: "\<lbrakk>replay_reachable k alive m; replay_step k alive m m'\<rbrakk> \<Longrightarrow> replay_reachable k alive m'"

definition slot_ok :: "('w \<Rightarrow> nat set) \<Rightarrow> 'w replay_manager \<Rightarrow> bool" where
  "slot_ok alive m \<longleftrightarrow> running alive (rm_ctl m) \<subseteq> {h. rm_proc m = Some h} \<and> (rm_active m = None \<longleftrightarrow> rm_proc m = None)"

lemma slot_shrink:
  "\<lbrakk>slot_ok alive m; running alive s \<subseteq> running alive (rm_ctl m)\<rbrakk> \<Longrightarrow> slot_ok alive (m\<lparr>rm_ctl := s\<rparr>)"
  by (auto simp: slot_ok_def)

lemma slot_poll:
  assumes "kernel_ok k alive" "slot_ok alive m" "on_world (k_poll k h) (rm_ctl m) = (c, s)"
  shows "running alive s \<subseteq> {x. rm_proc m = Some x}"
  using poll_running(1) [OF assms(1,3)] assms(2) unfolding slot_ok_def by (meson subset_trans)

lemma replay_launch_slot:
  assumes "kernel_ok k alive" "slot_ok alive m" "replay_launch k argv log_path d m = (r, m')" "running alive (rm_ctl m) = {}"
  shows "slot_ok alive m'"
proof -
  obtain r1 s1 where 1: "on_world (k_open_log k log_path) (rm_ctl m) = (r1, s1)" by fastforce
  obtain r2 s2 where 2: "on_world (k_spawn k argv) s1 = (r2, s2)" by fastforce
  have e1: "running alive s1 = {}" using open_log_running [OF assms(1) 1] assms(4) by blast
  have e2: "running alive s2 \<subseteq> (case r2 of Inr h \<Rightarrow> {h} | Inl _ \<Rightarrow> {})" using spawn_running [OF assms(1) 2] e1 by simp
  show ?thesis
  proof (cases r1)
    case (Inl e)
    then show ?thesis using assms(2,3) 1 e1 by (auto simp: replay_launch_def slot_ok_def)
  next
    case (Inr u)
    then show ?thesis using assms(2,3) 1 2 e2 by (cases r2) (auto simp: replay_launch_def slot_ok_def)
  qed
qed

lemma replay_start_slot:
  assumes "kernel_ok k alive" "slot_ok alive m" "replay_start k argv log_path d m = (r, m')"
  shows "slot_ok alive m'"
proof (cases "rm_proc m")
  case None
  then have "running alive (rm_ctl m) = {}" using assms(2) by (auto simp: slot_ok_def)
  moreover have "replay_launch k argv log_path d m = (r, m')" using None assms(3) by (simp add: replay_start_def)
  ultimately show ?thesis using replay_launch_slot [OF assms(1,2)] by blast
next
  case (Some h)
  obtain c s where p: "on_world (k_poll k h) (rm_ctl m) = (c, s)" by fastforce
  note q = poll_running [OF assms(1) p]
  have sl: "slot_ok alive (m\<lparr>rm_ctl := s\<rparr>)" using slot_shrink [OF assms(2) q(1)] .
  show ?thesis
  proof (cases c)
    case None
    with Some p assms(3) sl show ?thesis by (simp add: replay_start_def)
  next
    case (Some code)
    then have "running alive s = {}" using q(3) slot_poll [OF assms(1,2) p] \<open>rm_proc m = Some h\<close> by auto
    moreover have "replay_launch k argv log_path d (m\<lparr>rm_ctl := s\<rparr>) = (r, m')"
      using Some \<open>rm_proc m = Some h\<close> p assms(3) by (simp add: replay_start_def)
    ultimately show ?thesis using replay_launch_slot [OF assms(1) sl] by simp
  qed
qed

lemma replay_active_slot:
  assumes "kernel_ok k alive" "slot_ok alive m" "replay_active k m = (d, m')"
  shows "slot_ok alive m'"
proof (cases "rm_proc m")
  case None
  with assms show ?thesis by (simp add: replay_active_def)
next
  case (Some h)
  obtain c s where p: "on_world (k_poll k h) (rm_ctl m) = (c, s)" by fastforce
  note q = poll_running [OF assms(1) p] and sub = slot_poll [OF assms(1,2) p]
  from Some assms(2,3) p q(3) sub show ?thesis
    by (cases c) (auto simp: replay_active_def slot_ok_def Let_def)
qed

lemma replay_reap_slot:
  assumes "kernel_ok k alive" "slot_ok alive m" "replay_reap k h m = Some m'"
  shows "slot_ok alive m'"
proof -
  obtain c s where p: "on_world (k_poll k h) (rm_ctl m) = (c, s)" by fastforce
  note q = poll_running [OF assms(1) p] and sub = slot_poll [OF assms(1,2) p]
  from assms(2,3) p q(3) sub show ?thesis
    by (cases c) (auto simp: replay_reap_def slot_ok_def Let_def split: if_splits)
qed

lemma replay_step_slot:
  assumes "kernel_ok k alive" "slot_ok alive m" "replay_step k alive m m'"
  shows "slot_ok alive m'"
  using assms(3)
proof cases
  case (start_job argv log_path d r)
  then show ?thesis using replay_start_slot assms by blast
next
  case (ask d)
  then show ?thesis using replay_active_slot assms by blast
next
  case (reap h)
  then show ?thesis using replay_reap_slot assms by blast
qed (use slot_shrink [OF assms(2)] poll_running(1) [OF assms(1)] terminate_running [OF assms(1)] wait_running(1) [OF assms(1)]
    kill_running [OF assms(1)] in \<open>auto\<close>)

lemma replay_reachable_slot: "\<lbrakk>replay_reachable k alive m; kernel_ok k alive\<rbrakk> \<Longrightarrow> slot_ok alive m"
proof (induction rule: replay_reachable.induct)
  case (initial w)
  then show ?case by (simp add: slot_ok_def new_manager_def)
next
  case (step m m')
  then show ?case using replay_step_slot by blast
qed

lemma replay_start_verdict:
  assumes "kernel_ok k alive" "slot_ok alive m" "replay_start k argv log_path d m = (r, m')"
  shows "(r = Inr False \<longrightarrow> running alive (rm_ctl m) \<noteq> {}) \<and> (r = Inr True \<longrightarrow> rm_proc m' \<noteq> None)"
proof (cases "rm_proc m")
  case None
  with assms(3) show ?thesis
    by (auto simp: replay_start_def replay_launch_def split: prod.splits sum.splits)
next
  case (Some h)
  obtain c s where p: "on_world (k_poll k h) (rm_ctl m) = (c, s)" by fastforce
  show ?thesis
  proof (cases c)
    case None
    then have "h \<in> running alive (rm_ctl m)" using poll_running(2) [OF assms(1) p] by simp
    with Some None p assms(3) show ?thesis by (auto simp: replay_start_def)
  next
    case (Some code)
    with \<open>rm_proc m = Some h\<close> p assms(3) show ?thesis
      by (auto simp: replay_start_def replay_launch_def split: prod.splits sum.splits)
  qed
qed

lemma replay_start_accepts:
  assumes "kernel_ok k alive" "running alive (rm_ctl m) = {}" "replay_start k argv log_path d m = (r, m')"
  shows "r \<noteq> Inr False"
proof (cases "rm_proc m")
  case None
  with assms(3) show ?thesis by (auto simp: replay_start_def replay_launch_def split: prod.splits sum.splits)
next
  case (Some h)
  obtain c s where p: "on_world (k_poll k h) (rm_ctl m) = (c, s)" by fastforce
  have "c \<noteq> None" using poll_running(2) [OF assms(1) p] assms(2) by auto
  with Some p assms(3) show ?thesis by (auto simp: replay_start_def replay_launch_def split: prod.splits sum.splits)
qed

lemma parse_log_lines_length: "parse_log_lines ls = Inr ds \<Longrightarrow> length ds \<le> length ls"
proof (induction ls arbitrary: ds)
  case (Cons l ls)
  show ?case
  proof (cases "strip l = []")
    case True
    with Cons.IH [of ds] Cons.prems show ?thesis by simp
  next
    case False
    then obtain d es where "parse_log_lines ls = Inr es" "ds = d # es"
      using Cons.prems by (auto simp: Let_def rbind_Inr_iff)
    with Cons.IH show ?thesis by simp
  qed
qed simp

section \<open>Properties\<close>

text \<open>
  \<^bold>\<open>C31\<close>. At most one replay. In every state that requests, reapers, shutdown and exiting children can
  reach in any interleaving, a replay that runs is the one the manager holds. So a request is refused
  only while a job runs, an accepted one found none running, and the slot is free as soon as the job
  has exited, whether or not its reaper has run.
\<close>

theorem replay_exclusive:
  assumes "replay_reachable k alive m" "kernel_ok k alive" "replay_start k argv log_path d m = (r, m')"
  shows "running alive (rm_ctl m) \<subseteq> {h. rm_proc m = Some h}
    \<and> running alive (rm_ctl m') \<subseteq> {h. rm_proc m' = Some h}
    \<and> (r = Inr False \<longrightarrow> (\<exists>h. running alive (rm_ctl m) = {h}))
    \<and> (running alive (rm_ctl m) = {} \<longrightarrow> r \<noteq> Inr False)"
proof -
  note slot = replay_reachable_slot [OF assms(1,2)]
  have "slot_ok alive m'" using replay_start_slot [OF assms(2) slot assms(3)] .
  moreover have "r = Inr False \<Longrightarrow> \<exists>h. running alive (rm_ctl m) = {h}"
  proof -
    assume "r = Inr False"
    then have "running alive (rm_ctl m) \<noteq> {}" using replay_start_verdict [OF assms(2) slot assms(3)] by blast
    then obtain h where h: "h \<in> running alive (rm_ctl m)" by blast
    then have "rm_proc m = Some h" using slot by (auto simp: slot_ok_def)
    with h slot show ?thesis by (auto simp: slot_ok_def)
  qed
  ultimately show ?thesis using slot replay_start_accepts [OF assms(2) _ assms(3)] by (auto simp: slot_ok_def)
qed

theorem replay_exclusive_witness:
  "\<exists>m'. replay_start demo_kernel [lit ''x''] [lit ''l''] [] (snd (replay_start demo_kernel [lit ''x''] [lit ''l''] [] (new_manager ([], 0))))
     = (Inr False, m') \<and> set (fst (ct_world (rm_ctl m'))) \<subseteq> {h. rm_proc m' = Some h}"
proof -
  let ?m0 = "new_manager ([] :: nat list, 0 :: nat)" and ?start = "replay_start demo_kernel [lit ''x''] [lit ''l''] []"
  obtain r1 m1 where 1: "?start ?m0 = (r1, m1)" by fastforce
  obtain r2 m2 where 2: "?start m1 = (r2, m2)" by fastforce
  have "replay_reachable demo_kernel (set \<circ> fst) m1"
    using replay_reachable.step [OF replay_reachable.initial replay_step.start_job [OF 1]] by simp
  note x = replay_exclusive [OF this demo_kernel_ok 2]
  have "r2 = Inr False"
    using 1 2 by (auto simp: replay_start_def replay_launch_def new_manager_def on_world_def demo_kernel_def split: if_splits)
  with 1 2 x show ?thesis by auto
qed

text \<open>What opening a file and \<^verbatim>\<open>Popen\<close> may raise.\<close>

definition plain_errors :: "'w kernel \<Rightarrow> bool" where
  "plain_errors k \<longleftrightarrow>
     (\<forall>q w e w'. k_open_log k q w = (Inl e, w') \<longrightarrow> e = OSError \<or> e = ValueError) \<and>
     (\<forall>argv w e w'. k_spawn k argv w = (Inl e, w') \<longrightarrow> e = OSError \<or> e = ValueError)"

lemma replay_launch_errors:
  assumes "plain_errors k" "replay_launch k argv log_path d m = (Inl e, m')"
  shows "e = OSError \<or> e = ValueError"
  using assms(2) assms(1) [unfolded plain_errors_def, THEN conjunct1, rule_format]
    assms(1) [unfolded plain_errors_def, THEN conjunct2, rule_format]
  by (auto simp: replay_launch_def on_world_def split: prod.splits sum.splits)

lemma replay_start_errors:
  assumes "plain_errors k" "replay_start k argv log_path d m = (Inl e, m')"
  shows "e = OSError \<or> e = ValueError"
  using assms(2) replay_launch_errors [OF assms(1)] by (auto simp: replay_start_def split: option.splits prod.splits)

text \<open>
  What \<^verbatim>\<open>POST /replay\<close> starts. A request that succeeds started the loader on a capture inside the
  approved directory, with at least one and at most the configured number of packets, at a moment when
  no replay was running; and 409 is answered only while a replay runs.
\<close>

theorem replay_request_safe:
  assumes "http_replay k env approved cf rq m = (r, m')" "replay_reachable k alive m" "kernel_ok k alive" "plain_errors k"
    and "canonical (px_fs (ce_posix env)) (px_cwd (ce_posix env))" "1 \<le> cf_max_replay_packets cf"
    and "px_expanduser (ce_posix env) \<lparr>p_abs = True, p_parts = approved\<rparr> = Inr \<lparr>p_abs = True, p_parts = approved\<rparr>"
    and "canonical (px_fs (ce_posix env)) approved" "\<forall>n. rq_max_packets rq = Some n \<longrightarrow> 1 \<le> n"
  shows "(is_ok r \<longrightarrow> (\<exists>capture n m1 m2. prefix approved capture \<and> canonical (px_fs (ce_posix env)) capture \<and> is_file (ce_posix env) capture
        \<and> 1 \<le> n \<and> n \<le> cf_max_replay_packets cf
        \<and> replay_start k (replay_argv env approved capture n rq) (ce_runtime env @ [lit ''replay.log''])
            (replay_description capture n rq) m1 = (Inr True, m2)
        \<and> rm_proc m1 = rm_proc m \<and> ct_world (rm_ctl m1) = ct_world (rm_ctl m)))
    \<and> (r = Inl (HTTPException 409) \<longrightarrow> running alive (rm_ctl m) \<noteq> {})"
proof -
  let ?m = "rm_emit ''replay_requested'' (details [(''pcap_path'', PyStr (rq_pcap_path rq))]) m"
  have same: "rm_proc ?m = rm_proc m" "ct_world (rm_ctl ?m) = ct_world (rm_ctl m)" "rm_active ?m = rm_active m" by (simp_all add: rm_emit_def)
  have slot: "slot_ok alive ?m" using replay_reachable_slot [OF assms(2,3)] by (simp add: slot_ok_def same)
  let ?v = "validate_pcap_path (ce_posix env) (rq_pcap_path rq) \<lparr>p_abs = True, p_parts = approved\<rparr>"
  show ?thesis
  proof (cases ?v)
    case (Inl e)
    then have "r = Inl (capture_status e)" using assms(1) by (simp add: http_replay_def Let_def)
    moreover have "e \<noteq> HTTPException 409"
      using Inl assms(7) by (auto simp: validate_pcap_path_def resolve_def Let_def require_Inl_iff rbind_Inl_iff split: option.splits)
    ultimately show ?thesis by (auto simp: capture_status_def)
  next
    case (Inr capture)
    have res: "rbind (px_expanduser (ce_posix env) \<lparr>p_abs = True, p_parts = approved\<rparr>) (resolve (ce_posix env)) = Inr approved"
      using assms(7) realpath_same [of "px_fs (ce_posix env)" "[]" approved "[]"] assms(8) by (simp add: resolve_def)
    have c: "prefix approved capture" "canonical (px_fs (ce_posix env)) capture" "is_file (ce_posix env) capture"
      using Inr res resolve_canonical [OF _ assms(5)]
      by (auto simp: validate_pcap_path_def Let_def require_Inr_iff rbind_Inr_iff)
    let ?n = "replay_budget cf rq"
    have n: "1 \<le> ?n" "?n \<le> cf_max_replay_packets cf" using assms(6,9) by (auto simp: replay_budget_def split: option.split)
    obtain q m1 where st: "replay_start k (replay_argv env approved capture ?n rq) (ce_runtime env @ [lit ''replay.log''])
        (replay_description capture ?n rq) ?m = (q, m1)" by fastforce
    have "is_ok r \<longrightarrow> q = Inr True" "r = Inl (HTTPException 409) \<longrightarrow> q = Inr False \<or> q = Inl (HTTPException 409)"
      using assms(1) Inr st by (auto simp: http_replay_def Let_def split: sum.splits prod.splits if_splits)
    moreover have "q \<noteq> Inl (HTTPException 409)" using replay_start_errors [OF assms(4)] st by blast
    moreover have "q = Inr False \<longrightarrow> running alive (rm_ctl m) \<noteq> {}"
      using replay_start_verdict [OF assms(3) slot st] same(2) by simp
    ultimately show ?thesis using c n st same(1,2) by blast
  qed
qed

theorem replay_request_safe_witness:
  "\<exists>m'. http_replay demo_kernel demo_ctl_env [lit ''lab'', lit ''pcaps''] default_config
      \<lparr>rq_pcap_path = lit ''a.pcap'', rq_max_packets = Some 9000, rq_modbus_target = lit ''lab'', rq_dnp3_target = lit ''lab''\<rparr>
      (snd (replay_start demo_kernel [lit ''x''] [lit ''l''] [] (new_manager ([], 0)))) = (Inl (HTTPException 409), m')
    \<and> set (fst (ct_world (rm_ctl (snd (replay_start demo_kernel [lit ''x''] [lit ''l''] [] (new_manager ([] :: nat list, 0 :: nat))))))) \<noteq> {}"
proof -
  let ?rq = "\<lparr>rq_pcap_path = lit ''a.pcap'', rq_max_packets = Some 9000, rq_modbus_target = lit ''lab'', rq_dnp3_target = lit ''lab''\<rparr>"
  let ?dir = "[lit ''lab'', lit ''pcaps'']"
  obtain r1 m1 where 1: "replay_start demo_kernel [lit ''x''] [lit ''l''] [] (new_manager ([], 0)) = (r1, m1)" by fastforce
  have reach: "replay_reachable demo_kernel (set \<circ> fst) m1"
    using replay_reachable.step [OF replay_reachable.initial replay_step.start_job [OF 1]] by simp
  obtain r m' where h: "http_replay demo_kernel demo_ctl_env ?dir default_config ?rq m1 = (r, m')" by fastforce
  have v: "validate_pcap_path demo_posix (lit ''a.pcap'') \<lparr>p_abs = True, p_parts = ?dir\<rparr> = Inr [lit ''lab'', lit ''pcaps'', lit ''a.pcap'']"
    by (simp add: validate_pcap_path_def demo_posix_def parse_path_def path_suffix_def name_suffix_def ascii_lower_def
        ALLOWED_PCAP_SUFFIXES_def resolve_def realpath.simps is_file_def require_def)
  have run: "m1 = \<lparr>rm_ctl = \<lparr>ct_world = ([0], 1), ct_events = []\<rparr>, rm_active = rm_active m1, rm_proc = Some 0, rm_reapers = [0]\<rparr>"
    using 1 by (auto simp: replay_start_def replay_launch_def new_manager_def on_world_def demo_kernel_def)
  have px: "ce_posix demo_ctl_env = demo_posix" by (simp add: demo_ctl_env_def)
  have "r = Inl (HTTPException 409)"
    using h by (subst (asm) run)
      (simp add: http_replay_def px v rm_emit_def replay_start_def on_world_def demo_kernel_def del: lit_simps)
  moreover have "plain_errors demo_kernel" by (simp add: plain_errors_def demo_kernel_def)
  moreover have "canonical (px_fs demo_posix) (px_cwd demo_posix)" "canonical (px_fs demo_posix) ?dir"
    by (auto simp: canonical_def demo_posix_def prefix_Cons)
  moreover have "px_expanduser demo_posix x = Inr x" for x by (simp add: demo_posix_def)
  moreover have "1 \<le> cf_max_replay_packets default_config" by (simp add: default_config_def)
  ultimately have "set (fst (ct_world (rm_ctl m1))) \<noteq> {}"
    using replay_request_safe [OF h reach demo_kernel_ok] by (simp add: px)
  with 1 h \<open>r = _\<close> show ?thesis by simp
qed

text \<open>
  \<^verbatim>\<open>GET /logs\<close> returns at most as many entries as it was asked for.
\<close>

theorem logs_bounded: "http_logs content limit = Inr ds \<Longrightarrow> length ds \<le> limit"
  by (auto simp: http_logs_def last_lines_def dest!: parse_log_lines_length split: option.splits sum.splits)

end
