(* ===== verification/Lifespan.thy ===== *)
theory Lifespan
  imports Replay
begin

text \<open>
  The life span of the application that \<^verbatim>\<open>create_app\<close> builds (\<^verbatim>\<open>controller/app.py\<close>): start-up, the
  operations of supervisor and replay manager on one set of children, and shutdown. Shown: what runs is
  always owned by a component or by the replay manager, and shutdown leaves nothing running.
\<close>

section \<open>The application\<close>

text \<open>Publisher and operating system are shared: the replay manager acts on the supervisor's \<open>ctl\<close>.\<close>

record 'w application =
  ap_config :: ControllerConfig
  ap_supervisor :: "'w supervisor"
  ap_replays :: "'w replay_manager"

definition new_application :: "ControllerConfig \<Rightarrow> 'w \<Rightarrow> 'w application" where
  "new_application cf w = \<lparr>ap_config = cf, ap_supervisor = new_supervisor cf w, ap_replays = new_manager w\<rparr>"

abbreviation ap_ctl :: "'w application \<Rightarrow> 'w ctl" where
  "ap_ctl ap \<equiv> su_ctl (ap_supervisor ap)"

definition with_replays :: "'w application \<Rightarrow> 'w replay_manager" where
  "with_replays ap = (ap_replays ap)\<lparr>rm_ctl := ap_ctl ap\<rparr>"

definition replays_done :: "'w application \<Rightarrow> 'w replay_manager \<Rightarrow> 'w application" where
  "replays_done ap m = ap\<lparr>ap_replays := m, ap_supervisor := (ap_supervisor ap)\<lparr>su_ctl := rm_ctl m\<rparr>\<rparr>"

definition ap_emit :: "string \<Rightarrow> (string \<times> pyval) list \<Rightarrow> 'w application \<Rightarrow> 'w application" where
  "ap_emit event_type d ap = ap\<lparr>ap_supervisor := (ap_supervisor ap)\<lparr>su_ctl := ct_emit event_type d (ap_ctl ap)\<rparr>\<rparr>"

definition controller_startup :: "'w kernel \<Rightarrow> ctl_env \<Rightarrow> 'w application \<Rightarrow> unit res \<times> 'w application" where
  "controller_startup k env ap0 =
     (let cf = ap_config ap0;
          ap = ap_emit ''controller_startup''
            [(''host'', PyStr (cf_host cf)), (''port'', PyInt (cf_port cf)),
             (''components'', PyList (map (PyStr \<circ> fst) (su_processes (ap_supervisor ap0)))),
             (''autostart'', PyList (map (PyStr \<circ> fst) (filter (\<lambda>(_, c). cc_enabled c \<and> cc_autostart c) (cf_components cf))))] ap0
      in case start_autostart k env (ap_supervisor ap) of
           (Inl e, sv) \<Rightarrow> (Inl e, ap\<lparr>ap_supervisor := sv\<rparr>)
         | (Inr started, sv) \<Rightarrow>
             (Inr (), (if started = [] then id
                       else ap_emit ''controller_autostart'' [(''results'', PyDict (map (\<lambda>(n, ok). (KStr n, PyBool ok)) started))])
                  (ap\<lparr>ap_supervisor := sv\<rparr>)))"

text \<open>The \<^verbatim>\<open>finally\<close> block: an exception of \<^verbatim>\<open>replays.stop()\<close> skips \<^verbatim>\<open>stop_all\<close>.\<close>

definition controller_shutdown :: "'w kernel \<Rightarrow> 'w application \<Rightarrow> unit res \<times> 'w application" where
  "controller_shutdown k ap0 =
     (case replay_stop k (with_replays (ap_emit ''controller_shutdown'' [] ap0)) of
        (Inl e, m) \<Rightarrow> (Inl e, replays_done ap0 m)
      | (Inr _, m) \<Rightarrow>
          (let ap = replays_done ap0 m in (Inr (), ap\<lparr>ap_supervisor := stop_all k (ap_supervisor ap)\<rparr>)))"

text \<open>\<^verbatim>\<open>GET /status\<close>; \<open>evidence\<close> is what \<^verbatim>\<open>evidence_status\<close> reports.\<close>

definition http_status ::
  "'w kernel \<Rightarrow> ctl_env \<Rightarrow> pyval \<Rightarrow> 'w application \<Rightarrow> ((pystr \<times> component_info) list \<times> pydict option \<times> pyval) \<times> 'w application"
where
  "http_status k env evidence ap =
     (case sup_status k env (su_processes (ap_supervisor ap)) (ap_ctl ap) of
        (components, s) \<Rightarrow>
          (let ap1 = ap\<lparr>ap_supervisor := (ap_supervisor ap)\<lparr>su_ctl := s\<rparr>\<rparr>
           in case replay_active k (with_replays ap1) of
                (active, m) \<Rightarrow> ((components, active, evidence), replays_done ap1 m)))"

section \<open>Operations\<close>

datatype 'w app_op =
    Supervise "'w sup_op"
  | StartReplay "pystr list" "pystr list" pydict
  | AskReplay
  | ReapReplay nat

fun app_step :: "'w kernel \<Rightarrow> ctl_env \<Rightarrow> 'w application \<Rightarrow> 'w app_op \<Rightarrow> unit \<times> 'w application" where
  "app_step k env ap (Supervise i) = ((), ap\<lparr>ap_supervisor := snd (sup_step k env (ap_supervisor ap) i)\<rparr>)"
| "app_step k env ap (StartReplay argv log_path d) = ((), replays_done ap (snd (replay_start k argv log_path d (with_replays ap))))"
| "app_step k env ap AskReplay = ((), replays_done ap (snd (replay_active k (with_replays ap))))"
| "app_step k env ap (ReapReplay h) =
     ((), case replay_reap k h (with_replays ap) of None \<Rightarrow> ap | Some m \<Rightarrow> replays_done ap m)"

definition app_legal :: "('w \<Rightarrow> nat set) \<Rightarrow> 'w app_op \<Rightarrow> bool" where
  "app_legal alive i = (case i of Supervise j \<Rightarrow> sup_legal alive j | _ \<Rightarrow> True)"

definition replay_child :: "'w replay_manager \<Rightarrow> nat set" where
  "replay_child m = {h. rm_proc m = Some h}"

definition all_owned :: "('w \<Rightarrow> nat set) \<Rightarrow> 'w application \<Rightarrow> bool" where
  "all_owned alive ap \<longleftrightarrow> owned (replay_child (ap_replays ap)) alive (ap_supervisor ap)"

text \<open>What an operation of the manager leaves running, as \<open>keeps_track\<close> for a process.\<close>

definition replay_tracks :: "('w \<Rightarrow> nat set) \<Rightarrow> 'w replay_manager \<Rightarrow> 'w replay_manager \<Rightarrow> bool" where
  "replay_tracks alive m m' \<longleftrightarrow>
     running alive (rm_ctl m') \<subseteq> (running alive (rm_ctl m) - replay_child m) \<union> replay_child m'"

lemma replay_launch_tracks:
  assumes "kernel_ok k alive" "replay_launch k argv log_path d m = (r, m')" "replay_child m \<inter> running alive (rm_ctl m) = {}"
  shows "replay_tracks alive m m'"
proof -
  obtain r1 s1 where 1: "on_world (k_open_log k log_path) (rm_ctl m) = (r1, s1)" by fastforce
  obtain r2 s2 where 2: "on_world (k_spawn k argv) s1 = (r2, s2)" by fastforce
  note le = open_log_running [OF assms(1) 1] spawn_running [OF assms(1) 2]
  show ?thesis
  proof (cases r1)
    case (Inl e)
    with assms(2,3) 1 le show ?thesis by (auto simp: replay_launch_def replay_tracks_def replay_child_def)
  next
    case (Inr u)
    with assms(2,3) 1 2 le show ?thesis
      by (cases r2) (fastforce simp: replay_launch_def replay_tracks_def replay_child_def)+
  qed
qed

lemma replay_start_tracks:
  assumes "kernel_ok k alive" "replay_start k argv log_path d m = (r, m')"
  shows "replay_tracks alive m m'"
proof (cases "rm_proc m")
  case None
  with assms(2) replay_launch_tracks [OF assms(1)] show ?thesis by (auto simp: replay_start_def replay_child_def)
next
  case (Some h)
  obtain c s where p: "on_world (k_poll k h) (rm_ctl m) = (c, s)" by fastforce
  note q = poll_running [OF assms(1) p]
  show ?thesis
  proof (cases c)
    case None
    with Some p q(1) assms(2) show ?thesis by (auto simp: replay_start_def replay_tracks_def replay_child_def)
  next
    case (Some code)
    with \<open>rm_proc m = Some h\<close> p assms(2) have "replay_launch k argv log_path d (m\<lparr>rm_ctl := s\<rparr>) = (r, m')"
      by (simp add: replay_start_def)
    from replay_launch_tracks [OF assms(1) this] q(1,3) Some \<open>rm_proc m = Some h\<close> show ?thesis
      by (auto simp: replay_tracks_def replay_child_def)
  qed
qed

lemma replay_active_tracks:
  assumes "kernel_ok k alive" "replay_active k m = (d, m')"
  shows "replay_tracks alive m m'"
proof (cases "rm_proc m")
  case None
  with assms(2) show ?thesis by (auto simp: replay_active_def replay_tracks_def replay_child_def)
next
  case (Some h)
  obtain c s where p: "on_world (k_poll k h) (rm_ctl m) = (c, s)" by fastforce
  from Some assms(2) p poll_running(1,3) [OF assms(1) p] show ?thesis
    by (cases c) (auto simp: replay_active_def replay_tracks_def replay_child_def Let_def)
qed

lemma replay_reap_tracks:
  assumes "kernel_ok k alive" "replay_reap k h m = Some m'"
  shows "replay_tracks alive m m'"
proof -
  obtain c s where p: "on_world (k_poll k h) (rm_ctl m) = (c, s)" by fastforce
  from assms(2) p poll_running(1,3) [OF assms(1) p] show ?thesis
    by (cases c) (auto simp: replay_reap_def replay_tracks_def replay_child_def Let_def split: if_splits)
qed

lemma all_owned_replay:
  "\<lbrakk>all_owned alive ap; replay_tracks alive (with_replays ap) m\<rbrakk> \<Longrightarrow> all_owned alive (replays_done ap m)"
  by (auto simp: all_owned_def owned_def replays_done_def with_replays_def replay_tracks_def replay_child_def)

text \<open>The application as a guarded machine over the supervisor's.\<close>

interpretation application: guarded_machine "app_step k env" "\<lambda>ap. kernel_ok k alive \<longrightarrow> all_owned alive ap" "app_legal alive"
  for k env alive
proof
  fix ap i assume inv: "kernel_ok k alive \<longrightarrow> all_owned alive ap" and legal: "app_legal alive i"
  show "kernel_ok k alive \<longrightarrow> all_owned alive (snd (app_step k env ap i))"
  proof
    assume k: "kernel_ok k alive"
    note own = inv [rule_format, OF k]
    show "all_owned alive (snd (app_step k env ap i))"
    proof (cases i)
      case (Supervise j)
      then show ?thesis
        using supervisor.step_inv [of k alive "replay_child (ap_replays ap)" "ap_supervisor ap" j env] legal own k
        by (simp add: all_owned_def app_legal_def)
    next
      case (StartReplay argv log_path d)
      obtain r m where st: "replay_start k argv log_path d (with_replays ap) = (r, m)" by fastforce
      from all_owned_replay [OF own replay_start_tracks [OF k st]] StartReplay st show ?thesis by simp
    next
      case AskReplay
      obtain d m where st: "replay_active k (with_replays ap) = (d, m)" by fastforce
      from all_owned_replay [OF own replay_active_tracks [OF k st]] AskReplay st show ?thesis by simp
    next
      case (ReapReplay h)
      then show ?thesis using own all_owned_replay [OF own replay_reap_tracks [OF k]] by (auto split: option.split)
    qed
  qed
qed

lemma all_owned_emit [simp]: "all_owned alive (ap_emit t d ap) = all_owned alive ap"
  by (simp add: all_owned_def owned_def ap_emit_def)

lemma startup_owned:
  assumes "kernel_ok k alive" "alive w = {}"
  shows "all_owned alive (snd (controller_startup k env (new_application cf w)))"
proof -
  define ap where "ap = ap_emit ''controller_startup''
      [(''host'', PyStr (cf_host cf)), (''port'', PyInt (cf_port cf)),
       (''components'', PyList (map (PyStr \<circ> fst) (su_processes (new_supervisor cf w)))),
       (''autostart'', PyList (map (PyStr \<circ> fst) (filter (\<lambda>(_, c). cc_enabled c \<and> cc_autostart c) (cf_components cf))))]
      (new_application cf w)"
  have ap: "owned {} alive (ap_supervisor ap)" "replay_child (ap_replays ap) = {}"
    using assms(2) by (simp_all add: ap_def owned_def new_application_def new_supervisor_def ap_emit_def replay_child_def new_manager_def)
  obtain r sv where st: "start_autostart k env (ap_supervisor ap) = (r, sv)" by fastforce
  then have "owned {} alive sv" using start_each_owned [OF assms(1) ap(1)] unfolding start_autostart_def by (metis snd_conv)
  with ap(2) have "all_owned alive (ap\<lparr>ap_supervisor := sv\<rparr>)" by (simp add: all_owned_def)
  moreover have "snd (controller_startup k env (new_application cf w)) = ap\<lparr>ap_supervisor := sv\<rparr> \<or>
      (\<exists>t d. snd (controller_startup k env (new_application cf w)) = ap_emit t d (ap\<lparr>ap_supervisor := sv\<rparr>))"
    using st by (cases r) (auto simp: controller_startup_def new_application_def ap_def Let_def)
  ultimately show ?thesis by auto
qed

section \<open>Shutdown\<close>

text \<open>The child of the manager may be signalled, and SIGKILL ends it.\<close>

definition child_dies :: "'w kernel \<Rightarrow> ('w \<Rightarrow> nat set) \<Rightarrow> bool" where
  "child_dies k alive \<longleftrightarrow> (\<forall>h w. fst (k_terminate k h w) = Inr ()) \<and>
     (\<forall>h w r w'. k_kill k h w = (r, w') \<longrightarrow> r = Inr () \<and> h \<notin> alive w')"

lemma replay_stop_effect:
  assumes "kernel_ok k alive" "replay_stop k m = (r, m')"
  shows "rm_proc m' = rm_proc m \<and> running alive (rm_ctl m') \<subseteq> running alive (rm_ctl m)
    \<and> (child_dies k alive \<longrightarrow> r = Inr () \<and> running alive (rm_ctl m') \<inter> replay_child m = {})"
proof (cases "rm_proc m")
  case None
  with assms(2) show ?thesis by (auto simp: replay_stop_def replay_child_def)
next
  case (Some h)
  obtain c s where p: "on_world (k_poll k h) (rm_ctl m) = (c, s)" by fastforce
  obtain r1 s1 where t: "on_world (k_terminate k h) s = (r1, s1)" by fastforce
  obtain c2 s2 where w: "on_world (k_wait k h) s1 = (c2, s2)" by fastforce
  obtain r3 s3 where x: "on_world (k_kill k h) s2 = (r3, s3)" by fastforce
  note q = poll_running [OF assms(1) p] and q1 = terminate_running [OF assms(1) t]
    and q2 = wait_running [OF assms(1) w] and q3 = kill_running [OF assms(1) x]
  have sub: "running alive s1 \<subseteq> running alive (rm_ctl m)" "running alive s2 \<subseteq> running alive (rm_ctl m)"
      "running alive s3 \<subseteq> running alive (rm_ctl m)"
    using q(1) q1 q2(1) q3 by blast+
  have dies: "r1 = Inr () \<and> r3 = Inr () \<and> h \<notin> running alive s3" if "child_dies k alive"
  proof -
    have "fst (k_terminate k h (ct_world s)) = Inr ()" using that unfolding child_dies_def by blast
    moreover have "k_kill k h (ct_world s2) = (r3, ct_world s3)" using x by (auto simp: on_world_eq)
    with that have "r3 = Inr () \<and> h \<notin> running alive s3" unfolding child_dies_def by blast
    ultimately show ?thesis using t by (auto simp: on_world_eq)
  qed
  have child: "replay_child m = {h}" using Some by (auto simp: replay_child_def)
  show ?thesis
  proof (cases c)
    case (Some code)
    with \<open>rm_proc m = Some h\<close> p q assms(2) child show ?thesis by (auto simp: replay_stop_def)
  next
    case None
    show ?thesis
    proof (cases r1)
      case (Inl e)
      with \<open>rm_proc m = Some h\<close> None p t sub assms(2) dies show ?thesis by (auto simp: replay_stop_def)
    next
      case (Inr u)
      with \<open>rm_proc m = Some h\<close> None p t w x sub q2(2) assms(2) dies child show ?thesis
        by (cases c2) (auto simp: replay_stop_def)
    qed
  qed
qed



end
