(* ===== verification/Der.thy ===== *)
theory Der
  imports Backend Modbus
begin

unbundle bit_operations_syntax

text \<open>
  The key format of \<^verbatim>\<open>pqc_evidence/openssl_backend.py\<close>: raw public keys and their
  \<^verbatim>\<open>SubjectPublicKeyInfo\<close> encoding. The encoder is the source's; the reader below it is a reference of
  our own for the part of X.690 it uses. Shown: what is encoded is read back as the algorithm's object
  identifier and exactly the key, by the reference reader as by the source's own shortcut.
\<close>

section \<open>The encoder\<close>

definition RAW_PUBLIC_KEY_SIZES :: "(pystr \<times> nat) list" where
  "RAW_PUBLIC_KEY_SIZES =
     [(lit ''ML-DSA-44'', 1312), (lit ''ML-DSA-65'', 1952), (lit ''ML-DSA-87'', 2592),
      (lit ''ML-KEM-512'', 800), (lit ''ML-KEM-768'', 1184), (lit ''ML-KEM-1024'', 1568)]"

definition ALGORITHM_OIDS :: "(pystr \<times> nat list) list" where
  "ALGORITHM_OIDS =
     [(lit ''ML-DSA-44'', [2, 16, 840, 1, 101, 3, 4, 3, 17]), (lit ''ML-DSA-65'', [2, 16, 840, 1, 101, 3, 4, 3, 18]),
      (lit ''ML-DSA-87'', [2, 16, 840, 1, 101, 3, 4, 3, 19]), (lit ''ML-KEM-512'', [2, 16, 840, 1, 101, 3, 4, 4, 1]),
      (lit ''ML-KEM-768'', [2, 16, 840, 1, 101, 3, 4, 4, 2]), (lit ''ML-KEM-1024'', [2, 16, 840, 1, 101, 3, 4, 4, 3])]"

text \<open>\<^verbatim>\<open>n.to_bytes((n.bit_length() + 7) // 8, "big")\<close>.\<close>

fun nat_bytes :: "nat \<Rightarrow> bytes" where
  "nat_bytes n = (if n = 0 then [] else nat_bytes (n div 256) @ [byte_of (n mod 256)])"

declare nat_bytes.simps [simp del]

definition der_length :: "nat \<Rightarrow> bytes" where
  "der_length n =
     (if n < 128 then [byte_of n]
      else (let encoded = nat_bytes n in (128 OR byte_of (length encoded)) # encoded))"

definition der_sequence :: "bytes \<Rightarrow> bytes" where
  "der_sequence content = 48 # der_length (length content) @ content"

definition der_bit_string :: "bytes \<Rightarrow> bytes" where
  "der_bit_string content = (let body = 0 # content in 3 # der_length (length body) @ body)"

text \<open>The loop over 7-bit groups, most significant first after the reversal.\<close>

fun base128 :: "nat \<Rightarrow> nat list" where
  "base128 v = (if v = 0 then [] else base128 (v div 128) @ [v mod 128])"

declare base128.simps [simp del]

definition oid_component :: "nat \<Rightarrow> bytes" where
  "oid_component c =
     (if c < 128 then [byte_of c]
      else (let chunks = base128 c in map (\<lambda>x. byte_of x OR 128) (butlast chunks) @ [byte_of (last chunks)]))"

definition der_object_identifier :: "nat list \<Rightarrow> bytes" where
  "der_object_identifier oid =
     (let body = byte_of (oid ! 0 * 40 + oid ! 1) # concat (map oid_component (drop 2 oid))
      in 6 # der_length (length body) @ body)"

definition raw_public_key_from_der :: "bytes \<Rightarrow> pystr \<Rightarrow> bytes res" where
  "raw_public_key_from_der der alg =
     (case map_of RAW_PUBLIC_KEY_SIZES alg of
        None \<Rightarrow> Inl BackendError
      | Some n \<Rightarrow> require (n \<le> length der) BackendError (Inr (drop (length der - n) der)))"

definition der_from_raw_public_key :: "bytes \<Rightarrow> pystr \<Rightarrow> bytes res" where
  "der_from_raw_public_key raw alg =
     (case map_of RAW_PUBLIC_KEY_SIZES alg of
        None \<Rightarrow> Inl BackendError
      | Some n \<Rightarrow>
          require (length raw = n) BackendError
           (case map_of ALGORITHM_OIDS alg of
              None \<Rightarrow> Inl BackendError
            | Some oid \<Rightarrow>
                Inr (der_sequence (der_sequence (der_object_identifier oid) @ der_bit_string raw))))"

section \<open>A reference reader\<close>

fun read_length :: "bytes \<Rightarrow> (nat \<times> bytes) option" where
  "read_length [] = None"
| "read_length (b # bs) =
     (if unat b < 128 then Some (unat b, bs)
      else (let k = unat b - 128 in
            if k = 0 \<or> length bs < k then None else Some (from_bytes (take k bs), drop k bs)))"

text \<open>One element with the given tag: its content and what follows.\<close>

definition read_tlv :: "byte \<Rightarrow> bytes \<Rightarrow> (bytes \<times> bytes) option" where
  "read_tlv tag bs =
     (case bs of
        [] \<Rightarrow> None
      | t # r \<Rightarrow>
          if t \<noteq> tag then None
          else (case read_length r of
                  None \<Rightarrow> None
                | Some (n, c) \<Rightarrow> if length c < n then None else Some (take n c, drop n c)))"

fun read_arcs :: "nat \<Rightarrow> bytes \<Rightarrow> nat list option" where
  "read_arcs acc [] = (if acc = 0 then Some [] else None)"
| "read_arcs acc (b # bs) =
     (if unat b < 128 then map_option ((#) (acc * 128 + unat b)) (read_arcs 0 bs)
      else read_arcs (acc * 128 + (unat b - 128)) bs)"

definition read_oid :: "bytes \<Rightarrow> nat list option" where
  "read_oid bs =
     (case bs of
        [] \<Rightarrow> None
      | b # r \<Rightarrow> map_option (\<lambda>arcs. (let f = unat b in
           if f < 40 then 0 # f # arcs else if f < 80 then 1 # (f - 40) # arcs else 2 # (f - 80) # arcs)) (read_arcs 0 r))"

definition read_spki :: "bytes \<Rightarrow> (nat list \<times> bytes) option" where
  "read_spki der =
     (case read_tlv 48 der of
        Some (content, []) \<Rightarrow>
          (case read_tlv 48 content of
             Some (algorithm, rest) \<Rightarrow>
               (case (read_tlv 6 algorithm, read_tlv 3 rest) of
                  (Some (oid, []), Some (b # key, [])) \<Rightarrow>
                    if b \<noteq> 0 then None else map_option (\<lambda>arcs. (arcs, key)) (read_oid oid)
                | _ \<Rightarrow> None)
           | None \<Rightarrow> None)
      | _ \<Rightarrow> None)"

section \<open>Lengths and elements read back\<close>

lemma from_bytes_snoc [simp]: "from_bytes (bs @ [b]) = from_bytes bs * 256 + unat b"
  by (simp add: from_bytes_def)

lemma nat_bytes_0 [simp]: "nat_bytes 0 = []"
  by (simp add: nat_bytes.simps)

lemma from_bytes_nat_bytes [simp]: "from_bytes (nat_bytes n) = n"
proof (induction n rule: nat_bytes.induct)
  case (1 n)
  then show ?case by (cases "n = 0") (simp_all add: nat_bytes.simps [of n] from_bytes_def)
qed

lemma nat_bytes_length: "n < 256 ^ k \<Longrightarrow> length (nat_bytes n) \<le> k"
proof (induction k arbitrary: n)
  case (Suc k)
  then have "n div 256 < 256 ^ k" by (simp add: less_mult_imp_div_less)
  with Suc.IH show ?case by (cases "n = 0") (simp_all add: nat_bytes.simps [of n])
qed (simp add: nat_bytes.simps)

lemma nat_bytes_pos: "0 < n \<Longrightarrow> nat_bytes n \<noteq> []"
  by (simp add: nat_bytes.simps [of n])

lemma high_bit:
  assumes "k < 128"
  shows "128 OR byte_of k = byte_of (128 + k)"
proof -
  have "\<not> bit (128 :: byte) n \<or> \<not> bit (byte_of k) n" for n
  proof (cases "n = 7")
    case True
    then show ?thesis using assms by (simp add: byte_of_def bit_of_nat_iff bit_nat_iff bit_iff_odd [of k])
  next
    case False
    then show ?thesis using bit_push_bit_iff [of 7 "1 :: byte" n] by (auto simp: push_bit_eq_mult bit_1_iff)
  qed
  then have "128 OR byte_of k = 128 + byte_of k" by (simp add: disjunctive_add)
  then show ?thesis by (simp add: byte_of_def)
qed

lemma long_form: "k < 128 \<Longrightarrow> unat (128 OR byte_of k) = 128 + k"
  by (simp add: high_bit)

lemma read_length_der:
  assumes "n < 256 ^ 100"
  shows "read_length (der_length n @ r) = Some (n, r)"
proof (cases "n < 128")
  case False
  let ?e = "nat_bytes n"
  have "length ?e \<le> 100" "?e \<noteq> []" using nat_bytes_length [OF assms] nat_bytes_pos [of n] False by simp_all
  then show ?thesis using False by (simp add: der_length_def Let_def long_form)
qed (simp add: der_length_def)

lemma read_tlv_der: "length c < 256 ^ 100 \<Longrightarrow> read_tlv tag (tag # der_length (length c) @ c @ r) = Some (c, r)"
  by (simp add: read_tlv_def read_length_der)

section \<open>Object identifiers read back\<close>

lemma base128_0 [simp]: "base128 0 = []"
  by (simp add: base128.simps)

lemma base128_digits: "\<forall>x\<in>set (base128 v). x < 128"
proof (induction v rule: base128.induct)
  case (1 v)
  then show ?case by (cases "v = 0") (simp_all add: base128.simps [of v])
qed

lemma base128_value: "foldl (\<lambda>a x. a * 128 + x) 0 (base128 v) = v"
proof (induction v rule: base128.induct)
  case (1 v)
  then show ?case by (cases "v = 0") (simp_all add: base128.simps [of v])
qed

lemma read_arcs_continued:
  "\<forall>x\<in>set xs. x < 128 \<Longrightarrow>
   read_arcs acc (map (\<lambda>x. byte_of x OR 128) xs @ bs) = read_arcs (foldl (\<lambda>a x. a * 128 + x) acc xs) bs"
  by (induction xs arbitrary: acc) (simp_all add: or.commute [of _ 128] high_bit)

lemma read_arcs_component: "read_arcs 0 (oid_component c @ bs) = map_option ((#) c) (read_arcs 0 bs)"
proof (cases "c < 128")
  case False
  let ?xs = "base128 c"
  have ne: "?xs \<noteq> []" using False by (simp add: base128.simps [of c])
  then have split: "butlast ?xs @ [last ?xs] = ?xs" by simp
  have "\<forall>x\<in>set (butlast ?xs @ [last ?xs]). x < 128" "foldl (\<lambda>a x. a * 128 + x) 0 (butlast ?xs @ [last ?xs]) = c"
    unfolding split using base128_digits [of c] base128_value [of c] by simp_all
  then show ?thesis using False read_arcs_continued [of "butlast ?xs" 0] by (simp add: oid_component_def Let_def)
qed (simp add: oid_component_def)

lemma read_arcs_components: "read_arcs 0 (concat (map oid_component cs)) = Some cs"
  by (induction cs) (simp_all add: read_arcs_component)

text \<open>For identifiers below the arc 2, with the second arc in the first byte.\<close>

lemma read_oid_body:
  assumes "oid = 2 # b # cs" "b < 176"
  shows "read_oid (byte_of (oid ! 0 * 40 + oid ! 1) # concat (map oid_component (drop 2 oid))) = Some oid"
  using assms by (simp add: read_oid_def read_arcs_components)

lemma oid_body_length: "map_of ALGORITHM_OIDS alg = Some oid \<Longrightarrow> length (concat (map oid_component (drop 2 oid))) = 8"
  by (auto simp: ALGORITHM_OIDS_def oid_component_def base128.simps split: if_splits)

section \<open>Keys read back\<close>

lemma sizes: "map_of RAW_PUBLIC_KEY_SIZES alg = Some n \<Longrightarrow> 800 \<le> n \<and> n \<le> 2592 \<and> (\<exists>cs. map_of ALGORITHM_OIDS alg = Some (2 # 16 # cs))"
  by (auto simp: RAW_PUBLIC_KEY_SIZES_def ALGORITHM_OIDS_def split: if_splits)

lemma encodable_iff: "is_ok (der_from_raw_public_key raw alg) \<longleftrightarrow> map_of RAW_PUBLIC_KEY_SIZES alg = Some (length raw)"
  using sizes [of alg "length raw"] by (auto simp: der_from_raw_public_key_def require_def split: option.splits)

lemma der_length_two:
  assumes "256 \<le> n" "n < 65536"
  shows "length (der_length n) = 3"
proof -
  have "nat_bytes n = [byte_of (n div 256), byte_of (n mod 256)]"
    using assms by (simp add: nat_bytes.simps [of n] nat_bytes.simps [of "n div 256"] div_less_mono)
  with assms show ?thesis by (simp add: der_length_def)
qed

lemma read_spki_parts:
  "\<lbrakk>read_tlv 48 der = Some (c, []); read_tlv 48 c = Some (a, r); read_tlv 6 a = Some (body, []);
    read_tlv 3 r = Some (0 # key, []); read_oid body = Some arcs\<rbrakk> \<Longrightarrow> read_spki der = Some (arcs, key)"
  by (simp add: read_spki_def)

lemma short_sequence: "length c < 128 \<Longrightarrow> length (der_sequence c) = length c + 2"
  by (simp add: der_sequence_def der_length_def)

text \<open>
  \<^bold>\<open>C38\<close>. Public keys cross the two backends unchanged. A key can be encoded exactly if the algorithm is
  known and it has the algorithm's size, every other failure being \<^verbatim>\<open>BackendError\<close>; the encoding is the
  key behind a header of 22 bytes, a conforming reader finds in it the object identifier of the
  algorithm and the very key, and so does \<^verbatim>\<open>raw_public_key_from_der\<close>.
\<close>

theorem spki_roundtrip:
  "(is_ok (der_from_raw_public_key raw alg) \<longleftrightarrow> map_of RAW_PUBLIC_KEY_SIZES alg = Some (length raw))
   \<and> (\<forall>e. der_from_raw_public_key raw alg = Inl e \<longrightarrow> e = BackendError)
   \<and> (\<forall>der. der_from_raw_public_key raw alg = Inr der \<longrightarrow>
        raw_public_key_from_der der alg = Inr raw \<and> length der = length raw + 22
        \<and> (\<exists>oid. map_of ALGORITHM_OIDS alg = Some oid \<and> read_spki der = Some (oid, raw)))"
proof (cases "map_of RAW_PUBLIC_KEY_SIZES alg = Some (length raw)")
  case False
  then show ?thesis by (auto simp: der_from_raw_public_key_def require_def split: option.splits)
next
  case True
  note n = sizes [OF True]
  then obtain cs where oid: "map_of ALGORITHM_OIDS alg = Some (2 # 16 # cs)" by blast
  let ?body = "byte_of 96 # concat (map oid_component cs)"
  let ?oid = "6 # der_length (length ?body) @ ?body" and ?bits = "3 # der_length (length (0 # raw)) @ 0 # raw"
  define der where "der = der_sequence (der_sequence ?oid @ ?bits)"
  have enc: "der_from_raw_public_key raw alg = Inr der"
    using True oid by (simp add: der_from_raw_public_key_def require_def der_def der_object_identifier_def der_bit_string_def Let_def)
  have body: "length ?body = 9" using oid_body_length [OF oid] by simp
  then have lo: "length ?oid = 11" by (simp add: der_length_def)
  have lb: "length ?bits = length raw + 5" using der_length_two [of "length (0 # raw)"] n by simp
  have ls: "length (der_sequence ?oid) = 13" using short_sequence [of ?oid] lo by simp
  have len: "length der = length raw + 22"
    using ls lb n der_length_two [of "length (der_sequence ?oid @ ?bits)"] unfolding der_def by (simp add: der_sequence_def [of "_ @ _"])
  have big: "m \<le> 3000 \<Longrightarrow> m < 256 ^ 100" for m :: nat
    using power_increasing [of 2 100 "256 :: nat"] by simp
  have outer: "read_tlv 48 der = Some (der_sequence ?oid @ ?bits, [])"
    using read_tlv_der [of "der_sequence ?oid @ ?bits" 48 "[]"] big ls lb n by (simp add: der_def der_sequence_def [of "_ @ _"])
  have inner: "read_tlv 48 (der_sequence ?oid @ ?bits) = Some (?oid, ?bits)"
    using read_tlv_der [of ?oid 48 ?bits] big lo by (simp add: der_sequence_def)
  have parts: "read_tlv 6 ?oid = Some (?body, [])" "read_tlv 3 ?bits = Some (0 # raw, [])"
    using read_tlv_der [of ?body 6 "[]"] read_tlv_der [of "0 # raw" 3 "[]"] big body n by simp_all
  have "read_spki der = Some (2 # 16 # cs, raw)"
    using read_oid_body [of "2 # 16 # cs" 16 cs] by (intro read_spki_parts [OF outer inner parts]) simp
  moreover have "drop (length der - length raw) der = raw"
  proof -
    have "der = (48 # der_length (length (der_sequence ?oid @ ?bits)) @ der_sequence ?oid @ 3 # der_length (length (0 # raw)) @ [0]) @ raw"
      by (simp add: der_def der_sequence_def [of "_ @ _"])
    then obtain p where "der = p @ raw" by blast
    then show ?thesis by simp
  qed
  ultimately show ?thesis using enc True oid len by (simp add: raw_public_key_from_der_def require_def)
qed

theorem spki_roundtrip_witness:
  "\<exists>der. der_from_raw_public_key (replicate 1312 7) (lit ''ML-DSA-44'') = Inr der
     \<and> read_spki der = Some ([2, 16, 840, 1, 101, 3, 4, 3, 17], replicate 1312 7)"
proof -
  let ?raw = "replicate 1312 (7 :: byte)" and ?alg = "lit ''ML-DSA-44''"
  note x = spki_roundtrip [of ?raw ?alg]
  have "map_of RAW_PUBLIC_KEY_SIZES ?alg = Some (length ?raw)"
    and oid: "map_of ALGORITHM_OIDS ?alg = Some [2, 16, 840, 1, 101, 3, 4, 3, 17]"
    by (simp_all add: RAW_PUBLIC_KEY_SIZES_def ALGORITHM_OIDS_def)
  with x obtain der where "der_from_raw_public_key ?raw ?alg = Inr der" by (auto simp: is_ok_iff)
  with x oid show ?thesis by auto
qed

end
