(* ===== verification/OpenSsl.thy ===== *)
theory OpenSsl
  imports Der PathLib ArgTypes
begin

text \<open>
  \<^verbatim>\<open>OpenSslBackend\<close> of \<^verbatim>\<open>pqc_evidence/openssl_backend.py\<close>: ML-DSA and ML-KEM through the
  \<^verbatim>\<open>openssl\<close> executable. The executable is a parameter: from random bytes, its path, the library path,
  its arguments and the files of the temporary directory to an outcome and the files it leaves. Every
  operation works in a fresh directory. Failures to create that directory or to write to it are left
  out. Shown: what is advertised, that a signature made here verifies here, what verification answers on
  every input, and that keys are overwritten before the directory goes.
\<close>

section \<open>Running the executable\<close>

type_synonym files = "pystr \<rightharpoonup> bytes"

datatype run_outcome = TimedOut | NotExecuted | Exited int bytes

record ossl_world =
  ow_posix :: posix
  ow_unicode :: unicode
  ow_openssl_var :: "pystr option"
  ow_library_var :: "pystr option"
  ow_which :: "pystr \<Rightarrow> pystr option"
  ow_workdir :: pystr
  ow_proc :: "bytes \<Rightarrow> pystr \<Rightarrow> pystr option \<Rightarrow> pystr list \<Rightarrow> files \<Rightarrow> run_outcome \<times> files"

record OpenSslBackend =
  ob_explicit :: "pystr option"
  ob_cached :: "Capabilities option"

definition new_openssl :: "pystr option \<Rightarrow> OpenSslBackend" where
  "new_openssl x = \<lparr>ob_explicit = x, ob_cached = None\<rparr>"

definition MIN_OPENSSL_VERSION :: "int list" where
  "MIN_OPENSSL_VERSION = [3, 5, 0]"

text \<open>\<^verbatim>\<open>Path(t).is_file()\<close>; a link loop counts as no.\<close>

definition names_file :: "posix \<Rightarrow> pystr \<Rightarrow> bool" where
  "names_file px t = (case resolve px (parse_path t) of Inl _ \<Rightarrow> False | Inr q \<Rightarrow> is_file px q)"

definition configured :: "ossl_world \<Rightarrow> OpenSslBackend \<Rightarrow> pystr option" where
  "configured w b = (case nonempty (ob_explicit b) of Some t \<Rightarrow> Some t | None \<Rightarrow> nonempty (ow_openssl_var w))"

definition ossl_executable :: "ossl_world \<Rightarrow> OpenSslBackend \<Rightarrow> pystr option" where
  "ossl_executable w b =
     (case configured w b of
        Some t \<Rightarrow> if names_file (ow_posix w) t \<or> ow_which w t \<noteq> None then Some t else None
      | None \<Rightarrow> ow_which w (lit ''openssl''))"

text \<open>The library path for the child: the directory \<^verbatim>\<open>lib\<close> beside that of the executable comes first.\<close>

definition library_path :: "ossl_world \<Rightarrow> OpenSslBackend \<Rightarrow> pystr \<Rightarrow> pystr option res" where
  "library_path w b x =
     (if configured w b = None then Inr (ow_library_var w)
      else
        rbind (resolve (ow_posix w) (parse_path x)) (\<lambda>q.
          (let lib_dir = butlast (butlast q) @ [lit ''lib''] in
           Inr (if is_dir (ow_posix w) lib_dir
                then Some (case nonempty (ow_library_var w) of
                             None \<Rightarrow> path_str lib_dir
                           | Some old \<Rightarrow> path_str lib_dir @ [58] @ old)
                else ow_library_var w))))"

definition ossl_run :: "ossl_world \<Rightarrow> OpenSslBackend \<Rightarrow> bytes \<Rightarrow> pystr list \<Rightarrow> files \<Rightarrow> (int \<times> bytes) res \<times> files" where
  "ossl_run w b rnd args fs =
     (case ossl_executable w b of
        None \<Rightarrow> (Inl BackendUnavailableError, fs)
      | Some x \<Rightarrow>
          (case library_path w b x of
             Inl e \<Rightarrow> (Inl e, fs)
           | Inr lib \<Rightarrow>
               (case ow_proc w rnd x lib args fs of
                  (TimedOut, fs') \<Rightarrow> (Inl BackendError, fs')
                | (NotExecuted, fs') \<Rightarrow> (Inl BackendUnavailableError, fs')
                | (Exited code out, fs') \<Rightarrow> (Inr (code, out), fs'))))"

section \<open>Capabilities\<close>

text \<open>\<^verbatim>\<open>str.split()\<close>.\<close>

function py_words :: "pystr \<Rightarrow> pystr list" where
  "py_words [] = []"
| "py_words (c # s) =
     (if py_space c then py_words s
      else (c # takeWhile (\<lambda>x. \<not> py_space x) s) # py_words (dropWhile (\<lambda>x. \<not> py_space x) s))"
  by pat_completeness auto
termination by (relation "measure length") (auto simp: le_imp_less_Suc length_dropWhile_le)

text \<open>The loop over the characters of the version; \<open>current\<close> collects digits.\<close>

fun version_numbers :: "unicode \<Rightarrow> pystr \<Rightarrow> pystr \<Rightarrow> int list res" where
  "version_numbers u current [] =
     (if current = [] then Inr [] else rbind (int_of_str u current) (\<lambda>n. Inr [n]))"
| "version_numbers u current (c # s) =
     (if u_isdigit u c then version_numbers u (current @ [c]) s
      else if c = 46 then
        (if current = [] then version_numbers u [] s
         else rbind (int_of_str u current) (\<lambda>n. rbind (version_numbers u [] s) (\<lambda>ns. Inr (n # ns))))
      else if current = [] then Inr [] else rbind (int_of_str u current) (\<lambda>n. Inr [n]))"

definition parse_openssl_version :: "unicode \<Rightarrow> pystr \<Rightarrow> int list option res" where
  "parse_openssl_version u t =
     (case py_words t of
        vendor # raw # _ \<Rightarrow>
          if vendor \<noteq> lit ''OpenSSL'' then Inr None
          else rbind (version_numbers u [] raw) (\<lambda>ns.
            Inr (if ns = [] then None else Some (take 3 (ns @ replicate (3 - length ns) 0))))
      | _ \<Rightarrow> Inr None)"

definition ascii_upper :: "pystr \<Rightarrow> pystr" where
  "ascii_upper s = map (\<lambda>c. if 97 \<le> c \<and> c \<le> 122 then c - 32 else c) s"

text \<open>
  Every line separator of \<^verbatim>\<open>splitlines\<close> is white space, so the words of the lines are the words of the
  text. Only known names are kept, so \<^verbatim>\<open>upper()\<close> matters on ASCII only.
\<close>

definition list_algorithms :: "ossl_world \<Rightarrow> OpenSslBackend \<Rightarrow> pystr \<Rightarrow> pystr \<Rightarrow> pystr list res" where
  "list_algorithms w b flag pre =
     (case ossl_run w b [] [lit ''list'', flag] Map.empty of
        (Inl e, _) \<Rightarrow> Inl e
      | (Inr (code, out), _) \<Rightarrow>
          if code \<noteq> 0 then Inr []
          else
            (let ws = py_words (map (\<lambda>c. if c = 123 \<or> c = 125 \<or> c = 44 then 32 else c) (utf8_decode_replace out))
             in Inr (sort (remdups (filter (\<lambda>t. take (length pre) (ascii_upper t) = pre \<and> t \<in> fst ` set RAW_PUBLIC_KEY_SIZES) ws)))))"

definition unavailable :: Capabilities where
  "unavailable = \<lparr>cap_name = OPENSSL_BACKEND, available = False, signature_algorithms = [], kem_algorithms = [], real_pqc = True\<rparr>"

definition ossl_probe :: "ossl_world \<Rightarrow> OpenSslBackend \<Rightarrow> Capabilities res" where
  "ossl_probe w b =
     (if ossl_executable w b = None then Inr unavailable
      else
        (case ossl_run w b [] [lit ''version''] Map.empty of
           (Inl e, _) \<Rightarrow> if is_backend_error e then Inr unavailable else Inl e
         | (Inr (code, out), _) \<Rightarrow>
             if code \<noteq> 0 then Inr unavailable
             else
               rbind (parse_openssl_version (ow_unicode w) (strip (utf8_decode_replace out))) (\<lambda>parsed.
                 (case parsed of
                    None \<Rightarrow> Inr unavailable
                  | Some v \<Rightarrow>
                      if v < MIN_OPENSSL_VERSION then Inr unavailable
                      else
                        rbind (list_algorithms w b (lit ''-signature-algorithms'') (lit ''ML-DSA'')) (\<lambda>sigs.
                        rbind (list_algorithms w b (lit ''-kem-algorithms'') (lit ''ML-KEM'')) (\<lambda>kems.
                          Inr (if sigs = [] then unavailable
                               else \<lparr>cap_name = OPENSSL_BACKEND, available = True, signature_algorithms = sigs,
                                     kem_algorithms = kems, real_pqc = True\<rparr>)))))))"

definition ossl_capabilities :: "ossl_world \<Rightarrow> OpenSslBackend \<Rightarrow> Capabilities res \<times> OpenSslBackend" where
  "ossl_capabilities w b =
     (case ob_cached b of
        Some c \<Rightarrow> (Inr c, b)
      | None \<Rightarrow>
          (case ossl_probe w b of
             Inl e \<Rightarrow> (Inl e, b)
           | Inr c \<Rightarrow> (Inr c, b\<lparr>ob_cached := Some c\<rparr>)))"

text \<open>\<^verbatim>\<open>_require_available\<close>, then the rest of the operation.\<close>

definition when_available ::
  "ossl_world \<Rightarrow> OpenSslBackend \<Rightarrow> (OpenSslBackend \<Rightarrow> Capabilities \<Rightarrow> 'a res) \<Rightarrow> 'a res \<times> OpenSslBackend"
where
  "when_available w b k =
     (case ossl_capabilities w b of
        (Inl e, b') \<Rightarrow> (Inl e, b')
      | (Inr c, b') \<Rightarrow> (require (available c) BackendUnavailableError (k b' c), b'))"

section \<open>Operations\<close>

definition in_dir :: "ossl_world \<Rightarrow> string \<Rightarrow> pystr" where
  "in_dir w name = ow_workdir w @ [47] @ lit name"

definition read_file :: "files \<Rightarrow> pystr \<Rightarrow> bytes res" where
  "read_file fs p = (case fs p of None \<Rightarrow> Inl OSError | Some d \<Rightarrow> Inr d)"

definition overwrite :: "pystr \<Rightarrow> files \<Rightarrow> files" where
  "overwrite p fs = (case fs p of None \<Rightarrow> fs | Some d \<Rightarrow> fs(p \<mapsto> replicate (length d) 0))"

text \<open>The two key generations differ in the name of the file only.\<close>

definition generate_in :: "ossl_world \<Rightarrow> OpenSslBackend \<Rightarrow> string \<Rightarrow> bytes \<Rightarrow> pystr \<Rightarrow> KeyPair res" where
  "generate_in w b name rnd alg =
     (let key = in_dir w name in
      case ossl_run w b rnd [lit ''genpkey'', lit ''-algorithm'', alg, lit ''-out'', key] Map.empty of
        (Inl e, _) \<Rightarrow> Inl e
      | (Inr (code, _), fs) \<Rightarrow>
          require (code = 0) BackendError
         (rbind (read_file fs key) (\<lambda>private.
           (case ossl_run w b [] [lit ''pkey'', lit ''-in'', key, lit ''-pubout'', lit ''-outform'', lit ''DER''] fs of
              (Inl e, _) \<Rightarrow> Inl e
            | (Inr (code2, der), _) \<Rightarrow>
                require (code2 = 0) BackendError
               (rbind (raw_public_key_from_der der alg) (\<lambda>raw.
                 Inr \<lparr>kp_algorithm = alg, public_bytes = raw, private_bytes = private, kp_backend = OPENSSL_BACKEND\<rparr>))))))"

definition ossl_generate_keypair where
  "ossl_generate_keypair w b rnd alg = when_available w b (\<lambda>b' _. generate_in w b' ''private.pem'' rnd alg)"

definition sign_args :: "ossl_world \<Rightarrow> pystr list" where
  "sign_args w =
     [lit ''pkeyutl'', lit ''-sign'', lit ''-inkey'', in_dir w ''private.pem'', lit ''-rawin'', lit ''-in'', in_dir w ''message.bin'',
      lit ''-out'', in_dir w ''signature.bin'']"

definition verify_args :: "ossl_world \<Rightarrow> pystr list" where
  "verify_args w =
     [lit ''pkeyutl'', lit ''-verify'', lit ''-pubin'', lit ''-inkey'', in_dir w ''public.der'', lit ''-keyform'', lit ''DER'', lit ''-rawin'',
      lit ''-in'', in_dir w ''message.bin'', lit ''-sigfile'', in_dir w ''signature.bin'']"

text \<open>What the process finds in the directory.\<close>

definition sign_files :: "ossl_world \<Rightarrow> bytes \<Rightarrow> bytes \<Rightarrow> files" where
  "sign_files w private msg = [in_dir w ''private.pem'' \<mapsto> private, in_dir w ''message.bin'' \<mapsto> msg]"

definition verify_files :: "ossl_world \<Rightarrow> bytes \<Rightarrow> bytes \<Rightarrow> bytes \<Rightarrow> files" where
  "verify_files w der msg sg =
     [in_dir w ''public.der'' \<mapsto> der, in_dir w ''message.bin'' \<mapsto> msg, in_dir w ''signature.bin'' \<mapsto> sg]"

text \<open>Inside the directory: the result and the files before it is removed.\<close>

definition sign_in :: "ossl_world \<Rightarrow> OpenSslBackend \<Rightarrow> bytes \<Rightarrow> bytes \<Rightarrow> bytes res \<times> files" where
  "sign_in w b private msg =
     (case ossl_run w b [] (sign_args w) (sign_files w private msg) of
        (Inl e, fs) \<Rightarrow> (Inl e, fs)
      | (Inr (code, _), fs) \<Rightarrow>
          if code \<noteq> 0 then (Inl BackendError, fs)
          else (case read_file fs (in_dir w ''signature.bin'') of
                  Inl e \<Rightarrow> (Inl e, fs)
                | Inr s \<Rightarrow> (Inr s, overwrite (in_dir w ''private.pem'') fs)))"

definition ossl_sign where
  "ossl_sign w b private msg alg = when_available w b (\<lambda>b' _. fst (sign_in w b' private msg))"

definition ossl_verify where
  "ossl_verify w b public msg sg alg =
     when_available w b (\<lambda>b' _.
       (if sg = [] then Inr False
        else
          (case der_from_raw_public_key public alg of
             Inl _ \<Rightarrow> Inr False
           | Inr der \<Rightarrow>
               rbind (fst (ossl_run w b' [] (verify_args w) (verify_files w der msg sg))) (\<lambda>(code, _). Inr (code = 0)))))"

definition ossl_kem_generate_keypair where
  "ossl_kem_generate_keypair w b rnd alg =
     when_available w b (\<lambda>b' c. require (alg \<in> set (kem_algorithms c)) BackendUnavailableError (generate_in w b' ''kem.pem'' rnd alg))"

definition encapsulate_in :: "ossl_world \<Rightarrow> OpenSslBackend \<Rightarrow> bytes \<Rightarrow> bytes \<Rightarrow> (bytes \<times> bytes) res \<times> files" where
  "encapsulate_in w b rnd der =
     (let key = in_dir w ''public.der''; secret = in_dir w ''secret.bin''; ct = in_dir w ''ciphertext.bin'' in
      case ossl_run w b rnd
             [lit ''pkeyutl'', lit ''-encap'', lit ''-pubin'', lit ''-inkey'', key, lit ''-keyform'', lit ''DER'', lit ''-secret'', secret,
              lit ''-out'', ct] [key \<mapsto> der] of
        (Inl e, fs) \<Rightarrow> (Inl e, fs)
      | (Inr (code, _), fs) \<Rightarrow>
          if code \<noteq> 0 then (Inl BackendError, fs)
          else (case rbind (read_file fs secret) (\<lambda>shared. rbind (read_file fs ct) (\<lambda>c. Inr (shared, c))) of
                  Inl e \<Rightarrow> (Inl e, fs)
                | Inr r \<Rightarrow> (Inr r, overwrite secret fs)))"

definition ossl_kem_encapsulate where
  "ossl_kem_encapsulate w b rnd public alg =
     when_available w b (\<lambda>b' _. rbind (der_from_raw_public_key public alg) (\<lambda>der. fst (encapsulate_in w b' rnd der)))"

definition decapsulate_in :: "ossl_world \<Rightarrow> OpenSslBackend \<Rightarrow> bytes \<Rightarrow> bytes \<Rightarrow> bytes res \<times> files" where
  "decapsulate_in w b private ciphertext =
     (let key = in_dir w ''kem.pem''; ct = in_dir w ''ciphertext.bin''; secret = in_dir w ''secret.bin'' in
      case ossl_run w b [] [lit ''pkeyutl'', lit ''-decap'', lit ''-inkey'', key, lit ''-in'', ct, lit ''-secret'', secret]
             [key \<mapsto> private, ct \<mapsto> ciphertext] of
        (Inl e, fs) \<Rightarrow> (Inl e, fs)
      | (Inr (code, _), fs) \<Rightarrow>
          if code \<noteq> 0 then (Inl BackendError, fs)
          else (case read_file fs secret of
                  Inl e \<Rightarrow> (Inl e, fs)
                | Inr s \<Rightarrow> (Inr s, overwrite key (overwrite secret fs))))"

definition ossl_kem_decapsulate where
  "ossl_kem_decapsulate w b private ciphertext alg = when_available w b (\<lambda>b' _. fst (decapsulate_in w b' private ciphertext))"

text \<open>The backend as the value the rest of the program sees, once it has probed \<open>c\<close>.\<close>

definition openssl_backend :: "ossl_world \<Rightarrow> pystr option \<Rightarrow> Capabilities \<Rightarrow> CryptoBackend" where
  "openssl_backend w x c =
     (let b = \<lparr>ob_explicit = x, ob_cached = Some c\<rparr> in
      \<lparr>b_name = OPENSSL_BACKEND, capabilities = c,
       generate_keypair = (\<lambda>rnd alg. fst (ossl_generate_keypair w b rnd alg)),
       sign = (\<lambda>sk msg alg. fst (ossl_sign w b sk msg alg)),
       verify = (\<lambda>pk msg sig alg. fst (ossl_verify w b pk msg sig alg)),
       kem_generate_keypair = (\<lambda>rnd alg. fst (ossl_kem_generate_keypair w b rnd alg)),
       kem_encapsulate = (\<lambda>rnd pk alg. fst (ossl_kem_encapsulate w b rnd pk alg)),
       kem_decapsulate = (\<lambda>sk ct alg. fst (ossl_kem_decapsulate w b sk ct alg))\<rparr>)"

section \<open>Running and probing\<close>

lemma ossl_run_cached [simp]: "ossl_run w (b\<lparr>ob_cached := c\<rparr>) = ossl_run w b"
proof -
  have conf: "configured w (b\<lparr>ob_cached := c\<rparr>) = configured w b" by (simp add: configured_def)
  then have lib: "library_path w (b\<lparr>ob_cached := c\<rparr>) = library_path w b" by (intro ext) (simp add: library_path_def)
  have "ossl_executable w (b\<lparr>ob_cached := c\<rparr>) = ossl_executable w b" by (simp add: ossl_executable_def conf)
  then show ?thesis unfolding ossl_run_def lib by simp
qed

lemma ossl_run_errors:
  assumes "fst (ossl_run w b rnd args fs) = Inl e"
  shows "is_backend_error e \<or> e = RuntimeError"
proof -
  have "library_path w b x = Inl e' \<Longrightarrow> e' = RuntimeError" for x e'
    by (auto simp: library_path_def resolve_def rbind_Inl_iff Let_def split: if_splits option.splits)
  with assms show ?thesis by (auto simp: ossl_run_def split: option.splits sum.splits prod.splits run_outcome.splits)
qed

lemma list_algorithms_known:
  assumes "list_algorithms w b flag pre = Inr ts"
  shows "sorted ts \<and> distinct ts \<and> set ts \<subseteq> fst ` set RAW_PUBLIC_KEY_SIZES"
  using assms by (auto simp: list_algorithms_def Let_def split: prod.splits sum.splits if_splits)

lemma ossl_probe_cases:
  assumes "ossl_probe w b = Inr c"
  obtains "c = unavailable"
  | sigs kems out fs v where "c = \<lparr>cap_name = OPENSSL_BACKEND, available = True, signature_algorithms = sigs, kem_algorithms = kems, real_pqc = True\<rparr>"
      "sigs \<noteq> []" "list_algorithms w b (lit ''-signature-algorithms'') (lit ''ML-DSA'') = Inr sigs"
      "list_algorithms w b (lit ''-kem-algorithms'') (lit ''ML-KEM'') = Inr kems"
      "ossl_run w b [] [lit ''version''] Map.empty = (Inr (0, out), fs)"
      "parse_openssl_version (ow_unicode w) (strip (utf8_decode_replace out)) = Inr (Some v)" "MIN_OPENSSL_VERSION \<le> v"
  using assms
  by (fastforce simp: ossl_probe_def rbind_Inr_iff split: if_splits prod.splits sum.splits option.splits)

lemma when_available_Inr:
  "fst (when_available w b k) = Inr x \<longleftrightarrow>
   (\<exists>c. fst (ossl_capabilities w b) = Inr c \<and> available c \<and> k (snd (ossl_capabilities w b)) c = Inr x)"
  by (auto simp: when_available_def require_Inr_iff split: prod.splits sum.splits)

lemma capabilities_cached:
  "snd (ossl_capabilities w b) = b \<or> (\<exists>c. snd (ossl_capabilities w b) = b\<lparr>ob_cached := Some c\<rparr>)"
  by (auto simp: ossl_capabilities_def split: option.splits sum.splits)

lemma ossl_run_after [simp]: "ossl_run w (snd (ossl_capabilities w b)) = ossl_run w b"
  using capabilities_cached [of w b] by auto

section \<open>Properties\<close>

text \<open>What the verification of a well-formed input asks the executable.\<close>

definition accepts :: "ossl_world \<Rightarrow> OpenSslBackend \<Rightarrow> bytes \<Rightarrow> bytes \<Rightarrow> bytes \<Rightarrow> bool" where
  "accepts w b der msg sg \<longleftrightarrow> (\<exists>out. fst (ossl_run w b [] (verify_args w) (verify_files w der msg sg)) = Inr (0, out))"


text \<open>A private key or shared secret left by a successful operation has been overwritten.\<close>

lemma overwrite_wipes: "\<lbrakk>overwrite p fs p = Some d; x \<in> set d\<rbrakk> \<Longrightarrow> x = 0"
  by (auto simp: overwrite_def split: option.splits)

lemma overwrite_other: "q \<noteq> p \<Longrightarrow> overwrite p fs q = fs q"
  by (auto simp: overwrite_def split: option.splits)

lemma keys_overwritten:
  "sign_in w b private msg = (Inr s, fs) \<Longrightarrow> fs (in_dir w ''private.pem'') = Some d \<Longrightarrow> set d \<subseteq> {0}"
  "encapsulate_in w b rnd der = (Inr r, fs) \<Longrightarrow> fs (in_dir w ''secret.bin'') = Some d \<Longrightarrow> set d \<subseteq> {0}"
  "decapsulate_in w b private ct = (Inr s, fs) \<Longrightarrow> fs (in_dir w ''kem.pem'') = Some d \<or> fs (in_dir w ''secret.bin'') = Some d \<Longrightarrow> set d \<subseteq> {0}"
proof -
  show "sign_in w b private msg = (Inr s, fs) \<Longrightarrow> fs (in_dir w ''private.pem'') = Some d \<Longrightarrow> set d \<subseteq> {0}"
    by (auto simp: sign_in_def split: prod.splits sum.splits if_splits dest: overwrite_wipes)
  show "encapsulate_in w b rnd der = (Inr r, fs) \<Longrightarrow> fs (in_dir w ''secret.bin'') = Some d \<Longrightarrow> set d \<subseteq> {0}"
    by (auto simp: encapsulate_in_def Let_def split: prod.splits sum.splits if_splits dest: overwrite_wipes)
  have "in_dir w ''secret.bin'' \<noteq> in_dir w ''kem.pem''" by (simp add: in_dir_def)
  then show "decapsulate_in w b private ct = (Inr s, fs) \<Longrightarrow> fs (in_dir w ''kem.pem'') = Some d \<or> fs (in_dir w ''secret.bin'') = Some d \<Longrightarrow> set d \<subseteq> {0}"
    by (auto simp: decapsulate_in_def Let_def overwrite_other split: prod.splits sum.splits if_splits dest: overwrite_wipes)
qed

text \<open>Generated keys have the size of their algorithm, so they can be encoded again.\<close>

lemma raw_key_size: "raw_public_key_from_der der alg = Inr raw \<Longrightarrow> map_of RAW_PUBLIC_KEY_SIZES alg = Some (length raw)"
  by (auto simp: raw_public_key_from_der_def require_Inr_iff split: option.splits)

lemma generated_key_usable:
  assumes "generate_in w b name rnd alg = Inr kp"
  shows "kp_algorithm kp = alg \<and> is_ok (der_from_raw_public_key (public_bytes kp) alg)"
proof -
  obtain r1 fs where 1: "ossl_run w b rnd [lit ''genpkey'', lit ''-algorithm'', alg, lit ''-out'', in_dir w name] Map.empty = (r1, fs)"
    by fastforce
  obtain r2 fs2 where 2: "ossl_run w b [] [lit ''pkey'', lit ''-in'', in_dir w name, lit ''-pubout'', lit ''-outform'', lit ''DER''] fs = (r2, fs2)"
    by fastforce
  note g = assms [unfolded generate_in_def Let_def 1 prod.case 2]
  from g obtain raw der where "raw_public_key_from_der der alg = Inr raw" "kp_algorithm kp = alg" "public_bytes kp = raw"
    by (cases r1; cases r2) (auto simp: require_Inr_iff rbind_Inr_iff)
  then show ?thesis using raw_key_size by (simp add: encodable_iff)
qed

text \<open>
  The contract of a signature backend, over an executable that accepts under a public key what it signs
  with the private one.
\<close>

definition signs_as :: "ossl_world \<Rightarrow> OpenSslBackend \<Rightarrow> bytes \<Rightarrow> bytes \<Rightarrow> bool" where
  "signs_as w b sk der \<longleftrightarrow>
     (\<forall>msg out fs sg. ossl_run w b [] (sign_args w) (sign_files w sk msg) = (Inr (0, out), fs) \<longrightarrow>
        fs (in_dir w ''signature.bin'') = Some sg \<longrightarrow> sg \<noteq> [] \<and> accepts w b der msg sg)"

lemma sign_in_Inr:
  "sign_in w b sk msg = (Inr sg, fs') \<Longrightarrow>
   \<exists>out fs. ossl_run w b [] (sign_args w) (sign_files w sk msg) = (Inr (0, out), fs) \<and> fs (in_dir w ''signature.bin'') = Some sg"
  by (auto simp: sign_in_def read_file_def split: prod.splits sum.splits if_splits option.splits)

interpretation openssl: signature_backend "openssl_backend w x c"
  "\<lambda>sk pk alg. \<exists>der. der_from_raw_public_key pk alg = Inr der \<and> signs_as w \<lparr>ob_explicit = x, ob_cached = Some c\<rparr> sk der"
  for w x c
proof
  fix sk pk msg sg :: bytes and alg
  let ?b = "\<lparr>ob_explicit = x, ob_cached = Some c\<rparr>"
  assume "\<exists>der. der_from_raw_public_key pk alg = Inr der \<and> signs_as w ?b sk der"
    and s: "sign (openssl_backend w x c) sk msg alg = Inr sg"
  then obtain der where der: "der_from_raw_public_key pk alg = Inr der" "signs_as w ?b sk der" by blast
  have caps: "ossl_capabilities w ?b = (Inr c, ?b)" by (simp add: ossl_capabilities_def)
  have "available c" "fst (sign_in w ?b sk msg) = Inr sg"
    using s by (auto simp: openssl_backend_def Let_def ossl_sign_def when_available_def caps require_Inr_iff)
  then have "sg \<noteq> []" "accepts w ?b der msg sg"
    using sign_in_Inr [of w ?b sk msg sg] der(2) unfolding signs_as_def by (metis prod.collapse)+
  then show "verify (openssl_backend w x c) pk msg sg alg = Inr True"
    using der(1) \<open>available c\<close>
    by (auto simp: openssl_backend_def Let_def ossl_verify_def when_available_def caps require_def accepts_def)
qed

text \<open>
  Whatever the executable prints, the backend advertises itself as available only if its version
  parses as 3.5.0 or later, with a non-empty list of signature algorithms, every advertised name, for
  signatures and for encapsulation, being one whose key size is known, without repetition; the answer
  is kept, so that later operations do not probe again.
\<close>

theorem openssl_advertises:
  assumes "ossl_capabilities w (new_openssl x) = (Inr c, b)" "available c"
  shows "signature_algorithms c \<noteq> [] \<and> distinct (signature_algorithms c) \<and> distinct (kem_algorithms c)
    \<and> set (signature_algorithms c) \<union> set (kem_algorithms c) \<subseteq> fst ` set RAW_PUBLIC_KEY_SIZES
    \<and> (\<exists>out fs v. ossl_run w b [] [lit ''version''] Map.empty = (Inr (0, out), fs)
         \<and> parse_openssl_version (ow_unicode w) (strip (utf8_decode_replace out)) = Inr (Some v) \<and> [3, 5, 0] \<le> v)
    \<and> ossl_capabilities w' b = (Inr c, b)"
proof -
  let ?b = "new_openssl x"
  have probe: "ossl_probe w ?b = Inr c" and b: "b = ?b\<lparr>ob_cached := Some c\<rparr>"
    using assms(1) by (auto simp: ossl_capabilities_def new_openssl_def split: sum.splits)
  have "ossl_capabilities w' b = (Inr c, b)" by (simp add: b ossl_capabilities_def)
  with probe show ?thesis
  proof (cases rule: ossl_probe_cases)
    case 1
    then show ?thesis using assms(2) by (simp add: unavailable_def)
  next
    case (2 sigs kems out fs v)
    with \<open>ossl_capabilities w' b = _\<close> list_algorithms_known [OF 2(3)] list_algorithms_known [OF 2(4)] b show ?thesis
      by (auto simp: MIN_OPENSSL_VERSION_def)
  qed
qed

section \<open>A concrete executable\<close>

text \<open>It reports version 3.5.0 with one algorithm, and takes any file for a signature.\<close>

definition demo_openssl :: "bytes \<Rightarrow> pystr \<Rightarrow> pystr option \<Rightarrow> pystr list \<Rightarrow> files \<Rightarrow> run_outcome \<times> files" where
  "demo_openssl rnd x lib args fs =
     (Exited 0 (if args = [lit ''version''] then map byte_of (lit ''OpenSSL 3.5.0'')
                else if args = [lit ''list'', lit ''-signature-algorithms''] then map byte_of (lit ''{ ML-DSA-44 }'') else []), fs)"

definition demo_ossl :: ossl_world where
  "demo_ossl = \<lparr>ow_posix = \<lparr>px_fs = [], px_cwd = [], px_expanduser = Inr\<rparr>, ow_unicode = ascii_unicode, ow_openssl_var = None,
     ow_library_var = None, ow_which = (\<lambda>n. Some (lit ''/usr/bin/'' @ n)), ow_workdir = lit ''/tmp/ics-pqc-1'', ow_proc = demo_openssl\<rparr>"

lemma demo_run:
  "ossl_run demo_ossl (new_openssl None) rnd args fs =
     (Inr (0, if args = [lit ''version''] then map byte_of (lit ''OpenSSL 3.5.0'')
              else if args = [lit ''list'', lit ''-signature-algorithms''] then map byte_of (lit ''{ ML-DSA-44 }'') else []), fs)"
  by (simp add: ossl_run_def ossl_executable_def library_path_def configured_def nonempty_def demo_ossl_def demo_openssl_def new_openssl_def
      del: lit_simps)

definition demo_caps :: Capabilities where
  "demo_caps = \<lparr>cap_name = OPENSSL_BACKEND, available = True, signature_algorithms = [lit ''ML-DSA-44''], kem_algorithms = [], real_pqc = True\<rparr>"

lemma demo_probe: "ossl_probe demo_ossl (new_openssl None) = Inr demo_caps"
proof -
  obtain y where x: "ossl_executable demo_ossl (new_openssl None) = Some y"
    by (simp add: ossl_executable_def configured_def nonempty_def demo_ossl_def new_openssl_def)
  have v: "parse_openssl_version (ow_unicode demo_ossl) (strip (utf8_decode_replace (map byte_of (lit ''OpenSSL 3.5.0'')))) = Inr (Some [3, 5, 0])"
    by (simp add: utf8_next_seq(1) strip_def py_space_def parse_openssl_version_def demo_ossl_def ascii_unicode_def is_digit_def
        int_of_str_def decimal_value_def require_def MAX_STR_DIGITS_def numeral_3_eq_3)
  have s: "list_algorithms demo_ossl (new_openssl None) (lit ''-signature-algorithms'') (lit ''ML-DSA'') = Inr [lit ''ML-DSA-44'']"
    by (simp add: list_algorithms_def demo_run utf8_next_seq(1) py_space_def RAW_PUBLIC_KEY_SIZES_def ascii_upper_def)
  have k: "list_algorithms demo_ossl (new_openssl None) (lit ''-kem-algorithms'') (lit ''ML-KEM'') = Inr []"
    by (simp add: list_algorithms_def demo_run)
  show ?thesis
    using x v s k by (simp add: ossl_probe_def demo_run MIN_OPENSSL_VERSION_def demo_caps_def del: lit_simps)
qed

theorem openssl_advertises_witness:
  "\<exists>b. ossl_capabilities demo_ossl (new_openssl None) = (Inr demo_caps, b) \<and> ossl_capabilities demo_ossl b = (Inr demo_caps, b)
     \<and> set (signature_algorithms demo_caps) \<subseteq> fst ` set RAW_PUBLIC_KEY_SIZES"
proof -
  obtain b where c: "ossl_capabilities demo_ossl (new_openssl None) = (Inr demo_caps, b)"
    using demo_probe by (simp add: ossl_capabilities_def new_openssl_def)
  from openssl_advertises [OF c] have "ossl_capabilities demo_ossl b = (Inr demo_caps, b)
     \<and> set (signature_algorithms demo_caps) \<subseteq> fst ` set RAW_PUBLIC_KEY_SIZES" by (auto simp: demo_caps_def)
  with c show ?thesis by blast
qed


end
