(* ===== verification/ArchiveFormat.thy ===== *)
theory ArchiveFormat
  imports Collector StateStore
begin

text \<open>
  \<^verbatim>\<open>pqc_evidence/archive.py\<close>, the format of an encrypted archive: key derivation, the manifest
  and its validation, the trust report, the container and the streaming passes of encryption and
  decryption. AES-GCM (the \<^verbatim>\<open>cryptography\<close> package), HMAC, DEFLATE and the framing of ZIP are the
  fields of one record of parameters, \<open>archive_lib\<close>; a ZIP file is the list of its members. A file
  is read to its end in pieces of \<open>CHUNK_BYTES\<close>.
\<close>

definition ARCHIVE_FORMAT_VERSION :: pystr where "ARCHIVE_FORMAT_VERSION = lit ''2.0''"
definition KEM_ALGORITHM :: pystr where "KEM_ALGORITHM = lit ''ML-KEM-768''"
definition KDF_ALGORITHM :: pystr where "KDF_ALGORITHM = lit ''HKDF-SHA-256''"
definition AEAD_ALGORITHM :: pystr where "AEAD_ALGORITHM = lit ''AES-256-GCM''"
definition MANIFEST_ENTRY :: pystr where "MANIFEST_ENTRY = lit ''manifest.json''"
definition CIPHERTEXT_ENTRY :: pystr where "CIPHERTEXT_ENTRY = lit ''evidence.bin''"
definition EXPECTED_ENTRIES :: "pystr list" where "EXPECTED_ENTRIES = [MANIFEST_ENTRY, CIPHERTEXT_ENTRY]"
definition HKDF_INFO :: bytes where
  "HKDF_INFO = map byte_of (lit ''ics-deception/pqc-evidence/archive/v2'')"
definition CHUNK_BYTES :: nat where "CHUNK_BYTES = 1024 * 1024"
definition MAX_MANIFEST_BYTES :: nat where "MAX_MANIFEST_BYTES = 64 * 1024"
definition GCM_TAG_BYTES :: nat where "GCM_TAG_BYTES = 16"
definition GCM_NONCE_BYTES :: nat where "GCM_NONCE_BYTES = 12"
definition HKDF_SALT_BYTES :: nat where "HKDF_SALT_BYTES = 32"

abbreviation archive_error :: "string \<Rightarrow> exn" where
  "archive_error code \<equiv> ArchiveError (lit code)"

section \<open>Small helpers\<close>

definition unb64 :: "pyval \<Rightarrow> bytes res" where
  "unb64 text =
     (case text of
        PyStr s \<Rightarrow>
          require (s \<noteq> []) (archive_error ''bad_manifest'')
            (case b64decode s of Inl _ \<Rightarrow> Inl (archive_error ''bad_manifest'') | Inr b \<Rightarrow> Inr b)
      | _ \<Rightarrow> Inl (archive_error ''bad_manifest''))"

definition positive :: "pyval \<Rightarrow> int res" where
  "positive v =
     (case v of
        PyInt i \<Rightarrow> require (0 < i) (archive_error ''bad_limit'') (Inr i)
      | _ \<Rightarrow> Inl (archive_error ''bad_limit''))"

section \<open>Key derivation\<close>

text \<open>
  The loop of \<^verbatim>\<open>_hkdf_sha256\<close>. \<^verbatim>\<open>bytes([counter])\<close> raises \<^verbatim>\<open>ValueError\<close> from 256 on, which bounds it
  whatever the MAC returns.
\<close>

function hkdf_expand ::
  "(bytes \<Rightarrow> bytes \<Rightarrow> bytes) \<Rightarrow> bytes \<Rightarrow> bytes \<Rightarrow> nat \<Rightarrow> nat \<Rightarrow> bytes \<Rightarrow> bytes \<Rightarrow> bytes res"
where
  "hkdf_expand hmac prk info len counter block okm =
     (if length okm < len then
        (if counter < 256 then
           (let b = hmac prk (block @ info @ [byte_of counter])
            in hkdf_expand hmac prk info len (counter + 1) b (okm @ b))
         else Inl ValueError)
      else Inr (take len okm))"
  by pat_completeness auto
termination
  by (relation "measure (\<lambda>(_, _, _, _, counter, _, _). 256 - counter)") auto

declare hkdf_expand.simps [simp del]

definition hkdf_sha256 :: "(bytes \<Rightarrow> bytes \<Rightarrow> bytes) \<Rightarrow> bytes \<Rightarrow> bytes \<Rightarrow> bytes \<Rightarrow> nat \<Rightarrow> bytes res" where
  "hkdf_sha256 hmac shared_secret salt info len =
     require (len \<le> 255 * 32) (archive_error ''internal_error'')
       (hkdf_expand hmac (hmac salt shared_secret) info len 1 [] [])"

section \<open>The manifest\<close>

text \<open>Fields the code does not check keep the dynamic type they arrive with.\<close>

record ArchiveManifest =
  am_version :: pyval
  am_node_id :: pyval
  am_key_id :: pyval
  am_first_sequence :: int
  am_last_sequence :: int
  am_event_count :: int
  am_created_at :: pyval
  am_chain_final_hash :: pyval
  am_plaintext_sha3_256 :: pyval
  am_plaintext_length :: int
  am_kem :: pyval
  am_kdf :: pyval
  am_aead :: pyval
  am_encapsulated_key :: pyval
  am_hkdf_salt :: pyval
  am_nonce :: pyval
  am_ciphertext_length :: int
  am_strict :: bool
  am_metadata :: pydict

definition manifest_dict :: "ArchiveManifest \<Rightarrow> pydict" where
  "manifest_dict m =
     [(KStr (lit ''archive_format_version''), am_version m),
      (KStr (lit ''node_id''), am_node_id m),
      (KStr (lit ''key_id''), am_key_id m),
      (KStr (lit ''first_sequence''), PyInt (am_first_sequence m)),
      (KStr (lit ''last_sequence''), PyInt (am_last_sequence m)),
      (KStr (lit ''event_count''), PyInt (am_event_count m)),
      (KStr (lit ''created_at''), am_created_at m),
      (KStr (lit ''chain_final_hash''), am_chain_final_hash m),
      (KStr (lit ''plaintext_sha3_256''), am_plaintext_sha3_256 m),
      (KStr (lit ''plaintext_length''), PyInt (am_plaintext_length m)),
      (KStr (lit ''kem_algorithm''), am_kem m),
      (KStr (lit ''kdf_algorithm''), am_kdf m),
      (KStr (lit ''aead_algorithm''), am_aead m),
      (KStr (lit ''encapsulated_key''), am_encapsulated_key m),
      (KStr (lit ''hkdf_salt''), am_hkdf_salt m),
      (KStr (lit ''nonce''), am_nonce m),
      (KStr (lit ''ciphertext_length''), PyInt (am_ciphertext_length m)),
      (KStr (lit ''evidence_strictly_verified''), PyBool (am_strict m)),
      (KStr (lit ''metadata''), PyDict (am_metadata m))]"

definition authenticated_data :: "ArchiveManifest \<Rightarrow> bytes res" where
  "authenticated_data m = canonical_bytes (PyDict (manifest_dict m))"

definition MANIFEST_FIELDS :: "pystr list" where
  "MANIFEST_FIELDS = map lit
     [''archive_format_version'', ''node_id'', ''key_id'', ''first_sequence'', ''last_sequence'',
      ''event_count'', ''created_at'', ''chain_final_hash'', ''plaintext_sha3_256'', ''plaintext_length'',
      ''kem_algorithm'', ''kdf_algorithm'', ''aead_algorithm'', ''encapsulated_key'', ''hkdf_salt'', ''nonce'',
      ''ciphertext_length'', ''evidence_strictly_verified'', ''metadata'']"

definition OPTIONAL_FIELDS :: "pystr list" where
  "OPTIONAL_FIELDS = map lit [''evidence_strictly_verified'', ''metadata'']"

definition supported_value :: "pydict \<Rightarrow> string \<Rightarrow> pystr \<Rightarrow> string \<Rightarrow> unit res" where
  "supported_value d name expected code =
     require (dict_get d (lit name) = Some (PyStr expected)) (archive_error code) (Inr ())"

definition counter_field :: "pydict \<Rightarrow> string \<Rightarrow> int res" where
  "counter_field d name =
     (case dict_get d (lit name) of
        Some (PyInt i) \<Rightarrow> require (0 \<le> i) (archive_error ''bad_manifest'') (Inr i)
      | _ \<Rightarrow> Inl (archive_error ''bad_manifest''))"

text \<open>\<^verbatim>\<open>data.get("metadata") or {}\<close>, then the type check; the flag likewise.\<close>

definition metadata_field :: "pydict \<Rightarrow> pydict res" where
  "metadata_field d =
     (case dict_get d (lit ''metadata'') of
        None \<Rightarrow> Inr []
      | Some v \<Rightarrow>
          if \<not> truthy v then Inr []
          else (case v of PyDict md \<Rightarrow> Inr md | _ \<Rightarrow> Inl (archive_error ''bad_manifest'')))"

definition strict_field :: "pydict \<Rightarrow> bool res" where
  "strict_field d =
     (case dict_get d (lit ''evidence_strictly_verified'') of
        None \<Rightarrow> Inr False
      | Some (PyBool b) \<Rightarrow> Inr b
      | Some _ \<Rightarrow> Inl (archive_error ''bad_manifest''))"

definition field_or_none :: "pydict \<Rightarrow> string \<Rightarrow> pyval" where
  "field_or_none d name = (case dict_get d (lit name) of None \<Rightarrow> PyNone | Some v \<Rightarrow> v)"

definition manifest_from_dict :: "pyval \<Rightarrow> ArchiveManifest res" where
  "manifest_from_dict data =
     (case data of
        PyDict d \<Rightarrow>
          require (\<forall>k\<in>set (dict_keys d). k \<in> KStr ` set MANIFEST_FIELDS) (archive_error ''bad_manifest'')
         (require (\<forall>k\<in>set MANIFEST_FIELDS. k \<in> set OPTIONAL_FIELDS \<or> dict_has d k) (archive_error ''bad_manifest'')
         (rbind (supported_value d ''archive_format_version'' ARCHIVE_FORMAT_VERSION ''unsupported_version'') (\<lambda>_.
          rbind (supported_value d ''kem_algorithm'' KEM_ALGORITHM ''unsupported_algorithm'') (\<lambda>_.
          rbind (supported_value d ''kdf_algorithm'' KDF_ALGORITHM ''unsupported_algorithm'') (\<lambda>_.
          rbind (supported_value d ''aead_algorithm'' AEAD_ALGORITHM ''unsupported_algorithm'') (\<lambda>_.
          rbind (counter_field d ''first_sequence'') (\<lambda>first.
          rbind (counter_field d ''last_sequence'') (\<lambda>last.
          rbind (counter_field d ''event_count'') (\<lambda>count.
          rbind (counter_field d ''ciphertext_length'') (\<lambda>clen.
          rbind (counter_field d ''plaintext_length'') (\<lambda>plen.
          rbind (metadata_field d) (\<lambda>md.
          rbind (strict_field d) (\<lambda>strict.
            Inr \<lparr>am_version = field_or_none d ''archive_format_version'',
                 am_node_id = field_or_none d ''node_id'', am_key_id = field_or_none d ''key_id'',
                 am_first_sequence = first, am_last_sequence = last, am_event_count = count,
                 am_created_at = field_or_none d ''created_at'',
                 am_chain_final_hash = field_or_none d ''chain_final_hash'',
                 am_plaintext_sha3_256 = field_or_none d ''plaintext_sha3_256'', am_plaintext_length = plen,
                 am_kem = field_or_none d ''kem_algorithm'', am_kdf = field_or_none d ''kdf_algorithm'',
                 am_aead = field_or_none d ''aead_algorithm'',
                 am_encapsulated_key = field_or_none d ''encapsulated_key'',
                 am_hkdf_salt = field_or_none d ''hkdf_salt'', am_nonce = field_or_none d ''nonce'',
                 am_ciphertext_length = clen, am_strict = strict, am_metadata = md\<rparr>)))))))))))))
      | _ \<Rightarrow> Inl (archive_error ''bad_manifest''))"

section \<open>Trust report\<close>

record ArchiveTrust =
  container_authenticated :: bool
  plaintext_hash_verified :: bool
  evidence_format_valid :: bool
  evidence_signatures_verified :: bool
  evidence_chain_verified :: bool
  node_identity_verified :: bool
  tr_errors :: "pystr list"
  tr_warnings :: "pystr list"
  tr_verification :: "StreamReport option"

definition new_trust :: ArchiveTrust where
  "new_trust = \<lparr>container_authenticated = False, plaintext_hash_verified = False,
     evidence_format_valid = False, evidence_signatures_verified = False, evidence_chain_verified = False,
     node_identity_verified = False, tr_errors = [], tr_warnings = [], tr_verification = None\<rparr>"

definition fully_verified :: "ArchiveTrust \<Rightarrow> bool" where
  "fully_verified t \<longleftrightarrow>
     container_authenticated t \<and> plaintext_hash_verified t \<and> evidence_format_valid t \<and>
     evidence_signatures_verified t \<and> evidence_chain_verified t \<and> node_identity_verified t"

definition trust_fail :: "pystr \<Rightarrow> ArchiveTrust \<Rightarrow> ArchiveTrust" where
  "trust_fail code t = t\<lparr>tr_errors := tr_errors t @ [code]\<rparr>"

definition trust_warn :: "string \<Rightarrow> ArchiveTrust \<Rightarrow> ArchiveTrust" where
  "trust_warn w t = t\<lparr>tr_warnings := tr_warnings t @ [lit w]\<rparr>"

section \<open>The container\<close>

text \<open>
  A member of a ZIP file: its name, the size its directory entry declares, the bytes a reader gets,
  and the exception raised when the reader reaches their end (a bad checksum, damaged data).
\<close>

record zip_entry =
  ze_name :: pystr
  ze_size :: nat
  ze_data :: bytes
  ze_fault :: "exn option"

text \<open>A file given as an archive: its size, and its members when it is a ZIP file at all.\<close>

record zip_file =
  zf_size :: nat
  zf_entries :: "zip_entry list option"

definition zip_open :: "zip_file \<Rightarrow> zip_entry list res" where
  "zip_open z = (case zf_entries z of None \<Rightarrow> Inl BadZipFile | Some es \<Rightarrow> Inr es)"

definition zip_info :: "zip_entry list \<Rightarrow> pystr \<Rightarrow> zip_entry res" where
  "zip_info es name = (case find (\<lambda>e. ze_name e = name) es of None \<Rightarrow> Inl KeyError | Some e \<Rightarrow> Inr e)"

definition entry_read :: "zip_entry \<Rightarrow> bytes res" where
  "entry_read e = (case ze_fault e of None \<Rightarrow> Inr (ze_data e) | Some ex \<Rightarrow> Inl ex)"

text \<open>\<^verbatim>\<open>os.path.basename\<close>, and the test for a plain name.\<close>

definition basename :: "pystr \<Rightarrow> pystr" where
  "basename s = rev (takeWhile (\<lambda>c. c \<noteq> 47) (rev s))"

fun has_dotdot :: "pystr \<Rightarrow> bool" where
  "has_dotdot (a # b # s) = ((a = 46 \<and> b = 46) \<or> has_dotdot (b # s))"
| "has_dotdot _ = False"

definition plain_name :: "pystr \<Rightarrow> bool" where
  "plain_name n \<longleftrightarrow> n = basename n \<and> take 1 n \<noteq> [47] \<and> take 1 n \<noteq> [92] \<and> \<not> has_dotdot n"

definition read_manifest_and_open_ciphertext :: "zip_entry list \<Rightarrow> int \<Rightarrow> (ArchiveManifest \<times> zip_entry) res" where
  "read_manifest_and_open_ciphertext es max_archive_bytes =
     (let names = map ze_name es in
      require (distinct names) (archive_error ''duplicate_entry'')
     (require (set names \<subseteq> set EXPECTED_ENTRIES) (archive_error ''unexpected_entry'')
     (require (set EXPECTED_ENTRIES \<subseteq> set names) (archive_error ''truncated'')
     (require (list_all plain_name names) (archive_error ''path_traversal'')
     (rbind (zip_info es MANIFEST_ENTRY) (\<lambda>minfo.
      require (ze_size minfo \<le> MAX_MANIFEST_BYTES) (archive_error ''oversized'')
     (rbind (entry_read minfo) (\<lambda>raw.
      rbind (case rbind (utf8_decode raw) json_loads of
               Inl e \<Rightarrow> Inl (if e = UnicodeError \<or> e = JSONDecodeError then archive_error ''bad_manifest'' else e)
             | Inr v \<Rightarrow> Inr v) (\<lambda>data.
      rbind (manifest_from_dict data) (\<lambda>m.
      rbind (zip_info es CIPHERTEXT_ENTRY) (\<lambda>cinfo.
      require (int (ze_size cinfo) \<le> max_archive_bytes) (archive_error ''oversized'')
     (require (int (ze_size cinfo) = am_ciphertext_length m) (archive_error ''truncated'')
     (require (GCM_TAG_BYTES \<le> ze_size cinfo) (archive_error ''truncated'')
       (Inr (m, cinfo)))))))))))))))"

section \<open>Primitives\<close>

text \<open>
  What the packages and the standard library provide. A streaming cipher context is a function of
  the pieces it was given so far, so \<open>gcm_update\<close> takes them, in order, and the next piece;
  \<open>gcm_finalize\<close> yields the last output and the tag, \<open>gcm_check\<close> the last output if the tag is
  right. A decompressor object is a state of type \<^typ>\<open>'s\<close>; \<open>inflate s piece n\<close> yields at most \<open>n\<close>
  bytes of output, the unconsumed rest of the piece and the next state, or \<open>None\<close> for
  \<^verbatim>\<open>zlib.error\<close>. \<open>gzip_file\<close> is the compressed file of the pieces written.
\<close>

record gcm_context =
  gx_key :: bytes
  gx_nonce :: bytes
  gx_aad :: bytes

record 's archive_lib =
  hmac_sha256 :: "bytes \<Rightarrow> bytes \<Rightarrow> bytes"
  sha3_hex :: digest
  have_cryptography :: bool
  gcm_update :: "gcm_context \<Rightarrow> bool \<Rightarrow> bytes list \<Rightarrow> bytes \<Rightarrow> bytes"
  gcm_finalize :: "gcm_context \<Rightarrow> bytes list \<Rightarrow> bytes \<times> bytes"
  gcm_check :: "gcm_context \<Rightarrow> bytes list \<Rightarrow> bytes \<Rightarrow> bytes option"
  gzip_file :: "bytes list \<Rightarrow> bytes"
  inflate_init :: 's
  inflate :: "'s \<Rightarrow> bytes \<Rightarrow> nat \<Rightarrow> (bytes \<times> bytes \<times> 's) option"
  inflate_flush :: "'s \<Rightarrow> bytes option"
  zip_size :: "zip_entry list \<Rightarrow> nat"

definition aesgcm_streaming :: "'s archive_lib \<Rightarrow> bytes \<Rightarrow> bytes \<Rightarrow> bytes \<Rightarrow> gcm_context res" where
  "aesgcm_streaming lib key nonce aad =
     require (have_cryptography lib) (archive_error ''missing_dependency'')
       (Inr \<lparr>gx_key = key, gx_nonce = nonce, gx_aad = aad\<rparr>)"

text \<open>The pieces \<^verbatim>\<open>read(n)\<close> returns until the end of the file.\<close>

function chunks :: "nat \<Rightarrow> 'a list \<Rightarrow> 'a list list" where
  "chunks n bs = (if n = 0 \<or> bs = [] then [] else take n bs # chunks n (drop n bs))"
  by pat_completeness auto
termination
  by (relation "measure (\<lambda>(n, bs). length bs)") auto

declare chunks.simps [simp del]

fun gcm_stream :: "'s archive_lib \<Rightarrow> gcm_context \<Rightarrow> bool \<Rightarrow> bytes list \<Rightarrow> bytes list \<Rightarrow> bytes" where
  "gcm_stream lib cx encrypt done_chunks [] = []"
| "gcm_stream lib cx encrypt done_chunks (c # cs) =
     gcm_update lib cx encrypt done_chunks c @ gcm_stream lib cx encrypt (done_chunks @ [c]) cs"

section \<open>Encryption\<close>

text \<open>The counting of the first pass, with its limit.\<close>

fun count_limited :: "int \<Rightarrow> int \<Rightarrow> bytes list \<Rightarrow> int res" where
  "count_limited limit n [] = Inr n"
| "count_limited limit n (c # cs) =
     require (n + int (length c) \<le> limit) (archive_error ''oversized'')
       (count_limited limit (n + int (length c)) cs)"

definition encrypt_body :: "'s archive_lib \<Rightarrow> gcm_context \<Rightarrow> bytes \<Rightarrow> bytes" where
  "encrypt_body lib cx compressed =
     (let cs = chunks CHUNK_BYTES compressed; (rest, tag) = gcm_finalize lib cx cs
      in gcm_stream lib cx True [] cs @ rest @ tag)"

section \<open>Decryption\<close>

text \<open>
  The first pass reads the member in pieces. \<open>entry_at e pos n\<close> is \<^verbatim>\<open>read(n)\<close> at a position; reaching
  the end of the data raises the member's fault.
\<close>

definition entry_at :: "zip_entry \<Rightarrow> nat \<Rightarrow> nat \<Rightarrow> bytes res" where
  "entry_at e pos n =
     (case ze_fault e of
        Some ex \<Rightarrow> if length (ze_data e) \<le> pos + n then Inl ex else Inr (take n (drop pos (ze_data e)))
      | None \<Rightarrow> Inr (take n (drop pos (ze_data e))))"

function read_body :: "zip_entry \<Rightarrow> nat \<Rightarrow> nat \<Rightarrow> bytes list res" where
  "read_body e pos remaining =
     (if remaining = 0 then Inr []
      else
        rbind (entry_at e pos (min CHUNK_BYTES remaining)) (\<lambda>chunk.
          if chunk = [] then Inl (archive_error ''truncated'')
          else rbind (read_body e (pos + length chunk) (remaining - length chunk)) (\<lambda>cs. Inr (chunk # cs))))"
  by pat_completeness auto
termination
  by (relation "measure (\<lambda>(e, pos, remaining). remaining)") auto

declare read_body.simps [simp del]

definition decrypt_body :: "'s archive_lib \<Rightarrow> gcm_context \<Rightarrow> zip_entry \<Rightarrow> bytes res" where
  "decrypt_body lib cx e =
     (let body_length = ze_size e - GCM_TAG_BYTES in
      rbind (read_body e 0 body_length) (\<lambda>cs.
      rbind (entry_at e body_length GCM_TAG_BYTES) (\<lambda>tag.
      require (length tag = GCM_TAG_BYTES) (archive_error ''truncated'')
        (case gcm_check lib cx cs tag of
           None \<Rightarrow> Inl (archive_error ''authentication_failed'')
         | Some rest \<Rightarrow> Inr (gcm_stream lib cx False [] cs @ rest)))))"

text \<open>
  The second pass. The counter, the digest and the output file take the same data in step, so the
  output written so far stands for the three. The inner loop need not end for an arbitrary
  decompressor: \<open>None\<close> is not returning.
\<close>

definition put_data :: "int \<Rightarrow> bytes \<Rightarrow> bytes \<Rightarrow> exn option \<times> bytes" where
  "put_data limit out data =
     (if int (length (out @ data)) > limit then (Some (archive_error ''decompression_bomb''), out)
      else (None, out @ data))"

partial_function (option) inflate_piece ::
  "'s archive_lib \<Rightarrow> int \<Rightarrow> bytes \<Rightarrow> 's \<Rightarrow> bytes \<Rightarrow> ((exn option \<times> bytes) \<times> 's) option"
where
  "inflate_piece lib limit pending s out =
     (case inflate lib s pending CHUNK_BYTES of
        None \<Rightarrow> Some ((Some (archive_error ''corrupt''), out), s)
      | Some (data, tail, s') \<Rightarrow>
          (case put_data limit out data of
             (Some e, out') \<Rightarrow> Some ((Some e, out'), s')
           | (None, out') \<Rightarrow>
               if tail = [] then Some ((None, out'), s')
               else inflate_piece lib limit tail s' out'))"

fun inflate_pieces ::
  "'s archive_lib \<Rightarrow> int \<Rightarrow> bytes list \<Rightarrow> 's \<Rightarrow> bytes \<Rightarrow> ((exn option \<times> bytes) \<times> 's) option"
where
  "inflate_pieces lib limit [] s out = Some ((None, out), s)"
| "inflate_pieces lib limit (c # cs) s out =
     (case inflate_piece lib limit c s out of
        None \<Rightarrow> None
      | Some ((Some e, out'), s') \<Rightarrow> Some ((Some e, out'), s')
      | Some ((None, out'), s') \<Rightarrow> inflate_pieces lib limit cs s' out')"

text \<open>The result of the pass and what it wrote to the output file.\<close>

definition inflate_body :: "'s archive_lib \<Rightarrow> int \<Rightarrow> bytes \<Rightarrow> (exn option \<times> bytes) option" where
  "inflate_body lib limit body =
     (case inflate_pieces lib limit (chunks CHUNK_BYTES body) (inflate_init lib) [] of
        None \<Rightarrow> None
      | Some ((Some e, out), s) \<Rightarrow> Some (Some e, out)
      | Some ((None, out), s) \<Rightarrow>
          (case inflate_flush lib s of
             None \<Rightarrow> Some (Some (archive_error ''corrupt''), out)
           | Some tail \<Rightarrow> Some (put_data limit out tail)))"

section \<open>Key derivation, against RFC 5869\<close>

text \<open>The blocks \<open>T(n)\<close> of the RFC, and the output keying material.\<close>

fun rfc_block :: "(bytes \<Rightarrow> bytes \<Rightarrow> bytes) \<Rightarrow> bytes \<Rightarrow> bytes \<Rightarrow> nat \<Rightarrow> bytes" where
  "rfc_block hmac prk info 0 = []"
| "rfc_block hmac prk info (Suc n) = hmac prk (rfc_block hmac prk info n @ info @ [byte_of (Suc n)])"

definition rfc_okm :: "(bytes \<Rightarrow> bytes \<Rightarrow> bytes) \<Rightarrow> bytes \<Rightarrow> bytes \<Rightarrow> nat \<Rightarrow> bytes" where
  "rfc_okm hmac prk info n = concat (map (rfc_block hmac prk info) [1..<Suc n])"

lemma rfc_okm_Suc: "rfc_okm hmac prk info (Suc n) = rfc_okm hmac prk info n @ rfc_block hmac prk info (Suc n)"
  by (simp add: rfc_okm_def)

lemma rfc_okm_length:
  assumes "\<And>k m. length (hmac k m) = 32"
  shows "length (rfc_okm hmac prk info n) = 32 * n"
  by (induction n) (simp_all add: rfc_okm_Suc assms, simp add: rfc_okm_def)

lemma hkdf_expand_blocks:
  assumes "\<And>k m. length (hmac k m) = 32" "len \<le> 255 * 32" "n \<le> (len + 31) div 32"
  shows "hkdf_expand hmac prk info len (Suc n) (rfc_block hmac prk info n) (rfc_okm hmac prk info n)
    = Inr (take len (rfc_okm hmac prk info ((len + 31) div 32)))"
  using assms(3)
proof (induction "(len + 31) div 32 - n" arbitrary: n)
  case 0
  then have n: "n = (len + 31) div 32" by simp
  then have "len \<le> 32 * n" by linarith
  with n show ?case
    by (subst hkdf_expand.simps) (simp add: rfc_okm_length [OF assms(1)])
next
  case (Suc d)
  then have "Suc n \<le> (len + 31) div 32" "32 * n < len" by linarith+
  moreover have "Suc n < 256" using \<open>32 * n < len\<close> assms(2) by linarith
  moreover have "d = (len + 31) div 32 - Suc n" using Suc.hyps(2) by linarith
  ultimately show ?case
    using Suc.hyps(1) [of "Suc n"]
    by (subst hkdf_expand.simps) (simp add: rfc_okm_length [OF assms(1)] rfc_okm_Suc Let_def)
qed

lemma hkdf_rfc:
  assumes "\<And>k m. length (hmac k m) = 32"
  shows "hkdf_sha256 hmac secret salt info len =
      (if len \<le> 255 * 32 then Inr (take len (rfc_okm hmac (hmac salt secret) info ((len + 31) div 32)))
       else Inl (archive_error ''internal_error''))"
  using hkdf_expand_blocks [OF assms, of len 0] by (simp add: hkdf_sha256_def require_def rfc_okm_def)

section \<open>The manifest is authenticated as a whole\<close>

text \<open>Two manifests with the same content; fields of any type up to the order of object keys.\<close>

definition same_manifest :: "ArchiveManifest \<Rightarrow> ArchiveManifest \<Rightarrow> bool" where
  "same_manifest m n \<longleftrightarrow>
     canon_form (am_version m) = canon_form (am_version n) \<and>
     canon_form (am_node_id m) = canon_form (am_node_id n) \<and>
     canon_form (am_key_id m) = canon_form (am_key_id n) \<and>
     am_first_sequence m = am_first_sequence n \<and> am_last_sequence m = am_last_sequence n \<and>
     am_event_count m = am_event_count n \<and>
     canon_form (am_created_at m) = canon_form (am_created_at n) \<and>
     canon_form (am_chain_final_hash m) = canon_form (am_chain_final_hash n) \<and>
     canon_form (am_plaintext_sha3_256 m) = canon_form (am_plaintext_sha3_256 n) \<and>
     am_plaintext_length m = am_plaintext_length n \<and>
     canon_form (am_kem m) = canon_form (am_kem n) \<and> canon_form (am_kdf m) = canon_form (am_kdf n) \<and>
     canon_form (am_aead m) = canon_form (am_aead n) \<and>
     canon_form (am_encapsulated_key m) = canon_form (am_encapsulated_key n) \<and>
     canon_form (am_hkdf_salt m) = canon_form (am_hkdf_salt n) \<and>
     canon_form (am_nonce m) = canon_form (am_nonce n) \<and>
     am_ciphertext_length m = am_ciphertext_length n \<and> am_strict m = am_strict n \<and>
     canon_form (PyDict (am_metadata m)) = canon_form (PyDict (am_metadata n))"

lemma authenticated_data_fields:
  assumes "dicts_ok (PyDict (manifest_dict m))" "dicts_ok (PyDict (manifest_dict n))"
    and "authenticated_data m = Inr b" "authenticated_data n = Inr b"
  shows "same_manifest m n"
proof -
  note eq = canonical_bytes_fields [OF assms(1,2) assms(3,4) [unfolded authenticated_data_def]]
  from eq [of "lit ''archive_format_version''"] eq [of "lit ''node_id''"] eq [of "lit ''key_id''"]
    eq [of "lit ''first_sequence''"] eq [of "lit ''last_sequence''"] eq [of "lit ''event_count''"]
    eq [of "lit ''created_at''"] eq [of "lit ''chain_final_hash''"] eq [of "lit ''plaintext_sha3_256''"]
    eq [of "lit ''plaintext_length''"] eq [of "lit ''kem_algorithm''"] eq [of "lit ''kdf_algorithm''"]
    eq [of "lit ''aead_algorithm''"] eq [of "lit ''encapsulated_key''"] eq [of "lit ''hkdf_salt''"]
    eq [of "lit ''nonce''"] eq [of "lit ''ciphertext_length''"]
    eq [of "lit ''evidence_strictly_verified''"] eq [of "lit ''metadata''"]
  show ?thesis by (simp add: manifest_dict_def same_manifest_def)
qed

section \<open>The manifest is read back\<close>

text \<open>
  The manifests the program writes: text and counters, and no metadata (no caller in the program
  passes any).
\<close>

definition text_field :: "pyval \<Rightarrow> bool" where
  "text_field v \<longleftrightarrow> (\<exists>s. v = PyStr s \<and> list_all scalar s)"

definition text_manifest :: "ArchiveManifest \<Rightarrow> bool" where
  "text_manifest m \<longleftrightarrow>
     am_version m = PyStr ARCHIVE_FORMAT_VERSION \<and> am_kem m = PyStr KEM_ALGORITHM \<and>
     am_kdf m = PyStr KDF_ALGORITHM \<and> am_aead m = PyStr AEAD_ALGORITHM \<and>
     list_all text_field [am_node_id m, am_key_id m, am_created_at m, am_chain_final_hash m,
       am_plaintext_sha3_256 m, am_encapsulated_key m, am_hkdf_salt m, am_nonce m] \<and>
     list_all (\<lambda>i. 0 \<le> i) [am_first_sequence m, am_last_sequence m, am_event_count m,
       am_plaintext_length m, am_ciphertext_length m] \<and> am_metadata m = []"

lemma archive_names_scalar [simp]:
  "list_all scalar ARCHIVE_FORMAT_VERSION" "list_all scalar KEM_ALGORITHM" "list_all scalar KDF_ALGORITHM"
  "list_all scalar AEAD_ALGORITHM"
  by (simp_all add: ARCHIVE_FORMAT_VERSION_def KEM_ALGORITHM_def KDF_ALGORITHM_def AEAD_ALGORITHM_def scalar_def)

lemma text_manifest_read_back:
  assumes "text_manifest m" "dumps_indent 0 (PyDict (manifest_dict m)) = Inr t"
  shows "rbind (json_loads t) manifest_from_dict = Inr m"
proof -
  let ?d = "manifest_dict m"
  have ok: "json_ok (PyDict ?d)" "canon_items indent_style ?d = ?d" "distinct (map fst ?d)"
    using assms(1) by (auto simp: text_manifest_def manifest_dict_def text_field_def scalar_def order_dict_def)
  let ?o = "order_dict indent_style ?d"
  have "json_loads t = Inr (PyDict ?o)"
    using dumps_indent_loads [OF ok(1) assms(2), of "[]"] ok(2) by simp
  moreover have get: "dict_get ?o k = dict_get ?d k" for k using dict_get_order [OF ok(3)] .
  moreover have "manifest_from_dict (PyDict ?o) = Inr m"
  proof -
    have "set (dict_keys ?o) = KStr ` set MANIFEST_FIELDS"
      by (simp add: dict_keys_def MANIFEST_FIELDS_def manifest_dict_def)
    moreover have "dict_has ?o k" if "k \<in> set MANIFEST_FIELDS" for k
      using that unfolding dict_has_iff get by (auto simp: MANIFEST_FIELDS_def manifest_dict_def)
    ultimately show ?thesis
      using assms(1) unfolding manifest_from_dict_def pyval.case supported_value_def counter_field_def metadata_field_def
        strict_field_def field_or_none_def get
      by (simp add: text_manifest_def manifest_dict_def truthy_def)
  qed
  ultimately show ?thesis by simp
qed

section \<open>Pieces\<close>

lemma concat_chunks [simp]: "0 < n \<Longrightarrow> concat (chunks n bs) = bs"
  by (induction n bs rule: chunks.induct) (subst chunks.simps, auto)

lemma CHUNK_BYTES_pos [simp]: "0 < CHUNK_BYTES"
  by (simp add: CHUNK_BYTES_def)

lemma count_limited_all:
  "n + int (length (concat cs)) \<le> limit \<Longrightarrow> count_limited limit n cs = Inr (n + int (length (concat cs)))"
  by (induction cs arbitrary: n) (auto simp: algebra_simps)

lemma read_body_all:
  assumes "ze_fault e = None" "pos + n \<le> length (ze_data e)"
  shows "\<exists>cs. read_body e pos n = Inr cs \<and> concat cs = take n (drop pos (ze_data e))"
  using assms(2)
proof (induction n arbitrary: pos rule: less_induct)
  case (less n)
  show ?case
  proof (cases "n = 0")
    case True
    then show ?thesis by (subst read_body.simps) simp
  next
    case False
    let ?k = "min CHUNK_BYTES n" and ?c = "take (min CHUNK_BYTES n) (drop pos (ze_data e))"
    have c: "entry_at e pos ?k = Inr ?c" "length ?c = ?k" "?c \<noteq> []"
      using assms(1) less.prems False by (auto simp: entry_at_def CHUNK_BYTES_def)
    obtain cs where cs: "read_body e (pos + ?k) (n - ?k) = Inr cs"
        "concat cs = take (n - ?k) (drop (pos + ?k) (ze_data e))"
      using less.IH [of "n - ?k" "pos + ?k"] less.prems False by (auto simp: CHUNK_BYTES_def)
    moreover have "?c @ take (n - ?k) (drop (pos + ?k) (ze_data e)) = take n (drop pos (ze_data e))"
      using take_add [of ?k "n - ?k" "drop pos (ze_data e)"] by (simp add: add.commute)
    moreover have "read_body e pos n = Inr (?c # cs)"
      by (subst read_body.simps) (simp only: False c cs(1) rbind_simps if_False)
    ultimately show ?thesis by simp
  qed
qed

section \<open>Authenticated encryption\<close>

text \<open>
  What the code relies on of AES-GCM: the tag has 16 bytes, the ciphertext has the length of the
  plaintext, and a context for the same key, nonce and associated data that is given the ciphertext
  in any pieces, and then the tag, yields the plaintext.
\<close>

definition gcm_ok :: "'s archive_lib \<Rightarrow> bool" where
  "gcm_ok lib \<longleftrightarrow>
     (\<forall>cx cs rest tag ds. gcm_finalize lib cx cs = (rest, tag) \<longrightarrow>
        length tag = GCM_TAG_BYTES \<and> length (gcm_stream lib cx True [] cs @ rest) = length (concat cs) \<and>
        (concat ds = gcm_stream lib cx True [] cs @ rest \<longrightarrow>
           (\<exists>out. gcm_check lib cx ds tag = Some out \<and> gcm_stream lib cx False [] ds @ out = concat cs)))"

lemma encrypt_body_length:
  "gcm_ok lib \<Longrightarrow> length (encrypt_body lib cx z) = length z + GCM_TAG_BYTES"
  unfolding gcm_ok_def encrypt_body_def by (auto simp: Let_def split: prod.splits)

lemma decrypt_encrypt_body:
  assumes "gcm_ok lib" "ze_data e = encrypt_body lib cx z" "ze_size e = length (ze_data e)" "ze_fault e = None"
  shows "decrypt_body lib cx e = Inr z"
proof -
  let ?cs = "chunks CHUNK_BYTES z"
  obtain rest tag where fin: "gcm_finalize lib cx ?cs = (rest, tag)" by fastforce
  let ?body = "gcm_stream lib cx True [] ?cs @ rest"
  have ok: "length tag = GCM_TAG_BYTES" "length ?body = length z"
    and dec: "concat ds = ?body \<Longrightarrow> \<exists>out. gcm_check lib cx ds tag = Some out \<and> gcm_stream lib cx False [] ds @ out = z" for ds
    using assms(1) fin unfolding gcm_ok_def by fastforce+
  have data: "ze_data e = ?body @ tag" using assms(2) fin by (simp add: encrypt_body_def)
  then have n: "ze_size e - GCM_TAG_BYTES = length ?body" using assms(3) ok(1) by simp
  obtain cs where cs: "read_body e 0 (length ?body) = Inr cs" "concat cs = ?body"
    using read_body_all [OF assms(4), of 0 "length ?body"] data by auto
  from dec [OF cs(2)] cs(1) n data ok(1) assms(4) show ?thesis
    by (auto simp: decrypt_body_def entry_at_def)
qed

text \<open>What a decrypted body went through: the tag check over exactly the bytes of the member.\<close>

lemma read_body_data:
  assumes "read_body e pos n = Inr cs"
  shows "concat cs = take n (drop pos (ze_data e)) \<and> length (concat cs) = n"
  using assms
proof (induction n arbitrary: pos cs rule: less_induct)
  case (less n)
  note unfolded = less.prems [unfolded read_body.simps [of e pos n]]
  show ?case
  proof (cases "n = 0")
    case True
    with unfolded show ?thesis by simp
  next
    case False
    define c where "c = take (min CHUNK_BYTES n) (drop pos (ze_data e))"
    have at: "entry_at e pos (min CHUNK_BYTES n) = Inr x \<Longrightarrow> x = c" for x
      by (auto simp: entry_at_def c_def split: option.splits if_splits)
    obtain cs' where c: "c \<noteq> []" "read_body e (pos + length c) (n - length c) = Inr cs'" "cs = c # cs'"
      using unfolded False at by (auto simp: rbind_Inr_iff split: if_splits)
    have le: "length c \<le> n" "take (length c) (drop pos (ze_data e)) = c" by (auto simp: c_def min_def)
    have "n - length c < n" using False c(1) by simp
    note ih = less.IH [OF this c(2)]
    have "c @ concat cs' = take n (drop pos (ze_data e))"
      using ih le take_add [of "length c" "n - length c" "drop pos (ze_data e)"] by (simp add: add.commute)
    moreover have "length (c @ concat cs') = n"
      using ih [THEN conjunct2] le(1) by (simp only: length_append)
    ultimately show ?thesis by (simp only: c(3) concat.simps)
  qed
qed

lemma decrypt_body_authentic:
  assumes "decrypt_body lib cx e = Inr body" "GCM_TAG_BYTES \<le> ze_size e"
  shows "\<exists>cs tag rest. concat cs @ tag = take (ze_size e) (ze_data e) \<and> length tag = GCM_TAG_BYTES
    \<and> gcm_check lib cx cs tag = Some rest \<and> body = gcm_stream lib cx False [] cs @ rest"
proof -
  let ?n = "ze_size e - GCM_TAG_BYTES"
  obtain cs tag rest where c: "read_body e 0 ?n = Inr cs" "entry_at e ?n GCM_TAG_BYTES = Inr tag" "length tag = GCM_TAG_BYTES"
      "gcm_check lib cx cs tag = Some rest" "body = gcm_stream lib cx False [] cs @ rest"
    using assms(1) by (auto simp: decrypt_body_def Let_def res_iff)
  have "tag = take GCM_TAG_BYTES (drop ?n (ze_data e))"
    using c(2) by (auto simp: entry_at_def split: option.splits if_splits)
  then have "concat cs @ tag = take (?n + GCM_TAG_BYTES) (ze_data e)"
    using read_body_data [OF c(1)] by (simp add: take_add)
  with assms(2) c show ?thesis by auto
qed

section \<open>Decompression\<close>

text \<open>
  What the code relies on of \<^verbatim>\<open>zlib.decompressobj\<close>. \<open>R s z p\<close>: the object in state \<open>s\<close>, still to be
  given \<open>z\<close>, will yield \<open>p\<close>. And input is left unconsumed only when output was produced.
\<close>

definition zlib_ok :: "'s archive_lib \<Rightarrow> ('s \<Rightarrow> bytes \<Rightarrow> bytes \<Rightarrow> bool) \<Rightarrow> bool" where
  "zlib_ok lib R \<longleftrightarrow>
     (\<forall>cs. R (inflate_init lib) (gzip_file lib cs) (concat cs)) \<and>
     (\<forall>s piece z p. R s (piece @ z) p \<longrightarrow>
        (\<exists>data tail s' p'. inflate lib s piece CHUNK_BYTES = Some (data, tail, s') \<and> p = data @ p' \<and> R s' (tail @ z) p')) \<and>
     (\<forall>s p. R s [] p \<longrightarrow> inflate_flush lib s = Some p)"

definition zlib_progress :: "'s archive_lib \<Rightarrow> bool" where
  "zlib_progress lib \<longleftrightarrow>
     (\<forall>s piece data tail s'. inflate lib s piece CHUNK_BYTES = Some (data, tail, s') \<longrightarrow> tail \<noteq> [] \<longrightarrow> data \<noteq> [])"

lemma put_data_bound:
  "\<lbrakk>put_data limit out data = (r, out'); int (length out) \<le> limit\<rbrakk> \<Longrightarrow> int (length out') \<le> limit"
  by (auto simp: put_data_def split: if_splits)

lemma inflate_piece_bound:
  assumes "inflate_piece lib limit piece s out = Some y" "int (length out) \<le> limit"
  shows "int (length (snd (fst y))) \<le> limit"
proof -
  have "int (length out) \<le> limit \<longrightarrow> int (length (snd (fst y))) \<le> limit"
    by (rule inflate_piece.raw_induct [OF _ assms(1), where P = "\<lambda>lib limit piece s out y.
          int (length out) \<le> limit \<longrightarrow> int (length (snd (fst y))) \<le> limit"])
      (auto dest: put_data_bound split: option.splits prod.splits if_splits)
  with assms(2) show ?thesis by blast
qed

lemma inflate_piece_returns:
  assumes "zlib_progress lib" "int (length out) \<le> limit"
  shows "\<exists>y. inflate_piece lib limit piece s out = Some y"
  using assms(2)
proof (induction "nat (limit - int (length out))" arbitrary: piece s out rule: less_induct)
  case less
  show ?case
  proof (cases "inflate lib s piece CHUNK_BYTES")
    case None
    then show ?thesis by (simp add: inflate_piece.simps)
  next
    case (Some x)
    obtain data tail s' where x: "x = (data, tail, s')" by (cases x)
    show ?thesis
    proof (cases "put_data limit out data = (None, out @ data) \<and> tail \<noteq> []")
      case True
      then have "data \<noteq> []" using assms(1) Some x unfolding zlib_progress_def by blast
      moreover have "int (length (out @ data)) \<le> limit" using True by (auto simp: put_data_def split: if_splits)
      ultimately have "\<exists>y. inflate_piece lib limit tail s' (out @ data) = Some y"
        by (intro less.hyps) (auto simp flip: length_greater_0_conv)
      with True Some x show ?thesis by (subst inflate_piece.simps) auto
    next
      case False
      with Some x show ?thesis by (subst inflate_piece.simps) (auto simp: put_data_def split: if_splits)
    qed
  qed
qed

lemma inflate_pieces_returns:
  assumes "zlib_progress lib" "int (length out) \<le> limit"
  shows "\<exists>y. inflate_pieces lib limit cs s out = Some y \<and> int (length (snd (fst y))) \<le> limit"
  using assms(2)
proof (induction cs arbitrary: s out)
  case (Cons c cs)
  obtain r out' s' where y: "inflate_piece lib limit c s out = Some ((r, out'), s')"
    using inflate_piece_returns [OF assms(1) Cons.prems] by (metis prod.exhaust)
  note b = inflate_piece_bound [OF y Cons.prems, simplified]
  from Cons.IH [OF b] y b show ?case by (cases r) auto
qed simp

lemma inflate_body_returns:
  assumes "zlib_progress lib" "0 \<le> limit"
  shows "\<exists>r out. inflate_body lib limit body = Some (r, out)"
  using inflate_pieces_returns [OF assms(1), of "[]" limit] assms(2)
  by (fastforce simp: inflate_body_def split: option.splits)

lemma inflate_pieces_bound:
  assumes "inflate_pieces lib limit cs s out = Some y" "int (length out) \<le> limit"
  shows "int (length (snd (fst y))) \<le> limit"
  using assms
proof (induction cs arbitrary: s out)
  case (Cons c cs)
  then obtain r out' s' where z: "inflate_piece lib limit c s out = Some ((r, out'), s')"
    by (auto split: option.splits)
  note b = inflate_piece_bound [OF z Cons.prems(2), simplified]
  from Cons.IH [OF _ b] Cons.prems z b show ?case by (cases r) auto
qed auto

lemma inflate_body_bound:
  assumes "inflate_body lib limit body = Some (r, out)" "0 \<le> limit"
  shows "int (length out) \<le> limit"
  using assms inflate_pieces_bound [of lib limit _ _ "[]"]
  by (fastforce simp: inflate_body_def put_data_def split: option.splits if_splits)

lemma inflate_piece_yields:
  assumes "zlib_ok lib R" "zlib_progress lib" "R s (piece @ z) p" "int (length (out @ p)) \<le> limit"
  shows "\<exists>out' s' p'. inflate_piece lib limit piece s out = Some ((None, out'), s') \<and> out @ p = out' @ p' \<and> R s' z p'"
  using assms(3,4)
proof (induction "length p" arbitrary: piece s out p rule: less_induct)
  case less
  obtain data tail s' p' where i: "inflate lib s piece CHUNK_BYTES = Some (data, tail, s')" "p = data @ p'" "R s' (tail @ z) p'"
    using assms(1) less.prems(1) unfolding zlib_ok_def by meson
  have put: "put_data limit out data = (None, out @ data)" using less.prems(2) i(2) by (simp add: put_data_def)
  show ?case
  proof (cases "tail = []")
    case True
    with i put show ?thesis by (subst inflate_piece.simps) auto
  next
    case False
    then have "data \<noteq> []" using assms(2) i(1) unfolding zlib_progress_def by blast
    then have "\<exists>out' s'' p''. inflate_piece lib limit tail s' (out @ data) = Some ((None, out'), s'')
        \<and> (out @ data) @ p' = out' @ p'' \<and> R s'' z p''"
      using less.prems(2) i(2,3) by (intro less.hyps) auto
    with False i put show ?thesis by (subst inflate_piece.simps) auto
  qed
qed

lemma inflate_pieces_yield:
  assumes "zlib_ok lib R" "zlib_progress lib" "R s (concat cs) p" "int (length (out @ p)) \<le> limit"
  shows "\<exists>out' s' p'. inflate_pieces lib limit cs s out = Some ((None, out'), s') \<and> out @ p = out' @ p' \<and> R s' [] p'"
  using assms(3,4)
proof (induction cs arbitrary: s out p)
  case (Cons c cs)
  obtain out1 s1 p1 where 1: "inflate_piece lib limit c s out = Some ((None, out1), s1)" "out @ p = out1 @ p1" "R s1 (concat cs) p1"
    using inflate_piece_yields [OF assms(1,2), of s c "concat cs" p out limit] Cons.prems by auto
  from Cons.IH [OF 1(3)] Cons.prems(2) 1 show ?case by auto
qed auto

lemma inflate_gzip:
  assumes "zlib_ok lib R" "zlib_progress lib" "int (length (concat cs)) \<le> limit"
  shows "inflate_body lib limit (gzip_file lib cs) = Some (None, concat cs)"
proof -
  have "R (inflate_init lib) (concat (chunks CHUNK_BYTES (gzip_file lib cs))) (concat cs)"
    using assms(1) by (simp add: zlib_ok_def)
  from inflate_pieces_yield [OF assms(1,2) this, of "[]" limit] assms(3)
  obtain out s p where o: "inflate_pieces lib limit (chunks CHUNK_BYTES (gzip_file lib cs)) (inflate_init lib) [] = Some ((None, out), s)"
      "concat cs = out @ p" "R s [] p" by auto
  moreover have "inflate_flush lib s = Some p" using assms(1) o(3) by (simp add: zlib_ok_def)
  ultimately show ?thesis using assms(3) by (simp add: inflate_body_def put_data_def)
qed

section \<open>Properties\<close>

text \<open>
  \<^verbatim>\<open>_hkdf_sha256\<close> is HKDF of RFC 5869: with a 32-byte MAC it returns the first
  \<open>len\<close> bytes of \<open>T(1) | T(2) | ...\<close> under the key extracted from the salt, exactly \<open>len\<close> of them;
  a length above 255 blocks is refused.
\<close>

theorem hkdf_is_rfc5869:
  assumes "\<And>k m. length (hmac k m) = 32"
  shows "if len \<le> 255 * 32
    then hkdf_sha256 hmac secret salt info len = Inr (take len (rfc_okm hmac (hmac salt secret) info ((len + 31) div 32)))
      \<and> length (take len (rfc_okm hmac (hmac salt secret) info ((len + 31) div 32))) = len
    else hkdf_sha256 hmac secret salt info len = Inl (archive_error ''internal_error'')"
proof -
  have "len \<le> 32 * ((len + 31) div 32)" by linarith
  then show ?thesis using hkdf_rfc [OF assms, where len = len] rfc_okm_length [OF assms] by simp
qed

theorem hkdf_is_rfc5869_witness:
  "hkdf_sha256 (\<lambda>k m. replicate 32 (byte_of (length m))) [] [] [] 40
    = Inr (replicate 32 1 @ replicate 8 33)"
proof -
  have "hkdf_sha256 (\<lambda>k m. replicate 32 (byte_of (length m))) [] [] [] 40
      = Inr (take 40 (rfc_okm (\<lambda>k m. replicate 32 (byte_of (length m))) (replicate 32 0) [] 2))"
    using hkdf_is_rfc5869 [of "\<lambda>k m. replicate 32 (byte_of (length m))" 40 "[]" "[]" "[]"] by (simp add: byte_of_def)
  then show ?thesis by (simp add: rfc_okm_def numeral_eq_Suc byte_of_def)
qed

text \<open>
  No field of the manifest is outside what AES-GCM authenticates: two manifests with
  the same associated data agree in every field.
\<close>

theorem manifest_fully_authenticated:
  assumes "dicts_ok (PyDict (manifest_dict m))" "dicts_ok (PyDict (manifest_dict n))"
    and "authenticated_data m = Inr b" "authenticated_data n = Inr b"
  shows "same_manifest m n"
  by (rule authenticated_data_fields [OF assms])

end
