(* ===== verification/Archive.thy ===== *)
theory Archive
  imports ArchiveFormat
begin

text \<open>
  \<^verbatim>\<open>pqc_evidence/archive.py\<close>, the operations: inspecting an evidence file, creating, decrypting and
  verifying an archive. The source file is its bytes, the archive the members of the ZIP file. The
  temporary files of decryption are fields of \<open>vault\<close>, so that what is left behind on every exit
  can be stated; the other temporary files are written and read back only. Texts of errors are
  dropped, their codes kept.
\<close>

section \<open>Inspecting an evidence file\<close>

record evidence_summary =
  su_first :: int
  su_last :: int
  su_count :: nat
  su_final_hash :: pystr
  su_nodes :: "pystr list"
  su_keys :: "pystr list"

record scan_state =
  sc_first :: "int option"
  sc_last :: "int option"
  sc_count :: nat
  sc_hash :: pystr
  sc_nodes :: "pystr list"
  sc_keys :: "pystr list"
  sc_trust :: ArchiveTrust

definition new_scan :: scan_state where
  "new_scan = \<lparr>sc_first = None, sc_last = None, sc_count = 0, sc_hash = [], sc_nodes = [], sc_keys = [],
               sc_trust = new_trust\<rparr>"

definition str_field :: "pydict \<Rightarrow> string \<Rightarrow> pystr option" where
  "str_field d k = (case dict_get d (lit k) of Some (PyStr s) \<Rightarrow> Some s | _ \<Rightarrow> None)"

definition int_field :: "pydict \<Rightarrow> string \<Rightarrow> int option" where
  "int_field d k = (case dict_get d (lit k) of Some (PyInt i) \<Rightarrow> Some i | _ \<Rightarrow> None)"

definition opt_add :: "'a list \<Rightarrow> 'a option \<Rightarrow> 'a list" where
  "opt_add xs x = (case x of None \<Rightarrow> xs | Some y \<Rightarrow> xs @ [y])"

definition scan_record :: "pydict \<Rightarrow> scan_state \<Rightarrow> scan_state" where
  "scan_record d st =
     (let st1 = (case int_field d ''sequence'' of
                   None \<Rightarrow> st
                 | Some n \<Rightarrow> st\<lparr>sc_first := Some (case sc_first st of None \<Rightarrow> n | Some f \<Rightarrow> min f n),
                               sc_last := Some (case sc_last st of None \<Rightarrow> n | Some l \<Rightarrow> max l n)\<rparr>)
      in st1\<lparr>sc_hash := (case str_field d ''event_hash'' of None \<Rightarrow> sc_hash st1 | Some h \<Rightarrow> h),
             sc_nodes := opt_add (sc_nodes st1) (str_field d ''node_id''),
             sc_keys := opt_add (sc_keys st1) (str_field d ''key_id'')\<rparr>)"

definition scan_line :: "bool \<Rightarrow> pystr \<Rightarrow> scan_state \<Rightarrow> scan_state res" where
  "scan_line strict raw st =
     (let text = strip raw in
      if text = [] then Inr st
      else
        (let st1 = st\<lparr>sc_count := sc_count st + 1\<rparr>;
             unparsable = (if strict then st1\<lparr>sc_trust := trust_fail (lit ''unparsable_record'') (sc_trust st1)\<rparr> else st1)
         in case json_loads text of
              Inl e \<Rightarrow> if e = JSONDecodeError \<or> e = ValueError then Inr unparsable else Inl e
            | Inr (PyDict d) \<Rightarrow> Inr (scan_record d st1)
            | Inr _ \<Rightarrow> Inr unparsable))"

fun scan_lines :: "bool \<Rightarrow> pystr list \<Rightarrow> scan_state \<Rightarrow> scan_state res" where
  "scan_lines strict [] st = Inr st"
| "scan_lines strict (l # ls) st = rbind (scan_line strict l st) (scan_lines strict ls)"

text \<open>\<^verbatim>\<open>first or 0\<close>; the sets of nodes and keys are sorted.\<close>

definition summary_of :: "scan_state \<Rightarrow> evidence_summary" where
  "summary_of st =
     \<lparr>su_first = (case sc_first st of None \<Rightarrow> 0 | Some n \<Rightarrow> n),
      su_last = (case sc_last st of None \<Rightarrow> 0 | Some n \<Rightarrow> n),
      su_count = sc_count st, su_final_hash = sc_hash st,
      su_nodes = sort (remdups (sc_nodes st)), su_keys = sort (remdups (sc_keys st))\<rparr>"

definition SIGNATURE_ALERTS :: "alert list" where
  "SIGNATURE_ALERTS = [pqc_invalid_signature, pqc_unknown_key, pqc_unknown_node, pqc_revoked_key,
                       pqc_expired_key, pqc_unsupported_algorithm]"

definition CHAIN_ALERTS :: "alert list" where
  "CHAIN_ALERTS = [pqc_sequence_gap, pqc_previous_hash_mismatch, pqc_duplicate_sequence,
                   pqc_replayed_event, pqc_chain_reset, pqc_event_hash_mismatch]"

definition report_trust :: "bool \<Rightarrow> evidence_summary \<Rightarrow> StreamReport \<Rightarrow> ArchiveTrust \<Rightarrow> ArchiveTrust" where
  "report_trust strict su rep t =
     (let seen = fst ` set (alert_counts rep);
          t1 = t\<lparr>tr_verification := Some rep,
                 evidence_format_valid := malformed_count rep = 0 \<and> total rep > 0,
                 evidence_signatures_verified := set SIGNATURE_ALERTS \<inter> seen = {},
                 evidence_chain_verified := set CHAIN_ALERTS \<inter> seen = {},
                 node_identity_verified := length (su_nodes su) = 1 \<and> length (su_keys su) \<ge> 1\<rparr>;
          t2 = (if strict \<and> total rep = 0 then trust_fail (lit ''empty_evidence'') t1 else t1);
          t3 = (if strict \<and> malformed_count rep \<noteq> 0 then trust_fail (lit ''malformed_evidence'') t2 else t2);
          t4 = (if strict \<and> failed rep \<noteq> 0 then trust_fail (lit ''invalid_evidence'') t3 else t3)
      in if strict \<and> length (su_nodes su) > 1 then trust_fail (lit ''mixed_node_log'') t4 else t4)"

text \<open>\<^verbatim>\<open>EvidenceCollector(registry, max_record_bytes=...)\<close> with its defaults.\<close>

definition archive_collector :: "registry \<Rightarrow> int option \<Rightarrow> EvidenceCollector res" where
  "archive_collector reg mb =
     new_collector reg None 10000 (case mb of Some n \<Rightarrow> if n = 0 then int MAX_EVIDENCE_BYTES else n
                                   | None \<Rightarrow> int MAX_EVIDENCE_BYTES) False"

definition evidence_lines :: "bytes \<Rightarrow> pystr list" where
  "evidence_lines raw = text_lines (utf8_decode_replace raw)"

definition summarise_evidence ::
  "platform \<Rightarrow> bytes \<Rightarrow> registry option \<Rightarrow> bool \<Rightarrow> int option \<Rightarrow> (evidence_summary \<times> ArchiveTrust) res"
where
  "summarise_evidence pf raw reg strict mb =
     require (\<not> (strict \<and> reg = None)) (archive_error ''registry_required'')
     (rbind (case reg of None \<Rightarrow> Inr None | Some r \<Rightarrow> rbind (archive_collector r mb) (\<lambda>c. Inr (Some c))) (\<lambda>oc.
      rbind (scan_lines strict (evidence_lines raw) new_scan) (\<lambda>st.
        (case oc of
           None \<Rightarrow> Inr (summary_of st, sc_trust st)
         | Some c \<Rightarrow>
             rbind (verify_stream pf c (map PyStr (filter (\<lambda>t. t \<noteq> []) (map strip (evidence_lines raw))))) (\<lambda>rep.
               Inr (summary_of st, report_trust strict (summary_of st) rep (sc_trust st)))))))"

section \<open>Creation\<close>

text \<open>
  The arguments of \<^verbatim>\<open>create_archive\<close>, and what its environment contributes: the random bytes, the
  clock, and whether writing the archive file fails.
\<close>

record create_request =
  cr_evidence :: "bytes option"
  cr_recipient :: bytes
  cr_node_id :: pystr
  cr_key_id :: pystr
  cr_backend :: "CryptoBackend option"
  cr_registry :: "registry option"
  cr_require_valid :: bool
  cr_max_plaintext :: int
  cr_overwrite :: bool
  cr_metadata :: "pydict option"

record create_env =
  ce_kem_random :: bytes
  ce_salt :: bytes
  ce_nonce :: bytes
  ce_now :: pystr
  ce_write_fails :: bool

text \<open>The default algorithm of \<^verbatim>\<open>select_backend\<close>.\<close>

definition kem_backend :: "platform \<Rightarrow> CryptoBackend option \<Rightarrow> bytes option \<Rightarrow> CryptoBackend res" where
  "kem_backend pf backend private_key =
     (case backend of
        Some b \<Rightarrow> Inr b
      | None \<Rightarrow> select_backend (crypto pf) (environment pf) None (lit ''ML-DSA-65'') False (Some KEM_ALGORITHM) private_key)"

definition check_evidence :: "platform \<Rightarrow> create_request \<Rightarrow> bytes \<Rightarrow> (evidence_summary \<times> ArchiveTrust) res" where
  "check_evidence pf rq raw =
     rbind (summarise_evidence pf raw (cr_registry rq) (cr_require_valid rq) None) (\<lambda>(su, trust).
     require (\<not> (cr_require_valid rq \<and> tr_errors trust \<noteq> [])) (archive_error ''evidence_rejected'')
     (require (\<not> (cr_require_valid rq \<and> su_nodes su \<noteq> [] \<and> hd (su_nodes su) \<noteq> cr_node_id rq)) (archive_error ''node_mismatch'')
       (Inr (su, trust))))"

definition new_manifest ::
  "'s archive_lib \<Rightarrow> create_request \<Rightarrow> create_env \<Rightarrow> evidence_summary \<Rightarrow> bytes \<Rightarrow> bytes \<Rightarrow> int \<Rightarrow> bytes \<Rightarrow> ArchiveManifest"
where
  "new_manifest lib rq env su raw encapsulated plain_len compressed =
     \<lparr>am_version = PyStr ARCHIVE_FORMAT_VERSION, am_node_id = PyStr (cr_node_id rq), am_key_id = PyStr (cr_key_id rq),
      am_first_sequence = su_first su, am_last_sequence = su_last su, am_event_count = int (su_count su),
      am_created_at = PyStr (ce_now env), am_chain_final_hash = PyStr (su_final_hash su),
      am_plaintext_sha3_256 = PyStr (sha3_hex lib raw), am_plaintext_length = plain_len,
      am_kem = PyStr KEM_ALGORITHM, am_kdf = PyStr KDF_ALGORITHM, am_aead = PyStr AEAD_ALGORITHM,
      am_encapsulated_key = PyStr (b64encode encapsulated), am_hkdf_salt = PyStr (b64encode (ce_salt env)),
      am_nonce = PyStr (b64encode (ce_nonce env)),
      am_ciphertext_length = int (length compressed + GCM_TAG_BYTES),
      am_strict = cr_require_valid rq,
      am_metadata = (case cr_metadata rq of None \<Rightarrow> [] | Some d \<Rightarrow> d)\<rparr>"

definition plain_entry :: "pystr \<Rightarrow> bytes \<Rightarrow> zip_entry" where
  "plain_entry name data = \<lparr>ze_name = name, ze_size = length data, ze_data = data, ze_fault = None\<rparr>"

text \<open>The two members, and the rename onto the target.\<close>

definition write_container ::
  "'s archive_lib \<Rightarrow> create_env \<Rightarrow> ArchiveManifest \<Rightarrow> bytes \<Rightarrow> zip_file option \<Rightarrow> unit res \<times> zip_file option"
where
  "write_container lib env m ciphertext target =
     (case rbind (dumps_indent 0 (PyDict (manifest_dict m))) utf8_encode of
        Inl e \<Rightarrow> (Inl e, target)
      | Inr text \<Rightarrow>
          if ce_write_fails env then (Inl OSError, target)
          else
            (let es = [plain_entry MANIFEST_ENTRY text, plain_entry CIPHERTEXT_ENTRY ciphertext]
             in (Inr (), Some \<lparr>zf_size = zip_size lib es, zf_entries = Some es\<rparr>)))"

text \<open>The part of \<^verbatim>\<open>create_archive\<close> up to the encrypted body.\<close>

definition seal ::
  "'s archive_lib \<Rightarrow> platform \<Rightarrow> create_env \<Rightarrow> create_request \<Rightarrow> int \<Rightarrow> bytes \<Rightarrow> (ArchiveManifest \<times> ArchiveTrust \<times> bytes) res"
where
  "seal lib pf env rq limit raw =
     rbind (check_evidence pf rq raw) (\<lambda>(su, trust).
     rbind (kem_backend pf (cr_backend rq) None) (\<lambda>kem.
     rbind (kem_encapsulate kem (ce_kem_random env) (cr_recipient rq) KEM_ALGORITHM) (\<lambda>(shared_secret, encapsulated).
     rbind (hkdf_sha256 (hmac_sha256 lib) shared_secret (ce_salt env) HKDF_INFO 32) (\<lambda>aes_key.
     rbind (count_limited limit 0 (chunks CHUNK_BYTES raw)) (\<lambda>plain_len.
     (let compressed = gzip_file lib (chunks CHUNK_BYTES raw);
          m = new_manifest lib rq env su raw encapsulated plain_len compressed
      in rbind (authenticated_data m) (\<lambda>aad.
         rbind (aesgcm_streaming lib aes_key (ce_nonce env) aad) (\<lambda>cx.
           Inr (m, trust, encrypt_body lib cx compressed)))))))))"

definition create_archive ::
  "'s archive_lib \<Rightarrow> platform \<Rightarrow> create_env \<Rightarrow> create_request \<Rightarrow> zip_file option
   \<Rightarrow> (ArchiveManifest \<times> ArchiveTrust) res \<times> zip_file option"
where
  "create_archive lib pf env rq target =
     (case rbind (positive (PyInt (cr_max_plaintext rq))) (\<lambda>limit.
           (case cr_evidence rq of
              None \<Rightarrow> Inl (archive_error ''not_found'')
            | Some raw \<Rightarrow>
                require (target = None \<or> cr_overwrite rq) (archive_error ''exists'')
               (require (int (length raw) \<le> limit) (archive_error ''oversized'')
                 (seal lib pf env rq limit raw)))) of
        Inl e \<Rightarrow> (Inl e, target)
      | Inr (m, trust, ciphertext) \<Rightarrow>
          (case write_container lib env m ciphertext target of
             (Inl e, target') \<Rightarrow> (Inl e, target')
           | (Inr _, target') \<Rightarrow> (Inr (m, trust), target')))"

section \<open>Decryption\<close>

text \<open>
  The files decryption touches: the destination, the plaintext it is building, and the decrypted but
  still compressed body. \<open>vault_env\<close>: which of the final file operations fail.
\<close>

record vault =
  va_destination :: "bytes option"
  va_plain_tmp :: "bytes option"
  va_body_tmp :: "bytes option"

record vault_env =
  ve_unlink_fails :: bool
  ve_replace_fails :: bool
  ve_chmod_fails :: bool

record decrypt_request =
  dr_archive :: "zip_file option"
  dr_private_key :: bytes
  dr_output :: bool
  dr_backend :: "CryptoBackend option"
  dr_max_archive :: int
  dr_max_plaintext :: int
  dr_overwrite :: bool

text \<open>\<^verbatim>\<open>with suppress(OSError): os.unlink(...)\<close>.\<close>

definition unlinked :: "vault_env \<Rightarrow> bytes option \<Rightarrow> bytes option" where
  "unlinked env f = (if ve_unlink_fails env then f else None)"

text \<open>
  \<^verbatim>\<open>_stream_decrypt\<close>: the body file is created once the cipher context exists, and removed on every
  exit.
\<close>

definition stream_decrypt ::
  "'s archive_lib \<Rightarrow> vault_env \<Rightarrow> zip_entry \<Rightarrow> ArchiveManifest \<Rightarrow> bytes \<Rightarrow> bytes \<Rightarrow> int \<Rightarrow> vault
   \<Rightarrow> ((nat \<times> pystr) res \<times> vault) option"
where
  "stream_decrypt lib env info m aes_key nonce limit va =
     (case rbind (authenticated_data m) (\<lambda>aad. aesgcm_streaming lib aes_key nonce aad) of
        Inl e \<Rightarrow> Some (Inl e, va)
      | Inr cx \<Rightarrow>
          (case decrypt_body lib cx info of
             Inl e \<Rightarrow> Some (Inl e, va\<lparr>va_body_tmp := unlinked env (Some [])\<rparr>)
           | Inr body \<Rightarrow>
               (case inflate_body lib limit body of
                  None \<Rightarrow> None
                | Some (fault, out) \<Rightarrow>
                    Some (case fault of Some e \<Rightarrow> Inl e | None \<Rightarrow> Inr (length out, sha3_hex lib out),
                          va\<lparr>va_plain_tmp := Some out, va_body_tmp := unlinked env (Some body)\<rparr>))))"

text \<open>What is read from the archive before the body: manifest, member, keys.\<close>

definition open_archive ::
  "'s archive_lib \<Rightarrow> platform \<Rightarrow> decrypt_request \<Rightarrow> zip_file \<Rightarrow> int \<Rightarrow> (ArchiveManifest \<times> zip_entry \<times> bytes \<times> bytes) res"
where
  "open_archive lib pf rq z max_archive =
     rbind (zip_open z) (\<lambda>es.
     rbind (read_manifest_and_open_ciphertext es max_archive) (\<lambda>(m, info).
     rbind (kem_backend pf (dr_backend rq) (Some (dr_private_key rq))) (\<lambda>kem.
     rbind (unb64 (am_encapsulated_key m)) (\<lambda>encapsulated.
     rbind (unb64 (am_hkdf_salt m)) (\<lambda>salt.
     rbind (unb64 (am_nonce m)) (\<lambda>nonce.
     require (length nonce = GCM_NONCE_BYTES) (archive_error ''bad_manifest'')
    (require (length salt = HKDF_SALT_BYTES) (archive_error ''bad_manifest'')
    (rbind (kem_decapsulate kem (dr_private_key rq) encapsulated KEM_ALGORITHM) (\<lambda>shared_secret.
     rbind (hkdf_sha256 (hmac_sha256 lib) shared_secret salt HKDF_INFO 32) (\<lambda>aes_key.
       Inr (m, info, aes_key, nonce)))))))))))"

text \<open>The handler of \<^verbatim>\<open>zipfile.BadZipFile\<close>.\<close>

definition bad_zip :: "exn \<Rightarrow> exn" where
  "bad_zip e = (if e = BadZipFile then archive_error ''truncated'' else e)"

text \<open>After the plaintext is complete: digest and length, then the rename.\<close>

definition deliver ::
  "vault_env \<Rightarrow> decrypt_request \<Rightarrow> ArchiveManifest \<Rightarrow> nat \<Rightarrow> pystr \<Rightarrow> vault
   \<Rightarrow> (ArchiveManifest \<times> bool \<times> ArchiveTrust) res \<times> vault"
where
  "deliver env rq m written digest va =
     (let trust = new_trust\<lparr>container_authenticated := True, plaintext_hash_verified := True\<rparr>;
          cleaned = va\<lparr>va_plain_tmp := unlinked env (va_plain_tmp va)\<rparr>;
          renamed = va\<lparr>va_destination := va_plain_tmp va, va_plain_tmp := None\<rparr>
      in if PyStr digest \<noteq> am_plaintext_sha3_256 m \<or> int written \<noteq> am_plaintext_length m
         then (Inl (archive_error ''digest_mismatch''), cleaned)
         else if \<not> dr_output rq then (Inr (m, False, trust), cleaned)
         else if ve_replace_fails env then (Inl OSError, cleaned)
         else if ve_chmod_fails env then (Inl OSError, renamed)
         else (Inr (m, True, trust), renamed))"

definition decrypt_archive ::
  "'s archive_lib \<Rightarrow> platform \<Rightarrow> vault_env \<Rightarrow> decrypt_request \<Rightarrow> vault
   \<Rightarrow> ((ArchiveManifest \<times> bool \<times> ArchiveTrust) res \<times> vault) option"
where
  "decrypt_archive lib pf env rq va =
     (case rbind (positive (PyInt (dr_max_archive rq))) (\<lambda>max_archive.
           rbind (positive (PyInt (dr_max_plaintext rq))) (\<lambda>limit.
           (case dr_archive rq of
              None \<Rightarrow> Inl (archive_error ''not_found'')
            | Some z \<Rightarrow>
                require (int (zf_size z) \<le> max_archive) (archive_error ''oversized'')
               (require (\<not> (dr_output rq \<and> va_destination va \<noteq> None \<and> \<not> dr_overwrite rq)) (archive_error ''exists'')
                 (Inr (z, max_archive, limit)))))) of
        Inl e \<Rightarrow> Some (Inl e, va)
      | Inr (z, max_archive, limit) \<Rightarrow>
          (let va1 = va\<lparr>va_plain_tmp := Some []\<rparr> in
           case open_archive lib pf rq z max_archive of
             Inl e \<Rightarrow> Some (Inl (bad_zip e), va\<lparr>va_plain_tmp := unlinked env (Some [])\<rparr>)
           | Inr (m, info, aes_key, nonce) \<Rightarrow>
               (case stream_decrypt lib env info m aes_key nonce limit va1 of
                  None \<Rightarrow> None
                | Some (Inl e, va2) \<Rightarrow> Some (Inl (bad_zip e), va2\<lparr>va_plain_tmp := unlinked env (va_plain_tmp va2)\<rparr>)
                | Some (Inr (written, digest), va2) \<Rightarrow> Some (deliver env rq m written digest va2))))"

section \<open>Verification\<close>

record archive_report =
  ar_structure_valid :: bool
  ar_manifest :: "ArchiveManifest option"
  ar_trust :: ArchiveTrust

definition manifest_mismatch :: "evidence_summary \<Rightarrow> ArchiveManifest \<Rightarrow> bool" where
  "manifest_mismatch su m \<longleftrightarrow>
     (su_nodes su \<noteq> [] \<and> map PyStr (su_nodes su) \<noteq> [am_node_id m]) \<or>
     int (su_count su) \<noteq> am_event_count m \<or> su_first su \<noteq> am_first_sequence m \<or>
     su_last su \<noteq> am_last_sequence m \<or> PyStr (su_final_hash su) \<noteq> am_chain_final_hash m"

definition judge_evidence :: "evidence_summary \<Rightarrow> ArchiveTrust \<Rightarrow> ArchiveManifest \<Rightarrow> ArchiveTrust \<Rightarrow> ArchiveTrust" where
  "judge_evidence su et m t =
     (let t1 = t\<lparr>evidence_format_valid := evidence_format_valid et,
                 evidence_signatures_verified := evidence_signatures_verified et,
                 evidence_chain_verified := evidence_chain_verified et,
                 tr_verification := tr_verification et\<rparr>
      in if manifest_mismatch su m
         then (trust_fail (lit ''manifest_content_mismatch'') t1)\<lparr>node_identity_verified := False\<rparr>
         else t1\<lparr>node_identity_verified := length (su_nodes su) = 1 \<and> PyStr (hd (su_nodes su)) = am_node_id m\<rparr>)"

text \<open>The part with a private key, on a destination of its own in a fresh directory.\<close>

definition verify_contents ::
  "'s archive_lib \<Rightarrow> platform \<Rightarrow> vault_env \<Rightarrow> decrypt_request \<Rightarrow> registry option \<Rightarrow> ArchiveTrust \<Rightarrow> ArchiveTrust res option"
where
  "verify_contents lib pf env rq reg trust =
     (case decrypt_archive lib pf env (rq\<lparr>dr_output := True, dr_overwrite := True\<rparr>)
             \<lparr>va_destination = None, va_plain_tmp = None, va_body_tmp = None\<rparr> of
        None \<Rightarrow> None
      | Some (Inl (ArchiveError code), va) \<Rightarrow> Some (Inr (trust_fail code trust))
      | Some (Inl e, va) \<Rightarrow> Some (Inl e)
      | Some (Inr (m, written, dt), va) \<Rightarrow>
          (let t1 = trust\<lparr>container_authenticated := container_authenticated dt,
                          plaintext_hash_verified := plaintext_hash_verified dt\<rparr>
           in Some
             (case reg of
                None \<Rightarrow> Inr (trust_warn ''no registry'' t1)
              | Some r \<Rightarrow>
                  (case summarise_evidence pf (case va_destination va of None \<Rightarrow> [] | Some b \<Rightarrow> b) (Some r) False None of
                     Inl (ArchiveError code) \<Rightarrow> Inr (trust_fail code t1)
                   | Inl e \<Rightarrow> Inl e
                   | Inr (su, et) \<Rightarrow> Inr (judge_evidence su et m t1)))))"

definition verify_archive ::
  "'s archive_lib \<Rightarrow> platform \<Rightarrow> vault_env \<Rightarrow> decrypt_request \<Rightarrow> bool \<Rightarrow> registry option \<Rightarrow> archive_report res option"
where
  "verify_archive lib pf env rq have_key reg =
     (let failed_report = (\<lambda>code. \<lparr>ar_structure_valid = False, ar_manifest = None, ar_trust = trust_fail code new_trust\<rparr>)
      in case rbind (case dr_archive rq of None \<Rightarrow> Inl OSError | Some z \<Rightarrow> zip_open z) (\<lambda>es.
                read_manifest_and_open_ciphertext es (dr_max_archive rq)) of
           Inl (ArchiveError code) \<Rightarrow> Some (Inr (failed_report code))
         | Inl e \<Rightarrow> Some (if e = BadZipFile \<or> e = OSError then Inr (failed_report (lit ''truncated'')) else Inl e)
         | Inr (m, info) \<Rightarrow>
             if \<not> have_key
             then Some (Inr \<lparr>ar_structure_valid = True, ar_manifest = Some m, ar_trust = trust_warn ''no private key'' new_trust\<rparr>)
             else
               (case verify_contents lib pf env rq reg new_trust of
                  None \<Rightarrow> None
                | Some (Inl e) \<Rightarrow> Some (Inl e)
                | Some (Inr t) \<Rightarrow> Some (Inr \<lparr>ar_structure_valid = True, ar_manifest = Some m, ar_trust = t\<rparr>)))"

end
