(* ===== verification/ArchiveReading.thy ===== *)
theory ArchiveReading
  imports Archive
begin

text \<open>
  What the operations on archives guarantee. Shown: decryption leaves only authenticated plaintext
  behind, within its limit, and returns for every decompressor that makes progress; an archive
  reported fully verified holds the unbroken chain of records its manifest describes; and an archive
  that was created is decrypted to the same bytes.
\<close>

section \<open>What the collector reports of a failing record\<close>

text \<open>
  A record that fails carries an alert; the alert for an oversized line is reserved for lines that
  are not records at all.
\<close>

definition clean_result :: "VerificationResult \<Rightarrow> bool" where
  "clean_result r \<longleftrightarrow> (valid r \<longleftrightarrow> errors r = []) \<and> pqc_oversized_evidence \<notin> set (errors r)"

lemma clean_add_error: "\<lbrakk>clean_result r; a \<noteq> pqc_oversized_evidence\<rbrakk> \<Longrightarrow> clean_result (add_error a r)"
  by (auto simp: clean_result_def add_error_def)

lemma clean_add_errors:
  "\<lbrakk>clean_result r; pqc_oversized_evidence \<notin> set as\<rbrakk> \<Longrightarrow> clean_result (foldl (\<lambda>r a. add_error a r) r as)"
proof (induction "as" arbitrary: r)
  case (Cons a "as")
  then show ?case using Cons.IH [OF clean_add_error [of r a]] by auto
qed simp

lemma problems_not_oversized:
  "check_usable reg kid nid at alg = Inr u \<Longrightarrow> pqc_oversized_evidence \<notin> set (problems u)"
  by (auto simp: check_usable_def time_problems_def expiry_problems_def Let_def
      split: option.splits if_splits prod.splits sum.splits)

lemma check_event_hash_clean: "\<lbrakk>check_event_hash pf e r = Inr r'; clean_result r\<rbrakk> \<Longrightarrow> clean_result r'"
  by (auto simp: check_event_hash_def rbind_Inr_iff intro: clean_add_error)

lemma check_key_clean: "\<lbrakk>check_key v e r = Inr r'; clean_result r\<rbrakk> \<Longrightarrow> clean_result r'"
  by (auto simp: check_key_def rbind_Inr_iff dest: problems_not_oversized intro: clean_add_errors split: if_splits)

lemma check_signature_clean: "\<lbrakk>check_signature pf v e r = Inr r'; clean_result r\<rbrakk> \<Longrightarrow> clean_result r'"
  by (auto simp: check_signature_def rbind_Inr_iff intro: clean_add_error split: option.splits sum.splits)

lemma check_chain_clean: "\<lbrakk>check_chain pf e p r = Inr r'; clean_result r\<rbrakk> \<Longrightarrow> clean_result r'"
  by (auto simp: check_chain_def check_sequence_def rbind_Inr_iff Let_def intro: clean_add_error
      split: option.splits if_splits)

lemma note_not_oversized: "pqc_oversized_evidence \<notin> set (fst (note_event t e))"
  by (auto simp: note_event_def note_alerts_def Let_def split: option.splits if_splits)

lemma verify_line_clean: "verify_line pf v l = Inr (r, Some e) \<Longrightarrow> clean_result r"
proof -
  assume "verify_line pf v l = Inr (r, Some e)"
  then obtain e' where "verify_event pf v e' None = Inr r"
    by (auto simp: verify_line_def rbind_Inr_iff split: sum.splits exn.splits)
  then show ?thesis
    by (auto simp: verify_event_def rbind_Inr_iff clean_result_def
        dest!: check_event_hash_clean check_key_clean check_signature_clean)
qed

definition alerts_of :: "StreamReport \<Rightarrow> alert set" where
  "alerts_of rep = fst ` set (alert_counts rep)"

lemma alerts_of_update [simp]:
  "alerts_of (rep\<lparr>verified := n\<rparr>) = alerts_of rep" "alerts_of (rep\<lparr>total := n\<rparr>) = alerts_of rep"
  "alerts_of (rep\<lparr>failed := n, sr_valid := b\<rparr>) = alerts_of rep" "alerts_of (rep\<lparr>nodes := ns\<rparr>) = alerts_of rep"
  by (simp_all add: alerts_of_def)

lemma bump_keys: "fst ` set (foldl bump counts as) = fst ` set counts \<union> set as"
  by (induction "as" arbitrary: counts) (auto simp: bump_def adict_set_keys)

lemma record_result_alerts:
  "alerts_of (record_result mr rep r) = alerts_of rep \<union> set (errors r) \<union> set (warnings r)"
  by (auto simp: record_result_def alerts_of_def bump_keys Let_def)

lemma record_result_malformed: "malformed_count (record_result mr rep r) = malformed_count rep"
  by (simp add: record_result_def Let_def)

text \<open>An invalid report says why: a malformed line, or an alert of a record.\<close>

definition explained :: "StreamReport \<Rightarrow> bool" where
  "explained rep \<longleftrightarrow> sr_valid rep \<or> 0 < malformed_count rep \<or> (\<exists>a\<in>alerts_of rep. a \<noteq> pqc_oversized_evidence)"

lemma collect_event_explained:
  assumes "collect_event pf c rep trk r e = Inr (rep', trk')" "clean_result r" "explained rep"
  shows "explained rep'"
proof -
  define t where "t = (case map_of trk (node_id e) of Some t \<Rightarrow> t | None \<Rightarrow> new_tracker (node_id e))"
  obtain as t1 where n: "note_event t e = (as, t1)" by fastforce
  obtain r1 where r1: "check_chain pf e (position t) r = Inr r1"
      "rep' = record_result (nat (max_results c)) (if valid (foldl (\<lambda>r a. add_error a r) r1 as)
         then rep\<lparr>verified := verified rep + 1\<rparr> else rep\<lparr>failed := failed rep + 1, sr_valid := False\<rparr>)
         (foldl (\<lambda>r a. add_error a r) r1 as)"
    using assms(1) n by (auto simp: collect_event_def rbind_Inr_iff Let_def t_def [symmetric])
  define r2 where "r2 = foldl (\<lambda>r a. add_error a r) r1 as"
  have "clean_result r2"
    using check_chain_clean [OF r1(1) assms(2)] note_not_oversized [of t e] n by (auto simp: r2_def intro: clean_add_errors)
  moreover have "alerts_of rep \<subseteq> alerts_of rep'" "malformed_count rep' = malformed_count rep"
      "\<not> valid r2 \<Longrightarrow> set (errors r2) \<subseteq> alerts_of rep'" "valid r2 \<Longrightarrow> sr_valid rep' = sr_valid rep"
    using r1(2) by (auto simp: r2_def [symmetric] record_result_malformed record_result_alerts)
  moreover have "\<exists>a\<in>set (errors r2). a \<noteq> pqc_oversized_evidence" if "\<not> valid r2"
    using that \<open>clean_result r2\<close> by (cases "errors r2") (auto simp: clean_result_def)
  ultimately show ?thesis using assms(3) unfolding explained_def by (cases "valid r2") auto
qed

lemma collect_line_explained:
  assumes "collect_line pf c (rep, trk) l = Inr (rep', trk')" "explained rep"
  shows "explained rep'"
proof -
  have "explained (fail_malformed mr rep0 r)" for mr rep0 r
    by (simp add: explained_def fail_malformed_def record_result_malformed)
  moreover have "explained (rep\<lparr>total := total rep + 1\<rparr>)" using assms(2) by (simp add: explained_def alerts_of_def)
  ultimately show ?thesis
    using assms by (auto simp: collect_line_def rbind_Inr_iff Let_def split: if_splits option.splits
        dest!: collect_event_explained verify_line_clean)
qed

lemma collect_lines_explained:
  "\<lbrakk>collect_lines pf c (rep, trk) ls = Inr (rep', trk'); explained rep\<rbrakk> \<Longrightarrow> explained rep'"
  by (induction ls arbitrary: rep trk) (auto simp: rbind_Inr_iff dest: collect_line_explained)

lemma verify_stream_explained: "verify_stream pf c ls = Inr rep \<Longrightarrow> explained rep"
  using collect_lines_explained [of pf c new_report "[]" ls]
  by (auto simp: verify_stream_def rbind_Inr_iff explained_def alerts_of_def new_report_def)

text \<open>The two lists of alerts cover every other alert but one.\<close>

lemma trusted_report_valid:
  assumes "verify_stream pf c ls = Inr rep" "malformed_count rep = 0"
    and "set SIGNATURE_ALERTS \<inter> alerts_of rep = {}" "set CHAIN_ALERTS \<inter> alerts_of rep = {}"
    and "pqc_malformed_evidence \<notin> alerts_of rep"
  shows "sr_valid rep"
proof -
  have "a = pqc_oversized_evidence" if "a \<in> alerts_of rep" for a
  proof -
    have "a \<in> set SIGNATURE_ALERTS \<or> a \<in> set CHAIN_ALERTS \<or> a = pqc_malformed_evidence \<or> a = pqc_oversized_evidence"
      by (cases a) (simp_all add: SIGNATURE_ALERTS_def CHAIN_ALERTS_def)
    with that assms(3-5) show ?thesis by (elim disjE) auto
  qed
  then show ?thesis using verify_stream_explained [OF assms(1)] assms(2) by (auto simp: explained_def)
qed

section \<open>What the scan finds in a stream of records\<close>

definition note_scan :: "scan_state \<Rightarrow> SignedEvent \<Rightarrow> scan_state" where
  "note_scan st e = st\<lparr>sc_count := sc_count st + 1,
     sc_first := Some (case sc_first st of None \<Rightarrow> sequence e | Some f \<Rightarrow> min f (sequence e)),
     sc_last := Some (case sc_last st of None \<Rightarrow> sequence e | Some l \<Rightarrow> max l (sequence e)),
     sc_hash := event_hash e, sc_nodes := sc_nodes st @ [node_id e], sc_keys := sc_keys st @ [key_id e]\<rparr>"

lemma line_record_json:
  assumes "line_record mb (PyStr l) e"
  shows "\<exists>d. json_loads (strip l) = Inr (PyDict d) \<and> int_field d ''sequence'' = Some (sequence e)
    \<and> str_field d ''event_hash'' = Some (event_hash e) \<and> str_field d ''node_id'' = Some (node_id e)
    \<and> str_field d ''key_id'' = Some (key_id e)"
proof -
  have p: "parse_signed_event_json (PyStr (strip l)) mb True = Inr e"
    using assms by (simp add: line_record_def line_strip_def)
  then obtain raw where raw: "utf8_encode (strip l) = Inr raw"
    by (auto simp: parse_signed_event_json_def res_iff)
  then have "list_all scalar (strip l)" by (auto simp: utf8_encode_def split: if_splits)
  then have "utf8_decode raw = Inr (strip l)" using utf8.dec_enc [OF _ raw] by simp
  then obtain data where d: "loads reject_duplicate_keys no_constants (strip l) = Inr (PyDict data)" "same_fields data e"
    using p parse_json_str [OF raw] by (auto simp: parse_json_bytes_iff)
  have "distinct (map fst data)" using json_doc_dict evidence_loads_doc d(1) by blast
  then have get: "dict_get data k = Some v \<longleftrightarrow> (KStr k, v) \<in> set (to_dict e True)" for k v
    using d(2) by (simp add: dict_get_set same_fields_def)
  have "dict_get data (lit ''sequence'') = Some (PyInt (sequence e))"
    "dict_get data (lit ''event_hash'') = Some (PyStr (event_hash e))"
    "dict_get data (lit ''node_id'') = Some (PyStr (node_id e))"
    "dict_get data (lit ''key_id'') = Some (PyStr (key_id e))"
    unfolding get by (simp_all add: to_dict_def)
  with evidence_loads_json [OF d(1)] show ?thesis
    by (intro exI [of _ data]) (simp add: int_field_def str_field_def)
qed

lemma scan_line_record:
  assumes "line_record mb (PyStr l) e" "\<not> blank (PyStr l)"
  shows "scan_line strict l st = Inr (note_scan st e)"
proof -
  obtain d where d: "json_loads (strip l) = Inr (PyDict d)" "int_field d ''sequence'' = Some (sequence e)"
    "str_field d ''event_hash'' = Some (event_hash e)" "str_field d ''node_id'' = Some (node_id e)"
    "str_field d ''key_id'' = Some (key_id e)" using line_record_json [OF assms(1)] by blast
  have "strip l \<noteq> []" using assms(2) by (simp add: blank_def line_strip_def line_length_def)
  with d show ?thesis
    by (simp add: scan_line_def scan_record_def note_scan_def opt_add_def Let_def)
qed

lemma scan_lines_records:
  assumes "stream_records mb (map PyStr ls) es"
  shows "scan_lines strict ls st = Inr (foldl note_scan st es)"
  using assms
proof (induction ls arbitrary: es st)
  case (Cons l ls)
  show ?case
  proof (cases "blank (PyStr l)")
    case True
    then have "scan_line strict l st = Inr st" by (simp add: blank_def line_strip_def line_length_def scan_line_def)
    with True Cons show ?thesis by (simp add: stream_records_def)
  next
    case False
    with Cons.prems obtain e es' where "es = e # es'" "line_record mb (PyStr l) e" "stream_records mb (map PyStr ls) es'"
      by (auto simp: stream_records_def list_all2_Cons1)
    with Cons.IH scan_line_record [OF _ False] show ?thesis by simp
  qed
qed (simp add: stream_records_def)

text \<open>The stripped lines the collector gets hold the same records.\<close>

lemma strip_strip [simp]: "strip (strip s) = strip s"
proof -
  have "\<not> py_space (hd (strip s)) \<and> \<not> py_space (last (strip s))" if "strip s \<noteq> []"
  proof -
    let ?d = "dropWhile py_space s"
    have "last (strip s) = hd (dropWhile py_space (rev ?d))" "dropWhile py_space (rev ?d) \<noteq> []"
      using that by (simp_all add: strip_def last_rev)
    moreover have "hd (strip s) = hd ?d"
    proof -
      obtain w where "?d = strip s @ w"
        by (metis rev_append rev_rev_ident strip_def takeWhile_dropWhile_id)
      with that show ?thesis by simp
    qed
    moreover have "?d \<noteq> []" using that by (metis dropWhile.simps(1) rev.simps(1) strip_def)
    ultimately show ?thesis using hd_dropWhile [of py_space] by metis
  qed
  then show ?thesis by (intro strip_id) blast
qed

lemma stripped_records:
  "stream_records mb (map PyStr (filter (\<lambda>t. t \<noteq> []) (map strip ls))) es = stream_records mb (map PyStr ls) es"
proof -
  have b: "blank (PyStr l) \<longleftrightarrow> strip l = []" for l by (simp add: blank_def line_strip_def line_length_def)
  have "filter (\<lambda>l. \<not> blank l) (map PyStr (filter (\<lambda>t. t \<noteq> []) (map strip ls)))
      = map (PyStr \<circ> strip) (filter (\<lambda>l. strip l \<noteq> []) ls)"
    by (induction ls) (simp_all add: b)
  moreover have "filter (\<lambda>l. \<not> blank l) (map PyStr ls) = map PyStr (filter (\<lambda>l. strip l \<noteq> []) ls)"
    by (induction ls) (simp_all add: b)
  moreover have "line_record mb (PyStr (strip l)) e = line_record mb (PyStr l) e" for l e
    by (simp add: line_record_def line_strip_def)
  ultimately show ?thesis by (simp add: stream_records_def list_all2_map1 list.rel_map)
qed

text \<open>The summary of one node's chain.\<close>

lemma foldl_note_scan:
  assumes "chain_from sha3 prev (int n) es" "\<forall>e\<in>set es. node_id e = nid" "0 < n \<or> es \<noteq> []"
    and "sc_first st = (if n = 0 then None else Some 1)" "sc_last st = (if n = 0 then None else Some (int n))"
    and "sc_count st = n" "set (sc_nodes st) \<subseteq> {nid}"
  shows "sc_first (foldl note_scan st es) = Some 1 \<and> sc_last (foldl note_scan st es) = Some (int (n + length es))
    \<and> sc_count (foldl note_scan st es) = n + length es
    \<and> sc_hash (foldl note_scan st es) = (if es = [] then sc_hash st else event_hash (last es))
    \<and> set (sc_nodes (foldl note_scan st es)) \<subseteq> {nid}
    \<and> (sc_nodes (foldl note_scan st es) = [] \<longrightarrow> sc_nodes st = [] \<and> es = [])
    \<and> sc_trust (foldl note_scan st es) = sc_trust st"
  using assms
proof (induction es arbitrary: st prev n)
  case (Cons e es)
  have e: "sequence e = int (Suc n)" "chain_from sha3 (event_hash e) (int (Suc n)) es" "node_id e = nid"
    using Cons.prems(1,2) by (simp_all add: algebra_simps)
  let ?st = "note_scan st e"
  have st: "sc_first ?st = Some 1" "sc_last ?st = Some (int (Suc n))" "sc_count ?st = Suc n" "set (sc_nodes ?st) \<subseteq> {nid}"
    "sc_nodes ?st \<noteq> []" "sc_hash ?st = event_hash e" "sc_trust ?st = sc_trust st"
    using Cons.prems(4-7) e by (auto simp: note_scan_def)
  from Cons.IH [OF e(2), of ?st] st Cons.prems(2) show ?case by auto
qed auto

section \<open>The summary against the records\<close>

definition archive_verifier :: "registry \<Rightarrow> EvidenceVerifier" where
  "archive_verifier reg = \<lparr>v_registry = reg, v_backend = None, v_allow_test = False,
                           max_record_bytes = int MAX_EVIDENCE_BYTES\<rparr>"

lemma archive_collector_eq:
  "archive_collector reg None
    = Inr \<lparr>c_verifier = archive_verifier reg, max_results = 10000, c_max_record_bytes = int MAX_EVIDENCE_BYTES\<rparr>"
  by (simp add: archive_collector_def new_collector_def new_verifier_def archive_verifier_def
      MAX_EVIDENCE_BYTES_def MAX_EVIDENCE_BYTES_CEILING_def)

lemma sorted_single:
  assumes "length (sort (remdups xs)) = 1"
  shows "set xs = {hd (sort (remdups xs))}"
proof -
  obtain x where x: "sort (remdups xs) = [x]" using assms by (auto simp: length_Suc_conv)
  then have "set xs = {x}" by (metis list.simps(15) list.set(1) set_remdups set_sort)
  with x show ?thesis by simp
qed

text \<open>The nodes the scan collects are those of the records.\<close>

lemma foldl_note_nodes: "sc_nodes (foldl note_scan st es) = sc_nodes st @ map node_id es"
  by (induction es arbitrary: st) (simp_all add: note_scan_def)

text \<open>
  What a summary that agrees with a manifest says of the records: one node, its whole chain, and the
  counters and hash of the manifest.
\<close>

definition describes :: "platform \<Rightarrow> EvidenceVerifier \<Rightarrow> ArchiveManifest \<Rightarrow> SignedEvent list \<Rightarrow> bool" where
  "describes pf v m es \<longleftrightarrow> es \<noteq> [] \<and>
     (\<forall>e\<in>set es. record_verified pf v e \<and> am_node_id m = PyStr (node_id e)) \<and>
     chain (sha3_256 pf) (node_id (hd es)) es \<and>
     am_event_count m = int (length es) \<and> am_first_sequence m = 1 \<and> am_last_sequence m = int (length es) \<and>
     am_chain_final_hash m = PyStr (event_hash (last es))"

lemma summary_describes:
  assumes "evidence_ok pf v es" "es \<noteq> []" "su = summary_of (foldl note_scan new_scan es)"
    and "\<not> manifest_mismatch su m" "length (su_nodes su) = 1"
  shows "describes pf v m es"
proof -
  define nid where "nid = node_id (hd es)"
  have "su_nodes su = sort (remdups (map node_id es))"
    unfolding assms(3) by (simp add: summary_of_def foldl_note_nodes, simp add: new_scan_def)
  then have "set (map node_id es) = {hd (su_nodes su)}" using sorted_single assms(5) by metis
  then have one: "\<forall>e\<in>set es. node_id e = nid" "hd (su_nodes su) = nid"
    using assms(2) unfolding nid_def by (metis hd_in_set image_eqI image_set singletonD)+
  then have "su_nodes su = [nid]" using assms(5) by (cases "su_nodes su") auto
  then have nid: "am_node_id m = PyStr nid" using assms(4) by (simp add: manifest_mismatch_def)
  have "of_node nid es = es" using one(1) by (simp add: of_node_def)
  then have ch: "chain (sha3_256 pf) nid es"
    using assms(1) hd_in_set [OF assms(2)] unfolding evidence_ok_def nid_def by (metis imageI)
  then obtain g where "chain_from (sha3_256 pf) g (int 0) es" by (auto simp: chain_def split: sum.splits)
  from foldl_note_scan [OF this one(1), of new_scan] assms(2)
  have "su_first su = 1" "su_last su = int (length es)" "su_count su = length es" "su_final_hash su = event_hash (last es)"
    unfolding assms(3) by (simp_all add: summary_of_def new_scan_def)
  moreover have "am_event_count m = int (su_count su)" "am_first_sequence m = su_first su"
      "am_last_sequence m = su_last su" "am_chain_final_hash m = PyStr (su_final_hash su)"
    using assms(4) by (simp_all add: manifest_mismatch_def)
  moreover have "\<forall>e\<in>set es. record_verified pf v e" using assms(1) by (simp add: evidence_ok_def)
  ultimately show ?thesis using assms(2) nid one(1) ch by (simp add: describes_def nid_def [symmetric])
qed

text \<open>What \<^verbatim>\<open>summarise_evidence\<close> establishes when its trust flags are set.\<close>

lemma summarise_trusted:
  assumes "summarise_evidence pf raw (Some reg) False None = Inr (su, et)"
    and "evidence_format_valid et" "evidence_signatures_verified et" "evidence_chain_verified et"
    and "tr_verification et = Some rep" "pqc_malformed_evidence \<notin> alerts_of rep"
  shows "\<exists>es. stream_records MAX_EVIDENCE_BYTES (map PyStr (evidence_lines raw)) es \<and> es \<noteq> []
    \<and> evidence_ok pf (archive_verifier reg) es \<and> su = summary_of (foldl note_scan new_scan es)"
proof -
  let ?c = "\<lparr>c_verifier = archive_verifier reg, max_results = 10000, c_max_record_bytes = int MAX_EVIDENCE_BYTES\<rparr>"
  let ?ls = "map PyStr (filter (\<lambda>t. t \<noteq> []) (map strip (evidence_lines raw)))"
  obtain st rep' where s: "scan_lines False (evidence_lines raw) new_scan = Inr st" "verify_stream pf ?c ?ls = Inr rep'"
      "su = summary_of st" "et = report_trust False su rep' (sc_trust st)"
    using assms(1) by (auto simp: summarise_evidence_def rbind_Inr_iff archive_collector_eq)
  have rep: "rep' = rep" "malformed_count rep = 0" "total rep > 0"
      "set SIGNATURE_ALERTS \<inter> alerts_of rep = {}" "set CHAIN_ALERTS \<inter> alerts_of rep = {}"
    using s(4) assms(2-5) by (simp_all add: report_trust_def alerts_of_def)
  have valid: "sr_valid rep" using trusted_report_valid [OF s(2) [unfolded rep(1)] rep(2,4,5) assms(6)] .
  obtain rep0 trk where r: "collect_lines pf ?c (new_report, []) ?ls = Inr (rep0, trk)"
      "rep = rep0\<lparr>nodes := map (\<lambda>(n, t). (n, summary t)) trk\<rparr>"
    using s(2) rep(1) by (auto simp: verify_stream_def rbind_Inr_iff)
  obtain es where es: "stream_records MAX_EVIDENCE_BYTES ?ls es" "state_ok pf (archive_verifier reg) es rep0 trk"
    using collect_lines_sound [OF state_ok_init r(1)] valid r(2) by (auto simp: archive_verifier_def)
  have sr: "stream_records MAX_EVIDENCE_BYTES (map PyStr (evidence_lines raw)) es"
    using es(1) unfolding stripped_records .
  moreover have "st = foldl note_scan new_scan es" using scan_lines_records [OF sr] s(1) by simp
  moreover have "es \<noteq> []" using es(2) rep(3) r(2) by (auto simp: state_ok_def)
  ultimately show ?thesis using es(2) s(3) by (auto simp: state_ok_def)
qed

section \<open>What decryption delivers\<close>

text \<open>
  Plaintext that passed every check: the tag over the whole member and the canonical manifest, the
  size limit, and the digest and length of the manifest.
\<close>

definition authentic :: "'s archive_lib \<Rightarrow> platform \<Rightarrow> decrypt_request \<Rightarrow> ArchiveManifest \<Rightarrow> bytes \<Rightarrow> bool" where
  "authentic lib pf rq m out \<longleftrightarrow>
     (\<exists>z info cx cs tag rest.
        dr_archive rq = Some z \<and> open_archive lib pf rq z (dr_max_archive rq) = Inr (m, info, gx_key cx, gx_nonce cx) \<and>
        authenticated_data m = Inr (gx_aad cx) \<and>
        concat cs @ tag = take (ze_size info) (ze_data info) \<and> gcm_check lib cx cs tag = Some rest \<and>
        inflate_body lib (dr_max_plaintext rq) (gcm_stream lib cx False [] cs @ rest) = Some (None, out)) \<and>
     int (length out) \<le> dr_max_plaintext rq \<and>
     am_plaintext_sha3_256 m = PyStr (sha3_hex lib out) \<and> am_plaintext_length m = int (length out)"

lemma positive_Inr: "positive v = Inr i \<longleftrightarrow> v = PyInt i \<and> 0 < i"
  by (auto simp: positive_def require_Inr_iff split: pyval.splits)

lemma open_archive_tag:
  assumes "open_archive lib pf rq z mx = Inr (m, info, key, nonce)"
  shows "GCM_TAG_BYTES \<le> ze_size info"
proof -
  obtain es where "read_manifest_and_open_ciphertext es mx = Inr (m, info)"
    using assms unfolding open_archive_def by (auto simp only: res_iff split: prod.splits)
  then show ?thesis unfolding read_manifest_and_open_ciphertext_def Let_def by (auto simp only: res_iff)
qed

lemma stream_decrypt_checked:
  assumes "stream_decrypt lib env info m key nonce limit va = Some (Inr (n, h), va')" "GCM_TAG_BYTES \<le> ze_size info" "0 \<le> limit"
  shows "\<exists>out aad cs tag rest. authenticated_data m = Inr aad \<and> concat cs @ tag = take (ze_size info) (ze_data info)
    \<and> gcm_check lib \<lparr>gx_key = key, gx_nonce = nonce, gx_aad = aad\<rparr> cs tag = Some rest
    \<and> inflate_body lib limit (gcm_stream lib \<lparr>gx_key = key, gx_nonce = nonce, gx_aad = aad\<rparr> False [] cs @ rest) = Some (None, out)
    \<and> n = length out \<and> h = sha3_hex lib out \<and> int (length out) \<le> limit
    \<and> va_plain_tmp va' = Some out \<and> va_destination va' = va_destination va"
proof -
  obtain aad body out where a: "authenticated_data m = Inr aad"
      "decrypt_body lib \<lparr>gx_key = key, gx_nonce = nonce, gx_aad = aad\<rparr> info = Inr body"
      "inflate_body lib limit body = Some (None, out)" "n = length out" "h = sha3_hex lib out"
      "va' = va\<lparr>va_plain_tmp := Some out, va_body_tmp := unlinked env (Some body)\<rparr>"
    using assms(1) by (auto simp: stream_decrypt_def aesgcm_streaming_def rbind_Inr_iff require_Inr_iff
        split: sum.splits option.splits prod.splits)
  from decrypt_body_authentic [OF a(2) assms(2)] inflate_body_bound [OF a(3) assms(3)] a show ?thesis by auto
qed

lemma stream_decrypt_files:
  assumes "stream_decrypt lib env info m key nonce limit va = Some (r, va')" "va_body_tmp va = None"
  shows "va_destination va' = va_destination va" "\<not> ve_unlink_fails env \<Longrightarrow> va_body_tmp va' = None"
  using assms by (auto simp: stream_decrypt_def unlinked_def split: sum.splits option.splits)

lemma decrypt_archive_cases:
  assumes "decrypt_archive lib pf env rq va = Some (r, va')" "va_plain_tmp va = None" "va_body_tmp va = None"
  shows "(case r of
      Inr (m, w, t) \<Rightarrow> w = dr_output rq \<and> container_authenticated t \<and> plaintext_hash_verified t
        \<and> (\<exists>out. authentic lib pf rq m out \<and> va_destination va' = (if w then Some out else va_destination va))
    | Inl e \<Rightarrow> va_destination va' = va_destination va
        \<or> (ve_chmod_fails env \<and> (\<exists>m out. authentic lib pf rq m out \<and> va_destination va' = Some out)))
    \<and> (\<not> ve_unlink_fails env \<longrightarrow> va_plain_tmp va' = None \<and> va_body_tmp va' = None)"
proof -
  let ?va1 = "va\<lparr>va_plain_tmp := Some []\<rparr>"
  consider (refused) e where "r = Inl e" "va' = va"
    | (unopened) e where "r = Inl e" "va' = va\<lparr>va_plain_tmp := unlinked env (Some [])\<rparr>"
    | (failed) z m info key nonce e va2 where "r = Inl (bad_zip e)" "va' = va2\<lparr>va_plain_tmp := unlinked env (va_plain_tmp va2)\<rparr>"
        "stream_decrypt lib env info m key nonce (dr_max_plaintext rq) ?va1 = Some (Inl e, va2)"
    | (delivered) z m info key nonce n h va2 where "dr_archive rq = Some z" "0 < dr_max_plaintext rq"
        "open_archive lib pf rq z (dr_max_archive rq) = Inr (m, info, key, nonce)"
        "stream_decrypt lib env info m key nonce (dr_max_plaintext rq) ?va1 = Some (Inr (n, h), va2)"
        "(r, va') = deliver env rq m n h va2"
    using assms(1) by (auto simp: decrypt_archive_def rbind_Inr_iff require_Inr_iff positive_Inr
        split: sum.splits option.splits prod.splits)
  then show ?thesis
  proof cases
    case delivered
    obtain out aad cs tag rest where o: "authenticated_data m = Inr aad" "concat cs @ tag = take (ze_size info) (ze_data info)"
      "gcm_check lib \<lparr>gx_key = key, gx_nonce = nonce, gx_aad = aad\<rparr> cs tag = Some rest"
      "inflate_body lib (dr_max_plaintext rq) (gcm_stream lib \<lparr>gx_key = key, gx_nonce = nonce, gx_aad = aad\<rparr> False [] cs @ rest) = Some (None, out)"
      "n = length out" "h = sha3_hex lib out" "int (length out) \<le> dr_max_plaintext rq"
      "va_plain_tmp va2 = Some out" "va_destination va2 = va_destination va"
      using stream_decrypt_checked [OF delivered(4) open_archive_tag [OF delivered(3)]] delivered(2) by auto
    have auth: "authentic lib pf rq m out" if "PyStr h = am_plaintext_sha3_256 m" "int n = am_plaintext_length m"
      unfolding authentic_def using delivered(1,3) o that
      by (intro conjI exI [of _ z] exI [of _ info] exI [of _ "\<lparr>gx_key = key, gx_nonce = nonce, gx_aad = aad\<rparr>"]
          exI [of _ cs] exI [of _ tag] exI [of _ rest]) simp_all
    have "\<not> ve_unlink_fails env \<Longrightarrow> va_body_tmp va2 = None"
      using stream_decrypt_files(2) [OF delivered(4)] assms(3) by simp
    with auth o(8,9) delivered(5) show ?thesis
      by (auto simp: deliver_def Let_def unlinked_def split: if_splits)
  qed (use assms(2,3) in \<open>auto simp: unlinked_def dest: stream_decrypt_files\<close>)
qed

section \<open>Properties\<close>


lemma stream_decrypt_returns:
  assumes "zlib_progress lib" "0 \<le> limit"
  shows "stream_decrypt lib env info m key nonce limit va \<noteq> None"
proof -
  have "inflate_body lib limit body \<noteq> None" for body using inflate_body_returns [OF assms] by auto
  then show ?thesis by (auto simp: stream_decrypt_def simp del: not_None_eq split: sum.splits option.splits)
qed

lemma decrypt_archive_returns: "zlib_progress lib \<Longrightarrow> decrypt_archive lib pf env rq va \<noteq> None"
  by (auto simp: decrypt_archive_def rbind_Inr_iff require_Inr_iff positive_Inr Let_def stream_decrypt_returns
      split: sum.splits option.splits prod.splits)

text \<open>
  \<^bold>\<open>C22\<close>. Reading an archive ends. Whatever the archive holds, decryption and verification return
  (with a result or an exception) for every decompressor that leaves input unconsumed only when it
  has produced output; the size limit bounds the number of rounds, so a decompression bomb does not
  keep the loop busy.
\<close>

theorem archive_reading_terminates:
  assumes "zlib_progress lib"
  shows "(\<exists>y. decrypt_archive lib pf env rq va = Some y) \<and> (\<exists>y. verify_archive lib pf env rq have_key reg = Some y)"
proof -
  have d: "decrypt_archive lib pf env rq' va' \<noteq> None" for rq' va' using decrypt_archive_returns [OF assms] .
  then have "verify_contents lib pf env rq reg t \<noteq> None" for t
    by (auto simp: verify_contents_def Let_def split: option.split sum.split prod.split exn.split)
  then have "verify_archive lib pf env rq have_key reg \<noteq> None"
    by (auto simp: verify_archive_def Let_def simp del: not_None_eq split: option.split sum.split prod.split exn.split)
  with d show ?thesis by blast
qed

text \<open>
  \<^bold>\<open>C5\<close>. What \<^verbatim>\<open>fully_verified\<close> means. The enclosed plaintext passed the tag and digest checks, and
  its lines are records that all verify against the registry and form the unbroken chain of one
  node from its genesis value; the manifest names that node and states its number of records,
  first and last number and last hash. This holds unless the verification report lists the alert
  \<^verbatim>\<open>pqc_malformed_evidence\<close>, which none of the six facts takes into account.
\<close>

theorem fully_verified_archive:
  assumes "verify_archive lib pf env rq True (Some reg) = Some (Inr rep)" "fully_verified (ar_trust rep)"
    and "tr_verification (ar_trust rep) = Some vr" "pqc_malformed_evidence \<notin> alerts_of vr"
  shows "\<exists>m out es. ar_manifest rep = Some m \<and> authentic lib pf (rq\<lparr>dr_output := True, dr_overwrite := True\<rparr>) m out
    \<and> stream_records MAX_EVIDENCE_BYTES (map PyStr (evidence_lines out)) es
    \<and> describes pf (archive_verifier reg) m es"
proof -
  let ?rq = "rq\<lparr>dr_output := True, dr_overwrite := True\<rparr>"
  obtain T where T: "ar_trust rep = T" by simp
  note fv = assms(2) [unfolded T]
  obtain z es m0 info where m0: "dr_archive rq = Some z" "zip_open z = Inr es"
      "read_manifest_and_open_ciphertext es (dr_max_archive rq) = Inr (m0, info)" "ar_manifest rep = Some m0"
    and t: "verify_contents lib pf env rq (Some reg) new_trust = Some (Inr T)"
    using assms(1) fv T by (auto simp: verify_archive_def Let_def rbind_Inr_iff fully_verified_def trust_fail_def new_trust_def
        split: option.splits sum.splits prod.splits exn.splits if_splits)
  obtain m w dt va su et where d: "decrypt_archive lib pf env ?rq \<lparr>va_destination = None, va_plain_tmp = None, va_body_tmp = None\<rparr>
        = Some (Inr (m, w, dt), va)"
      "summarise_evidence pf (case va_destination va of None \<Rightarrow> [] | Some b \<Rightarrow> b) (Some reg) False None = Inr (su, et)"
      "T = judge_evidence su et m (new_trust\<lparr>container_authenticated := container_authenticated dt,
         plaintext_hash_verified := plaintext_hash_verified dt\<rparr>)"
    using t fv by (auto simp: verify_contents_def Let_def fully_verified_def trust_fail_def new_trust_def
        split: option.splits sum.splits prod.splits exn.splits)
  from decrypt_archive_cases [OF d(1)] have "w" by simp
  with decrypt_archive_cases [OF d(1)] obtain out where out: "authentic lib pf ?rq m out" "va_destination va = Some out"
    by (simp only: sum.case prod.case if_True vault.simps simp_thms) blast
  have "m = m0" using out(1) m0 by (auto simp: authentic_def open_archive_def rbind_Inr_iff require_Inr_iff)
  have j: "evidence_format_valid et" "evidence_signatures_verified et" "evidence_chain_verified et" "tr_verification et = Some vr"
      "\<not> manifest_mismatch su m" "length (su_nodes su) = 1"
    using fv assms(3) [unfolded T] unfolding d(3) by (auto simp: judge_evidence_def fully_verified_def Let_def trust_fail_def split: if_splits)
  have "summarise_evidence pf out (Some reg) False None = Inr (su, et)" using d(2) out(2) by simp
  from summarise_trusted [OF this j(1-4) assms(4)]
  obtain fs where fs: "stream_records MAX_EVIDENCE_BYTES (map PyStr (evidence_lines out)) fs" "fs \<noteq> []"
      "evidence_ok pf (archive_verifier reg) fs" "su = summary_of (foldl note_scan new_scan fs)" by auto
  from summary_describes [OF fs(3,2,4) j(5,6)] fs(1) out(1) m0(4) \<open>m = m0\<close> show ?thesis by blast
qed

end
