(* ===== verification/ArchiveRoundtrip.thy ===== *)
theory ArchiveRoundtrip
  imports ArchiveReading
begin

text \<open>
  Creation and reading of archives together. Shown: what was archived is decrypted to the same bytes;
  strict creation accepts only the complete, verified chain of the named node; and a strictly created
  archive is reported fully verified by whoever holds the key and the same registry.
\<close>

section \<open>Strict creation\<close>

lemma record_result_failed: "failed (record_result mr rep r) = failed rep"
  by (simp add: record_result_def Let_def)

text \<open>A report without failures is valid, and a valid report has no alerts.\<close>

definition quiet :: "StreamReport \<Rightarrow> bool" where
  "quiet rep \<longleftrightarrow> (failed rep = 0 \<longrightarrow> sr_valid rep) \<and> (sr_valid rep \<longrightarrow> alerts_of rep = {} \<and> malformed_count rep = 0)"

definition silent :: "VerificationResult \<Rightarrow> bool" where
  "silent r \<longleftrightarrow> clean_result r \<and> warnings r = []"

lemma warnings_add_error [simp]: "warnings (add_error a r) = warnings r"
  by (simp add: add_error_def)

lemma warnings_add_errors: "warnings (foldl (\<lambda>r a. add_error a r) r as) = warnings r"
  by (induction "as" arbitrary: r) simp_all

lemma warnings_checks:
  "check_event_hash pf e r = Inr r' \<Longrightarrow> warnings r' = warnings r"
  "check_key v e r = Inr r' \<Longrightarrow> warnings r' = warnings r"
  "check_signature pf v e r = Inr r' \<Longrightarrow> warnings r' = warnings r"
  "check_chain pf e p r = Inr r' \<Longrightarrow> warnings r' = warnings r"
  by (auto simp: check_event_hash_def check_key_def check_signature_def check_chain_def check_sequence_def Let_def
      rbind_Inr_iff warnings_add_errors split: if_splits option.splits sum.splits)

lemma verify_line_silent:
  assumes "verify_line pf v l = Inr (r, Some e)"
  shows "silent r"
proof -
  obtain e' where "verify_event pf v e' None = Inr r"
    using assms by (auto simp: verify_line_def rbind_Inr_iff split: sum.splits exn.splits)
  then have "warnings r = []"
    by (auto simp: verify_event_def rbind_Inr_iff dest!: warnings_checks)
  with verify_line_clean [OF assms] show ?thesis by (simp add: silent_def)
qed

lemma collect_event_quiet:
  assumes "collect_event pf c rep trk r e = Inr (rep', trk')" "silent r" "quiet rep"
  shows "quiet rep'"
proof -
  define t where "t = (case map_of trk (node_id e) of Some t \<Rightarrow> t | None \<Rightarrow> new_tracker (node_id e))"
  obtain as t1 where n: "note_event t e = (as, t1)" by fastforce
  obtain r1 where r1: "check_chain pf e (position t) r = Inr r1"
      "rep' = record_result (nat (max_results c)) (if valid (foldl (\<lambda>r a. add_error a r) r1 as)
         then rep\<lparr>verified := verified rep + 1\<rparr> else rep\<lparr>failed := failed rep + 1, sr_valid := False\<rparr>)
         (foldl (\<lambda>r a. add_error a r) r1 as)"
    using assms(1) n by (auto simp: collect_event_def rbind_Inr_iff Let_def t_def [symmetric])
  define r2 where "r2 = foldl (\<lambda>r a. add_error a r) r1 as"
  have "clean_result r2" "warnings r2 = []"
    using check_chain_clean [OF r1(1)] warnings_checks(4) [OF r1(1)] assms(2) note_not_oversized [of t e] n
    by (auto simp: r2_def silent_def warnings_add_errors intro: clean_add_errors)
  then have "valid r2 \<Longrightarrow> errors r2 = []" by (simp add: clean_result_def)
  with assms(3) r1(2) \<open>warnings r2 = []\<close> show ?thesis
    by (auto simp: quiet_def r2_def [symmetric] record_result_malformed record_result_alerts record_result_failed)
qed

lemma collect_line_quiet:
  assumes "collect_line pf c (rep, trk) l = Inr (rep', trk')" "quiet rep"
  shows "quiet rep'"
proof -
  have "quiet (fail_malformed mr rep0 r)" for mr rep0 r
    by (simp add: quiet_def fail_malformed_def record_result_failed)
  moreover have "quiet (rep\<lparr>total := total rep + 1\<rparr>)" using assms(2) by (simp add: quiet_def)
  ultimately show ?thesis
    using assms by (auto simp: collect_line_def rbind_Inr_iff Let_def split: if_splits option.splits
        dest!: collect_event_quiet verify_line_silent)
qed

lemma collect_lines_quiet:
  "\<lbrakk>collect_lines pf c (rep, trk) ls = Inr (rep', trk'); quiet rep\<rbrakk> \<Longrightarrow> quiet rep'"
  by (induction ls arbitrary: rep trk) (auto simp: rbind_Inr_iff dest: collect_line_quiet)

lemma verify_stream_quiet: "verify_stream pf c ls = Inr rep \<Longrightarrow> quiet rep"
  using collect_lines_quiet [of pf c new_report "[]" ls]
  by (auto simp: verify_stream_def rbind_Inr_iff quiet_def alerts_of_def new_report_def)

text \<open>The records of a strictly inspected file.\<close>

definition strict_evidence :: "platform \<Rightarrow> registry \<Rightarrow> bytes \<Rightarrow> evidence_summary \<Rightarrow> SignedEvent list \<Rightarrow> bool" where
  "strict_evidence pf reg raw su es \<longleftrightarrow>
     stream_records MAX_EVIDENCE_BYTES (map PyStr (evidence_lines raw)) es \<and> es \<noteq> [] \<and>
     evidence_ok pf (archive_verifier reg) es \<and> su = summary_of (foldl note_scan new_scan es) \<and>
     length (su_nodes su) = 1 \<and>
     (\<exists>et. summarise_evidence pf raw (Some reg) False None = Inr (su, et) \<and> evidence_format_valid et \<and>
       evidence_signatures_verified et \<and> evidence_chain_verified et \<and>
       (\<exists>vr. tr_verification et = Some vr \<and> alerts_of vr = {}))"

lemma strict_trust_errors:
  "tr_errors (report_trust True su rep t) = [] \<Longrightarrow>
   total rep \<noteq> 0 \<and> malformed_count rep = 0 \<and> failed rep = 0 \<and> length (su_nodes su) \<le> 1"
  by (auto simp: report_trust_def Let_def trust_fail_def split: if_splits)

lemma summarise_strict:
  assumes "summarise_evidence pf raw (Some reg) True None = Inr (su, t)" "tr_errors t = []"
  shows "\<exists>es. strict_evidence pf reg raw su es"
proof -
  let ?c = "\<lparr>c_verifier = archive_verifier reg, max_results = 10000, c_max_record_bytes = int MAX_EVIDENCE_BYTES\<rparr>"
  let ?ls = "map PyStr (filter (\<lambda>t. t \<noteq> []) (map strip (evidence_lines raw)))"
  obtain st rep where s: "scan_lines True (evidence_lines raw) new_scan = Inr st" "verify_stream pf ?c ?ls = Inr rep"
      "su = summary_of st" "t = report_trust True su rep (sc_trust st)"
    using assms(1) by (auto simp: summarise_evidence_def rbind_Inr_iff archive_collector_eq)
  have rep: "total rep \<noteq> 0" "malformed_count rep = 0" "failed rep = 0" "length (su_nodes su) \<le> 1"
    using strict_trust_errors assms(2) s(4) by auto
  have q: "sr_valid rep" "alerts_of rep = {}" using verify_stream_quiet [OF s(2)] rep(3) by (auto simp: quiet_def)
  obtain rep0 trk where r: "collect_lines pf ?c (new_report, []) ?ls = Inr (rep0, trk)"
      "rep = rep0\<lparr>nodes := map (\<lambda>(n, t). (n, summary t)) trk\<rparr>"
    using s(2) by (auto simp: verify_stream_def rbind_Inr_iff)
  obtain es where es: "stream_records MAX_EVIDENCE_BYTES ?ls es" "state_ok pf (archive_verifier reg) es rep0 trk"
    using collect_lines_sound [OF state_ok_init r(1)] q(1) r(2) by (auto simp: archive_verifier_def)
  have sr: "stream_records MAX_EVIDENCE_BYTES (map PyStr (evidence_lines raw)) es"
    using es(1) unfolding stripped_records .
  have ne: "es \<noteq> []" using es(2) rep(1) r(2) by (auto simp: state_ok_def)
  have su: "su = summary_of (foldl note_scan new_scan es)" using scan_lines_records [OF sr] s(1,3) by simp
  have "su_nodes su \<noteq> []" using ne unfolding su by (simp add: summary_of_def foldl_note_nodes flip: set_empty)
  then have one: "length (su_nodes su) = 1" using rep(4) by (cases "su_nodes su") auto
  let ?et = "report_trust False su rep (sc_trust (foldl note_scan new_scan es))"
  have "summarise_evidence pf raw (Some reg) False None = Inr (su, ?et)"
    using scan_lines_records [OF sr] s(2) su by (simp add: summarise_evidence_def archive_collector_eq)
  moreover have "evidence_format_valid ?et \<and> evidence_signatures_verified ?et \<and> evidence_chain_verified ?et
      \<and> (\<exists>vr. tr_verification ?et = Some vr \<and> alerts_of vr = {})"
    using rep q(2) by (simp add: report_trust_def alerts_of_def)
  ultimately show ?thesis using sr ne su one es(2) unfolding strict_evidence_def state_ok_def by blast
qed

lemma check_evidence_strict:
  assumes "check_evidence pf rq raw = Inr (su, t)" "cr_require_valid rq" "cr_registry rq = Some reg"
  shows "\<exists>es. strict_evidence pf reg raw su es \<and> hd (su_nodes su) = cr_node_id rq"
proof -
  have "summarise_evidence pf raw (Some reg) True None = Inr (su, t)" "tr_errors t = []"
      "su_nodes su = [] \<or> hd (su_nodes su) = cr_node_id rq"
    using assms by (auto simp: check_evidence_def rbind_Inr_iff require_Inr_iff)
  with summarise_strict [OF this(1,2)] show ?thesis by (auto simp: strict_evidence_def)
qed

section \<open>Reading back what was written\<close>

lemma b64_read_back: "b \<noteq> [] \<Longrightarrow> unb64 (PyStr (b64encode b)) = Inr b"
  using b64.dec_enc [of b] by (auto simp: unb64_def require_def)

text \<open>A manifest that was authenticated consists of text with a UTF-8 form.\<close>

lemma authenticated_text:
  assumes "authenticated_data m = Inr aad" "(KStr k, PyStr s) \<in> set (manifest_dict m)"
  shows "list_all scalar s"
proof -
  have "check 0 (PyDict (manifest_dict m)) = Inr ()"
    using assms(1) by (auto simp: authenticated_data_def canonical_bytes_Inr)
  then have "check_items 1 (manifest_dict m) = Inr ()" by (simp add: check.simps [of 0] require_Inr_iff)
  moreover have "check_items n d = Inr () \<Longrightarrow> (KStr k, PyStr s) \<in> set d \<Longrightarrow> check_string s = Inr ()" for d n
    by (induction d) (auto simp: rbind_Inr_iff check.simps [of n] require_Inr_iff split: pykey.splits)
  ultimately show ?thesis using assms(2) by fastforce
qed

lemma new_manifest_text:
  assumes "m = new_manifest lib rq env su raw enc n z" "authenticated_data m = Inr aad" "cr_metadata rq = None"
    and "0 \<le> am_first_sequence m" "0 \<le> am_last_sequence m" "0 \<le> n"
  shows "text_manifest m"
proof -
  have t: "text_field (PyStr s)" if "(KStr k, PyStr s) \<in> set (manifest_dict m)" for k s
    using authenticated_text [OF assms(2) that] by (simp add: text_field_def)
  have "text_field (am_node_id m)" "text_field (am_key_id m)" "text_field (am_created_at m)" "text_field (am_chain_final_hash m)"
    "text_field (am_plaintext_sha3_256 m)" "text_field (am_encapsulated_key m)" "text_field (am_hkdf_salt m)" "text_field (am_nonce m)"
    by (auto simp: assms(1) new_manifest_def intro!: t simp: manifest_dict_def)
  with assms(3-6) show ?thesis by (auto simp: assms(1) text_manifest_def new_manifest_def)
qed

text \<open>The two members as they were written are the ones the reader accepts.\<close>

definition members :: "bytes \<Rightarrow> bytes \<Rightarrow> zip_entry list" where
  "members text ciphertext = [plain_entry MANIFEST_ENTRY text, plain_entry CIPHERTEXT_ENTRY ciphertext]"

lemma members_open:
  assumes "text_manifest m" "rbind (dumps_indent 0 (PyDict (manifest_dict m))) utf8_encode = Inr text"
    and "length text \<le> MAX_MANIFEST_BYTES" "int (length ciphertext) \<le> mx"
    and "am_ciphertext_length m = int (length ciphertext)" "GCM_TAG_BYTES \<le> length ciphertext"
  shows "read_manifest_and_open_ciphertext (members text ciphertext) mx = Inr (m, plain_entry CIPHERTEXT_ENTRY ciphertext)"
proof -
  obtain t where t: "dumps_indent 0 (PyDict (manifest_dict m)) = Inr t" "utf8_encode t = Inr text"
    using assms(2) by (auto simp: rbind_Inr_iff)
  then have "utf8_decode text = Inr t" using utf8.dec_enc [OF _ t(2)] by (auto simp: utf8_encode_def split: if_splits)
  moreover obtain v where "json_loads t = Inr v" "manifest_from_dict v = Inr m"
    using text_manifest_read_back [OF assms(1) t(1)] by (auto simp: rbind_Inr_iff)
  ultimately show ?thesis
    using assms(3-6)
    by (simp add: read_manifest_and_open_ciphertext_def members_def plain_entry_def zip_info_def entry_read_def
        EXPECTED_ENTRIES_def MANIFEST_ENTRY_def CIPHERTEXT_ENTRY_def plain_name_def basename_def)
qed

lemma count_chunks: "int (length raw) \<le> limit \<Longrightarrow> count_limited limit 0 (chunks CHUNK_BYTES raw) = Inr (int (length raw))"
  using count_limited_all [of 0 "chunks CHUNK_BYTES raw" limit] by simp

text \<open>What a successful creation went through.\<close>

definition sealed ::
  "'s archive_lib \<Rightarrow> platform \<Rightarrow> create_env \<Rightarrow> create_request \<Rightarrow> ArchiveManifest \<Rightarrow> bytes \<Rightarrow> evidence_summary
   \<Rightarrow> gcm_context \<Rightarrow> bytes \<Rightarrow> bool"
where
  "sealed lib pf env rq m raw su cx encapsulated \<longleftrightarrow>
     cr_evidence rq = Some raw \<and> (\<exists>trust. check_evidence pf rq raw = Inr (su, trust)) \<and>
     (\<exists>kem ss. kem_backend pf (cr_backend rq) None = Inr kem \<and>
        kem_encapsulate kem (ce_kem_random env) (cr_recipient rq) KEM_ALGORITHM = Inr (ss, encapsulated) \<and>
        hkdf_sha256 (hmac_sha256 lib) ss (ce_salt env) HKDF_INFO 32 = Inr (gx_key cx)) \<and>
     m = new_manifest lib rq env su raw encapsulated (int (length raw)) (gzip_file lib (chunks CHUNK_BYTES raw)) \<and>
     gx_nonce cx = ce_nonce env \<and> authenticated_data m = Inr (gx_aad cx) \<and> have_cryptography lib"

lemma create_archive_sealed:
  assumes "create_archive lib pf env rq target = (Inr (m, trust), target')"
  shows "\<exists>raw su cx enc text es. sealed lib pf env rq m raw su cx enc
    \<and> rbind (dumps_indent 0 (PyDict (manifest_dict m))) utf8_encode = Inr text
    \<and> es = members text (encrypt_body lib cx (gzip_file lib (chunks CHUNK_BYTES raw)))
    \<and> target' = Some \<lparr>zf_size = zip_size lib es, zf_entries = Some es\<rparr>"
proof -
  obtain limit raw body where p: "cr_evidence rq = Some raw" "int (length raw) \<le> limit"
      "seal lib pf env rq limit raw = Inr (m, trust, body)" "write_container lib env m body target = (Inr (), target')"
    using assms by (auto simp: create_archive_def rbind_Inr_iff require_Inr_iff split: sum.splits prod.splits option.splits)
  obtain su kem ss enc key aad cx where q: "check_evidence pf rq raw = Inr (su, trust)" "kem_backend pf (cr_backend rq) None = Inr kem"
      "kem_encapsulate kem (ce_kem_random env) (cr_recipient rq) KEM_ALGORITHM = Inr (ss, enc)"
      "hkdf_sha256 (hmac_sha256 lib) ss (ce_salt env) HKDF_INFO 32 = Inr key"
      "m = new_manifest lib rq env su raw enc (int (length raw)) (gzip_file lib (chunks CHUNK_BYTES raw))"
      "authenticated_data m = Inr aad" "aesgcm_streaming lib key (ce_nonce env) aad = Inr cx"
      "body = encrypt_body lib cx (gzip_file lib (chunks CHUNK_BYTES raw))"
    using p(3) count_chunks [OF p(2)] by (auto simp: seal_def rbind_Inr_iff Let_def)
  then have "sealed lib pf env rq m raw su cx enc"
    using p(1) by (auto simp: sealed_def aesgcm_streaming_def require_Inr_iff)
  moreover obtain tx where "rbind (dumps_indent 0 (PyDict (manifest_dict m))) utf8_encode = Inr tx"
      "target' = Some \<lparr>zf_size = zip_size lib (members tx body), zf_entries = Some (members tx body)\<rparr>"
    using p(4) by (auto simp: write_container_def members_def Let_def split: sum.splits if_splits)
  ultimately show ?thesis using q(8) by blast
qed

text \<open>
  The reader's side fits the archive: it holds the private key of the recipient (what was
  encapsulated is decapsulated), the archive is within its limits, and nothing fails.
\<close>

definition can_read :: "platform \<Rightarrow> create_env \<Rightarrow> create_request \<Rightarrow> decrypt_request \<Rightarrow> zip_file \<Rightarrow> bytes \<Rightarrow> bool" where
  "can_read pf env rq dq z raw \<longleftrightarrow>
     dr_archive dq = Some z \<and> int (zf_size z) \<le> dr_max_archive dq \<and> 0 < dr_max_archive dq \<and>
     (\<forall>e\<in>set (case zf_entries z of None \<Rightarrow> [] | Some es \<Rightarrow> es).
        ze_size e \<le> (if ze_name e = MANIFEST_ENTRY then MAX_MANIFEST_BYTES else nat (dr_max_archive dq))) \<and>
     int (length raw) \<le> dr_max_plaintext dq \<and> 0 < dr_max_plaintext dq \<and>
     length (ce_salt env) = HKDF_SALT_BYTES \<and> length (ce_nonce env) = GCM_NONCE_BYTES \<and>
     (\<exists>dk. kem_backend pf (dr_backend dq) (Some (dr_private_key dq)) = Inr dk \<and>
        (\<forall>kem ss ct. kem_backend pf (cr_backend rq) None = Inr kem \<longrightarrow>
           kem_encapsulate kem (ce_kem_random env) (cr_recipient rq) KEM_ALGORITHM = Inr (ss, ct) \<longrightarrow>
           ct \<noteq> [] \<and> kem_decapsulate dk (dr_private_key dq) ct KEM_ALGORITHM = Inr ss))"

lemma can_read_output: "can_read pf env rq (dq\<lparr>dr_output := a, dr_overwrite := b\<rparr>) z raw = can_read pf env rq dq z raw"
  by (cases dq) (simp add: can_read_def)

lemma sealed_opens:
  assumes "sealed lib pf env rq m raw su cx enc" "gcm_ok lib" "cr_metadata rq = None"
    and "0 \<le> am_first_sequence m" "0 \<le> am_last_sequence m"
    and "rbind (dumps_indent 0 (PyDict (manifest_dict m))) utf8_encode = Inr text"
    and "es = members text (encrypt_body lib cx (gzip_file lib (chunks CHUNK_BYTES raw)))"
    and "z = \<lparr>zf_size = zip_size lib es, zf_entries = Some es\<rparr>" "can_read pf env rq dq z raw"
  shows "\<exists>info. read_manifest_and_open_ciphertext es (dr_max_archive dq) = Inr (m, info)
    \<and> open_archive lib pf dq z (dr_max_archive dq) = Inr (m, info, gx_key cx, gx_nonce cx)
    \<and> decrypt_body lib cx info = Inr (gzip_file lib (chunks CHUNK_BYTES raw))"
proof -
  let ?z = "gzip_file lib (chunks CHUNK_BYTES raw)"
  let ?body = "encrypt_body lib cx ?z" and ?info = "plain_entry CIPHERTEXT_ENTRY (encrypt_body lib cx (gzip_file lib (chunks CHUNK_BYTES raw)))"
  have m: "m = new_manifest lib rq env su raw enc (int (length raw)) ?z" "authenticated_data m = Inr (gx_aad cx)"
      "gx_nonce cx = ce_nonce env"
    using assms(1) unfolding sealed_def by blast+
  note len = encrypt_body_length [OF assms(2), of cx ?z]
  have tm: "text_manifest m" using new_manifest_text [OF m(1,2) assms(3-5)] by simp
  have size: "length text \<le> MAX_MANIFEST_BYTES" "int (length ?body) \<le> dr_max_archive dq"
    using assms(7-9) by (auto simp: can_read_def members_def plain_entry_def MANIFEST_ENTRY_def CIPHERTEXT_ENTRY_def)
  have "read_manifest_and_open_ciphertext es (dr_max_archive dq) = Inr (m, ?info)"
    unfolding assms(7) using len m(1) by (intro members_open [OF tm assms(6) size]) (simp_all add: new_manifest_def)
  moreover have "decrypt_body lib cx ?info = Inr ?z"
    by (rule decrypt_encrypt_body [OF assms(2), where e = ?info and z = ?z]) (simp_all add: plain_entry_def)
  moreover obtain kem ss dk where k: "kem_backend pf (cr_backend rq) None = Inr kem"
      "kem_encapsulate kem (ce_kem_random env) (cr_recipient rq) KEM_ALGORITHM = Inr (ss, enc)"
      "hkdf_sha256 (hmac_sha256 lib) ss (ce_salt env) HKDF_INFO 32 = Inr (gx_key cx)"
      "kem_backend pf (dr_backend dq) (Some (dr_private_key dq)) = Inr dk" "enc \<noteq> []"
      "kem_decapsulate dk (dr_private_key dq) enc KEM_ALGORITHM = Inr ss"
    using assms(1,9) unfolding sealed_def can_read_def by blast
  have "ce_salt env \<noteq> []" "ce_nonce env \<noteq> []" "length (ce_salt env) = HKDF_SALT_BYTES" "length (ce_nonce env) = GCM_NONCE_BYTES"
    using assms(9) by (auto simp: can_read_def HKDF_SALT_BYTES_def GCM_NONCE_BYTES_def)
  moreover have "am_encapsulated_key m = PyStr (b64encode enc)" "am_hkdf_salt m = PyStr (b64encode (ce_salt env))"
      "am_nonce m = PyStr (b64encode (ce_nonce env))" by (simp_all add: m(1) new_manifest_def)
  ultimately show ?thesis
    using k m(3) assms(8) by (simp add: open_archive_def zip_open_def b64_read_back)
qed

lemma sealed_decrypts:
  assumes "sealed lib pf env rq m raw su cx enc" "decrypt_body lib cx info = Inr (gzip_file lib (chunks CHUNK_BYTES raw))"
    and "open_archive lib pf dq z (dr_max_archive dq) = Inr (m, info, gx_key cx, gx_nonce cx)"
    and "zlib_ok lib R" "zlib_progress lib" "can_read pf env rq dq z raw"
    and "dr_output dq" "va_destination va = None \<or> dr_overwrite dq" "\<not> ve_replace_fails ve" "\<not> ve_chmod_fails ve"
  shows "\<exists>t va'. decrypt_archive lib pf ve dq va = Some (Inr (m, True, t), va') \<and> va_destination va' = Some raw
    \<and> container_authenticated t \<and> plaintext_hash_verified t"
proof -
  have lim: "int (length raw) \<le> dr_max_plaintext dq" "0 < dr_max_plaintext dq" "dr_archive dq = Some z"
      "int (zf_size z) \<le> dr_max_archive dq" "0 < dr_max_archive dq"
    using assms(6) by (simp_all add: can_read_def)
  have a: "authenticated_data m = Inr (gx_aad cx)" "have_cryptography lib"
    and "m = new_manifest lib rq env su raw enc (int (length raw)) (gzip_file lib (chunks CHUNK_BYTES raw))"
    using assms(1) unfolding sealed_def by blast+
  then have m: "am_plaintext_sha3_256 m = PyStr (sha3_hex lib raw)" "am_plaintext_length m = int (length raw)"
    by (simp_all add: new_manifest_def)
  have "inflate_body lib (dr_max_plaintext dq) (gzip_file lib (chunks CHUNK_BYTES raw)) = Some (None, raw)"
    using inflate_gzip [OF assms(4,5), of "chunks CHUNK_BYTES raw"] lim(1) by simp
  moreover have "aesgcm_streaming lib (gx_key cx) (gx_nonce cx) (gx_aad cx) = Inr cx"
    by (simp add: aesgcm_streaming_def a(2))
  ultimately have "stream_decrypt lib ve info m (gx_key cx) (gx_nonce cx) (dr_max_plaintext dq) w
      = Some (Inr (length raw, sha3_hex lib raw), w\<lparr>va_plain_tmp := Some raw,
          va_body_tmp := unlinked ve (Some (gzip_file lib (chunks CHUNK_BYTES raw)))\<rparr>)" for w
    using assms(2) a(1) by (simp add: stream_decrypt_def)
  with assms(3,7-10) lim m show ?thesis
    by (auto simp: decrypt_archive_def positive_def deliver_def require_def Let_def)
qed

lemma created_decrypts:
  assumes "create_archive lib pf env rq target = (Inr (m, trust), Some z)" "cr_evidence rq = Some raw"
    and "gcm_ok lib" "zlib_ok lib R" "zlib_progress lib" "can_read pf env rq dq z raw"
    and "cr_metadata rq = None" "0 \<le> am_first_sequence m" "0 \<le> am_last_sequence m"
    and "dr_output dq" "va_destination va = None \<or> dr_overwrite dq" "\<not> ve_replace_fails ve" "\<not> ve_chmod_fails ve"
  shows "\<exists>t va'. decrypt_archive lib pf ve dq va = Some (Inr (m, True, t), va') \<and> va_destination va' = Some raw
    \<and> container_authenticated t \<and> plaintext_hash_verified t"
proof -
  obtain raw' su cx enc tx es where c: "sealed lib pf env rq m raw' su cx enc"
      "rbind (dumps_indent 0 (PyDict (manifest_dict m))) utf8_encode = Inr tx"
      "es = members tx (encrypt_body lib cx (gzip_file lib (chunks CHUNK_BYTES raw')))"
      "z = \<lparr>zf_size = zip_size lib es, zf_entries = Some es\<rparr>"
    using create_archive_sealed [OF assms(1)] by auto
  have "raw' = raw" using c(1) assms(2) by (simp add: sealed_def)
  note c = c [unfolded this]
  from sealed_opens [OF c(1) assms(3,7-9) c(2-4) assms(6)]
  obtain info where "decrypt_body lib cx info = Inr (gzip_file lib (chunks CHUNK_BYTES raw))"
      "open_archive lib pf dq z (dr_max_archive dq) = Inr (m, info, gx_key cx, gx_nonce cx)" by blast
  from sealed_decrypts [OF c(1) this assms(4,5,6,10-13)] show ?thesis .
qed

lemma strict_verifies:
  assumes "create_archive lib pf env rq target = (Inr (m, trust), Some z)" "cr_require_valid rq"
    and "cr_evidence rq = Some raw" "cr_registry rq = Some reg" "cr_metadata rq = None"
    and "gcm_ok lib" "zlib_ok lib R" "zlib_progress lib" "can_read pf env rq dq z raw"
    and "\<not> ve_replace_fails ve" "\<not> ve_chmod_fails ve"
  shows "\<exists>rep vr. verify_archive lib pf ve dq True (Some reg) = Some (Inr rep)
    \<and> ar_manifest rep = Some m \<and> fully_verified (ar_trust rep) \<and> tr_errors (ar_trust rep) = []
    \<and> tr_verification (ar_trust rep) = Some vr \<and> alerts_of vr = {}"
proof -
  let ?dq = "dq\<lparr>dr_output := True, dr_overwrite := True\<rparr>"
  let ?va = "\<lparr>va_destination = None, va_plain_tmp = None, va_body_tmp = None\<rparr>"
  obtain raw' su cx enc tx es where c: "sealed lib pf env rq m raw' su cx enc"
      "rbind (dumps_indent 0 (PyDict (manifest_dict m))) utf8_encode = Inr tx"
      "es = members tx (encrypt_body lib cx (gzip_file lib (chunks CHUNK_BYTES raw')))"
      "z = \<lparr>zf_size = zip_size lib es, zf_entries = Some es\<rparr>"
    using create_archive_sealed [OF assms(1)] by auto
  have "raw' = raw" using c(1) assms(3) by (simp add: sealed_def)
  note c = c [unfolded this]
  obtain t where t: "check_evidence pf rq raw = Inr (su, t)"
      "m = new_manifest lib rq env su raw enc (int (length raw)) (gzip_file lib (chunks CHUNK_BYTES raw))"
    using c(1) unfolding sealed_def by auto
  obtain fs where fs: "strict_evidence pf reg raw su fs" "hd (su_nodes su) = cr_node_id rq"
    using check_evidence_strict [OF t(1) assms(2,4)] by blast
  then have nodes: "su_nodes su = [cr_node_id rq]" by (cases "su_nodes su") (auto simp: strict_evidence_def)
  then have mm: "\<not> manifest_mismatch su m" by (simp add: t(2) manifest_mismatch_def new_manifest_def)
  have "describes pf (archive_verifier reg) m fs"
    using summary_describes [OF _ _ _ mm] fs(1) nodes by (auto simp: strict_evidence_def)
  then have seqs: "0 \<le> am_first_sequence m" "0 \<le> am_last_sequence m" by (simp_all add: describes_def)
  have cr: "can_read pf env rq ?dq z raw" using assms(9) by (simp only: can_read_output)
  from sealed_opens [OF c(1) assms(6,5) seqs c(2-4) cr]
  obtain info where o: "read_manifest_and_open_ciphertext es (dr_max_archive dq) = Inr (m, info)"
      "decrypt_body lib cx info = Inr (gzip_file lib (chunks CHUNK_BYTES raw))"
      "open_archive lib pf ?dq z (dr_max_archive ?dq) = Inr (m, info, gx_key cx, gx_nonce cx)" by auto
  obtain dt va where d: "decrypt_archive lib pf ve ?dq ?va = Some (Inr (m, True, dt), va)" "va_destination va = Some raw"
      "container_authenticated dt" "plaintext_hash_verified dt"
    using sealed_decrypts [OF c(1) o(2,3) assms(7,8) cr, of ?va ve] assms(10,11) by auto
  obtain et vr where et: "summarise_evidence pf raw (Some reg) False None = Inr (su, et)" "evidence_format_valid et"
      "evidence_signatures_verified et" "evidence_chain_verified et" "tr_verification et = Some vr" "alerts_of vr = {}"
    using fs(1) by (auto simp: strict_evidence_def)
  have "PyStr (cr_node_id rq) = am_node_id m" by (simp add: t(2) new_manifest_def)
  let ?T = "judge_evidence su et m (new_trust\<lparr>container_authenticated := True, plaintext_hash_verified := True\<rparr>)"
  have "verify_contents lib pf ve dq (Some reg) new_trust = Some (Inr ?T)"
    using d et(1) by (simp add: verify_contents_def)
  moreover have "dr_archive dq = Some z" using assms(9) by (simp add: can_read_def)
  ultimately have "verify_archive lib pf ve dq True (Some reg)
      = Some (Inr \<lparr>ar_structure_valid = True, ar_manifest = Some m, ar_trust = ?T\<rparr>)"
    using o(1) c(4) by (simp add: verify_archive_def zip_open_def)
  moreover have "fully_verified ?T \<and> tr_errors ?T = [] \<and> tr_verification ?T = Some vr"
    using mm et(2-5) nodes \<open>PyStr (cr_node_id rq) = am_node_id m\<close>
    by (simp add: judge_evidence_def fully_verified_def new_trust_def)
  ultimately show ?thesis using et(6) by simp
qed

section \<open>Properties\<close>


text \<open>
  Strict creation. It succeeds only for a file whose every non-blank line is a record that
  verifies against the registry, the records together being the unbroken chain of the one node the
  archive is made for, at least one record long; the manifest describes them.
\<close>

theorem strict_creation_sound:
  assumes "create_archive lib pf env rq target = (Inr (m, trust), target')" "cr_require_valid rq"
    and "cr_evidence rq = Some raw" "cr_registry rq = Some reg"
  shows "\<exists>es. stream_records MAX_EVIDENCE_BYTES (map PyStr (evidence_lines raw)) es
    \<and> describes pf (archive_verifier reg) m es \<and> am_node_id m = PyStr (cr_node_id rq)"
proof -
  obtain raw' su cx enc where c: "sealed lib pf env rq m raw' su cx enc"
    using create_archive_sealed [OF assms(1)] by blast
  obtain t where t: "raw' = raw" "check_evidence pf rq raw = Inr (su, t)"
      "m = new_manifest lib rq env su raw enc (int (length raw)) (gzip_file lib (chunks CHUNK_BYTES raw))"
    using c assms(3) unfolding sealed_def by auto
  obtain es where es: "strict_evidence pf reg raw su es" "hd (su_nodes su) = cr_node_id rq"
    using check_evidence_strict [OF t(2) assms(2,4)] by blast
  then have "su_nodes su = [cr_node_id rq]" by (cases "su_nodes su") (auto simp: strict_evidence_def)
  then have "\<not> manifest_mismatch su m" by (simp add: t(3) manifest_mismatch_def new_manifest_def)
  with es summary_describes show ?thesis by (auto simp: strict_evidence_def t(3) new_manifest_def)
qed

text \<open>
  \<^bold>\<open>C4\<close>. The strict path end to end: an archive created in strict mode is reported fully verified,
  with all six facts established, no error and no alert, by a reader who holds the recipient's key and the
  same registry.
\<close>

theorem strict_archive_verifies:
  assumes "create_archive lib pf env rq target = (Inr (m, trust), Some z)" "cr_require_valid rq"
    and "cr_evidence rq = Some raw" "cr_registry rq = Some reg" "cr_metadata rq = None"
    and "gcm_ok lib" "zlib_ok lib R" "zlib_progress lib" "can_read pf env rq dq z raw"
    and "\<not> ve_replace_fails ve" "\<not> ve_chmod_fails ve"
  shows "\<exists>rep vr. verify_archive lib pf ve dq True (Some reg) = Some (Inr rep)
    \<and> ar_manifest rep = Some m \<and> fully_verified (ar_trust rep) \<and> tr_errors (ar_trust rep) = []
    \<and> tr_verification (ar_trust rep) = Some vr \<and> alerts_of vr = {}"
  by (rule strict_verifies [OF assms])

end
