(* ===== verification/ArchiveDemo.thy ===== *)
theory ArchiveDemo
  imports ArchiveRoundtrip
begin

text \<open>
  A concrete archive. Sound evidence passes the strict inspection; with a store-only compressor, a
  cipher that copies and a fixed tag, the one-record log of the sample event is archived, decrypted
  and reported fully verified, so the hypotheses of the archive properties can hold together.
\<close>

section \<open>Sound evidence passes the strict inspection\<close>

lemma remdups_same: "\<lbrakk>xs \<noteq> []; \<forall>x\<in>set xs. x = a\<rbrakk> \<Longrightarrow> remdups xs = [a]"
proof (induction xs)
  case (Cons x xs)
  then show ?case by (cases xs) auto
qed simp

lemma foldl_note_trust: "sc_trust (foldl note_scan st es) = sc_trust st"
  by (induction es arbitrary: st) (simp_all add: note_scan_def)

lemma check_evidence_complete:
  assumes "stream_records MAX_EVIDENCE_BYTES (map PyStr (evidence_lines raw)) es" "es \<noteq> []"
    and "sound_stream pf (archive_verifier reg) es" "\<forall>e\<in>set es. node_id e = cr_node_id rq"
    and "cr_registry rq = Some reg"
  shows "\<exists>t. check_evidence pf rq raw = Inr (summary_of (foldl note_scan new_scan es), t)"
proof -
  let ?c = "\<lparr>c_verifier = archive_verifier reg, max_results = 10000, c_max_record_bytes = int MAX_EVIDENCE_BYTES\<rparr>"
  let ?ls = "map PyStr (filter (\<lambda>t. t \<noteq> []) (map strip (evidence_lines raw)))"
  let ?su = "summary_of (foldl note_scan new_scan es)"
  obtain rep where rep: "verify_stream pf ?c ?ls = Inr rep" "sr_valid rep" "total rep = length es" "failed rep = 0"
    using stream_accepted [of ?c ?ls es pf] assms(1,3) stripped_records [of MAX_EVIDENCE_BYTES "evidence_lines raw" es]
    by (auto simp: archive_verifier_def)
  have mal: "malformed_count rep = 0" using verify_stream_quiet [OF rep(1)] rep(2) by (simp add: quiet_def)
  have nodes: "su_nodes ?su = [cr_node_id rq]"
    using remdups_same [of "map node_id es" "cr_node_id rq"] assms(2,4)
    by (simp add: summary_of_def foldl_note_nodes new_scan_def)
  note scan = scan_lines_records [OF assms(1)]
  show ?thesis
    using scan rep mal nodes assms(2,5)
    by (simp add: check_evidence_def summarise_evidence_def archive_collector_eq report_trust_def Let_def foldl_note_trust
        new_scan_def new_trust_def)
qed

section \<open>A manifest of moderate fields is small enough to be read\<close>

lemma quoted_size: "length (quote True s) \<le> 12 * length s + 2"
proof -
  have "length (esc_char True c) \<le> 12" for c by (simp add: esc_char_def u_escape_def)
  then have "length (concat (map (esc_char True) s)) \<le> 12 * length s"
    by (induction s) (simp_all add: add_mono)
  then show ?thesis by (simp add: quote_def)
qed

lemma indented_text:
  assumes "dumps_indent_items 2 d = Inr us" "us \<noteq> []" "\<forall>u\<in>set us. printable (snd u)"
  shows "\<exists>text. rbind (dumps_indent 0 (PyDict d)) utf8_encode = Inr text
    \<and> length text \<le> sum_list (map (\<lambda>u. 12 * length (fst u) + length (snd u) + 8) us) + 6"
proof -
  let ?ms = "map (member_text indent_style) (order_items indent_style us)"
  define t where "t = 123 # newline_indent 2 @ join (44 # newline_indent 2) ?ms @ newline_indent 0 @ [125]"
  have st: "sort_keys indent_style" "ensure_ascii indent_style" "key_sep indent_style = [58, 32]"
    by (simp_all add: indent_style_def)
  have nl: "newline_indent 2 = [10, 32, 32]" "newline_indent 0 = [10]" by (simp_all add: newline_indent_def numeral_2_eq_2)
  have "dumps_indent 0 (PyDict d) = Inr t" using assms(1,2) by (simp add: t_def del: add_2_eq_Suc add_2_eq_Suc')
  moreover have "\<forall>c\<in>set t. c = 10 \<or> (32 \<le> c \<and> c < 127)"
  proof -
    have "32 \<le> x \<and> x < 127" if "u \<in> set us" "x \<in> set (member_text indent_style u)" for u x
      using that assms(3) by (auto simp: member_text_def st printable_def dest: quote_ascii)
    then have "x = 10 \<or> (32 \<le> x \<and> x < 127)" if "x \<in> set (join [44, 10, 32, 32] ?ms)" for x
      using set_join [of "[44, 10, 32, 32]" ?ms] that by (fastforce simp: order_items_def st)
    then show ?thesis by (auto simp: t_def nl)
  qed
  moreover have "length t \<le> sum_list (map (\<lambda>u. 12 * length (fst u) + length (snd u) + 8) us) + 6"
  proof -
    let ?f = "\<lambda>u. length (member_text indent_style u) + 4"
    have "length (join [44, 10, 32, 32] ?ms) \<le> sum_list (map ?f (sort_key fst us))"
      using join_length [of "[44, 10, 32, 32]" ?ms] by (simp add: order_items_def st comp_def numeral_eq_Suc)
    also have "\<dots> = sum_list (map ?f us)" by (rule sum_list_sort_key)
    also have "\<dots> \<le> sum_list (map (\<lambda>u. 12 * length (fst u) + length (snd u) + 8) us)"
    proof (rule sum_list_mono)
      show "?f u \<le> 12 * length (fst u) + length (snd u) + 8" for u
        using quoted_size [of "fst u"] by (simp add: member_text_def st)
    qed
    finally show ?thesis by (simp add: t_def nl)
  qed
  ultimately show ?thesis using read_text_ascii [of t] by auto
qed

definition text_size :: "ArchiveManifest \<Rightarrow> nat" where
  "text_size m = sum_list (map (\<lambda>v. case v of PyStr s \<Rightarrow> length s | _ \<Rightarrow> 0)
     [am_node_id m, am_key_id m, am_created_at m, am_chain_final_hash m, am_plaintext_sha3_256 m,
      am_encapsulated_key m, am_hkdf_salt m, am_nonce m])"

definition small_counters :: "ArchiveManifest \<Rightarrow> bool" where
  "small_counters m \<longleftrightarrow> list_all (\<lambda>i. i < 10 ^ 20)
     [am_first_sequence m, am_last_sequence m, am_event_count m, am_plaintext_length m, am_ciphertext_length m]"

lemma manifest_fits:
  assumes "text_manifest m" "small_counters m" "text_size m \<le> 5000"
  shows "\<exists>text. rbind (dumps_indent 0 (PyDict (manifest_dict m))) utf8_encode = Inr text \<and> length text \<le> MAX_MANIFEST_BYTES"
proof -
  obtain a b c d e f g h where s: "am_node_id m = PyStr a" "am_key_id m = PyStr b" "am_created_at m = PyStr c"
      "am_chain_final_hash m = PyStr d" "am_plaintext_sha3_256 m = PyStr e" "am_encapsulated_key m = PyStr f"
      "am_hkdf_salt m = PyStr g" "am_nonce m = PyStr h"
    using assms(1) by (auto simp: text_manifest_def text_field_def)
  note fixed = assms(1) [unfolded text_manifest_def]
  have small: "length (dec_int i) \<le> 20 \<and> int_digits_ok i" if "0 \<le> i" "i < 10 ^ 20" for i
    using dec_nat_length [of "nat i" 20] that
    by (simp add: dec_int_def int_digits_ok_def MAX_STR_DIGITS_def nat_less_iff)
  note n1 = small [of "am_first_sequence m"] and n2 = small [of "am_last_sequence m"] and n3 = small [of "am_event_count m"]
    and n4 = small [of "am_plaintext_length m"] and n5 = small [of "am_ciphertext_length m"]
  let ?us = "[(lit ''archive_format_version'', quote True ARCHIVE_FORMAT_VERSION), (lit ''node_id'', quote True a),
    (lit ''key_id'', quote True b), (lit ''first_sequence'', dec_int (am_first_sequence m)),
    (lit ''last_sequence'', dec_int (am_last_sequence m)), (lit ''event_count'', dec_int (am_event_count m)),
    (lit ''created_at'', quote True c), (lit ''chain_final_hash'', quote True d), (lit ''plaintext_sha3_256'', quote True e),
    (lit ''plaintext_length'', dec_int (am_plaintext_length m)), (lit ''kem_algorithm'', quote True KEM_ALGORITHM),
    (lit ''kdf_algorithm'', quote True KDF_ALGORITHM), (lit ''aead_algorithm'', quote True AEAD_ALGORITHM),
    (lit ''encapsulated_key'', quote True f), (lit ''hkdf_salt'', quote True g), (lit ''nonce'', quote True h),
    (lit ''ciphertext_length'', dec_int (am_ciphertext_length m)),
    (lit ''evidence_strictly_verified'', if am_strict m then lit ''true'' else lit ''false''), (lit ''metadata'', lit ''{}'')]"
  have "dumps_indent_items 2 (manifest_dict m) = Inr ?us"
    using fixed s assms(2) n1 n2 n3 n4 n5
    by (simp add: manifest_dict_def small_counters_def indent_style_def del: lit_simps)
  moreover have "\<forall>u\<in>set ?us. printable (snd u)"
    by (auto simp: printable_def dest: quote_ascii dec_int_ascii)
  moreover have "sum_list (map (\<lambda>u. 12 * length (fst u) + length (snd u) + 8) ?us) + 6 \<le> MAX_MANIFEST_BYTES"
  proof -
    have "length (quote True KEM_ALGORITHM) \<le> 200" "length (quote True KDF_ALGORITHM) \<le> 200"
      "length (quote True AEAD_ALGORITHM) \<le> 200" "length (quote True ARCHIVE_FORMAT_VERSION) \<le> 200"
      using quoted_size [of KEM_ALGORITHM] quoted_size [of KDF_ALGORITHM] quoted_size [of AEAD_ALGORITHM]
        quoted_size [of ARCHIVE_FORMAT_VERSION]
      by (simp_all add: KEM_ALGORITHM_def KDF_ALGORITHM_def AEAD_ALGORITHM_def ARCHIVE_FORMAT_VERSION_def)
    moreover have "length a + length b + length c + length d + length e + length f + length g + length h \<le> 5000"
      using assms(3) by (simp add: text_size_def s)
    ultimately show ?thesis
      using quoted_size [of a] quoted_size [of b] quoted_size [of c] quoted_size [of d] quoted_size [of e]
        quoted_size [of f] quoted_size [of g] quoted_size [of h] n1 n2 n3 n4 n5 fixed assms(2)
      by (simp add: MAX_MANIFEST_BYTES_def small_counters_def del: lit_simps)
  qed
  ultimately show ?thesis using indented_text [of "manifest_dict m" ?us] le_trans by blast
qed

section \<open>The example\<close>

definition demo_lib :: "bytes archive_lib" where
  "demo_lib = \<lparr>hmac_sha256 = (\<lambda>k m. replicate 32 0), sha3_hex = demo_sha3, have_cryptography = True,
     gcm_update = (\<lambda>cx encrypt before c. c), gcm_finalize = (\<lambda>cx cs. ([], replicate 16 0)),
     gcm_check = (\<lambda>cx cs tag. if tag = replicate 16 0 then Some [] else None),
     gzip_file = concat, inflate_init = [],
     inflate = (\<lambda>s piece n. Some (take n (s @ piece), [], drop n (s @ piece))),
     inflate_flush = (\<lambda>s. Some s), zip_size = (\<lambda>es. sum_list (map ze_size es))\<rparr>"

lemma demo_crypto: "have_cryptography demo_lib"
  by (simp add: demo_lib_def)

lemma demo_gcm_stream: "gcm_stream demo_lib cx encrypt before cs = concat cs"
  by (induction cs arbitrary: before) (simp_all add: demo_lib_def)

lemma demo_gcm_ok: "gcm_ok demo_lib"
  unfolding gcm_ok_def demo_gcm_stream by (auto simp: demo_lib_def GCM_TAG_BYTES_def)

lemma demo_zlib_ok: "zlib_ok demo_lib (\<lambda>s z p. p = s @ z)"
  unfolding zlib_ok_def by (simp add: demo_lib_def del: take_append drop_append)

lemma demo_zlib_progress: "zlib_progress demo_lib"
  by (auto simp: zlib_progress_def demo_lib_def)

definition archive_impl :: impl where
  "archive_impl = demo_impl\<lparr>impl_verify := \<lambda>k m s. Inr True\<rparr>"

definition archive_backend :: CryptoBackend where
  "archive_backend = PyFipsBackend (Some [(lit ''ML-DSA-65'', archive_impl)]) (Some [(KEM_ALGORITHM, archive_impl)])"

definition archive_platform :: platform where
  "archive_platform = \<lparr>sha3_256 = demo_sha3, crypto = [(OPENSSL_BACKEND, PyFipsBackend None None), (PYFIPS_BACKEND, archive_backend)],
     environment = demo_env\<rparr>"

definition archive_log :: bytes where
  "archive_log = projr (utf8_encode demo_line)"

lemmas archive_backend_eval = archive_platform_def archive_backend_def select_backend_def nonempty_def demo_env_def PREFERENCE_def
  OPENSSL_BACKEND_def PYFIPS_BACKEND_def PyFipsBackend_def pyfips_capabilities_def package_names_def
  supports_signature_def kem_ok_def supports_kem_def get_backend_def KEM_ALGORITHM_def

lemma archive_log_lines: "evidence_lines archive_log = [demo_line]" "length archive_log \<le> MAX_EVIDENCE_BYTES + 1"
proof -
  obtain line b where l: "to_json_line sample_event = Inr line" "utf8_encode line = Inr b" "\<forall>c\<in>set line. 32 \<le> c"
      "canonical_bytes (PyDict (to_dict sample_event True)) = Inr b" "length b \<le> MAX_EVIDENCE_BYTES"
    using sample_wf json_line_shape by (fastforce simp: wf_signed_def)
  have "list_all scalar line" "b = concat (map utf8_char line)" using l(2) by (auto simp: utf8_encode_def split: if_splits)
  moreover have "10 \<notin> set line" "13 \<notin> set line" using l(3) by auto
  moreover have dl: "demo_line = line @ [10]" by (simp add: demo_line_def l(1))
  ultimately have raw: "archive_log = b @ utf8_char 10"
    by (simp add: archive_log_def dl utf8_encode_def scalar_def)
  show "length archive_log \<le> MAX_EVIDENCE_BYTES + 1" using l(5) by (simp add: raw utf8_char_def)
  have "utf8_decode_replace archive_log = line @ [10]"
    using utf8_replace_append [of "line @ [10]" "[]"] \<open>list_all scalar line\<close> \<open>b = _\<close> by (simp add: raw scalar_def)
  with text_lines_concat [of "[line]"] \<open>10 \<notin> set line\<close> \<open>13 \<notin> set line\<close> show "evidence_lines archive_log = [demo_line]"
    by (simp add: evidence_lines_def dl)
qed

lemma archive_sample_verified: "record_verified archive_platform (archive_verifier sample_reg) (canon_event sample_event)"
proof -
  have "backend_for archive_platform (archive_verifier sample_reg) (lit ''ML-DSA-65'') = Inr archive_backend"
    by (simp add: backend_for_def archive_verifier_def archive_backend_eval)
  moreover have "verify archive_backend k m s (lit ''ML-DSA-65'') = Inr True" for k m s
    by (simp add: archive_backend_def PyFipsBackend_def package_impl_def archive_impl_def)
  moreover have "public_key_bytes sample_key = Inr [65, 66, 67]"
    by (simp add: public_key_bytes_def sample_key_def b64_val_def byte_of_def)
  ultimately have "signature_ok archive_platform (archive_verifier sample_reg) sample_event"
    using sample_signing unfolding signature_ok_def
    by (simp add: sample_reg_def sample_event_def archive_verifier_def)
  moreover have "key_ok (archive_verifier sample_reg) sample_event"
    using sample_usable by (auto simp: key_ok_def archive_verifier_def sample_event_def)
  ultimately have "record_verified archive_platform (archive_verifier sample_reg) sample_event"
    using sample_hash by (simp add: record_verified_def archive_platform_def)
  then show ?thesis by (rule record_verified_canon)
qed

lemma archive_sound: "sound_stream archive_platform (archive_verifier sample_reg) [canon_event sample_event]"
proof -
  have nid: "node_id sample_event = lit ''plc-1''" by (simp add: sample_event_def)
  have one: "of_node n [canon_event sample_event] = (if n = lit ''plc-1'' then [canon_event sample_event] else [])" for n
    using nid by (auto simp: of_node_def)
  show ?thesis
    unfolding sound_stream_def evidence_ok_def
    using archive_sample_verified chain_canon [OF sample_chain] nid
    by (simp add: one archive_platform_def MAX_TRACKED_HASHES_def del: lit_simps)
qed

definition demo_request_archive :: create_request where
  "demo_request_archive = \<lparr>cr_evidence = Some archive_log, cr_recipient = [1, 2, 3], cr_node_id = lit ''plc-1'', cr_key_id = lit ''k1'',
     cr_backend = None, cr_registry = Some sample_reg, cr_require_valid = True, cr_max_plaintext = 10000000,
     cr_overwrite = False, cr_metadata = None\<rparr>"

definition demo_create_env :: create_env where
  "demo_create_env = \<lparr>ce_kem_random = [7, 8, 9], ce_salt = [5, 5, 5, 5, 5, 5, 5, 5, 5, 5, 5, 5, 5, 5, 5, 5, 5, 5, 5, 5, 5, 5, 5, 5, 5, 5, 5, 5, 5, 5, 5, 5], ce_nonce = [6, 6, 6, 6, 6, 6, 6, 6, 6, 6, 6, 6],
     ce_now = lit ''2026-08-05T18:15:00.000000Z'', ce_write_fails = False\<rparr>"

definition demo_summary :: evidence_summary where
  "demo_summary = \<lparr>su_first = 1, su_last = 1, su_count = 1, su_final_hash = replicate 64 97, su_nodes = [lit ''plc-1''], su_keys = [lit ''k1'']\<rparr>"

definition demo_manifest :: ArchiveManifest where
  "demo_manifest = new_manifest demo_lib demo_request_archive demo_create_env
     demo_summary archive_log [7, 8, 9] (int (length archive_log)) archive_log"

lemma demo_check:
  "\<exists>t. check_evidence archive_platform demo_request_archive archive_log
    = Inr (demo_summary, t)"
proof -
  have "summary_of (foldl note_scan new_scan [canon_event sample_event])
      = demo_summary"
    by (simp add: note_scan_def new_scan_def summary_of_def sample_event_def canon_event_def demo_summary_def)
  with check_evidence_complete [of archive_log "[canon_event sample_event]" archive_platform sample_reg demo_request_archive]
    archive_log_lines(1) archive_sound demo_records
  show ?thesis by (simp add: demo_request_archive_def sample_event_def canon_event_def del: foldl_Cons)
qed


lemmas demo_manifest_eval = demo_manifest_def demo_summary_def new_manifest_def demo_lib_def demo_request_archive_def demo_create_env_def
  ARCHIVE_FORMAT_VERSION_def KEM_ALGORITHM_def KDF_ALGORITHM_def AEAD_ALGORITHM_def demo_sha3_def GCM_TAG_BYTES_def b64_char_def

lemma demo_manifest_authenticated: "\<exists>aad. authenticated_data demo_manifest = Inr aad"
proof -
  have "length (dec_nat n) \<le> 4300" if "n \<le> MAX_EVIDENCE_BYTES + 17" for n
    using that dec_nat_length [of n 20] by (simp add: MAX_EVIDENCE_BYTES_def)
  then have "int_digits_ok (int (length archive_log))" "int_digits_ok (int (length archive_log) + 16)"
    using archive_log_lines(2) by (simp_all add: int_digits_ok_def MAX_STR_DIGITS_def nat_add_distrib)
  then have "check 0 (PyDict (manifest_dict demo_manifest)) = Inr ()" "ints_ok (PyDict (manifest_dict demo_manifest))"
    by (simp_all add: demo_manifest_eval manifest_dict_def check_eval list_all_iff)
  then show ?thesis using canonical_bytes_bound unfolding authenticated_data_def by blast
qed

lemma demo_manifest_written:
  "\<exists>text. rbind (dumps_indent 0 (PyDict (manifest_dict demo_manifest))) utf8_encode = Inr text
    \<and> length text \<le> MAX_MANIFEST_BYTES"
proof (rule manifest_fits)
  show "text_manifest demo_manifest"
    by (simp add: text_manifest_def text_field_def demo_manifest_eval scalar_def list_all_iff)
  show "small_counters demo_manifest"
    using archive_log_lines(2) by (simp add: small_counters_def demo_manifest_eval MAX_EVIDENCE_BYTES_def)
  show "text_size demo_manifest \<le> 5000" by (simp add: text_size_def demo_manifest_eval)
qed

lemma archive_caps:
  "available (capabilities archive_backend)" "supports_signature (capabilities archive_backend) (lit ''ML-DSA-65'')"
  "supports_kem (capabilities archive_backend) KEM_ALGORITHM" "\<not> available (capabilities (PyFipsBackend None None))"
  by (simp_all add: archive_backend_eval)

lemma detect_demo_key: "detect_private_key_backend [1, 2, 3] = PYFIPS_BACKEND"
  by (simp add: detect_private_key_backend_def ascii_space_def byte_of_def TEST_KEY_MARKER_def)

lemma archive_kem:
  assumes "k = None \<or> k = Some [1, 2, 3]"
  shows "kem_backend archive_platform None k = Inr archive_backend"
proof -
  have "OPENSSL_BACKEND \<noteq> PYFIPS_BACKEND" "PYFIPS_BACKEND \<noteq> TEST_BACKEND"
    by (simp_all add: OPENSSL_BACKEND_def PYFIPS_BACKEND_def TEST_BACKEND_def)
  then show ?thesis
    using assms archive_caps
    by (auto simp: kem_backend_def select_backend_def archive_platform_def demo_env_def nonempty_def PREFERENCE_def kem_ok_def
        detect_demo_key get_backend_def simp del: lit_simps)
qed

lemma archive_kem_calls:
  "kem_encapsulate archive_backend r k KEM_ALGORITHM = Inr (k, r)"
  "kem_decapsulate archive_backend k c KEM_ALGORITHM = Inr k"
  by (simp_all add: archive_backend_def PyFipsBackend_def package_impl_def archive_impl_def demo_impl_def guarded_def)

lemma demo_hkdf: "hkdf_sha256 (hmac_sha256 demo_lib) ss salt info 32 = Inr (replicate 32 0)"
  by (simp add: hkdf_sha256_def demo_lib_def hkdf_expand.simps)

lemma demo_created:
  "\<exists>trust text cx. create_archive demo_lib archive_platform demo_create_env demo_request_archive None
     = (Inr (demo_manifest, trust), Some \<lparr>zf_size = length text + length archive_log + 16,
          zf_entries = Some (members text (encrypt_body demo_lib cx archive_log))\<rparr>)
     \<and> length text \<le> MAX_MANIFEST_BYTES"
proof -
  obtain t where t: "check_evidence archive_platform demo_request_archive archive_log
    = Inr (demo_summary, t)"
    using demo_check by blast
  obtain aad where aad: "authenticated_data demo_manifest = Inr aad" using demo_manifest_authenticated by blast
  obtain tx where tx: "rbind (dumps_indent 0 (PyDict (manifest_dict demo_manifest))) utf8_encode = Inr tx"
      "length tx \<le> MAX_MANIFEST_BYTES" using demo_manifest_written by blast
  have lim: "int (length archive_log) \<le> 10000000" using archive_log_lines(2) by (simp add: MAX_EVIDENCE_BYTES_def)
  have z: "gzip_file demo_lib (chunks CHUNK_BYTES archive_log) = archive_log" by (simp add: demo_lib_def)
  have rq: "cr_backend demo_request_archive = None" "cr_evidence demo_request_archive = Some archive_log"
    "cr_max_plaintext demo_request_archive = 10000000" "ce_kem_random demo_create_env = [7, 8, 9]"
    by (simp_all add: demo_request_archive_def demo_create_env_def)
  let ?cx = "\<lparr>gx_key = replicate 32 0, gx_nonce = ce_nonce demo_create_env, gx_aad = aad\<rparr>"
  have "seal demo_lib archive_platform demo_create_env demo_request_archive 10000000 archive_log
      = Inr (demo_manifest, t, encrypt_body demo_lib ?cx archive_log)"
    using t aad count_chunks [OF lim]
    by (simp add: seal_def rq archive_kem archive_kem_calls demo_hkdf z Let_def aesgcm_streaming_def demo_crypto
        flip: demo_manifest_def)
  moreover have "length (encrypt_body demo_lib ?cx archive_log) = length archive_log + 16"
    using encrypt_body_length [OF demo_gcm_ok] by (simp add: GCM_TAG_BYTES_def)
  then have "zip_size demo_lib (members tx (encrypt_body demo_lib ?cx archive_log)) = length tx + length archive_log + 16"
    by (simp add: demo_lib_def members_def plain_entry_def)
  ultimately have "create_archive demo_lib archive_platform demo_create_env demo_request_archive None
     = (Inr (demo_manifest, t), Some \<lparr>zf_size = length tx + length archive_log + 16,
          zf_entries = Some (members tx (encrypt_body demo_lib ?cx archive_log))\<rparr>)"
    using tx(1) lim by (simp add: create_archive_def rq positive_def write_container_def members_def demo_create_env_def)
  with tx(2) show ?thesis by blast
qed

section \<open>Witnesses\<close>

definition demo_reader :: "zip_file \<Rightarrow> decrypt_request" where
  "demo_reader z = \<lparr>dr_archive = Some z, dr_private_key = [1, 2, 3], dr_output = True, dr_backend = None,
     dr_max_archive = 10000000, dr_max_plaintext = 10000000, dr_overwrite = False\<rparr>"

definition demo_vault :: vault where
  "demo_vault = \<lparr>va_destination = None, va_plain_tmp = None, va_body_tmp = None\<rparr>"

definition demo_vault_env :: vault_env where
  "demo_vault_env = \<lparr>ve_unlink_fails = False, ve_replace_fails = False, ve_chmod_fails = False\<rparr>"

lemma demo_archive:
  "\<exists>trust z. create_archive demo_lib archive_platform demo_create_env demo_request_archive None = (Inr (demo_manifest, trust), Some z)
    \<and> can_read archive_platform demo_create_env demo_request_archive (demo_reader z) z archive_log"
proof -
  obtain trust tx cx where c: "create_archive demo_lib archive_platform demo_create_env demo_request_archive None
      = (Inr (demo_manifest, trust), Some \<lparr>zf_size = length tx + length archive_log + 16,
          zf_entries = Some (members tx (encrypt_body demo_lib cx archive_log))\<rparr>)" "length tx \<le> MAX_MANIFEST_BYTES"
    using demo_created by blast
  have "MAX_MANIFEST_BYTES \<le> 100000" "length archive_log \<le> 2000000"
    using archive_log_lines(2) by (simp_all add: MAX_MANIFEST_BYTES_def MAX_EVIDENCE_BYTES_def)
  with c(2) encrypt_body_length [OF demo_gcm_ok, of cx archive_log]
  have "can_read archive_platform demo_create_env demo_request_archive
    (demo_reader \<lparr>zf_size = length tx + length archive_log + 16, zf_entries = Some (members tx (encrypt_body demo_lib cx archive_log))\<rparr>)
    \<lparr>zf_size = length tx + length archive_log + 16, zf_entries = Some (members tx (encrypt_body demo_lib cx archive_log))\<rparr> archive_log"
    by (simp add: can_read_def demo_reader_def archive_kem archive_kem_calls demo_request_archive_def demo_create_env_def
        members_def plain_entry_def GCM_TAG_BYTES_def HKDF_SALT_BYTES_def GCM_NONCE_BYTES_def MANIFEST_ENTRY_def CIPHERTEXT_ENTRY_def)
  with c(1) show ?thesis by blast
qed

lemmas demo_reader_simps = demo_reader_def demo_request_archive_def demo_vault_def demo_vault_env_def


theorem strict_creation_sound_witness:
  "\<exists>es. stream_records MAX_EVIDENCE_BYTES (map PyStr (evidence_lines archive_log)) es
    \<and> describes archive_platform (archive_verifier sample_reg) demo_manifest es \<and> am_node_id demo_manifest = PyStr (lit ''plc-1'')"
proof -
  obtain trust z where z: "create_archive demo_lib archive_platform demo_create_env demo_request_archive None = (Inr (demo_manifest, trust), Some z)"
    using demo_archive by blast
  from strict_creation_sound [OF z, of archive_log sample_reg] show ?thesis by (simp add: demo_request_archive_def)
qed

theorem strict_archive_verifies_witness:
  "\<exists>z rep. verify_archive demo_lib archive_platform demo_vault_env (demo_reader z) True (Some sample_reg) = Some (Inr rep)
    \<and> fully_verified (ar_trust rep)"
proof -
  obtain trust z where z: "create_archive demo_lib archive_platform demo_create_env demo_request_archive None = (Inr (demo_manifest, trust), Some z)"
      "can_read archive_platform demo_create_env demo_request_archive (demo_reader z) z archive_log"
    using demo_archive by blast
  from strict_archive_verifies [OF z(1) _ _ _ _ demo_gcm_ok demo_zlib_ok demo_zlib_progress z(2), of sample_reg demo_vault_env]
  show ?thesis by (auto simp: demo_reader_simps)
qed

theorem archive_reading_terminates_witness:
  "(\<exists>y. decrypt_archive demo_lib archive_platform demo_vault_env (demo_reader \<lparr>zf_size = 7, zf_entries = None\<rparr>) demo_vault = Some y)
   \<and> (\<exists>y. verify_archive demo_lib archive_platform demo_vault_env (demo_reader \<lparr>zf_size = 7, zf_entries = None\<rparr>) True None = Some y)"
  by (rule archive_reading_terminates [OF demo_zlib_progress])

theorem manifest_fully_authenticated_witness: "same_manifest demo_manifest demo_manifest"
proof -
  obtain aad where aad: "authenticated_data demo_manifest = Inr aad" using demo_manifest_authenticated by blast
  have "dicts_ok (PyDict (manifest_dict demo_manifest))"
    by (simp add: manifest_dict_def demo_manifest_eval)
  from manifest_fully_authenticated [OF this this aad aad] show ?thesis .
qed


theorem fully_verified_archive_witness:
  "\<exists>z rep m out es. verify_archive demo_lib archive_platform demo_vault_env (demo_reader z) True (Some sample_reg) = Some (Inr rep)
    \<and> fully_verified (ar_trust rep) \<and> ar_manifest rep = Some m
    \<and> stream_records MAX_EVIDENCE_BYTES (map PyStr (evidence_lines out)) es \<and> describes archive_platform (archive_verifier sample_reg) m es"
proof -
  obtain trust z where z: "create_archive demo_lib archive_platform demo_create_env demo_request_archive None = (Inr (demo_manifest, trust), Some z)"
      "can_read archive_platform demo_create_env demo_request_archive (demo_reader z) z archive_log"
    using demo_archive by blast
  from strict_verifies [OF z(1) _ _ _ _ demo_gcm_ok demo_zlib_ok demo_zlib_progress z(2), of sample_reg demo_vault_env]
  obtain rep vr where r: "verify_archive demo_lib archive_platform demo_vault_env (demo_reader z) True (Some sample_reg) = Some (Inr rep)"
      "fully_verified (ar_trust rep)" "tr_verification (ar_trust rep) = Some vr" "pqc_malformed_evidence \<notin> alerts_of vr"
    by (auto simp: demo_reader_simps)
  from fully_verified_archive [OF r] r(1,2) show ?thesis by blast
qed

end
