(* ===== verification/RegistryFile.thy ===== *)
theory RegistryFile
  imports JsonFile
begin

text \<open>
  \<^verbatim>\<open>KeyRegistry.save\<close> and \<^verbatim>\<open>KeyRegistry.load\<close> on the bytes of the registry file. Shown: a registry that is
  saved and loaded again has the same keys in the same states, each record unchanged but for the order
  of the keys inside its metadata, and a save that fails leaves the file as it was.
\<close>

section \<open>Writing the file\<close>

text \<open>\<open>fails\<close>: an \<^verbatim>\<open>OSError\<close> before the temporary file has replaced the registry.\<close>

definition reg_save :: "digest \<Rightarrow> pystr \<Rightarrow> bool \<Rightarrow> registry \<Rightarrow> bytes option \<Rightarrow> unit res \<times> bytes option" where
  "reg_save sha3 now fails reg old =
     (case rbind (save_document sha3 now reg) (\<lambda>d. rbind (dumps_indent 0 (PyDict d)) (\<lambda>t. utf8_encode (t @ [10]))) of
        Inl e \<Rightarrow> (Inl e, old)
      | Inr raw \<Rightarrow> if fails then (Inl OSError, old) else (Inr (), Some raw))"

lemma reg_save_cases:
  "reg_save sha3 now fails reg old = (r, new) \<Longrightarrow>
   (r = Inr () \<longrightarrow> (\<exists>d t raw. save_document sha3 now reg = Inr d \<and> dumps_indent 0 (PyDict d) = Inr t \<and> utf8_encode (t @ [10]) = Inr raw \<and> new = Some raw))
   \<and> (r \<noteq> Inr () \<longrightarrow> new = old)"
  by (auto simp: reg_save_def rbind_Inr_iff split: sum.splits if_splits)

section \<open>Reading it back\<close>

text \<open>A record as it comes back: what is decoded JSON inside it has its keys sorted.\<close>

definition canon_record :: "KeyRecord \<Rightarrow> KeyRecord" where
  "canon_record r = r\<lparr>revocation_reason := canon indent_style (revocation_reason r), revoked_at := canon indent_style (revoked_at r),
     metadata := order_dict indent_style (canon_items indent_style (metadata r))\<rparr>"

lemma canon_record_simps [simp]:
  "kr_key_id (canon_record r) = kr_key_id r" "kr_node_id (canon_record r) = kr_node_id r"
  "kr_public_key (canon_record r) = kr_public_key r" "kr_state (canon_record r) = kr_state r"
  "public_key_bytes (canon_record r) = public_key_bytes r" "wf_record (canon_record r) = wf_record r"
  by (simp_all add: canon_record_def public_key_bytes_def wf_record_def)

lemma from_dict_lookup:
  assumes "\<And>k. dict_get d k = dict_get d' k"
  shows "from_dict (PyDict d) = from_dict (PyDict d')"
proof -
  have "dict_has d k = dict_has d' k" for k using assms by (simp add: dict_has_iff)
  moreover have "dict_item d k = dict_item d' k" "get_or d k = get_or d' k" for k
    using assms by (auto simp: dict_item_def get_or_def)
  moreover have "id_field d k = id_field d' k" for k using assms by (simp add: id_field_def dict_item_def)
  ultimately have "dict_has d = dict_has d'" "dict_item d = dict_item d'" "get_or d = get_or d'" "id_field d = id_field d'" by auto
  then show ?thesis by (simp only: from_dict_def pyval.case)
qed

lemma from_dict_canon:
  assumes "wf_record r" "record_to_dict sha3 r = Inr d"
  shows "from_dict (canon indent_style (PyDict d)) = Inr (canon_record r)"
proof -
  obtain pk where pk: "public_key_bytes r = Inr pk" using assms(2) by (auto simp: record_to_dict_def rbind_Inr_iff)
  then obtain d' where d': "record_to_dict sha3 (canon_record r) = Inr d'" by (simp add: record_to_dict_def)
  have o: "canon indent_style (opt_str x) = opt_str x" for x by (simp add: opt_str_def split: option.split)
  note eqs = assms(2) [unfolded record_to_dict_def pk rbind_simps sum.inject, symmetric]
    d' [unfolded record_to_dict_def canon_record_simps pk rbind_simps sum.inject, symmetric]
  have "canon_items indent_style d = d'"
    unfolding eqs by (simp add: canon_record_def o del: lit_simps)
  moreover have "distinct (map fst d')" unfolding eqs by simp
  ultimately have "from_dict (canon indent_style (PyDict d)) = from_dict (PyDict d')"
    by (simp only: canon.simps) (rule from_dict_lookup, rule dict_get_order)
  with from_dict_to_dict [OF _ d'] assms(1) show ?thesis by simp
qed

lemma from_dicts_canon:
  "\<lbrakk>\<forall>r\<in>set rs. wf_record r; to_dicts sha3 rs = Inr ds\<rbrakk> \<Longrightarrow> from_dicts (canon_list indent_style ds) = Inr (map canon_record rs)"
  by (induction rs arbitrary: ds) (auto simp: rbind_Inr_iff from_dict_canon simp del: canon.simps)

lemma load_saved_document:
  assumes "reg_inv reg" "save_document sha3 now reg = Inr d"
  shows "\<exists>reg'. load_document (canon indent_style (PyDict d)) = Inr reg' \<and> map_of reg' = map_option canon_record \<circ> map_of reg
    \<and> map snd reg' = map canon_record (sorted_records reg)"
proof -
  let ?c = "map (\<lambda>(k, r). (k, canon_record r)) reg"
  obtain ds where ds: "to_dicts sha3 (sorted_records reg) = Inr ds"
      "d = [(KStr (lit ''format_version''), PyStr REGISTRY_FORMAT_VERSION), (KStr (lit ''updated_at''), PyStr now), (KStr (lit ''keys''), PyList ds)]"
    using assms(2) by (auto simp: save_document_def rbind_Inr_iff)
  have inv: "reg_inv ?c" using assms(1) by (auto simp: reg_inv_def comp_def case_prod_unfold)
  have wf: "\<forall>r\<in>set (sorted_records reg). wf_record r" using assms(1) by (auto simp: reg_inv_def sorted_records_def)
  have sorted: "sorted_records ?c = map canon_record (sorted_records reg)"
    using map_sort_key [of canon_record "\<lambda>r. (kr_node_id r, kr_key_id r)" "map snd reg"]
    by (simp add: sorted_records_def comp_def case_prod_unfold)
  have "\<forall>r\<in>set (sorted_records ?c). wf_record r" using inv by (auto simp: reg_inv_def sorted_records_def)
  then obtain ds' where ds': "to_dicts sha3 (sorted_records ?c) = Inr ds'" "from_dicts ds' = from_dicts (canon_list indent_style ds)"
    using to_dicts_from_dicts [of "sorted_records ?c" sha3] from_dicts_canon [OF wf ds(1)] sorted by auto
  have dist: "distinct (map fst d)" unfolding ds(2) by simp
  have keys: "dict_get d (lit ''format_version'') = Some (PyStr REGISTRY_FORMAT_VERSION)" "dict_get d (lit ''keys'') = Some (PyList ds)"
    unfolding ds(2) by simp_all
  have "load_document (canon indent_style (PyDict d)) = rbind (from_dicts ds') (reg_init [])"
    unfolding load_document_def canon.simps pyval.case get_or_def dict_get_canon [OF dist] keys by (simp add: ds'(2))
  moreover have "map_of ?c = map_option canon_record \<circ> map_of reg" by (auto simp: map_of_map)
  ultimately show ?thesis using load_export [OF inv ds'(1)] sorted by auto
qed

lemma saved_loads:
  assumes "reg_inv reg" "save_document sha3 now reg = Inr d" "json_ok (PyDict d)"
    and "reg_save sha3 now fails reg old = (Inr (), Some raw)" "length raw \<le> MAX_REGISTRY_BYTES"
  shows "\<exists>reg'. reg_load (Some raw) = Inr reg' \<and> map_of reg' = map_option canon_record \<circ> map_of reg
    \<and> map snd reg' = map canon_record (sorted_records reg)"
proof -
  obtain t where t: "dumps_indent 0 (PyDict d) = Inr t" "utf8_encode (t @ [10]) = Inr raw"
    using reg_save_cases [OF assms(4)] assms(2) by auto
  have "utf8_decode raw = Inr (t @ [10])" using utf8.dec_enc [OF _ t(2)] t(2) by (auto simp: utf8_encode_def split: if_splits)
  moreover have "json_loads (t @ [10]) = Inr (canon indent_style (PyDict d))"
    using dumps_indent_loads [OF assms(3) t(1), of "[10]"] by (simp add: jws_def)
  ultimately have "reg_load (Some raw) = load_document (canon indent_style (PyDict d))"
    using assms(5) by (simp add: reg_load_def require_def del: canon.simps)
  with load_saved_document [OF assms(1,2)] show ?thesis by simp
qed

text \<open>
  \<^bold>\<open>C37\<close>. Saving and loading the registry file. For every valid registry whose texts are valid Unicode and whose
  metadata holds no floats, the bytes that \<^verbatim>\<open>save\<close> writes are accepted by \<^verbatim>\<open>load\<close> if they are within its size
  limit, and the loaded registry has exactly the same key identifiers, each with the record that was
  saved: same node, key, times and state, and the same metadata with its keys sorted; the records are in the
  sorted order of the file.
\<close>

theorem registry_file_roundtrip:
  assumes "reg_inv reg" "save_document sha3 now reg = Inr d" "json_ok (PyDict d)"
    and "reg_save sha3 now fails reg old = (Inr (), Some raw)" "length raw \<le> MAX_REGISTRY_BYTES"
  shows "\<exists>reg'. reg_load (Some raw) = Inr reg' \<and> map_of reg' = map_option canon_record \<circ> map_of reg
    \<and> map snd reg' = map canon_record (sorted_records reg)"
  using assms by (rule saved_loads)

section \<open>The sample registry in a file\<close>

definition sample_document :: pydict where
  "sample_document = projr (save_document demo_sha3 (lit ''now'') sample_reg)"

definition sample_file :: bytes where
  "sample_file = projr (rbind (dumps_indent 0 (PyDict sample_document)) (\<lambda>t. utf8_encode (t @ [10])))"

lemma sample_doc_eval:
  "sample_document = [(KStr (lit ''format_version''), PyStr REGISTRY_FORMAT_VERSION), (KStr (lit ''updated_at''), PyStr (lit ''now'')),
     (KStr (lit ''keys''), PyList [PyDict (projr (record_to_dict demo_sha3 sample_key))])]"
  "save_document demo_sha3 (lit ''now'') sample_reg = Inr sample_document"
  by (simp_all add: sample_document_def save_document_def sample_reg_def sorted_records_def record_to_dict_def public_key_bytes_def
      sample_key_def b64_val_def byte_of_def)

lemma sample_digest: "replicate 16 (97 :: nat) = [97, 97, 97, 97, 97, 97, 97, 97, 97, 97, 97, 97, 97, 97, 97, 97]"
  "list_all scalar (replicate 64 97)"
  by (simp add: numeral_eq_Suc) (simp add: list_all_iff scalar_def)

lemma sample_saved:
  "reg_save demo_sha3 (lit ''now'') False sample_reg None = (Inr (), Some sample_file)" "length sample_file \<le> MAX_REGISTRY_BYTES"
  unfolding reg_save_def sample_file_def sample_doc_eval(2) rbind_simps
  unfolding sample_doc_eval(1)
  by (simp_all add: record_to_dict_def public_key_bytes_def sample_key_def b64_val_def byte_of_def demo_sha3_def
     opt_str_def fingerprint_def REGISTRY_FORMAT_VERSION_def order_items_def indent_style_def quote_def esc_char_def member_text_def
     utf8_encode_def scalar_def newline_indent_def MAX_REGISTRY_BYTES_def utf8_char_def sample_digest)

lemma sample_doc_ok: "json_ok (PyDict sample_document)"
  unfolding sample_doc_eval(1)
  by (simp add: record_to_dict_def public_key_bytes_def sample_key_def b64_val_def byte_of_def demo_sha3_def
     opt_str_def fingerprint_def REGISTRY_FORMAT_VERSION_def scalar_def sample_digest(1) list_all_iff)

lemma sample_file_loads: "reg_load (Some sample_file) = Inr sample_reg"
proof -
  obtain reg' where r: "reg_load (Some sample_file) = Inr reg'" "map snd reg' = map canon_record (sorted_records sample_reg)"
    using saved_loads [OF sample_reg_inv sample_doc_eval(2) sample_doc_ok sample_saved] by blast
  have "canon_record sample_key = sample_key"
    by (simp add: canon_record_def sample_key_def order_dict_def)
  with r(2) obtain k where k: "reg' = [(k, sample_key)]"
    by (auto simp: sorted_records_def sample_reg_def)
  moreover have "k = kr_key_id sample_key" using reg_inv_load [OF r(1)] k by (simp add: reg_inv_def)
  ultimately show ?thesis using r(1) by (simp add: sample_reg_def sample_key_def)
qed

theorem registry_file_roundtrip_witness:
  "\<exists>reg'. reg_load (Some sample_file) = Inr reg' \<and> map_of reg' = map_option canon_record \<circ> map_of sample_reg
    \<and> map snd reg' = map canon_record (sorted_records sample_reg)"
  by (rule registry_file_roundtrip [OF sample_reg_inv sample_doc_eval(2) sample_doc_ok sample_saved])

end
