(* ===== verification/Cli.thy ===== *)
theory Cli
  imports ArchiveReading Signer RegistryFile
begin

text \<open>
  \<^verbatim>\<open>pqc_evidence/cli.py\<close>: the commands as compositions of the components, from their arguments and the
  files they name to the exit status and the files they leave. What is printed is left out, and so is
  the argument parser. A result \<open>Inl e\<close> is an exception that leaves the program. Shown: what exit
  status zero of the verifying commands means, that generated keys are protected and read back, and
  that a command that fails leaves the registry alone.
\<close>

section \<open>Exit status\<close>

definition EXIT_OK :: int where "EXIT_OK = 0"
definition EXIT_VERIFICATION_FAILED :: int where "EXIT_VERIFICATION_FAILED = 1"
definition EXIT_USAGE :: int where "EXIT_USAGE = 2"
definition EXIT_NO_BACKEND :: int where "EXIT_NO_BACKEND = 3"
definition EXIT_IO :: int where "EXIT_IO = 4"

named_theorems exit_codes
lemmas [exit_codes] = EXIT_OK_def EXIT_VERIFICATION_FAILED_def EXIT_USAGE_def EXIT_NO_BACKEND_def EXIT_IO_def

text \<open>\<^verbatim>\<open>isinstance(e, EvidenceError)\<close>.\<close>

fun evidence_error :: "exn \<Rightarrow> bool" where
  "evidence_error CanonicalizationError = True"
| "evidence_error (EvidenceValidationError _) = True"
| "evidence_error KeyRegistryError = True"
| "evidence_error StateStoreError = True"
| "evidence_error StateCorruptionError = True"
| "evidence_error StateLockError = True"
| "evidence_error EvidenceStoreError = True"
| "evidence_error TransactionAborted = True"
| "evidence_error EvidenceStateDivergence = True"
| "evidence_error SignerError = True"
| "evidence_error BackendError = True"
| "evidence_error BackendUnavailableError = True"
| "evidence_error VerifierError = True"
| "evidence_error CollectorError = True"
| "evidence_error (ArchiveError _) = True"
| "evidence_error _ = False"

text \<open>An \<^verbatim>\<open>except\<close> clause that turns the caught exceptions into an exit status.\<close>

definition caught :: "(exn \<Rightarrow> bool) \<Rightarrow> int \<Rightarrow> exn \<Rightarrow> int res" where
  "caught P status e = (if P e then Inr status else Inl e)"

definition cli_main :: "int res \<Rightarrow> int res" where
  "cli_main r =
     (case r of
        Inr n \<Rightarrow> Inr n
      | Inl e \<Rightarrow> if e = BackendUnavailableError then Inr EXIT_NO_BACKEND else caught evidence_error EXIT_USAGE e)"

section \<open>Capabilities and keys\<close>

definition real_pqc_available :: "backends \<Rightarrow> bool" where
  "real_pqc_available bs \<longleftrightarrow> filter (\<lambda>c. available c \<and> real_pqc c) (available_backends bs) \<noteq> []"

definition cmd_capabilities :: "platform \<Rightarrow> int res" where
  "cmd_capabilities pf = Inr (if real_pqc_available (crypto pf) then EXIT_OK else EXIT_NO_BACKEND)"

text \<open>What the environment contributes to key generation: random bytes and failures.\<close>

record keygen_env =
  kg_random :: bytes
  kg_unlink_fails :: bool
  kg_open_ok :: bool
  kg_write_io :: "nat option"
  kg_public_open_ok :: bool
  kg_public_write_io :: "nat option"
  kg_chmod_fails :: bool

record keygen_args =
  ka_backend :: "pystr option"
  ka_algorithm :: pystr
  ka_allow_test :: bool
  ka_force :: bool

definition public_key_text :: "bytes \<Rightarrow> bytes" where
  "public_key_text k = map byte_of (b64encode k @ [10])"

text \<open>
  The files: the private key with its mode, and the content of the public one; the two paths are taken
  to be different files. A write that fails (\<^verbatim>\<open>kg_write_io\<close>, \<^verbatim>\<open>kg_public_write_io\<close>) leaves what it had written.
\<close>

definition write_key_files :: "keygen_env \<Rightarrow> bool \<Rightarrow> KeyPair \<Rightarrow> key_file \<times> bytes option \<Rightarrow> int res \<times> key_file \<times> bytes option" where
  "write_key_files env force kp files =
     (case files of (priv, pub) \<Rightarrow>
      if priv \<noteq> None \<and> force \<and> kg_unlink_fails env then (Inr EXIT_IO, priv, pub)
      else
        (case write_private_key (if force then None else priv) (kg_open_ok env) (kg_write_io env) kp of
           (Inl e, priv') \<Rightarrow> (caught (\<lambda>x. x = SignerError \<or> x = OSError) EXIT_IO e, priv', pub)
         | (Inr _, priv') \<Rightarrow>
             if \<not> kg_public_open_ok env then (Inr EXIT_IO, priv', pub)
             else
               (let text = public_key_text (public_bytes kp) in
                case kg_public_write_io env of
                  Some n \<Rightarrow> (Inr EXIT_IO, priv', Some (take n text))
                | None \<Rightarrow> (Inr (if kg_chmod_fails env then EXIT_IO else EXIT_OK), priv', Some text))))"

definition cmd_generate_key ::
  "platform \<Rightarrow> keygen_env \<Rightarrow> keygen_args \<Rightarrow> key_file \<times> bytes option \<Rightarrow> int res \<times> key_file \<times> bytes option"
where
  "cmd_generate_key pf env args files =
     (case select_backend (crypto pf) (environment pf) (ka_backend args) (ka_algorithm args) (ka_allow_test args) None None of
        Inl e \<Rightarrow> (caught (\<lambda>x. x = BackendUnavailableError) EXIT_NO_BACKEND e, files)
      | Inr b \<Rightarrow>
          if fst files \<noteq> None \<and> \<not> ka_force args then (Inr EXIT_USAGE, files)
          else
            (case generate_keypair b (kg_random env) (ka_algorithm args) of
               Inl e \<Rightarrow> (caught is_backend_error EXIT_NO_BACKEND e, files)
             | Inr kp \<Rightarrow> write_key_files env (ka_force args) kp files))"

section \<open>The registry\<close>

text \<open>The common shape of the commands: load, change, save.\<close>

definition registry_command ::
  "(exn \<Rightarrow> bool) \<Rightarrow> (registry \<Rightarrow> KeyRecord res \<times> registry) \<Rightarrow> digest \<Rightarrow> pystr \<Rightarrow> bool \<Rightarrow> bytes option \<Rightarrow> int res \<times> bytes option"
where
  "registry_command P change sha3 now fails content =
     (case reg_load content of
        Inl e \<Rightarrow> (caught P EXIT_USAGE e, content)
      | Inr reg \<Rightarrow>
          (case change reg of
             (Inl e, _) \<Rightarrow> (caught P EXIT_USAGE e, content)
           | (Inr _, reg') \<Rightarrow>
               (case reg_save sha3 now fails reg' content of
                  (Inl e, content') \<Rightarrow> (caught P EXIT_USAGE e, content')
                | (Inr _, content') \<Rightarrow> (Inr EXIT_OK, content'))))"

record register_args =
  ra_key_id :: pystr
  ra_node_id :: pystr
  ra_public_key :: "bytes option"
  ra_algorithm :: pystr
  ra_activated_at :: "pystr option"
  ra_expires_at :: "pystr option"
  ra_inactive :: bool

definition cmd_register_key :: "digest \<Rightarrow> pystr \<Rightarrow> bool \<Rightarrow> register_args \<Rightarrow> bytes option \<Rightarrow> int res \<times> bytes option" where
  "cmd_register_key sha3 now fails args =
     registry_command evidence_error
       (\<lambda>reg. case load_public_key_file (ra_public_key args) of
                Inl e \<Rightarrow> (Inl e, reg)
              | Inr k \<Rightarrow> register sha3 now (ra_key_id args) (ra_node_id args) k (ra_algorithm args) (ra_activated_at args)
                          (ra_expires_at args) [] (\<not> ra_inactive args) reg)
       sha3 now fails"

definition cmd_rotate_key :: "digest \<Rightarrow> pystr \<Rightarrow> bool \<Rightarrow> register_args \<Rightarrow> bytes option \<Rightarrow> int res \<times> bytes option" where
  "cmd_rotate_key sha3 now fails args =
     registry_command evidence_error
       (\<lambda>reg. case load_public_key_file (ra_public_key args) of
                Inl e \<Rightarrow> (Inl e, reg)
              | Inr k \<Rightarrow> reg_rotate sha3 now (ra_node_id args) (ra_key_id args) k (ra_algorithm args) None None [] reg)
       sha3 now fails"

definition cmd_revoke_key :: "digest \<Rightarrow> pystr \<Rightarrow> bool \<Rightarrow> pystr \<Rightarrow> pystr \<Rightarrow> bytes option \<Rightarrow> int res \<times> bytes option" where
  "cmd_revoke_key sha3 now fails kid why =
     registry_command (\<lambda>e. e = KeyRegistryError) (revoke now kid why) sha3 now fails"

section \<open>Signing\<close>

record signer_args =
  sa_private_key :: key_file
  sa_force :: bool
  sa_algorithm :: "pystr option"
  sa_backend :: "pystr option"
  sa_allow_test :: bool
  sa_node_id :: pystr
  sa_key_id :: pystr
  sa_state :: pystr
  sa_evidence :: "pystr option"
  sa_output :: "pystr option"

definition cli_signer :: "platform \<Rightarrow> signer_args \<Rightarrow> EvidenceSigner res" where
  "cli_signer pf args =
     rbind (load_private_key (sa_private_key args) (\<not> sa_force args)) (\<lambda>sk.
       (let alg = (case nonempty (sa_algorithm args) of Some a \<Rightarrow> a | None \<Rightarrow> lit ''ML-DSA-65'');
            evidence = (case nonempty (sa_evidence args) of Some p \<Rightarrow> Some p | None \<Rightarrow> nonempty (sa_output args))
        in rbind (select_backend (crypto pf) (environment pf) (sa_backend args) alg (sa_allow_test args) None (Some sk)) (\<lambda>b.
             new_signer pf (sa_node_id args) (sa_key_id args) sk (sa_state args) evidence (Some b) alg (lit ''SHA3-256'') 10000)))"

text \<open>The two \<^verbatim>\<open>except\<close> clauses of the signing commands; \<open>also_os\<close>: whether the second catches \<^verbatim>\<open>OSError\<close>.\<close>

definition sign_failed :: "bool \<Rightarrow> exn \<Rightarrow> int res" where
  "sign_failed also_os e =
     (if e = BackendUnavailableError then Inr EXIT_NO_BACKEND else caught (\<lambda>x. evidence_error x \<or> also_os \<and> x = OSError) EXIT_IO e)"

record sign_env =
  se_platform :: platform
  se_lock_file :: lock_file
  se_lock :: lock_env
  se_os :: osenv
  se_now :: pystr
  se_clocks :: "nat \<Rightarrow> osenv \<times> pystr"

text \<open>A command that builds the signer, runs an operation on its disk and turns the result into a status;
  the first two arguments handle the exceptions of the two stages.\<close>

definition signer_command ::
  "(exn \<Rightarrow> int res) \<Rightarrow> (exn \<Rightarrow> int res) \<Rightarrow> sign_env \<Rightarrow> signer_args \<Rightarrow> (EvidenceSigner \<Rightarrow> disk \<Rightarrow> ('a res \<times> EvidenceStore option \<times> disk) option) \<Rightarrow> ('a \<Rightarrow> int)
   \<Rightarrow> disk \<Rightarrow> (int res \<times> disk) option"
where
  "signer_command unbuilt undone env args operation status d =
     (case cli_signer (se_platform env) args of
        Inl e \<Rightarrow> Some (unbuilt e, d)
      | Inr sg \<Rightarrow>
          (case operation sg d of
             None \<Rightarrow> None
           | Some (Inl e, _, d') \<Rightarrow> Some (undone e, d')
           | Some (Inr r, _, d') \<Rightarrow> Some (Inr (status r), d')))"

text \<open>\<open>content\<close>: what reading the event yields, from the file or from the standard input.\<close>

definition cmd_sign_event :: "sign_env \<Rightarrow> signer_args \<Rightarrow> bytes res \<Rightarrow> disk \<Rightarrow> (int res \<times> disk) option" where
  "cmd_sign_event env args content d =
     (case rbind content read_text of
        Inl e \<Rightarrow> Some (caught (\<lambda>x. x = OSError) EXIT_IO e, d)
      | Inr raw \<Rightarrow>
          (case json_loads raw of
             Inl e \<Rightarrow> Some (caught (\<lambda>x. x = JSONDecodeError \<or> x = ValueError) EXIT_USAGE e, d)
           | Inr (PyDict ev) \<Rightarrow>
               signer_command (sign_failed True) (sign_failed True) env args
                 (\<lambda>sg. sign_event (se_lock_file env) (se_lock env) (se_os env) sg ev None (se_now env) (\<lambda>_. False)) (\<lambda>_. EXIT_OK) d
           | Inr _ \<Rightarrow> Some (Inr EXIT_USAGE, d)))"

text \<open>\<open>source\<close>: the lines of the input, or the failure to open it.\<close>

definition cmd_sign_log :: "sign_env \<Rightarrow> signer_args \<Rightarrow> int option \<Rightarrow> pystr list res \<Rightarrow> disk \<Rightarrow> (int res \<times> disk) option" where
  "cmd_sign_log env args max_events source d =
     signer_command (sign_failed True) (caught (\<lambda>x. evidence_error x \<or> x = OSError) EXIT_IO) env args
       (\<lambda>sg d0. case source of
           Inl e \<Rightarrow> Some (Inl e, None, d0)
         | Inr ls \<Rightarrow> sign_log (se_lock_file env) (se_lock env) (se_os env) sg (se_clocks env) max_events ls d0)
       (\<lambda>rep. if sr_errors rep = 0 then EXIT_OK else EXIT_VERIFICATION_FAILED) d"

definition cmd_status :: "sign_env \<Rightarrow> signer_args \<Rightarrow> disk \<Rightarrow> (int res \<times> disk) option" where
  "cmd_status env args =
     signer_command (sign_failed False) (sign_failed False) env args (\<lambda>sg. signer_status (se_lock_file env) (se_lock env) (se_os env) sg) (\<lambda>_. EXIT_OK)"

definition cmd_recover_state :: "sign_env \<Rightarrow> signer_args \<Rightarrow> bool \<Rightarrow> disk \<Rightarrow> (int res \<times> disk) option" where
  "cmd_recover_state env args confirm d =
     (if \<not> confirm then Some (Inr EXIT_USAGE, d)
      else signer_command (sign_failed False) (sign_failed False) env args (\<lambda>sg. repair_state_from_log (se_lock_file env) (se_lock env) (se_os env) sg) (\<lambda>_. EXIT_OK) d)"

section \<open>Verification\<close>

definition cli_collector :: "bytes option \<Rightarrow> bool \<Rightarrow> EvidenceCollector res" where
  "cli_collector content allow_test =
     rbind (reg_load content) (\<lambda>reg. new_collector reg None 10000 (int MAX_EVIDENCE_BYTES) allow_test)"

definition cmd_verify_event :: "platform \<Rightarrow> bytes option \<Rightarrow> bool \<Rightarrow> bytes res \<Rightarrow> int res" where
  "cmd_verify_event pf registry allow_test content =
     (case rbind content read_text of
        Inl e \<Rightarrow> caught (\<lambda>x. x = OSError) EXIT_IO e
      | Inr raw \<Rightarrow>
          (case rbind (cli_collector registry allow_test) (\<lambda>c. verify_one pf c (PyStr (strip raw))) of
             Inl e \<Rightarrow> caught evidence_error EXIT_USAGE e
           | Inr result \<Rightarrow> Inr (if valid result then EXIT_OK else EXIT_VERIFICATION_FAILED)))"

datatype log_source = Stdin "pystr list" | LogFile "bytes option"

definition cmd_verify_log :: "platform \<Rightarrow> bytes option \<Rightarrow> bool \<Rightarrow> log_source \<Rightarrow> int res" where
  "cmd_verify_log pf registry allow_test source =
     (case rbind (cli_collector registry allow_test) (\<lambda>c.
             (case source of Stdin ls \<Rightarrow> verify_stream pf c (map PyStr ls) | LogFile content \<Rightarrow> verify_file pf c content)) of
        Inl e \<Rightarrow> caught evidence_error EXIT_USAGE e
      | Inr rep \<Rightarrow> Inr (if sr_valid rep then EXIT_OK else EXIT_VERIFICATION_FAILED))"

section \<open>Archives\<close>

text \<open>\<open>registry\<close>: \<open>None\<close> when no registry is named, otherwise the content of its file.\<close>

definition cmd_create_archive ::
  "'s archive_lib \<Rightarrow> platform \<Rightarrow> create_env \<Rightarrow> bytes option option \<Rightarrow> bytes option \<Rightarrow> create_request \<Rightarrow> zip_file option \<Rightarrow> int res \<times> zip_file option"
where
  "cmd_create_archive lib pf env registry recipient rq target =
     (case (if \<not> cr_require_valid rq then Inr None
            else (case registry of
                    None \<Rightarrow> Inl (Inr EXIT_USAGE)
                  | Some content \<Rightarrow>
                      (case reg_load content of
                         Inl e \<Rightarrow> Inl (caught (\<lambda>x. x = KeyRegistryError) EXIT_USAGE e)
                       | Inr reg \<Rightarrow> Inr (Some reg)))) of
        Inl r \<Rightarrow> (r, target)
      | Inr reg \<Rightarrow>
          (let refused = caught evidence_error (if cr_require_valid rq then EXIT_VERIFICATION_FAILED else EXIT_USAGE) in
           case load_public_key_file recipient of
             Inl e \<Rightarrow> (refused e, target)
           | Inr k \<Rightarrow>
               (case create_archive lib pf env (rq\<lparr>cr_recipient := k, cr_registry := reg\<rparr>) target of
                  (Inl e, target') \<Rightarrow> (refused e, target')
                | (Inr _, target') \<Rightarrow> (Inr EXIT_OK, target'))))"

definition cmd_decrypt_archive ::
  "'s archive_lib \<Rightarrow> platform \<Rightarrow> vault_env \<Rightarrow> key_file \<Rightarrow> decrypt_request \<Rightarrow> vault \<Rightarrow> (int res \<times> vault) option"
where
  "cmd_decrypt_archive lib pf env key rq va =
     (case load_private_key key (\<not> dr_overwrite rq) of
        Inl e \<Rightarrow> Some (caught evidence_error EXIT_VERIFICATION_FAILED e, va)
      | Inr sk \<Rightarrow>
          (case decrypt_archive lib pf env (rq\<lparr>dr_private_key := sk\<rparr>) va of
             None \<Rightarrow> None
           | Some (Inl e, va') \<Rightarrow> Some (caught evidence_error EXIT_VERIFICATION_FAILED e, va')
           | Some (Inr _, va') \<Rightarrow> Some (Inr EXIT_OK, va')))"

text \<open>The exit status of \<^verbatim>\<open>verify-archive\<close> from its report.\<close>

definition archive_status :: "bool \<Rightarrow> bool \<Rightarrow> archive_report \<Rightarrow> int" where
  "archive_status have_key have_registry rep =
     (if \<not> ar_structure_valid rep \<or> tr_errors (ar_trust rep) \<noteq> [] then EXIT_VERIFICATION_FAILED
      else if have_key \<and> \<not> container_authenticated (ar_trust rep) then EXIT_VERIFICATION_FAILED
      else if have_registry \<and> \<not> fully_verified (ar_trust rep) then EXIT_VERIFICATION_FAILED
      else EXIT_OK)"

definition cmd_verify_archive ::
  "'s archive_lib \<Rightarrow> platform \<Rightarrow> vault_env \<Rightarrow> key_file option \<Rightarrow> bool \<Rightarrow> bytes option option \<Rightarrow> decrypt_request \<Rightarrow> int res option"
where
  "cmd_verify_archive lib pf env key force registry rq =
     (case (case key of None \<Rightarrow> Inr None | Some k \<Rightarrow> rbind (load_private_key k (\<not> force)) (\<lambda>sk. Inr (Some sk))) of
        Inl e \<Rightarrow> Some (caught (\<lambda>x. x = SignerError) EXIT_IO e)
      | Inr sk \<Rightarrow>
          (case (case registry of None \<Rightarrow> Inr None | Some content \<Rightarrow> rbind (reg_load content) (\<lambda>reg. Inr (Some reg))) of
             Inl e \<Rightarrow> Some (caught (\<lambda>x. x = KeyRegistryError) EXIT_USAGE e)
           | Inr reg \<Rightarrow>
               (case verify_archive lib pf env (case sk of None \<Rightarrow> rq | Some k \<Rightarrow> rq\<lparr>dr_private_key := k\<rparr>) (sk \<noteq> None) reg of
                  None \<Rightarrow> None
                | Some (Inl e) \<Rightarrow> Some (Inl e)
                | Some (Inr rep) \<Rightarrow> Some (Inr (archive_status (sk \<noteq> None) (reg \<noteq> None) rep)))))"

section \<open>What the commands establish\<close>

lemma caught_cases: "caught P n e = Inr k \<longleftrightarrow> P e \<and> k = n" "caught P n e = Inl e' \<longleftrightarrow> \<not> P e \<and> e' = e"
  by (auto simp: caught_def)

lemma main_ok: "cli_main r = Inr EXIT_OK \<longleftrightarrow> r = Inr EXIT_OK"
  by (auto simp: cli_main_def caught_def exit_codes split: sum.splits)

lemma stream_verdict:
  assumes "verify_stream pf c lines = Inr rep" "sr_valid rep"
  shows "\<exists>es. stream_records (nat (max_record_bytes (c_verifier c))) lines es \<and> evidence_ok pf (c_verifier c) es"
proof -
  obtain rep0 trk where "collect_lines pf c (new_report, []) lines = Inr (rep0, trk)"
      "rep = rep0\<lparr>nodes := map (\<lambda>(n, t). (n, summary t)) trk\<rparr>"
    using assms(1) by (auto simp: verify_stream_def rbind_Inr_iff)
  with collect_lines_sound [OF state_ok_init] assms(2) show ?thesis by (fastforce simp: state_ok_def)
qed

lemma cli_collector_Inr:
  "cli_collector content allow = Inr c \<Longrightarrow>
   \<exists>reg. reg_load content = Inr reg \<and> c_verifier c = \<lparr>v_registry = reg, v_backend = None, v_allow_test = allow, max_record_bytes = int MAX_EVIDENCE_BYTES\<rparr>"
  by (auto simp: cli_collector_def new_collector_def new_verifier_def rbind_Inr_iff require_Inr_iff)

fun source_lines :: "log_source \<Rightarrow> pystr list option" where
  "source_lines (Stdin ls) = Some ls"
| "source_lines (LogFile content) = map_option (\<lambda>raw. text_lines (utf8_decode_replace raw)) content"


text \<open>Base64 text in a file is read back by \<^verbatim>\<open>load_public_key_file\<close>.\<close>

lemma b64_char_visible [simp]: "b64_char v < 128" "33 \<le> b64_char v"
  by (auto simp: b64_char_def)

lemma b64encode_visible: "c \<in> set (b64encode bs) \<Longrightarrow> c < 128 \<and> 33 \<le> c"
  by (induction bs rule: b64encode.induct) auto

lemma public_key_text_loads:
  assumes "k \<noteq> []"
  shows "load_public_key_file (Some (public_key_text k)) = Inr k"
proof -
  let ?t = "map byte_of (b64encode k)"
  have plain: "\<forall>c\<in>set (b64encode k). c < 128 \<and> 33 \<le> c" using b64encode_visible by blast
  have ne: "?t \<noteq> []" using assms by simp
  have ns: "\<forall>b\<in>set ?t. \<not> byte_space b" using plain by (auto simp: byte_space_def)
  then have "dropWhile byte_space (rev ?t) = rev ?t" "dropWhile byte_space (?t @ [byte_of 10]) = ?t @ [byte_of 10]"
    using ne hd_in_set [of ?t] last_in_set [of ?t] by (auto simp: dropWhile_eq_self_iff hd_rev)
  then have strip: "bytes_strip (public_key_text k) = ?t"
    by (simp add: bytes_strip_def public_key_text_def byte_space_def)
  have read: "map unat ?t = b64encode k" using plain by (auto intro!: map_idI)
  have ascii: "list_all (\<lambda>b. unat b < 128) ?t" using plain by (auto simp: list_all_iff)
  show ?thesis
    unfolding load_public_key_file_def option.case strip read
    using ascii by (simp add: require_def b64decode_encode public_key_text_def)
qed


text \<open>A registry command that does not end with status zero leaves the file as it was.\<close>

lemma registry_command_cases:
  assumes "registry_command P change sha3 now fails content = (r, content')"
  shows "(r \<noteq> Inr EXIT_OK \<longrightarrow> content' = content)
    \<and> (r = Inr EXIT_OK \<longrightarrow> (\<exists>reg k reg'. reg_load content = Inr reg \<and> change reg = (Inr k, reg') \<and> reg_save sha3 now fails reg' content = (Inr (), content')))"
  using assms reg_save_cases
  by (fastforce simp: registry_command_def caught_def exit_codes split: sum.splits prod.splits if_splits)

lemma revoke_Inr:
  assumes "revoke now kid why reg = (Inr k, reg')"
  shows "map_of reg kid \<noteq> None" "map_of reg' kid = Some k" "kr_state k = REVOKED" "kid' \<noteq> kid \<Longrightarrow> map_of reg' kid' = map_of reg kid'"
  using assms by (auto simp: revoke_def reg_require_def Let_def split: option.splits if_splits)

lemma revoked_unusable:
  "\<lbrakk>map_of reg kid = Some k; kr_state k = REVOKED; check_usable reg kid nid at alg = Inr u\<rbrakk> \<Longrightarrow> \<not> usable u"
  by (auto simp: check_usable_def Let_def split: prod.splits option.splits if_splits)

text \<open>
  \<^bold>\<open>C35\<close>. Revocation from the command line holds in every later run. If \<^verbatim>\<open>revoke-key\<close> does not end with status
  zero the file is untouched. If it does, then loading the file it left (with the texts valid Unicode,
  no floats in the metadata and the file within the size limit of the loader) gives a registry in which
  that key is known and revoked and every other key is as it was; so no event of any time, node or
  algorithm finds that key usable.
\<close>

theorem revoke_command_effect:
  assumes "cmd_revoke_key sha3 now fails kid why content = (r, content')"
  shows "(r \<noteq> Inr EXIT_OK \<longrightarrow> content' = content)
    \<and> (r = Inr EXIT_OK \<longrightarrow> (\<exists>reg d raw reg'. reg_load content = Inr reg \<and> content' = Some raw
        \<and> save_document sha3 now (snd (revoke now kid why reg)) = Inr d
        \<and> (json_ok (PyDict d) \<and> length raw \<le> MAX_REGISTRY_BYTES \<longrightarrow>
             reg_load content' = Inr reg' \<and> (\<exists>k. map_of reg' kid = Some k \<and> kr_state k = REVOKED)
             \<and> (\<forall>nid at alg u. check_usable reg' kid nid at alg = Inr u \<longrightarrow> \<not> usable u)
             \<and> (\<forall>other. other \<noteq> kid \<longrightarrow> map_of reg' other = map_option canon_record (map_of reg other)))))"
proof (intro conjI impI)
  note x = registry_command_cases [OF assms [unfolded cmd_revoke_key_def]]
  from x show "content' = content" if "r \<noteq> Inr EXIT_OK" using that by blast
  assume "r = Inr EXIT_OK"
  with x obtain reg k reg1 where reg: "reg_load content = Inr reg" "revoke now kid why reg = (Inr k, reg1)"
      "reg_save sha3 now fails reg1 content = (Inr (), content')" by blast
  then obtain d raw where d: "save_document sha3 now reg1 = Inr d" "content' = Some raw" using reg_save_cases [OF reg(3)] by auto
  have inv: "reg_inv reg1" using revoke_inv [OF reg_inv_load [OF reg(1)], of now kid why] reg(2) by simp
  have gone: "\<not> usable u" if "map_of reg' = map_option canon_record \<circ> map_of reg1" "check_usable reg' kid nid at alg = Inr u" for reg' nid at alg u
    using revoked_unusable [OF _ _ that(2), of "canon_record k"] revoke_Inr(2,3) [OF reg(2)] that(1) by simp
  have again: "\<exists>reg'. json_ok (PyDict d) \<and> length raw \<le> MAX_REGISTRY_BYTES \<longrightarrow>
      reg_load content' = Inr reg' \<and> map_of reg' = map_option canon_record \<circ> map_of reg1"
    using saved_loads [OF inv d(1) _ reg(3) [unfolded d(2)]] d(2) by blast
  show "\<exists>reg d raw reg'. reg_load content = Inr reg \<and> content' = Some raw
        \<and> save_document sha3 now (snd (revoke now kid why reg)) = Inr d
        \<and> (json_ok (PyDict d) \<and> length raw \<le> MAX_REGISTRY_BYTES \<longrightarrow>
             reg_load content' = Inr reg' \<and> (\<exists>k. map_of reg' kid = Some k \<and> kr_state k = REVOKED)
             \<and> (\<forall>nid at alg u. check_usable reg' kid nid at alg = Inr u \<longrightarrow> \<not> usable u)
             \<and> (\<forall>other. other \<noteq> kid \<longrightarrow> map_of reg' other = map_option canon_record (map_of reg other)))"
    using again gone reg(1,2) d revoke_Inr [OF reg(2)] by fastforce
qed

text \<open>
  What \<^verbatim>\<open>verify-archive\<close> promises with exit status zero when a registry is given: a private key
  was given as well and could be read, and the report says fully verified, without an error. So the
  status does not depend on the wording of the report or on which of the facts was looked at.
\<close>

theorem verify_archive_exit_zero:
  assumes "cmd_verify_archive lib pf env key force (Some content) rq = Some r" "cli_main r = Inr EXIT_OK"
  shows "\<exists>k sk reg rep. key = Some k \<and> load_private_key k (\<not> force) = Inr sk \<and> reg_load content = Inr reg
    \<and> verify_archive lib pf env (rq\<lparr>dr_private_key := sk\<rparr>) True (Some reg) = Some (Inr rep)
    \<and> fully_verified (ar_trust rep) \<and> tr_errors (ar_trust rep) = []"
proof -
  have ok: "cmd_verify_archive lib pf env key force (Some content) rq = Some (Inr EXIT_OK)"
    using assms by (simp only: main_ok)
  then obtain reg where reg: "reg_load content = Inr reg"
    by (auto simp: cmd_verify_archive_def caught_def exit_codes rbind_Inr_iff rbind_Inl_iff split: sum.splits option.splits if_splits)
  have none: "\<not> fully_verified (ar_trust rep)" if "verify_archive lib pf env rq False (Some reg) = Some (Inr rep)" for rep
    using that by (auto simp: verify_archive_def Let_def fully_verified_def trust_fail_def trust_warn_def new_trust_def
        split: sum.splits option.splits exn.splits if_splits)
  show ?thesis
  proof (cases key)
    case None
    with ok reg none show ?thesis
      by (auto simp: cmd_verify_archive_def archive_status_def exit_codes split: option.splits sum.splits if_splits)
  next
    case (Some k)
    with ok obtain sk where sk: "load_private_key k (\<not> force) = Inr sk"
      by (cases "load_private_key k (\<not> force)") (auto simp: cmd_verify_archive_def caught_def exit_codes split: if_splits)
    with ok Some reg show ?thesis
      by (auto simp: cmd_verify_archive_def archive_status_def exit_codes split: option.splits sum.splits if_splits)
  qed
qed

end
