(* ===== verification/CliDemo.thy ===== *)
theory CliDemo
  imports ArchiveDemo Cli
begin


definition demo_keygen :: keygen_env where
  "demo_keygen = \<lparr>kg_random = [1, 2, 3], kg_unlink_fails = False, kg_open_ok = True, kg_write_io = None,
     kg_public_open_ok = True, kg_public_write_io = None, kg_chmod_fails = False\<rparr>"

definition demo_keygen_args :: keygen_args where
  "demo_keygen_args = \<lparr>ka_backend = None, ka_algorithm = lit ''ML-DSA-65'', ka_allow_test = False, ka_force = False\<rparr>"

lemma demo_generated:
  "cmd_generate_key archive_platform demo_keygen demo_keygen_args (None, None)
   = (Inr EXIT_OK, Some ([1, 2, 3], 384), Some (public_key_text [1, 2, 3]))"
  by (simp add: cmd_generate_key_def demo_keygen_args_def demo_keygen_def archive_backend_eval archive_impl_def demo_impl_def
      write_key_files_def write_private_key_def package_impl_def guarded_def)


definition revoked_key :: KeyRecord where
  "revoked_key = sample_key\<lparr>kr_state := REVOKED, revocation_reason := PyStr (lit ''lost''), revoked_at := PyStr (lit ''now'')\<rparr>"

lemma demo_revoke: "revoke (lit ''now'') (lit ''k1'') (lit ''lost'') sample_reg = (Inr revoked_key, [(lit ''k1'', revoked_key)])"
  by (simp add: revoke_def reg_require_def sample_reg_def sample_key_def revoked_key_def Let_def strip_def py_space_def)

definition revoked_document :: pydict where
  "revoked_document = projr (save_document demo_sha3 (lit ''now'') [(lit ''k1'', revoked_key)])"

lemma revoked_doc_eval:
  "save_document demo_sha3 (lit ''now'') [(lit ''k1'', revoked_key)] = Inr revoked_document"
  "revoked_document = [(KStr (lit ''format_version''), PyStr REGISTRY_FORMAT_VERSION), (KStr (lit ''updated_at''), PyStr (lit ''now'')),
     (KStr (lit ''keys''), PyList [PyDict (projr (record_to_dict demo_sha3 revoked_key))])]"
  by (simp_all add: revoked_document_def save_document_def sorted_records_def record_to_dict_def public_key_bytes_def
      revoked_key_def sample_key_def b64_val_def byte_of_def)

lemma revoked_saved:
  "\<exists>raw. reg_save demo_sha3 (lit ''now'') False [(lit ''k1'', revoked_key)] content = (Inr (), Some raw) \<and> length raw \<le> MAX_REGISTRY_BYTES"
  unfolding reg_save_def revoked_doc_eval(1) rbind_simps
  unfolding revoked_doc_eval(2)
  by (simp add: record_to_dict_def public_key_bytes_def revoked_key_def sample_key_def b64_val_def byte_of_def demo_sha3_def
     opt_str_def fingerprint_def REGISTRY_FORMAT_VERSION_def order_items_def indent_style_def quote_def esc_char_def member_text_def
     utf8_encode_def scalar_def newline_indent_def MAX_REGISTRY_BYTES_def utf8_char_def sample_digest(1) list_all_iff)

lemma revoked_doc_ok: "json_ok (PyDict revoked_document)"
  unfolding revoked_doc_eval(2)
  by (simp add: record_to_dict_def public_key_bytes_def revoked_key_def sample_key_def b64_val_def byte_of_def demo_sha3_def
     opt_str_def fingerprint_def REGISTRY_FORMAT_VERSION_def scalar_def sample_digest(1) list_all_iff)

theorem revoke_command_effect_witness:
  "\<exists>raw reg' k. cmd_revoke_key demo_sha3 (lit ''now'') False (lit ''k1'') (lit ''lost'') (Some sample_file) = (Inr EXIT_OK, Some raw)
    \<and> reg_load (Some raw) = Inr reg' \<and> map_of reg' (lit ''k1'') = Some k \<and> kr_state k = REVOKED"
proof -
  obtain raw where raw: "reg_save demo_sha3 (lit ''now'') False [(lit ''k1'', revoked_key)] (Some sample_file) = (Inr (), Some raw)"
      "length raw \<le> MAX_REGISTRY_BYTES" using revoked_saved by blast
  have c: "cmd_revoke_key demo_sha3 (lit ''now'') False (lit ''k1'') (lit ''lost'') (Some sample_file) = (Inr EXIT_OK, Some raw)"
    unfolding cmd_revoke_key_def registry_command_def sample_file_loads sum.case demo_revoke prod.case raw(1) by simp
  from revoke_command_effect [OF c] revoked_doc_ok raw(2) c show ?thesis
    by (auto simp: sample_file_loads demo_revoke revoked_doc_eval(1) simp del: lit_simps json_ok.simps)
qed

end
