(* ===== verification/Release.thy ===== *)
theory Release
  imports PathLib JsonFile
begin

unbundle bit_operations_syntax

text \<open>
  \<^verbatim>\<open>scripts/make_release.py\<close>: which files go into a release, the checks before and after, and the archive.
  The working tree is the list of its regular files, by the components of their path. A ZIP file is
  the list of its entries, and reading one back gives what was written. Shown: what a finished release
  contains, that it depends on the tree only, and when it is refused.
\<close>

section \<open>Tables\<close>

definition FIXED_TIMESTAMP :: "nat list" where
  "FIXED_TIMESTAMP = [1980, 1, 1, 0, 0, 0]"

definition INCLUDE :: "pystr list" where
  "INCLUDE = map lit
     [''.env.example'', ''.gitattributes'', ''.github'', ''.gitignore'', ''BUG_FIX_SUMMARY.md'', ''CHANGELOG.md'', ''CITATION.cff'',
      ''CONTRIBUTING.md'', ''GITHUB_UPLOAD_CHECKLIST.md'', ''LICENSE'', ''Makefile'', ''README.md'', ''RELEASE_NOTES.md'', ''SECURITY.md'',
      ''VALIDATION_REPORT.md'', ''config'', ''data'', ''docs'', ''pyproject.toml'', ''scripts'', ''src'', ''tests'']"

definition FORBIDDEN_DIRS :: "pystr list" where
  "FORBIDDEN_DIRS = map lit
     [''.git'', ''.mypy_cache'', ''.pytest_cache'', ''.ruff_cache'', ''.venv'', ''__pycache__'', ''archives'', ''benchmarks'', ''build'',
      ''dist'', ''keys'', ''node_modules'', ''runtime'', ''venv'']"

definition FORBIDDEN_SUFFIXES :: "pystr list" where
  "FORBIDDEN_SUFFIXES = map lit
     [''.a'', ''.cap'', ''.jsonl'', ''.key'', ''.log'', ''.o'', ''.pcap'', ''.pcapng'', ''.pem'', ''.pqcarch'', ''.pyc'', ''.pyd'', ''.pyo'', ''.so'']"

definition FORBIDDEN_NAMES :: "pystr list" where
  "FORBIDDEN_NAMES = map lit [''.env'', ''config/controller.json'', ''id_rsa'', ''plc_state.json'', ''registry.json'']"

definition EXECUTABLE :: "pystr list" where
  "EXECUTABLE = map lit [''scripts/deploy_rpi.sh'', ''scripts/make_release.py'']"

definition CRLF_SENSITIVE :: "pystr list" where
  "CRLF_SENSITIVE = map lit [''.sh'', ''.py'', ''.toml'', ''.cff'', ''.yml'', ''.yaml'', ''.json'', ''.md'']"

definition CRLF_SENSITIVE_NAMES :: "pystr list" where
  "CRLF_SENSITIVE_NAMES = map lit [''Makefile'', ''.gitignore'', ''.env.example'']"

section \<open>The tree\<close>

text \<open>\<open>rf_data = None\<close>: reading the file raises \<^verbatim>\<open>OSError\<close>.\<close>

record repo_file =
  rf_data :: "bytes option"
  rf_mode :: nat

type_synonym repo = "(pystr list \<times> repo_file) list"

text \<open>\<^verbatim>\<open>str.splitlines\<close>; \<open>current\<close> is the line so far.\<close>

definition line_break :: "nat \<Rightarrow> bool" where
  "line_break c \<longleftrightarrow> c \<in> {10, 11, 12, 13, 28, 29, 30, 133, 8232, 8233}"

fun splitlines_from :: "pystr \<Rightarrow> pystr \<Rightarrow> pystr list" where
  "splitlines_from current [] = (if current = [] then [] else [current])"
| "splitlines_from current (c # s) =
     (if line_break c then current # splitlines_from [] (if c = 13 \<and> take 1 s = [10] then drop 1 s else s)
      else splitlines_from (current @ [c]) s)"

definition strip_char :: "nat \<Rightarrow> pystr \<Rightarrow> pystr" where
  "strip_char q s = rev (dropWhile ((=) q) (rev (dropWhile ((=) q) s)))"

definition starts_with :: "'a list \<Rightarrow> 'a list \<Rightarrow> bool" where
  "starts_with s p \<longleftrightarrow> take (length p) s = p"

definition ends_with :: "'a list \<Rightarrow> 'a list \<Rightarrow> bool" where
  "ends_with s p \<longleftrightarrow> starts_with (rev s) (rev p)"

fun version_line :: "pystr list \<Rightarrow> pystr res" where
  "version_line [] = Inr (lit ''0.0.0'')"
| "version_line (l # ls) =
     (if starts_with l (lit ''version'')
      then require (61 \<in> set l) IndexError
            (Inr (strip_char 39 (strip_char 34 (strip (drop 1 (dropWhile (\<lambda>c. c \<noteq> 61) l))))))
      else version_line ls)"

definition project_version :: "repo \<Rightarrow> pystr res" where
  "project_version repo =
     (case map_of repo [lit ''pyproject.toml''] of
        None \<Rightarrow> Inl OSError
      | Some f \<Rightarrow>
          (case rf_data f of
             None \<Rightarrow> Inl OSError
           | Some raw \<Rightarrow> rbind (read_text raw) (\<lambda>t. version_line (splitlines_from [] t))))"

section \<open>Collecting and checking\<close>

definition is_forbidden_dir :: "pystr \<Rightarrow> bool" where
  "is_forbidden_dir part \<longleftrightarrow> part \<in> set FORBIDDEN_DIRS \<or> ends_with part (lit ''.egg-info'') \<or> ends_with part (lit ''.dist-info'')"

definition files_of :: "repo \<Rightarrow> pystr \<Rightarrow> pystr list list" where
  "files_of repo entry =
     (if map_of repo [entry] \<noteq> None then [[entry]]
      else filter (\<lambda>p. take 1 p = [entry] \<and> \<not> list_ex is_forbidden_dir p) (map fst repo))"

definition collect_files :: "repo \<Rightarrow> pystr list list" where
  "collect_files repo = sort (remdups (concat (map (files_of repo) INCLUDE)))"

definition as_posix :: "pystr list \<Rightarrow> pystr" where
  "as_posix p = join [47] p"

text \<open>\<^verbatim>\<open>str.lower\<close> as far as it can give ASCII: the letters and the Kelvin sign.\<close>

definition lower :: "pystr \<Rightarrow> pystr" where
  "lower s = ascii_lower (map (\<lambda>c. if c = 8490 then 107 else c) s)"

datatype problem =
    ForbiddenDirectory pystr
  | ForbiddenType pystr
  | ForbiddenFile pystr
  | PrivateKeyInside pystr
  | CorruptEntry pystr
  | CrlfInside pystr
  | BackslashInName pystr
  | UnsafeName pystr
  | LostExecutableBit pystr

fun occurs :: "'a list \<Rightarrow> 'a list \<Rightarrow> bool" where
  "occurs p [] = (p = [])"
| "occurs p (c # s) = (starts_with (c # s) p \<or> occurs p s)"

definition looks_private :: "bytes \<Rightarrow> bool" where
  "looks_private data \<longleftrightarrow>
     occurs (map byte_of (lit ''-----BEGIN'')) (take 200 data) \<and> occurs (map byte_of (lit ''PRIVATE KEY'')) (take 200 data)"

definition file_problems :: "repo \<Rightarrow> pystr list \<Rightarrow> problem list" where
  "file_problems repo p =
     (let posix = as_posix p in
      (if list_ex is_forbidden_dir p then [ForbiddenDirectory posix] else [])
      @ (if lower (name_suffix (last p)) \<in> set FORBIDDEN_SUFFIXES then [ForbiddenType posix] else [])
      @ (if posix \<in> set FORBIDDEN_NAMES \<or> last p \<in> set FORBIDDEN_NAMES then [ForbiddenFile posix] else [])
      @ (case Option.bind (map_of repo p) rf_data of
           None \<Rightarrow> []
         | Some data \<Rightarrow> if looks_private data then [PrivateKeyInside posix] else []))"

definition check_hygiene :: "repo \<Rightarrow> pystr list list \<Rightarrow> problem list" where
  "check_hygiene repo files = concat (map (file_problems repo) files)"

section \<open>The archive\<close>

definition needs_lf :: "pystr list \<Rightarrow> bool" where
  "needs_lf p \<longleftrightarrow> p \<noteq> [] \<and> (name_suffix (last p) \<in> set CRLF_SENSITIVE \<or> last p \<in> set CRLF_SENSITIVE_NAMES)"

text \<open>\<^verbatim>\<open>data.replace(b"\r\n", b"\n")\<close>.\<close>

fun replace_crlf :: "bytes \<Rightarrow> bytes" where
  "replace_crlf (c # d # s) = (if c = 13 \<and> d = 10 then 10 # replace_crlf s else c # replace_crlf (d # s))"
| "replace_crlf s = s"

definition archive_bytes :: "repo \<Rightarrow> pystr list \<Rightarrow> bytes res" where
  "archive_bytes repo p =
     (case map_of repo p of
        None \<Rightarrow> Inl OSError
      | Some f \<Rightarrow>
          (case rf_data f of
             None \<Rightarrow> Inl OSError
           | Some data \<Rightarrow> Inr (if needs_lf p then replace_crlf data else data)))"

record bundle_entry =
  en_name :: pystr
  en_date :: "nat list"
  en_mode :: nat
  en_data :: bytes
  en_intact :: bool

definition bundle_item :: "repo \<Rightarrow> pystr \<Rightarrow> pystr list \<Rightarrow> bundle_entry res" where
  "bundle_item repo pre p =
     (let posix = as_posix p; name = pre @ 47 # posix in
      rbind (archive_bytes repo p) (\<lambda>data.
      rbind (utf8_encode name) (\<lambda>_.
        Inr \<lparr>en_name = name, en_date = FIXED_TIMESTAMP, en_mode = (if posix \<in> set EXECUTABLE then 493 else 420),
             en_data = data, en_intact = True\<rparr>)))"

fun build_zip :: "repo \<Rightarrow> pystr \<Rightarrow> pystr list list \<Rightarrow> bundle_entry list res" where
  "build_zip repo pre [] = Inr []"
| "build_zip repo pre (p # ps) = rbind (bundle_item repo pre p) (\<lambda>e. rbind (build_zip repo pre ps) (\<lambda>es. Inr (e # es)))"

text \<open>\<^verbatim>\<open>bundle.read(name)\<close>: the last entry of that name.\<close>

definition zip_read :: "bundle_entry list \<Rightarrow> pystr \<Rightarrow> bytes" where
  "zip_read es name = (case find (\<lambda>e. en_name e = name) (rev es) of Some e \<Rightarrow> en_data e | None \<Rightarrow> [])"

definition entry_problems :: "bundle_entry list \<Rightarrow> bundle_entry \<Rightarrow> problem list" where
  "entry_problems es e =
     (let name = en_name e; parsed = p_parts (parse_path name); parts = split_on 47 name in
      (if needs_lf parsed \<and> occurs [13, 10] (zip_read es name) then [CrlfInside name] else [])
      @ (if 92 \<in> set name then [BackslashInName name] else [])
      @ (if take 1 name = [47] \<or> dotdot \<in> set parts then [UnsafeName name] else [])
      @ (if list_ex is_forbidden_dir parts then [ForbiddenDirectory name] else [])
      @ (if parsed \<noteq> [] \<and> lower (name_suffix (last parsed)) \<in> set FORBIDDEN_SUFFIXES then [ForbiddenType name] else []))"

definition mode_problems :: "bundle_entry list \<Rightarrow> pystr \<Rightarrow> problem list" where
  "mode_problems es x =
     concat (map (\<lambda>e. if take_bit 9 (en_mode e) AND 73 = 0 then [LostExecutableBit (en_name e)] else [])
       (filter (\<lambda>e. ends_with (en_name e) x) es))"

definition verify_zip :: "bundle_entry list \<Rightarrow> problem list" where
  "verify_zip es =
     (case find (\<lambda>e. \<not> en_intact e) es of None \<Rightarrow> [] | Some e \<Rightarrow> [CorruptEntry (en_name e)])
     @ concat (map (entry_problems es) es) @ concat (map (mode_problems es) EXECUTABLE)"

section \<open>Directory, checksums and the whole run\<close>

text \<open>The unpacked directory: path, content and mode, \<^verbatim>\<open>copystat\<close> keeping the mode of the source.\<close>

fun copy_files :: "repo \<Rightarrow> pystr list list \<Rightarrow> (pystr list \<times> bytes \<times> nat) list res" where
  "copy_files repo [] = Inr []"
| "copy_files repo (p # ps) =
     rbind (archive_bytes repo p) (\<lambda>data.
     rbind (case map_of repo p of None \<Rightarrow> Inl OSError | Some f \<Rightarrow> Inr (rf_mode f)) (\<lambda>mode.
     rbind (copy_files repo ps) (\<lambda>fs. Inr ((p, data, mode) # fs))))"

definition build_directory :: "repo \<Rightarrow> pystr list list \<Rightarrow> (pystr list \<times> bytes \<times> nat) list res" where
  "build_directory repo files =
     rbind (copy_files repo files) (\<lambda>fs.
       Inr (map (\<lambda>(p, data, mode). (p, data, if as_posix p \<in> set EXECUTABLE then mode OR 73 else mode)) fs))"

text \<open>\<open>directory\<close>: the regular files of the output directory; \<open>sha256\<close> gives the hexadecimal digest.\<close>

definition write_checksums :: "(bytes \<Rightarrow> pystr) \<Rightarrow> (pystr \<times> bytes) list \<Rightarrow> pystr" where
  "write_checksums sha256 directory =
     (let files = filter (\<lambda>f. fst f \<noteq> lit ''SHA256SUMS'') (sort_key fst directory) in
      join [10] (map (\<lambda>(name, data). sha256 data @ [32, 32] @ name) files) @ [10])"

record release =
  rl_zip :: "bundle_entry list option"
  rl_directory :: "(pystr list \<times> bytes \<times> nat) list option"

text \<open>The exit status, or the exception that leaves the program, and what has been written by then.\<close>

definition release_main :: "repo \<Rightarrow> pystr \<Rightarrow> bool \<Rightarrow> int res \<times> release" where
  "release_main repo name keep_directory =
     (let none = \<lparr>rl_zip = None, rl_directory = None\<rparr> in
      case project_version repo of
        Inl e \<Rightarrow> (Inl e, none)
      | Inr version \<Rightarrow>
          (let pre = name @ lit ''-v'' @ version; files = collect_files repo in
           if check_hygiene repo files \<noteq> [] then (Inr 1, none)
           else
             (case build_zip repo pre files of
                Inl e \<Rightarrow> (Inl e, none)
              | Inr es \<Rightarrow>
                  (let zipped = none\<lparr>rl_zip := Some es\<rparr> in
                   if verify_zip es \<noteq> [] then (Inr 1, zipped)
                   else if \<not> keep_directory then (Inr 0, zipped)
                   else
                     (case build_directory repo files of
                        Inl e \<Rightarrow> (Inl e, zipped)
                      | Inr fs \<Rightarrow> (Inr 0, zipped\<lparr>rl_directory := Some fs\<rparr>))))))"

section \<open>Which files are collected\<close>

definition shipped :: "repo \<Rightarrow> pystr list \<Rightarrow> bool" where
  "shipped repo p \<longleftrightarrow> map_of repo p \<noteq> None \<and> (\<exists>x\<in>set INCLUDE. p = [x] \<or>
     take 1 p = [x] \<and> map_of repo [x] = None \<and> (\<forall>w\<in>set p. \<not> is_forbidden_dir w))"

lemma files_of_set: "p \<in> set (files_of repo x) \<longleftrightarrow> map_of repo p \<noteq> None \<and>
    (p = [x] \<or> take 1 p = [x] \<and> map_of repo [x] = None \<and> (\<forall>w\<in>set p. \<not> is_forbidden_dir w))"
  by (auto simp: files_of_def list_ex_iff map_of_eq_None_iff image_iff)

lemma collect_files_set: "p \<in> set (collect_files repo) \<longleftrightarrow> shipped repo p"
  by (auto simp: collect_files_def files_of_set shipped_def)

lemma collect_files_order: "sorted (collect_files repo)" "distinct (collect_files repo)"
  by (simp_all add: collect_files_def)

lemma collect_files_same: "map_of repo = map_of repo' \<Longrightarrow> collect_files repo = collect_files repo'"
  using collect_files_set [of _ repo] collect_files_set [of _ repo']
  by (intro sorted_distinct_set_unique) (auto simp: collect_files_order shipped_def)

lemma build_zip_entries:
  "build_zip repo pre ps = Inr es \<longleftrightarrow> list_all2 (\<lambda>p e. bundle_item repo pre p = Inr e) ps es"
  by (induction ps arbitrary: es) (auto simp: rbind_Inr_iff list_all2_Cons1)

section \<open>Line ends\<close>

lemma replace_crlf_starts: "take 1 (replace_crlf s) = [10] \<longleftrightarrow> take 1 s = [10] \<or> take 2 s = [13, 10]"
  by (cases s rule: replace_crlf.cases) auto

lemma replace_crlf_occurs: "occurs [13, 10] (replace_crlf s) \<longleftrightarrow> occurs [13, 13, 10] s"
proof (induction s rule: replace_crlf.induct)
  case (1 c d s)
  show ?case
  proof (cases "c = 13 \<and> d = 10")
    case True
    with 1 show ?thesis by (simp add: starts_with_def)
  next
    case False
    have "starts_with (c # replace_crlf (d # s)) [13, 10] \<longleftrightarrow> c = 13 \<and> take 1 (replace_crlf (d # s)) = [10]"
      by (simp add: starts_with_def)
    also have "\<dots> \<longleftrightarrow> starts_with (c # d # s) [13, 13, 10]"
      unfolding replace_crlf_starts using False by (auto simp: starts_with_def)
    finally show ?thesis using 1 False by auto
  qed
qed (simp_all add: starts_with_def)

text \<open>Normalising is complete except for a carriage return before a line end of two characters.\<close>

section \<open>Properties\<close>

definition clean_entry :: "repo \<Rightarrow> pystr \<Rightarrow> bundle_entry \<Rightarrow> bool" where
  "clean_entry repo pre e \<longleftrightarrow> (\<exists>p f data. shipped repo p \<and> map_of repo p = Some f \<and> rf_data f = Some data
     \<and> en_name e = pre @ 47 # as_posix p \<and> en_data e = (if needs_lf p then replace_crlf data else data)
     \<and> en_date e = FIXED_TIMESTAMP \<and> en_mode e = (if as_posix p \<in> set EXECUTABLE then 493 else 420)
     \<and> (\<forall>w\<in>set p. \<not> is_forbidden_dir w) \<and> lower (name_suffix (last p)) \<notin> set FORBIDDEN_SUFFIXES
     \<and> last p \<notin> set FORBIDDEN_NAMES \<and> as_posix p \<notin> set FORBIDDEN_NAMES \<and> \<not> looks_private data)
   \<and> 92 \<notin> set (en_name e) \<and> take 1 (en_name e) \<noteq> [47] \<and> dotdot \<notin> set (split_on 47 (en_name e))
   \<and> (\<forall>w\<in>set (split_on 47 (en_name e)). \<not> is_forbidden_dir w)"

lemma hygiene_file:
  assumes "check_hygiene repo files = []" "p \<in> set files"
  shows "file_problems repo p = []"
  using assms by (auto simp: check_hygiene_def)

lemma file_problems_nil:
  assumes "file_problems repo p = []" "map_of repo p = Some f" "rf_data f = Some data"
  shows "(\<forall>w\<in>set p. \<not> is_forbidden_dir w) \<and> lower (name_suffix (last p)) \<notin> set FORBIDDEN_SUFFIXES
    \<and> last p \<notin> set FORBIDDEN_NAMES \<and> as_posix p \<notin> set FORBIDDEN_NAMES \<and> \<not> looks_private data"
  using assms by (auto simp: file_problems_def Let_def list_ex_iff split: if_splits)

lemma entry_problems_nil:
  assumes "verify_zip es = []" "e \<in> set es"
  shows "92 \<notin> set (en_name e) \<and> take 1 (en_name e) \<noteq> [47] \<and> dotdot \<notin> set (split_on 47 (en_name e))
    \<and> (\<forall>w\<in>set (split_on 47 (en_name e)). \<not> is_forbidden_dir w)"
proof -
  have "entry_problems es e = []" using assms by (auto simp: verify_zip_def)
  then show ?thesis by (auto simp: entry_problems_def Let_def list_ex_iff split: if_splits)
qed

lemma all2_source: "\<lbrakk>list_all2 P xs ys; y \<in> set ys\<rbrakk> \<Longrightarrow> \<exists>x\<in>set xs. P x y"
  by (induction rule: list_all2_induct) auto

lemma all2_map: "\<lbrakk>list_all2 P xs ys; \<And>x y. P x y \<Longrightarrow> g y = f x\<rbrakk> \<Longrightarrow> map g ys = map f xs"
  by (induction rule: list_all2_induct) auto

lemma bundle_item_Inr:
  assumes "bundle_item repo pre p = Inr e"
  shows "\<exists>f data. map_of repo p = Some f \<and> rf_data f = Some data \<and> en_name e = pre @ 47 # as_posix p
    \<and> en_data e = (if needs_lf p then replace_crlf data else data) \<and> en_date e = FIXED_TIMESTAMP
    \<and> en_mode e = (if as_posix p \<in> set EXECUTABLE then 493 else 420)"
  using assms by (auto simp: bundle_item_def archive_bytes_def Let_def rbind_Inr_iff split: option.splits)

text \<open>
  \<^bold>\<open>C40\<close>. A release that is finished with status zero is clean and complete. Every entry of the archive is a
  file of the tree that the allow list names, outside every forbidden directory, of no forbidden type
  or name and without the header of a private key; its name is relative, with forward slashes and no
  parent component, its timestamp fixed, its mode executable exactly for the listed scripts, its line
  ends normalised. And every file the allow list names has its entry, once and in sorted order.
\<close>

theorem release_sound:
  assumes "release_main repo name keep = (Inr 0, out)"
  shows "\<exists>version es. project_version repo = Inr version \<and> rl_zip out = Some es
    \<and> (\<forall>e\<in>set es. clean_entry repo (name @ lit ''-v'' @ version) e)
    \<and> (\<exists>files. sorted files \<and> distinct files \<and> (\<forall>p. p \<in> set files \<longleftrightarrow> shipped repo p)
        \<and> map en_name es = map (\<lambda>p. name @ lit ''-v'' @ version @ 47 # as_posix p) files)"
proof -
  let ?files = "collect_files repo"
  obtain version es where v: "project_version repo = Inr version" "check_hygiene repo ?files = []"
      "build_zip repo (name @ lit ''-v'' @ version) ?files = Inr es" "verify_zip es = []" "rl_zip out = Some es"
    using assms by (auto simp: release_main_def Let_def split: sum.splits if_splits)
  let ?pre = "name @ lit ''-v'' @ version"
  have z: "list_all2 (\<lambda>p e. bundle_item repo ?pre p = Inr e) ?files es" using v(3) by (simp only: build_zip_entries)
  have "clean_entry repo ?pre e" if e: "e \<in> set es" for e
  proof -
    obtain p where p: "p \<in> set ?files" "bundle_item repo ?pre p = Inr e"
      using all2_source [OF z e] by blast
    then obtain f data where "map_of repo p = Some f" "rf_data f = Some data" "en_name e = ?pre @ 47 # as_posix p"
        "en_data e = (if needs_lf p then replace_crlf data else data)" "en_date e = FIXED_TIMESTAMP"
        "en_mode e = (if as_posix p \<in> set EXECUTABLE then 493 else 420)" using bundle_item_Inr by blast
    then show ?thesis
      using file_problems_nil [OF hygiene_file [OF v(2) p(1)]] entry_problems_nil [OF v(4) e] collect_files_set p(1)
      unfolding clean_entry_def by blast
  qed
  moreover have "map en_name es = map (\<lambda>p. ?pre @ 47 # as_posix p) ?files"
    using bundle_item_Inr by (intro all2_map [OF z]) blast
  ultimately show ?thesis using v(1,5) collect_files_order collect_files_set by (auto intro!: exI [of _ ?files])
qed

text \<open>
  The release depends on the tree only: two listings of the same tree, in whatever order the file system
  gives them, have the same outcome and the same archive, byte for byte.
\<close>

theorem release_reproducible:
  assumes "map_of repo = map_of repo'"
  shows "release_main repo name keep = release_main repo' name keep"
proof -
  have a: "archive_bytes repo = archive_bytes repo'" and f: "file_problems repo = file_problems repo'"
    by (intro ext, simp add: archive_bytes_def file_problems_def assms)+
  have "build_zip repo pre ps = build_zip repo' pre ps" for pre ps
    by (induction ps) (simp_all add: bundle_item_def a)
  then have z: "build_zip repo = build_zip repo'" by blast
  have "copy_files repo ps = copy_files repo' ps" for ps
    by (induction ps) (simp_all add: a assms)
  then have c: "copy_files repo = copy_files repo'" by blast
  show ?thesis
    by (simp only: release_main_def project_version_def check_hygiene_def build_directory_def assms f z c collect_files_same [OF assms])
qed

section \<open>When a release is accepted\<close>

definition plain_part :: "pystr \<Rightarrow> bool" where
  "plain_part w \<longleftrightarrow> w \<noteq> [] \<and> w \<noteq> dot \<and> w \<noteq> dotdot \<and> 47 \<notin> set w \<and> 92 \<notin> set w"

text \<open>
  A file the checks let through: readable, with an ordinary name, and no carriage return before a line
  end of two characters where line ends matter; only the listed scripts end in their names.
\<close>

definition releasable :: "repo \<Rightarrow> pystr \<Rightarrow> pystr list \<Rightarrow> bool" where
  "releasable repo pre p \<longleftrightarrow> file_problems repo p = [] \<and> (\<forall>w\<in>set p. plain_part w) \<and> list_all scalar (as_posix p)
     \<and> (\<exists>f data. map_of repo p = Some f \<and> rf_data f = Some data \<and> (needs_lf p \<longrightarrow> \<not> occurs [13, 13, 10] data))
     \<and> (\<forall>x\<in>set EXECUTABLE. ends_with (pre @ 47 # as_posix p) x \<longrightarrow> as_posix p \<in> set EXECUTABLE)"

lemma split_on_plain: "sep \<notin> set w \<Longrightarrow> split_on sep (w @ sep # s) = w # split_on sep s" "sep \<notin> set w \<Longrightarrow> split_on sep w = [w]"
  by (induction w) auto

lemma split_on_join: "\<lbrakk>ps \<noteq> []; \<forall>w\<in>set ps. 47 \<notin> set w\<rbrakk> \<Longrightarrow> split_on 47 (join [47] ps) = ps"
  by (induction "[47 :: nat]" ps rule: join.induct) (auto simp: split_on_plain)

lemma entry_parts:
  assumes "plain_part pre" "p \<noteq> []" "\<forall>w\<in>set p. plain_part w"
  shows "split_on 47 (pre @ 47 # as_posix p) = pre # p" "p_parts (parse_path (pre @ 47 # as_posix p)) = pre # p"
    "92 \<notin> set (pre @ 47 # as_posix p)" "take 1 (pre @ 47 # as_posix p) \<noteq> [47]"
proof -
  show s: "split_on 47 (pre @ 47 # as_posix p) = pre # p"
    using assms by (simp add: as_posix_def split_on_plain split_on_join plain_part_def)
  show "p_parts (parse_path (pre @ 47 # as_posix p)) = pre # p"
    using assms unfolding parse_path_def s by (auto simp: plain_part_def intro!: filter_True)
  show "92 \<notin> set (pre @ 47 # as_posix p)"
    using assms set_join [of "[47]" p] by (auto simp: as_posix_def plain_part_def)
  show "take 1 (pre @ 47 # as_posix p) \<noteq> [47]"
    using assms(1) by (cases pre) (auto simp: plain_part_def)
qed

lemma needs_lf_last: "p \<noteq> [] \<Longrightarrow> needs_lf (pre # p) = needs_lf p"
  by (simp add: needs_lf_def)

lemma zip_read_cases: "e \<in> set es \<Longrightarrow> \<exists>e'\<in>set es. en_name e' = en_name e \<and> zip_read es (en_name e) = en_data e'"
proof -
  assume e: "e \<in> set es"
  show ?thesis
  proof (cases "find (\<lambda>x. en_name x = en_name e) (rev es)")
    case None
    with e show ?thesis by (auto simp: find_None_iff)
  next
    case (Some e')
    then obtain i where "i < length (rev es)" "e' = rev es ! i" "en_name e' = en_name e" by (auto simp: find_Some_iff)
    then have "e' \<in> set (rev es)" "en_name e' = en_name e" by (auto simp del: set_rev length_rev)
    with Some show ?thesis by (auto simp: zip_read_def)
  qed
qed

lemma build_zip_total:
  assumes "list_all scalar pre" "\<forall>p\<in>set ps. releasable repo pre p"
  shows "\<exists>es. build_zip repo pre ps = Inr es"
  using assms(2)
proof (induction ps)
  case (Cons p ps)
  then obtain f data where "map_of repo p = Some f" "rf_data f = Some data" "list_all scalar (as_posix p)"
    by (auto simp: releasable_def)
  then have "\<exists>e. bundle_item repo pre p = Inr e"
    using assms(1) by (simp add: bundle_item_def archive_bytes_def utf8_encode_def scalar_def Let_def)
  with Cons show ?case by auto
qed simp

lemma entry_accepted:
  assumes "plain_part pre" "\<not> is_forbidden_dir pre" "\<forall>p\<in>set ps. releasable repo pre p \<and> p \<noteq> []"
    and "list_all2 (\<lambda>p e. bundle_item repo pre p = Inr e) ps es" "e \<in> set es"
  shows "entry_problems es e = []"
proof -
  have src: "\<exists>p\<in>set ps. bundle_item repo pre p = Inr x \<and> releasable repo pre p \<and> p \<noteq> [] \<and> en_name x = pre @ 47 # as_posix p"
    if x: "x \<in> set es" for x
    using all2_source [OF assms(4) x] assms(3) bundle_item_Inr by blast
  then obtain p where p: "releasable repo pre p" "p \<noteq> []" "en_name e = pre @ 47 # as_posix p" using assms(5) by blast
  have plain: "\<forall>w\<in>set p. plain_part w" and "file_problems repo p = []" using p(1) by (simp_all add: releasable_def)
  then have clean: "\<forall>w\<in>set p. \<not> is_forbidden_dir w" "lower (name_suffix (last p)) \<notin> set FORBIDDEN_SUFFIXES"
    by (auto simp: file_problems_def Let_def list_ex_iff split: if_splits)
  note parts = entry_parts [OF assms(1) p(2) plain]
  have "\<not> occurs [13, 10] (zip_read es (en_name e))" if lf: "needs_lf p"
  proof -
    obtain x where x: "x \<in> set es" "en_name x = en_name e" "zip_read es (en_name e) = en_data x"
      using zip_read_cases [OF assms(5)] by blast
    obtain q where q: "bundle_item repo pre q = Inr x" "releasable repo pre q" "q \<noteq> []" "en_name x = pre @ 47 # as_posix q"
      using src [OF x(1)] by blast
    have "\<forall>w\<in>set q. plain_part w" using q(2) by (simp add: releasable_def)
    then have "q = p" using entry_parts(1) [OF assms(1) q(3)] parts(1) q(4) p(3) x(2) by (metis list.inject)
    with bundle_item_Inr [OF q(1)] lf q(2) x(3) show ?thesis by (auto simp: releasable_def replace_crlf_occurs)
  qed
  moreover have "dotdot \<notin> set (pre # p)" using plain assms(1) by (auto simp: plain_part_def)
  ultimately show ?thesis
    using parts clean assms(2) p(2)
    by (simp add: entry_problems_def p(3) Let_def needs_lf_last list_ex_iff)
qed

lemma mode_accepted:
  assumes "\<forall>p\<in>set ps. releasable repo pre p" "list_all2 (\<lambda>p e. bundle_item repo pre p = Inr e) ps es" "x \<in> set EXECUTABLE"
  shows "mode_problems es x = []"
proof -
  have "take_bit 9 (en_mode e) AND 73 \<noteq> 0" if e: "e \<in> set es" "ends_with (en_name e) x" for e
  proof -
    obtain p where "releasable repo pre p" "en_name e = pre @ 47 # as_posix p" "en_mode e = (if as_posix p \<in> set EXECUTABLE then 493 else 420)"
      using all2_source [OF assms(2) e(1)] assms(1) bundle_item_Inr by blast
    then have "en_mode e = 493" using e(2) assms(3) by (auto simp: releasable_def)
    then show ?thesis by (simp add: take_bit_eq_mod)
  qed
  then show ?thesis by (fastforce simp: mode_problems_def)
qed

text \<open>
  A release whose files pass is finished: when the version can be read, the top directory has an ordinary
  name and every collected file is releasable, the run ends with status zero.
\<close>

theorem release_accepts:
  assumes "project_version repo = Inr version" "pre = name @ lit ''-v'' @ version"
    and "plain_part pre" "\<not> is_forbidden_dir pre" "list_all scalar pre"
    and "\<forall>p. shipped repo p \<longrightarrow> releasable repo pre p \<and> p \<noteq> []"
  shows "\<exists>es. release_main repo name False = (Inr 0, \<lparr>rl_zip = Some es, rl_directory = None\<rparr>)"
proof -
  let ?files = "collect_files repo"
  have ok: "\<forall>p\<in>set ?files. releasable repo pre p" "\<forall>p\<in>set ?files. releasable repo pre p \<and> p \<noteq> []"
    using assms(6) collect_files_set by blast+
  obtain es where es: "build_zip repo pre ?files = Inr es" using build_zip_total [OF assms(5) ok(1)] by blast
  then have z: "list_all2 (\<lambda>p e. bundle_item repo pre p = Inr e) ?files es" by (simp only: build_zip_entries)
  have "en_intact e" if e: "e \<in> set es" for e
    using all2_source [OF z e] by (auto simp: bundle_item_def Let_def rbind_Inr_iff)
  then have "find (\<lambda>e. \<not> en_intact e) es = None" by (simp add: find_None_iff)
  then have "verify_zip es = []"
    using entry_accepted [OF assms(3,4) ok(2) z] mode_accepted [OF ok(1) z] by (simp add: verify_zip_def)
  moreover have "check_hygiene repo ?files = []" using ok(1) by (simp add: check_hygiene_def releasable_def)
  ultimately show ?thesis using assms(1,2) es by (simp add: release_main_def Let_def)
qed

section \<open>A small tree\<close>

definition demo_tree :: repo where
  "demo_tree =
     [([lit ''pyproject.toml''], \<lparr>rf_data = Some (map byte_of (lit ''version=2'')), rf_mode = 420\<rparr>),
      ([lit ''docs'', lit ''a.md''], \<lparr>rf_data = Some [65, 13, 10], rf_mode = 420\<rparr>),
      ([lit ''docs'', lit ''keys'', lit ''b.md''], \<lparr>rf_data = Some [65], rf_mode = 420\<rparr>)]"

lemma demo_collected: "collect_files demo_tree = [[lit ''docs'', lit ''a.md''], [lit ''pyproject.toml'']]"
  by (simp add: collect_files_def files_of_def demo_tree_def INCLUDE_def is_forbidden_dir_def FORBIDDEN_DIRS_def ends_with_def starts_with_def)

lemma demo_version: "project_version demo_tree = Inr (lit ''2'')"
proof -
  have "utf8_decode [118, 101, 114, 115, 105, 111, 110, 61, 50] = Inr (lit ''version=2'')"
    by (simp add: utf8_next_def)
  then show ?thesis
    by (simp add: project_version_def demo_tree_def read_text_def byte_of_def starts_with_def strip_char_def line_break_def strip_def py_space_def)
qed

definition demo_entries :: "bundle_entry list" where
  "demo_entries =
     [\<lparr>en_name = lit ''R-v2/docs/a.md'', en_date = FIXED_TIMESTAMP, en_mode = 420, en_data = [65, 10], en_intact = True\<rparr>,
      \<lparr>en_name = lit ''R-v2/pyproject.toml'', en_date = FIXED_TIMESTAMP, en_mode = 420, en_data = map byte_of (lit ''version=2''), en_intact = True\<rparr>]"

lemmas release_eval = file_problems_def as_posix_def lower_def ascii_lower_def name_suffix_def FORBIDDEN_SUFFIXES_def FORBIDDEN_NAMES_def
  is_forbidden_dir_def FORBIDDEN_DIRS_def ends_with_def starts_with_def looks_private_def needs_lf_def CRLF_SENSITIVE_def
  CRLF_SENSITIVE_NAMES_def utf8_encode_def scalar_def EXECUTABLE_def byte_of_def

lemma demo_hygiene: "check_hygiene demo_tree [[lit ''docs'', lit ''a.md''], [lit ''pyproject.toml'']] = []"
  by (simp add: check_hygiene_def demo_tree_def release_eval)

lemma demo_built: "build_zip demo_tree (lit ''R-v2'') [[lit ''docs'', lit ''a.md''], [lit ''pyproject.toml'']] = Inr demo_entries"
  by (simp add: bundle_item_def archive_bytes_def demo_tree_def demo_entries_def release_eval)

lemma demo_verified: "verify_zip demo_entries = []"
  by (simp add: verify_zip_def demo_entries_def entry_problems_def mode_problems_def parse_path_def zip_read_def release_eval)

lemma demo_release: "\<exists>out. release_main demo_tree (lit ''R'') False = (Inr 0, out)"
  using demo_hygiene demo_built demo_verified by (simp add: release_main_def demo_version demo_collected Let_def)

theorem release_sound_witness:
  "\<exists>out es. release_main demo_tree (lit ''R'') False = (Inr 0, out) \<and> rl_zip out = Some es
    \<and> (\<forall>e\<in>set es. clean_entry demo_tree (lit ''R-v2'') e)"
proof -
  obtain out where out: "release_main demo_tree (lit ''R'') False = (Inr 0, out)" using demo_release by blast
  from release_sound [OF out] out demo_version show ?thesis by auto
qed

end
