(* ===== verification/Spec2Isabelle.thy ===== *)
theory Spec2Isabelle
  imports Sessions Telemetry FakePlc Lifespan OpenSsl CliDemo Release
begin

text \<open>
  \<^bold>\<open>The ICS deception framework\<close>, a development over \<^verbatim>\<open>src/src/ics_deception\<close> and \<^verbatim>\<open>src/scripts\<close>.

  \<^bold>\<open>The program.\<close> Honeypots imitate industrial devices: a Modbus/TCP server with a register bank
  (\<^verbatim>\<open>honeypots/modbus_server.py\<close>), an interaction sensor (\<^verbatim>\<open>honeypots/dnp3_sensor.py\<close>) and a node
  that polls the server (\<^verbatim>\<open>iot_nodes/fake_plc.py\<close>). What they observe becomes an event
  (\<^verbatim>\<open>common/events.py\<close>) that a publisher (\<^verbatim>\<open>common/publisher.py\<close>) writes to the event log or hands
  to the evidence sink (\<^verbatim>\<open>pqc_evidence/integration.py\<close>). The sink signs: the signer
  (\<^verbatim>\<open>signer.py\<close>) turns an event into an envelope (\<^verbatim>\<open>models.py\<close>) over its canonical JSON bytes
  (\<^verbatim>\<open>canonicalizer.py\<close>), linked by SHA3-256 to the previous record of the node
  (\<^verbatim>\<open>event_chain.py\<close>) and signed by a backend (\<^verbatim>\<open>crypto_backend.py\<close>), and commits it through a
  journalled transaction (\<^verbatim>\<open>evidence_store.py\<close>, \<^verbatim>\<open>state_store.py\<close>). A collector
  (\<^verbatim>\<open>collector.py\<close>) later reads the log and checks every record (\<^verbatim>\<open>verifier.py\<close>) against a registry
  of public keys (\<^verbatim>\<open>key_registry.py\<close>). A finished log can be sealed into an encrypted archive for a
  recipient, and read back and verified there (\<^verbatim>\<open>archive.py\<close>). A controller
  (\<^verbatim>\<open>controller/\<close>) starts and stops the components as child processes and replays captures, which a
  loader (\<^verbatim>\<open>datasets/\<close>) analyses. A command line (\<^verbatim>\<open>cli.py\<close>) gives an operator the keys, the signer, the
  collector and the archives.

  \<^bold>\<open>Theories, in the order of import.\<close>

  \<^item> \<^verbatim>\<open>Prelude\<close>: Python values (\<open>pyval\<close>, with text as lists of code points and bytes as lists of
    8-bit words), the exceptions as one datatype, results \<open>exn + 'a\<close>, insertion-ordered
    dictionaries, and the interfaces \<open>codec\<close>, \<open>total_codec\<close>, \<open>guarded_machine\<close> and
    \<open>monotone_machine\<close>.
  \<^item> \<^verbatim>\<open>PyText\<close>, \<^verbatim>\<open>PyJson\<close>, \<^verbatim>\<open>JsonFile\<close>: what the source uses of the standard library, namely UTF-8,
    base64, decimal integers, \<^verbatim>\<open>json.dumps\<close>, \<^verbatim>\<open>json.loads\<close> and the indented documents on disk, which
    read back at any depth of nesting.
    Interpretations: \<open>utf8\<close>, \<open>b64\<close>, \<open>json\<close>.
  \<^item> \<^verbatim>\<open>Timestamp\<close>, \<^verbatim>\<open>Canonicalizer\<close>: \<^verbatim>\<open>normalize_timestamp\<close>, \<^verbatim>\<open>_check\<close>, \<^verbatim>\<open>canonical_string\<close> and
    \<^verbatim>\<open>canonical_bytes\<close>. Shown: the bytes determine the document, and the exact error behaviour.
    Interpretation: \<open>canonical\<close>.
  \<^item> \<^verbatim>\<open>Models\<close>: the envelope \<open>SignedEvent\<close>, its validation, \<^verbatim>\<open>to_json_line\<close> and
    \<^verbatim>\<open>parse_signed_event\<close>. Shown: round trip, error type, and two deviations.
  \<^item> \<^verbatim>\<open>EventChain\<close>: genesis value, event hash, chain position. Shown: a chain is tamper evident up to a
    collision that is exhibited.
  \<^item> \<^verbatim>\<open>Backend\<close>: the backend interface as a record of operations, the pure-Python backend over an
    arbitrary package, the test backend, and backend selection. The locale \<open>signature_backend\<close> states
    what a client relies on; it is interpreted on \<open>InsecureTestBackend\<close> and on the OpenSSL backend.
  \<^item> \<^verbatim>\<open>Der\<close>, \<^verbatim>\<open>OpenSsl\<close>: the key encoding and the operations of \<^verbatim>\<open>openssl_backend.py\<close> over a process that is
    a parameter. Shown: the encoding reads back under a reference reader, verification is exact, only
    known algorithms are advertised, and key files are overwritten before they are removed.
  \<^item> \<^verbatim>\<open>KeyRegistry\<close>: records, registration, rotation, withdrawal, usability, import and export.
    Interpretations: \<open>registry\<close> (the invariant) and \<open>withdrawn_key\<close>. \<^verbatim>\<open>RegistryFile\<close>: the file it is saved
    to, which loads as the same registry.
  \<^item> \<^verbatim>\<open>Verifier\<close>, \<^verbatim>\<open>Collector\<close>: verification of a record and of a stream, with one tracker per node.
    Shown: soundness and completeness of the stream report.
  \<^item> \<^verbatim>\<open>StateStore\<close>: the state file, its commits and its lock loop. Interpretation: \<open>state_machine\<close>.
  \<^item> \<^verbatim>\<open>EvidenceStore\<close>, \<^verbatim>\<open>Recovery\<close>: the append transaction, the journal and its replay. \<^verbatim>\<open>Recovery\<close> names
    every stage a crash can leave (\<open>stage\<close>, torn writes included) and shows that recovery leaves a
    consistent disk from each. The locale \<open>record_builder\<close> is what the store asks of its caller.
  \<^item> \<^verbatim>\<open>Signer\<close>, \<^verbatim>\<open>Pipeline\<close>, \<^verbatim>\<open>Sessions\<close>: key files, the signer and its transactions (interpretation
    \<open>signing\<close>); atomicity of a transaction under every pattern of faults; a signed batch is accepted
    by a collector that trusts the key; and a step relation of processes that open, sign, fail, crash
    and close, with the invariant that what was acknowledged is never lost.
  \<^item> \<^verbatim>\<open>Modbus\<close>, \<^verbatim>\<open>ModbusServer\<close>, \<^verbatim>\<open>FakePlc\<close>, \<^verbatim>\<open>Dnp3\<close>: framing, the connection handlers and the client. A
    connection is the list of what successive \<^verbatim>\<open>recv\<close> calls return and an environment that says how
    many bytes each \<^verbatim>\<open>send\<close> takes. Shown: independence of the chunking, refinement of the reference
    that dispatches the requests one by one, and that the client reads the server's registers.
  \<^item> \<^verbatim>\<open>Telemetry\<close>: events, sink and publisher, over the signer. Shown: bounded details, counters that
    add up, no event lost between sink and log, and no silent fall-back to a disabled sink.
  \<^item> \<^verbatim>\<open>ArchiveFormat\<close>, \<^verbatim>\<open>Archive\<close>: the manifest, key derivation, container and streaming passes of
    \<^verbatim>\<open>archive.py\<close>; then inspection, creation, decryption and verification. \<^verbatim>\<open>ArchiveReading\<close> shows what a
    reader may conclude (decryption delivers only checked plaintext, what \<^verbatim>\<open>fully_verified\<close> means, reading
    ends), \<^verbatim>\<open>ArchiveRoundtrip\<close> what a creator may (the archive reads back, strict creation is sound and
    its archives verify), and \<^verbatim>\<open>ArchiveDemo\<close> a concrete archive with the witnesses.
  \<^item> \<^verbatim>\<open>PathLib\<close>, \<^verbatim>\<open>ArgTypes\<close>: paths, links and \<^verbatim>\<open>Path.resolve\<close> over a file system, with
    \<^verbatim>\<open>common/paths.py\<close>; \<^verbatim>\<open>int()\<close> of a text and the validators of \<^verbatim>\<open>common/argtypes.py\<close>. Shown: a resolved path
    has no link left, and a bounded option accepts exactly the decimal texts in range.
  \<^item> \<^verbatim>\<open>Pcap\<close>: capture paths, replay targets, analysis and replay. Shown: containment of the path and
    confinement of the replay, and agreement with the server on which frames are well formed.
  \<^item> \<^verbatim>\<open>Controller\<close>, \<^verbatim>\<open>Replay\<close>, \<^verbatim>\<open>Lifespan\<close>: configuration and supervision; the replay manager with its
    threads as a step relation, and the endpoints; start-up and shutdown of the whole application.
    Shown: stopping ends, at most one replay, no child is lost and shutdown leaves none.
    Interpretations: \<open>supervisor\<close> and \<open>application\<close> of \<open>guarded_machine\<close>.
  \<^item> \<^verbatim>\<open>Cli\<close>, \<^verbatim>\<open>CliDemo\<close>: the commands of \<^verbatim>\<open>cli.py\<close> as compositions of the components, from arguments and
    files to the exit status and the files they leave. Shown: what status zero of the verifying commands
    means, that a revocation holds in every later run, that generated keys are protected and read back.
    \<^verbatim>\<open>CliDemo\<close> runs them on concrete files.
  \<^item> \<^verbatim>\<open>Release\<close>: \<^verbatim>\<open>scripts/make_release.py\<close>. Shown: what a finished release contains, that it depends on the tree
    only, and that a clean tree is released.

  \<^bold>\<open>Parameters.\<close> SHA3-256 is a function on bytes, and collision resistance is never assumed: the
  theorems return the collision. HMAC, the signature packages, the clock, the file system faults, the
  scheduling of the lock and the network are arguments (\<open>osenv\<close>, \<open>lock_env\<close>, \<open>send_env\<close>,
  \<open>platform\<close>, \<open>host\<close>). The record \<open>conversions\<close> stands for \<^verbatim>\<open>repr\<close> of floats and for the
  interpreter's text of other values. The record \<open>archive_lib\<close> holds HMAC, AES-GCM, DEFLATE and the
  size of a ZIP file; \<open>gcm_ok\<close>, \<open>zlib_ok\<close> and \<open>zlib_progress\<close> state what is relied on of them, and a
  ZIP file is the list of its members. A signature scheme enters through \<open>signs_for\<close>: what it signs,
  it verifies. The operating system under the controller is a record \<open>kernel\<close> over any state:
  \<open>kernel_ok\<close> says that only a spawn adds a child and that poll and wait tell the truth, \<open>kill_works\<close> and
  \<open>child_dies\<close> that SIGKILL is effective, \<open>plain_errors\<close> which exceptions opening and spawning raise. The
  record \<open>unicode\<close> holds the character classes of the interpreter (\<open>unicode_ok\<close>: they agree with ASCII),
  \<open>posix\<close> the file system, \<open>lab_net\<close> the laboratory network. Scapy is the packets it yields, and
  Pydantic's conversion of a document to the declared fields is a function. \<^verbatim>\<open>Path.resolve\<close> raises
  \<^verbatim>\<open>RuntimeError\<close> on a link loop, as Python 3.10 to 3.12 do. The OpenSSL executable is the field \<open>ow_proc\<close> of
  \<open>ossl_world\<close>: from random bytes, its path, the library path, the arguments and the files it finds to what it
  prints, its exit status and the files it leaves, or that it timed out or could not be run; \<open>signs_as\<close> states that it
  accepts the signatures it makes.

  \<^bold>\<open>Bounds and termination.\<close> The JSON reader recurses on fuel \<open>2 * length + 1\<close>, which \<^verbatim>\<open>PyJson\<close> shows
  to be enough for every text the writer produces. Integers above 4300 decimal digits are
  refused, as the interpreter does. The journal theorems ask that record and identifiers are within
  the sizes the envelope allows, so that the journal stays under the 1 MiB the reader takes; those
  sizes are proved for the records the signer builds. \<open>send_all\<close>, \<open>drain\<close>, \<open>recv_exact\<close> and
  \<open>lock_loop\<close> are not structural and have termination proofs by measures. The theorems on the
  connection handler ask that no single read overfills the 1040-byte buffer; what happens when one
  does is a theorem of its own. The decompression loop of an archive need not return for an arbitrary
  decompressor, so \<open>inflate_piece\<close> is a partial function with \<open>None\<close> for not returning, and that it
  returns under \<open>zlib_progress\<close> is a theorem.

  \<^bold>\<open>Not modelled.\<close> \<^verbatim>\<open>benchmark.py\<close> times the other components and has no behaviour of its own that they do
  not have. Of \<^verbatim>\<open>cli.py\<close>, the argument parser, what is printed and the benchmark command are left out, and of
  \<^verbatim>\<open>openssl_backend.py\<close>, failures of the temporary directory. Of
  \<^verbatim>\<open>archive.py\<close>, failures while creating temporary files are left out. Of the controller, the body of
  \<^verbatim>\<open>/health\<close>, \<^verbatim>\<open>write_default_config\<close>, \<^verbatim>\<open>describe_command\<close> and \<^verbatim>\<open>controller/cli.py\<close> are left out. Socket
  servers, thread start-up and argument parsers of the honeypots, the wording of messages and log output are left out: an
  exception is its class.
\<close>

end
